(* ===== verification/Prelude.thy ===== *)
theory Prelude
  imports Main "HOL-Library.Word" "HOL-Library.Monad_Syntax"
begin

unbundle bit_operations_syntax

text \<open>
  What every component of the Grain model shares: the machine integers of the source, its
  \<open>Result\<close> as a sum, the byte order of operands, the loop that reads a counted run of items
  from a byte slice, the contract of a pair of writer and reader (\<open>codec\<close>), and the lemma
  collections the component proofs use.
\<close>

section \<open>Machine integers and results\<close>

type_synonym u8 = "8 word"
type_synonym u16 = "16 word"
type_synonym u32 = "32 word"
type_synonym u64 = "64 word"

text \<open>Rust's \<open>Result<'a, 'e>\<close>: \<open>Ok\<close> and \<open>Err\<close> are the two injections of a sum.\<close>

abbreviation Ok :: "'a \<Rightarrow> 'e + 'a" where
  "Ok \<equiv> Inr"

abbreviation Err :: "'e \<Rightarrow> 'e + 'a" where
  "Err \<equiv> Inl"

text \<open>The \<open>?\<close> operator: an error leaves the function, a value goes on.\<close>

definition rbind :: "'e + 'a \<Rightarrow> ('a \<Rightarrow> 'e + 'b) \<Rightarrow> 'e + 'b" where
  "rbind r f = (case r of Inl e \<Rightarrow> Inl e | Inr x \<Rightarrow> f x)"

text \<open>\<open>map_err\<close>, which the \<open>From\<close> conversions of the source come to.\<close>

definition map_err :: "('e \<Rightarrow> 'f) \<Rightarrow> 'e + 'a \<Rightarrow> 'f + 'a" where
  "map_err f r = (case r of Inl e \<Rightarrow> Inl (f e) | Inr x \<Rightarrow> Inr x)"

text \<open>\<open>Option::ok_or\<close>.\<close>

definition ok_or :: "'e \<Rightarrow> 'a option \<Rightarrow> 'e + 'a" where
  "ok_or e x = (case x of None \<Rightarrow> Inl e | Some v \<Rightarrow> Inr v)"

text \<open>\<open>Result::ok\<close>.\<close>

definition ok :: "'e + 'a \<Rightarrow> 'a option" where
  "ok r = (case r of Inl e \<Rightarrow> None | Inr x \<Rightarrow> Some x)"

text \<open>\<open>slice.get(i)\<close>: nothing past the end.\<close>

definition get_at :: "'a list \<Rightarrow> nat \<Rightarrow> 'a option" where
  "get_at xs i = (if i < length xs then Some (xs ! i) else None)"

named_theorems result_simps

lemma rbind_simps [simp, result_simps]:
  "rbind (Inl e) f = Inl e" "rbind (Inr x) f = f x"
  by (simp_all add: rbind_def)

lemma map_err_simps [simp, result_simps]:
  "map_err f (Inl e) = Inl (f e)" "map_err f (Inr x) = Inr x"
  by (simp_all add: map_err_def)

lemma ok_or_simps [simp, result_simps]:
  "ok_or e None = Inl e" "ok_or e (Some x) = Inr x"
  by (simp_all add: ok_or_def)

lemma ok_simps [simp, result_simps]:
  "ok (Inl e) = None" "ok (Inr x) = Some x"
  by (simp_all add: ok_def)

lemma rbind_eq_Ok: "rbind r f = Inr y \<longleftrightarrow> (\<exists>x. r = Inr x \<and> f x = Inr y)"
  by (cases r) auto

lemma map_err_eq_Ok [simp]: "map_err f r = Inr y \<longleftrightarrow> r = Inr y"
  by (cases r) auto

lemma ok_or_eq_Ok [simp]: "ok_or e r = Inr y \<longleftrightarrow> r = Some y"
  by (cases r) auto

lemma ok_eq_Some [simp]: "ok r = Some y \<longleftrightarrow> r = Inr y"
  by (cases r) auto

lemma rbind_assoc: "rbind (rbind r f) g = rbind r (\<lambda>x. rbind (f x) g)"
  by (cases r) auto

lemma get_at_append [simp]: "get_at (xs @ y # ys) (length xs) = Some y"
  by (simp add: get_at_def)

lemma get_at_Cons [simp]: "get_at (x # xs) (Suc k) = get_at xs k" "get_at (x # xs) 0 = Some x"
  by (simp_all add: get_at_def)

lemma get_at_replicate: "get_at (replicate n x) k = (if k < n then Some x else None)"
  by (simp add: get_at_def)

lemma get_at_Some: "get_at xs i = Some x \<longleftrightarrow> i < length xs \<and> xs ! i = x"
  by (auto simp: get_at_def)

lemma get_at_None: "get_at xs i = None \<longleftrightarrow> length xs \<le> i"
  by (auto simp: get_at_def)

section \<open>Little-endian operands\<close>

text \<open>
  \<open>to_le_bytes\<close> and \<open>from_le_bytes\<close> of the standard library, at the three widths the source
  uses.
\<close>

definition le16 :: "u16 \<Rightarrow> u8 list" where
  "le16 w = [ucast w, ucast (drop_bit 8 w)]"

definition le32 :: "u32 \<Rightarrow> u8 list" where
  "le32 w = [ucast w, ucast (drop_bit 8 w), ucast (drop_bit 16 w), ucast (drop_bit 24 w)]"

definition of_le16 :: "u8 \<Rightarrow> u8 \<Rightarrow> u16" where
  "of_le16 a b = ucast a OR push_bit 8 (ucast b)"

definition of_le32 :: "u8 \<Rightarrow> u8 \<Rightarrow> u8 \<Rightarrow> u8 \<Rightarrow> u32" where
  "of_le32 a b c d =
     ucast a OR push_bit 8 (ucast b) OR push_bit 16 (ucast c) OR push_bit 24 (ucast d)"

lemma length_le16 [simp]: "length (le16 w) = 2"
  by (simp add: le16_def)

lemma length_le32 [simp]: "length (le32 w) = 4"
  by (simp add: le32_def)

lemma of_le16_le16: "of_le16 (ucast w) (ucast (drop_bit 8 w)) = w"
  unfolding of_le16_def by (rule bit_word_eqI) (auto simp: bit_simps)

lemma of_le32_le32:
  "of_le32 (ucast w) (ucast (drop_bit 8 w)) (ucast (drop_bit 16 w)) (ucast (drop_bit 24 w)) = w"
proof (rule bit_word_eqI)
  fix n assume "n < LENGTH(32)"
  then consider "n < 8" | "8 \<le> n \<and> n < 16" | "16 \<le> n \<and> n < 24" | "24 \<le> n \<and> n < 32"
    by fastforce
  then show "bit (of_le32 (ucast w) (ucast (drop_bit 8 w)) (ucast (drop_bit 16 w))
      (ucast (drop_bit 24 w))) n = bit w n"
    by cases (auto simp: of_le32_def bit_simps)
qed

section \<open>Writers and readers\<close>

text \<open>
  The loop \<open>for _ in 0..count { items.push(get(cursor)?) }\<close> of every section reader: the first
  error leaves it.
\<close>

fun repeat_get :: "nat \<Rightarrow> (u8 list \<Rightarrow> nat \<Rightarrow> 'e + 'a \<times> nat) \<Rightarrow> u8 list \<Rightarrow> nat \<Rightarrow> 'e + 'a list \<times> nat"
  where
  "repeat_get 0 get bytes at = Ok ([], at)"
| "repeat_get (Suc n) get bytes at =
     rbind (get bytes at) (\<lambda>(x, at).
     rbind (repeat_get n get bytes at) (\<lambda>(xs, at). Ok (x # xs, at)))"

text \<open>
  The contract of a writer \<open>put\<close> and the reader \<open>get\<close> of the same item: wherever the written
  bytes lie in a larger buffer, reading at their start gives the item back and leaves the cursor
  at their end. \<open>valid\<close> marks the items the format can carry.
\<close>

locale codec =
  fixes put :: "'a \<Rightarrow> u8 list"
    and get :: "u8 list \<Rightarrow> nat \<Rightarrow> 'e + 'a \<times> nat"
    and valid :: "'a \<Rightarrow> bool"
  assumes get_put:
    "valid x \<Longrightarrow> get (pre @ put x @ post) (length pre) = Inr (x, length pre + length (put x))"
begin

lemma get_put_at:
  "valid x \<Longrightarrow> bytes = pre @ put x @ post \<Longrightarrow> at = length pre \<Longrightarrow>
   get bytes at = Inr (x, at + length (put x))"
  by (simp add: get_put)

lemma repeat_get_put:
  "list_all valid xs \<Longrightarrow>
   repeat_get (length xs) get (pre @ concat (map put xs) @ post) (length pre) =
     Inr (xs, length pre + length (concat (map put xs)))"
proof (induction xs arbitrary: pre)
  case Nil
  then show ?case by simp
next
  case (Cons x xs)
  then have "get (pre @ put x @ concat (map put xs) @ post) (length pre) =
      Inr (x, length pre + length (put x))"
    by (simp add: get_put)
  moreover from Cons have "repeat_get (length xs) get ((pre @ put x) @ concat (map put xs) @ post)
      (length (pre @ put x)) =
      Inr (xs, length (pre @ put x) + length (concat (map put xs)))"
    by (intro Cons.IH) simp
  ultimately show ?case by simp
qed

lemma repeat_get_put_at:
  "list_all valid xs \<Longrightarrow> n = length xs \<Longrightarrow> bytes = pre @ concat (map put xs) @ post \<Longrightarrow>
   at = length pre \<Longrightarrow>
   repeat_get n get bytes at = Inr (xs, at + length (concat (map put xs)))"
  by (simp add: repeat_get_put)

lemma put_inj: "valid x \<Longrightarrow> valid y \<Longrightarrow> put x = put y \<Longrightarrow> x = y"
  using get_put [of x "[]" "[]"] get_put [of y "[]" "[]"] by simp

end

text \<open>
  A reader that stays inside the buffer it is given: whatever the bytes are, a successful read
  leaves the cursor between where it was and the end.
\<close>

locale bounded_reader =
  fixes get :: "u8 list \<Rightarrow> nat \<Rightarrow> 'e + 'a \<times> nat"
  assumes advances: "get bytes at = Inr (x, at') \<Longrightarrow> at < at'"
    and within: "get bytes at = Inr (x, at') \<Longrightarrow> at' \<le> length bytes"
begin

lemma repeat_get_bounds:
  "repeat_get n get bytes at = Inr (xs, at') \<Longrightarrow> at \<le> length bytes \<Longrightarrow>
   at + n \<le> at' \<and> at' \<le> length bytes \<and> length xs = n"
proof (induction n arbitrary: at xs)
  case 0
  then show ?case by simp
next
  case (Suc n)
  from Suc.prems(1) obtain x at1 ys where
    x: "get bytes at = Inr (x, at1)" and ys: "repeat_get n get bytes at1 = Inr (ys, at')"
    and xs: "xs = x # ys"
    by (auto simp: rbind_eq_Ok)
  from Suc.IH [OF ys within [OF x]] advances [OF x] xs show ?case by simp
qed

end

end
