(* ===== verification/Varint.thy ===== *)
theory Varint
  imports Prelude
begin

text \<open>
  The LEB128 numbers of an artifact (\<open>src/grain/pos/varint.rs\<close>). A reader takes the bytes and the
  cursor and returns the value with the advanced cursor; the cursor after an error is not
  modelled, because no caller looks at it. The loop over the shifts \<open>0, 7, .., 63\<close> is a
  recursion over the list of shifts.
\<close>

section \<open>Reading and writing\<close>

datatype varint_error = Truncated | Overflow

text \<open>\<open>(0..64).step_by(7)\<close>.\<close>

definition varint_shifts :: "nat list" where
  "varint_shifts = [0, 7, 14, 21, 28, 35, 42, 49, 56, 63]"

fun u64_loop :: "nat list \<Rightarrow> u64 \<Rightarrow> u8 list \<Rightarrow> nat \<Rightarrow> varint_error + u64 \<times> nat" where
  "u64_loop [] value bytes at = Err Overflow"
| "u64_loop (shift # shifts) value bytes at =
     rbind (ok_or Truncated (get_at bytes at)) (\<lambda>byte.
       let payload = (ucast (byte AND 0x7f) :: u64) in
       if shift = 63 \<and> payload > 1 then Err Overflow
       else let value = value OR push_bit shift payload in
         if byte AND 0x80 = 0 then Ok (value, at + 1)
         else u64_loop shifts value bytes (at + 1))"

definition get_u64 :: "u8 list \<Rightarrow> nat \<Rightarrow> varint_error + u64 \<times> nat" where
  "get_u64 bytes at = u64_loop varint_shifts 0 bytes at"

text \<open>\<open>((raw >> 1) as i64) ^ -((raw & 1) as i64)\<close>, on the bit patterns.\<close>

definition unzigzag :: "u64 \<Rightarrow> u64" where
  "unzigzag raw = drop_bit 1 raw XOR - (raw AND 1)"

definition get_i64 :: "u8 list \<Rightarrow> nat \<Rightarrow> varint_error + u64 \<times> nat" where
  "get_i64 bytes at = rbind (get_u64 bytes at) (\<lambda>(raw, at). Ok (unzigzag raw, at))"

text \<open>\<open>u32::try_from\<close> and \<open>u16::try_from\<close> of a \<open>u64\<close>.\<close>

definition try_u32 :: "u64 \<Rightarrow> u32 option" where
  "try_u32 v = (if unat v < 2 ^ 32 then Some (ucast v) else None)"

definition get_u32 :: "u8 list \<Rightarrow> nat \<Rightarrow> varint_error + u32 \<times> nat" where
  "get_u32 bytes at = rbind (get_u64 bytes at) (\<lambda>(v, at).
     rbind (ok_or Overflow (try_u32 v)) (\<lambda>w. Ok (w, at)))"

lemma drop_bit7_less: "drop_bit 7 (v :: u64) \<noteq> 0 \<Longrightarrow> unat (drop_bit 7 v) < unat v"
proof -
  assume "drop_bit 7 v \<noteq> 0"
  then have "unat v \<noteq> 0" by (auto simp: unat_eq_zero)
  then have "unat v div 2 ^ 7 < unat v" by (intro div_less_dividend) auto
  then show ?thesis unfolding unat_drop_bit_eq by (simp add: drop_bit_eq_div)
qed

function put_u64 :: "u64 \<Rightarrow> u8 list" where
  "put_u64 value =
     (let byte = (ucast (value AND 0x7f) :: u8);
          value = drop_bit 7 value
      in if value = 0 then [byte] else (byte OR 0x80) # put_u64 value)"
  by pat_completeness auto
termination
  by (relation "measure unat") (auto intro: drop_bit7_less)

declare put_u64.simps [simp del]

text \<open>\<open>((value << 1) ^ (value >> 63)) as u64\<close>, with the arithmetic shift of \<open>i64\<close>.\<close>

definition zigzag :: "u64 \<Rightarrow> u64" where
  "zigzag value = push_bit 1 value XOR signed_drop_bit 63 value"

definition put_i64 :: "u64 \<Rightarrow> u8 list" where
  "put_i64 value = put_u64 (zigzag value)"

section \<open>The bits of a group\<close>

lemma mask7: "(0x7f :: 'a::len word) = mask 7"
  by (simp add: mask_eq_exp_minus_1)

lemma bit128: "bit (0x80 :: 'a::len word) n \<longleftrightarrow> n = 7 \<and> 7 < LENGTH('a)"
proof -
  have "(0x80 :: 'a word) = 2 ^ 7" by simp
  then show ?thesis by (simp only: bit_exp_iff possible_bit_word) auto
qed

lemma bit128_nat: "bit (0x80 :: nat) n \<longleftrightarrow> n = 7"
proof -
  have "(0x80 :: nat) = 2 ^ 7" by simp
  then show ?thesis by (simp only: bit_exp_iff) auto
qed

lemma bit128_int: "bit (0x80 :: int) n \<longleftrightarrow> n = 7"
proof -
  have "(0x80 :: int) = 2 ^ 7" by simp
  then show ?thesis by (simp only: bit_exp_iff) auto
qed

lemma payload_last: "(ucast ((ucast ((v :: u64) AND 0x7f) :: u8) AND 0x7f) :: u64) = v AND 0x7f"
  unfolding mask7 by (rule bit_word_eqI) (auto simp: bit_simps)

lemma payload_more:
  "(ucast (((ucast ((v :: u64) AND 0x7f) :: u8) OR 0x80) AND 0x7f) :: u64) = v AND 0x7f"
  unfolding mask7 by (rule bit_word_eqI) (auto simp: bit_simps bit128 bit128_nat bit128_int)

lemma last_flag: "(ucast ((v :: u64) AND 0x7f) :: u8) AND 0x80 = 0"
  unfolding mask7 by (rule bit_word_eqI) (auto simp: bit_simps bit128 bit128_nat bit128_int)

lemma more_flag: "((b :: u8) OR 0x80) AND 0x80 \<noteq> 0"
proof
  assume a: "(b OR 0x80) AND 0x80 = 0"
  have "bit ((b OR 0x80) AND 0x80) 7"
    by (simp add: bit_simps bit128 bit128_nat bit128_int)
  with a show False by simp
qed

lemma group_split:
  "(v :: u64) = (v AND 0x7f) OR push_bit 7 (drop_bit 7 v)"
proof (rule bit_word_eqI)
  fix n assume "n < LENGTH(64)"
  then show "bit v n = bit ((v AND 0x7f) OR push_bit 7 (drop_bit 7 v)) n"
    unfolding mask7 by (cases "n < 7") (auto simp: bit_simps)
qed

lemma group_last: "drop_bit 7 v = 0 \<Longrightarrow> (v :: u64) AND 0x7f = v"
  using group_split [of v] by simp

lemma push_group:
  "push_bit n ((v :: u64) AND 0x7f) OR push_bit (n + 7) (drop_bit 7 v) = push_bit n v"
proof -
  have "push_bit n v = push_bit n ((v AND 0x7f) OR push_bit 7 (drop_bit 7 v))"
    using group_split [of v] by simp
  also have "\<dots> = push_bit n (v AND 0x7f) OR push_bit (n + 7) (drop_bit 7 v)"
    by (simp add: push_bit_or ac_simps)
  finally show ?thesis ..
qed

lemma unat_drop7: "unat (drop_bit 7 (v :: u64)) = unat v div 128"
  unfolding unat_drop_bit_eq by (simp add: drop_bit_eq_div)

section \<open>Round trips\<close>

lemma shifts_at: "k < 10 \<Longrightarrow> drop k varint_shifts = 7 * k # drop (Suc k) varint_shifts"
  by (auto simp: varint_shifts_def less_Suc_eq numeral_eq_Suc)

lemma u64_loop_put:
  "k < 10 \<Longrightarrow> unat v < 2 ^ (64 - 7 * k) \<Longrightarrow>
   u64_loop (drop k varint_shifts) acc (pre @ put_u64 v @ post) (length pre) =
     Ok (acc OR push_bit (7 * k) v, length pre + length (put_u64 v))"
proof (induction v arbitrary: k acc pre rule: put_u64.induct)
  case (1 v)
  let ?b = "ucast (v AND 0x7f) :: u8"
  show ?case
  proof (cases "drop_bit 7 v = 0")
    case True
    then have v: "v AND 0x7f = v" by (rule group_last)
    have put: "put_u64 v = [ucast v]" using True by (simp add: put_u64.simps [of v] v)
    have "\<not> (7 * k = 63 \<and> v > 1)"
      using "1.prems" by (auto simp: word_less_nat_alt)
    then show ?thesis
      using payload_last [of v] last_flag [of v]
      by (simp add: put shifts_at [OF "1.prems"(1)] v)
  next
    case False
    then have put: "put_u64 v = (?b OR 0x80) # put_u64 (drop_bit 7 v)"
      by (simp add: put_u64.simps [of v] Let_def)
    have big: "128 \<le> unat v"
      using False unat_drop7 [of v] by (metis div_less not_less unat_eq_zero)
    have k: "Suc k < 10"
    proof (rule ccontr)
      assume "\<not> Suc k < 10"
      with "1.prems"(1) have "k = 9" by simp
      with "1.prems"(2) have "unat v < 2" by simp
      with big show False by simp
    qed
    have "64 - 7 * k = Suc (Suc (Suc (Suc (Suc (Suc (Suc (64 - 7 * Suc k)))))))"
      using k by simp
    with "1.prems" have small: "unat (drop_bit 7 v) < 2 ^ (64 - 7 * Suc k)"
      by (simp add: unat_drop7 div_less_iff_less_mult)
    have "u64_loop (drop (Suc k) varint_shifts) (acc OR push_bit (7 * k) (v AND 0x7f))
        ((pre @ [?b OR 0x80]) @ put_u64 (drop_bit 7 v) @ post) (length (pre @ [?b OR 0x80])) =
      Ok ((acc OR push_bit (7 * k) (v AND 0x7f)) OR push_bit (7 * Suc k) (drop_bit 7 v),
          length (pre @ [?b OR 0x80]) + length (put_u64 (drop_bit 7 v)))"
      using "1.IH" [OF refl refl False k small] .
    moreover have "7 * Suc k = 7 * k + 7" by simp
    ultimately have "u64_loop (drop (Suc k) varint_shifts) (acc OR push_bit (7 * k) (v AND 0x7f))
        ((pre @ [?b OR 0x80]) @ put_u64 (drop_bit 7 v) @ post) (length (pre @ [?b OR 0x80])) =
      Ok (acc OR push_bit (7 * k) v, length (pre @ [?b OR 0x80]) + length (put_u64 (drop_bit 7 v)))"
      by (simp only: or.assoc push_group)
    then show ?thesis
      using k by (simp add: put shifts_at [OF "1.prems"(1)] payload_more more_flag)
  qed
qed

lemma get_put_u64:
  "get_u64 (pre @ put_u64 v @ post) (length pre) = Ok (v, length pre + length (put_u64 v))"
  using u64_loop_put [of 0 v 0 pre post] unsigned_less [of v] by (simp add: get_u64_def)

lemma sign_word: "signed_drop_bit 63 (v :: u64) = (if bit v 63 then - 1 else 0)"
proof (rule bit_word_eqI)
  fix n assume "n < LENGTH(64)"
  then show "bit (signed_drop_bit 63 v) n = bit (if bit v 63 then - 1 else 0 :: u64) n"
    by (cases n) (auto simp: bit_simps)
qed

lemma bit_twice: "bit ((v :: u64) * 2) n \<longleftrightarrow> 0 < n \<and> n < 64 \<and> bit v (n - 1)"
  using bit_double_iff [of v n] by (auto simp: mult.commute)

lemma unzigzag_zigzag: "unzigzag (zigzag v) = v"
proof (cases "bit v 63")
  case True
  then have z: "zigzag v = NOT (push_bit 1 v)"
    by (simp add: zigzag_def sign_word)
  have "NOT (push_bit 1 v) AND 1 = (1 :: u64)"
    by (rule bit_word_eqI) (auto simp: bit_simps bit_1_iff bit_0)
  then have "- (zigzag v AND 1) = (- 1 :: u64)" by (simp add: z)
  then have "unzigzag (zigzag v) = NOT (drop_bit 1 (NOT (push_bit 1 v)))"
    by (simp add: unzigzag_def z)
  also have "\<dots> = v"
  proof (rule bit_word_eqI)
    fix n assume "n < LENGTH(64)"
    then show "bit (NOT (drop_bit 1 (NOT (push_bit 1 v)))) n = bit v n"
      using True by (cases "n = 63") (auto simp: bit_simps bit_twice)
  qed
  finally show ?thesis .
next
  case False
  then have z: "zigzag v = push_bit 1 v" by (simp add: zigzag_def sign_word)
  have "push_bit 1 v AND 1 = (0 :: u64)"
    by (rule bit_word_eqI) (auto simp: bit_simps bit_1_iff bit_twice)
  moreover have "drop_bit 1 (push_bit 1 v) = v"
  proof (rule bit_word_eqI)
    fix n assume "n < LENGTH(64)"
    then show "bit (drop_bit 1 (push_bit 1 v)) n = bit v n"
      using False by (cases "n = 63") (auto simp: bit_simps bit_twice)
  qed
  ultimately show ?thesis by (simp add: unzigzag_def z)
qed

lemma get_put_i64:
  "get_i64 (pre @ put_i64 v @ post) (length pre) = Ok (v, length pre + length (put_i64 v))"
  by (simp add: get_i64_def put_i64_def get_put_u64 unzigzag_zigzag)

lemma unat_ucast_u32 [simp]: "unat (ucast (w :: u32) :: u64) = unat w"
proof -
  have "unat w < 2 ^ LENGTH(32)" by (rule unsigned_less)
  then have "unat w < 2 ^ 64" by simp
  then show ?thesis by (simp add: unsigned_ucast_eq take_bit_nat_eq_self)
qed

lemma try_u32_ucast: "try_u32 (ucast (w :: u32)) = Some w"
proof -
  have "unat w < 2 ^ LENGTH(32)" by (rule unsigned_less)
  then have "unat w < 4294967296" by simp
  moreover have "(ucast (ucast w :: u64) :: u32) = w"
    by (rule bit_word_eqI) (auto simp: bit_simps)
  ultimately show ?thesis by (simp add: try_u32_def)
qed

lemma get_put_u32:
  "get_u32 (pre @ put_u64 (ucast (w :: u32)) @ post) (length pre) =
   Ok (w, length pre + length (put_u64 (ucast w)))"
  by (simp add: get_u32_def get_put_u64 try_u32_ucast)

section \<open>What any byte string can make the reader do\<close>

lemma u64_loop_bounds:
  "u64_loop shifts acc bytes at = Ok (v, at') \<Longrightarrow>
   at < at' \<and> at' \<le> length bytes \<and> at' \<le> at + length shifts"
proof (induction shifts arbitrary: acc "at")
  case Nil
  then show ?case by simp
next
  case (Cons shift shifts)
  from Cons.prems obtain byte where byte: "get_at bytes at = Some byte"
    by (auto simp: rbind_eq_Ok)
  then have at: "at < length bytes" by (simp add: get_at_Some)
  let ?p = "ucast (byte AND 0x7f) :: u64"
  show ?case
  proof (cases "byte AND 0x80 = 0")
    case True
    with Cons.prems byte at show ?thesis by (auto simp: Let_def split: if_splits)
  next
    case False
    with Cons.prems byte have "u64_loop shifts (acc OR push_bit shift ?p) bytes (at + 1) = Ok (v, at')"
      by (auto simp: Let_def split: if_splits)
    from Cons.IH [OF this] show ?thesis by simp
  qed
qed

lemma get_u64_bounds:
  "get_u64 bytes at = Ok (v, at') \<Longrightarrow> at < at' \<and> at' \<le> length bytes \<and> at' \<le> at + 10"
  using u64_loop_bounds [of varint_shifts 0 bytes "at" v at']
  by (simp add: get_u64_def varint_shifts_def)

lemma get_u32_bounds:
  "get_u32 bytes at = Ok (v, at') \<Longrightarrow> at < at' \<and> at' \<le> length bytes \<and> at' \<le> at + 10"
  by (auto simp: get_u32_def rbind_eq_Ok dest: get_u64_bounds)

lemma length_put_u64: "1 \<le> length (put_u64 v) \<and> length (put_u64 v) \<le> 10"
  using get_put_u64 [of "[]" v "[]"] get_u64_bounds [of "put_u64 v" 0 v "length (put_u64 v)"]
  by (simp add: Suc_le_eq)

text \<open>
  A reader looks only at the bytes it consumes: with the rest of the buffer cut off anywhere
  after them it answers the same, and with fewer bytes it can only fail.
\<close>

lemma u64_loop_append:
  "u64_loop shifts acc bytes at = Ok r \<Longrightarrow> u64_loop shifts acc (bytes @ more) at = Ok r"
proof (induction shifts arbitrary: acc "at")
  case Nil
  then show ?case by simp
next
  case (Cons shift shifts)
  then show ?case
    by (auto simp: rbind_eq_Ok Let_def get_at_def nth_append split: if_splits)
qed

lemma get_u64_append: "get_u64 bytes at = Ok r \<Longrightarrow> get_u64 (bytes @ more) at = Ok r"
  by (simp add: get_u64_def u64_loop_append)

lemma u64_loop_error:
  "u64_loop shifts acc bytes at = Err e \<Longrightarrow> length bytes \<ge> at + length shifts \<Longrightarrow> e = Overflow"
proof (induction shifts arbitrary: acc "at")
  case Nil
  then show ?case by simp
next
  case (Cons shift shifts)
  then show ?case
    by (force simp: get_at_def Let_def split: if_splits)
qed

lemma get_u64_prefix:
  assumes "get_u64 (pre @ body @ post) (length pre) = Ok (v, length pre + length body)"
    and "n < length body"
  shows "\<exists>e. get_u64 (pre @ take n body) (length pre) = Err e"
proof (cases "get_u64 (pre @ take n body) (length pre)")
  case (Inl e)
  then show ?thesis by blast
next
  case (Inr r)
  obtain w at' where r: "r = (w, at')" by (cases r)
  from Inr r have le: "at' \<le> length pre + n"
    using get_u64_bounds [of "pre @ take n body" "length pre" w at']
    by (auto simp: min_def split: if_splits)
  have "get_u64 ((pre @ take n body) @ drop n body @ post) (length pre) = Ok r"
    using Inr by (rule get_u64_append)
  moreover have "(pre @ take n body) @ drop n body @ post = pre @ body @ post"
    by simp
  ultimately have "get_u64 (pre @ body @ post) (length pre) = Ok (w, at')" by (simp only: r)
  with assms le show ?thesis by simp
qed

section \<open>The codecs of the format\<close>

interpretation u64c: codec put_u64 get_u64 "\<lambda>_. True"
  by unfold_locales (rule get_put_u64)

interpretation i64c: codec put_i64 get_i64 "\<lambda>_. True"
  by unfold_locales (rule get_put_i64)

interpretation u32c: codec "\<lambda>w :: u32. put_u64 (ucast w)" get_u32 "\<lambda>_. True"
  by unfold_locales (rule get_put_u32)

interpretation u64r: bounded_reader get_u64
  by unfold_locales (auto dest: get_u64_bounds)

interpretation u32r: bounded_reader get_u32
  by unfold_locales (auto dest: get_u32_bounds)

end
