(* ===== verification/Pos_Table.thy ===== *)
theory Pos_Table
  imports Varint
begin

text \<open>
  The position table of an artifact (\<open>src/grain/pos/mod.rs\<close>): a count and, per entry, the
  address delta, the line and the column, each a varint. \<open>encode\<close> writes it, \<open>check\<close> admits it,
  \<open>resolve\<close> looks an instruction address up by a scan with an early exit.
\<close>

section \<open>The table\<close>

record site =
  line :: u32
  column :: u32

datatype pos_error = PTruncated | POverflow | OutOfOrder u32 | TrailingBytes nat

fun from_varint :: "varint_error \<Rightarrow> pos_error" where
  "from_varint Truncated = PTruncated"
| "from_varint Overflow = POverflow"

text \<open>\<open>u32::checked_add\<close>.\<close>

definition checked_add32 :: "u32 \<Rightarrow> u32 \<Rightarrow> u32 option" where
  "checked_add32 a b = (if unat a + unat b < 2 ^ 32 then Some (a + b) else None)"

fun resolve_loop :: "nat \<Rightarrow> u8 list \<Rightarrow> nat \<Rightarrow> u32 \<Rightarrow> u32 \<Rightarrow> site option" where
  "resolve_loop 0 table at current address = None"
| "resolve_loop (Suc n) table at current address =
     Option.bind (ok (get_u32 table at)) (\<lambda>(delta, at).
     Option.bind (checked_add32 current delta) (\<lambda>current.
     Option.bind (ok (get_u32 table at)) (\<lambda>(ln, at).
     Option.bind (ok (get_u32 table at)) (\<lambda>(col, at).
       if current = address then
         (if ln \<noteq> 0 then Some \<lparr>line = ln, column = col\<rparr> else None)
       else if current > address then None
       else resolve_loop n table at current address))))"

definition resolve :: "u8 list \<Rightarrow> u32 \<Rightarrow> site option" where
  "resolve table address =
     Option.bind (ok (get_u32 table 0)) (\<lambda>(count, at).
       resolve_loop (unat count) table at 0 address)"

definition count_entries :: "u8 list \<Rightarrow> pos_error + u32" where
  "count_entries table = map_err from_varint (rbind (get_u32 table 0) (\<lambda>(count, at). Ok count))"

definition next_address :: "u32 option \<Rightarrow> u32 \<Rightarrow> pos_error + u32" where
  "next_address previous delta = (case previous of
       None \<Rightarrow> Ok delta
     | Some previous \<Rightarrow>
         if delta = 0 then Err (OutOfOrder previous)
         else ok_or POverflow (checked_add32 previous delta))"

fun check_loop :: "nat \<Rightarrow> u8 list \<Rightarrow> nat \<Rightarrow> u32 option \<Rightarrow> pos_error + nat" where
  "check_loop 0 table at previous = Ok at"
| "check_loop (Suc n) table at previous =
     rbind (map_err from_varint (get_u32 table at)) (\<lambda>(delta, at).
     rbind (next_address previous delta) (\<lambda>address.
     rbind (map_err from_varint (get_u32 table at)) (\<lambda>(ln, at).
     rbind (map_err from_varint (get_u32 table at)) (\<lambda>(col, at).
       check_loop n table at (Some address)))))"

definition check :: "u8 list \<Rightarrow> pos_error + unit" where
  "check table =
     rbind (map_err from_varint (get_u32 table 0)) (\<lambda>(count, at).
     rbind (check_loop (unat count) table at None) (\<lambda>at.
       if at \<noteq> length table then Err (TrailingBytes (length table - at)) else Ok ()))"

text \<open>The writer; \<open>None\<close> is its panic on addresses that do not ascend.\<close>

definition put_u32 :: "u32 \<Rightarrow> u8 list" where
  "put_u32 w = put_u64 (ucast w)"

fun encode_loop :: "bool \<Rightarrow> u32 \<Rightarrow> (u32 \<times> site) list \<Rightarrow> u8 list option" where
  "encode_loop first previous [] = Some []"
| "encode_loop first previous ((address, s) # kept) =
     (if \<not> first \<and> \<not> address > previous then None
      else Option.bind (encode_loop False address kept) (\<lambda>out.
        Some (put_u32 (address - previous) @ put_u32 (line s) @ put_u32 (column s) @ out)))"

definition encode :: "(u32 \<times> site) list \<Rightarrow> u8 list option" where
  "encode sites =
     (let kept = filter (\<lambda>(_, s). line s \<noteq> 0) sites in
      Option.bind (encode_loop True 0 kept) (\<lambda>out.
        Some (put_u64 (of_nat (length kept)) @ out)))"

section \<open>Reading the entries of a table\<close>

text \<open>
  The specification of a table: its entries as a list, by a reader that does nothing but read.
\<close>

fun entries_loop :: "nat \<Rightarrow> u8 list \<Rightarrow> nat \<Rightarrow> u32 option \<Rightarrow> ((u32 \<times> site) list \<times> nat) option" where
  "entries_loop 0 table at previous = Some ([], at)"
| "entries_loop (Suc n) table at previous =
     Option.bind (ok (get_u32 table at)) (\<lambda>(delta, at).
     Option.bind (ok (get_u32 table at)) (\<lambda>(ln, at).
     Option.bind (ok (get_u32 table at)) (\<lambda>(col, at).
     let address = (case previous of None \<Rightarrow> delta | Some p \<Rightarrow> p + delta) in
     Option.bind (entries_loop n table at (Some address)) (\<lambda>(rest, at).
       Some ((address, \<lparr>line = ln, column = col\<rparr>) # rest, at)))))"

definition entries :: "u8 list \<Rightarrow> (u32 \<times> site) list" where
  "entries table = (case get_u32 table 0 of
       Inl e \<Rightarrow> []
     | Inr (count, at) \<Rightarrow>
         (case entries_loop (unat count) table at None of None \<Rightarrow> [] | Some (es, at) \<Rightarrow> es))"

definition ascending :: "(u32 \<times> site) list \<Rightarrow> bool" where
  "ascending es = sorted_wrt (<) (map fst es)"

lemma ascending_Cons: "ascending (e # es) \<longleftrightarrow> (\<forall>f\<in>set es. fst e < fst f) \<and> ascending es"
  by (simp add: ascending_def)

lemma checked_add32_Some:
  "checked_add32 a b = Some c \<Longrightarrow> c = a + b \<and> a \<le> c \<and> (b \<noteq> 0 \<longrightarrow> a < c)"
proof -
  assume s: "checked_add32 a b = Some c"
  then have c: "c = a + b" and "unat a + unat b < 2 ^ LENGTH(32)"
    by (auto simp: checked_add32_def split: if_splits)
  then have u: "unat c = unat a + unat b" by (simp only: unat_add_lem)
  then have "b \<noteq> 0 \<longrightarrow> unat a < unat c" by (simp add: unat_gt_0)
  with c u show ?thesis by (simp add: word_le_nat_alt word_less_nat_alt)
qed

lemma next_address_Ok:
  "next_address previous delta = Ok a \<Longrightarrow>
   a = (case previous of None \<Rightarrow> delta | Some p \<Rightarrow> p + delta) \<and>
   (\<forall>p. previous = Some p \<longrightarrow> p < a \<and> checked_add32 p delta = Some a)"
  by (auto simp: next_address_def split: option.splits if_splits dest: checked_add32_Some)

lemma checked_add32_0 [simp]: "checked_add32 0 d = Some d"
proof -
  have "unat d < 2 ^ LENGTH(32)" by (rule unsigned_less)
  then show ?thesis by (simp add: checked_add32_def)
qed

section \<open>A checked table\<close>

text \<open>
  What \<open>check\<close> establishes entry by entry: the plain reader succeeds, its addresses ascend from
  the previous one, and no addition wraps.
\<close>

lemma check_loop_entries:
  "check_loop n table at previous = Ok at' \<Longrightarrow>
   \<exists>es. entries_loop n table at previous = Some (es, at') \<and> length es = n \<and> ascending es \<and>
     (\<forall>p. previous = Some p \<longrightarrow> (\<forall>e\<in>set es. p < fst e))"
proof (induction n table "at" previous rule: check_loop.induct)
  case (1 table "at" previous)
  then show ?case by (simp add: ascending_def)
next
  case (2 n table "at" previous)
  from "2.prems" obtain delta at1 address ln at2 col at3 where
    r: "get_u32 table at = Ok (delta, at1)" "next_address previous delta = Ok address"
      "get_u32 table at1 = Ok (ln, at2)" "get_u32 table at2 = Ok (col, at3)"
      "check_loop n table at3 (Some address) = Ok at'"
    by (auto simp: rbind_eq_Ok)
  from "2.IH" [OF r(5)] obtain es where es:
    "entries_loop n table at3 (Some address) = Some (es, at')" "length es = n" "ascending es"
    "\<forall>e\<in>set es. address < fst e"
    by auto
  from next_address_Ok [OF r(2)] es r show ?case
    by (fastforce simp: Let_def ascending_Cons intro: order_less_trans)
qed

lemma check_entries:
  assumes "check table = Ok ()"
  obtains count at es where "get_u32 table 0 = Ok (count, at)"
    "entries_loop (unat count) table at None = Some (es, length table)"
    "check_loop (unat count) table at None = Ok (length table)"
    "entries table = es" "length es = unat count" "ascending es"
proof -
  from assms obtain count "at" where c: "get_u32 table 0 = Ok (count, at)"
    "check_loop (unat count) table at None = Ok (length table)"
    by (auto simp: check_def rbind_eq_Ok split: if_splits)
  from check_loop_entries [OF c(2)] obtain es where
    "entries_loop (unat count) table at None = Some (es, length table)" "length es = unat count"
    "ascending es" by auto
  with c show ?thesis by (intro that) (auto simp: entries_def)
qed

lemma check_ascending: "check table = Ok () \<Longrightarrow> ascending (entries table)"
  by (erule check_entries) blast

definition known :: "site option \<Rightarrow> site option" where
  "known found = (case found of Some s \<Rightarrow> if line s \<noteq> 0 then Some s else None | None \<Rightarrow> None)"

lemma resolve_loop_map_of:
  "check_loop n table at previous = Ok at' \<Longrightarrow>
   entries_loop n table at previous = Some (es, at') \<Longrightarrow>
   current = (case previous of None \<Rightarrow> 0 | Some p \<Rightarrow> p) \<Longrightarrow>
   resolve_loop n table at current address = known (map_of es address)"
proof (induction n table "at" previous arbitrary: current es rule: check_loop.induct)
  case (1 table "at" previous)
  then show ?case by (simp add: known_def)
next
  case (2 n table "at" previous)
  from "2.prems"(1) obtain delta at1 a ln at2 col at3 where
    r: "get_u32 table at = Ok (delta, at1)" "next_address previous delta = Ok a"
      "get_u32 table at1 = Ok (ln, at2)" "get_u32 table at2 = Ok (col, at3)"
      "check_loop n table at3 (Some a) = Ok at'"
    by (auto simp: rbind_eq_Ok)
  from check_loop_entries [OF r(5)] obtain rest where rest:
    "entries_loop n table at3 (Some a) = Some (rest, at')" "\<forall>e\<in>set rest. a < fst e"
    by auto
  from next_address_Ok [OF r(2)] have a: "a = (case previous of None \<Rightarrow> delta | Some p \<Rightarrow> p + delta)"
    "checked_add32 current delta = Some a"
    using "2.prems"(3) by (auto split: option.splits)
  have es: "es = (a, \<lparr>line = ln, column = col\<rparr>) # rest"
    using "2.prems"(2) r rest(1) by (simp add: Let_def a(1) [symmetric])
  have step: "resolve_loop (Suc n) table at current address =
      (if a = address then (if ln \<noteq> 0 then Some \<lparr>line = ln, column = col\<rparr> else None)
       else if a > address then None else resolve_loop n table at3 a address)"
    using r a(2) by simp
  have IH: "resolve_loop n table at3 a address = known (map_of rest address)"
    by (rule "2.IH" [OF r(5) rest(1)]) auto
  have "a > address \<Longrightarrow> map_of rest address = None"
    using rest(2) by (force simp: map_of_eq_None_iff dest: order_less_trans)
  then show ?case unfolding step IH es by (auto simp: known_def)
qed

lemma resolve_checked:
  "check table = Ok () \<Longrightarrow> resolve table address = known (map_of (entries table) address)"
  by (erule check_entries)
    (auto simp: resolve_def dest: resolve_loop_map_of [of _ table _ None])

section \<open>The writer\<close>

lemma checked_sub_add:
  "p < a \<Longrightarrow> a - p \<noteq> 0 \<and> checked_add32 p (a - p) = Some a"
proof -
  assume "p < a"
  moreover from this have "unat (a - p) = unat a - unat p"
    by (simp add: unat_sub order_less_imp_le)
  moreover have "unat a < 2 ^ LENGTH(32)" by (rule unsigned_less)
  ultimately show ?thesis by (auto simp: checked_add32_def word_less_nat_alt)
qed

interpretation pos_u32: codec put_u32 get_u32 "\<lambda>_. True"
  unfolding put_u32_def by (rule u32c.codec_axioms)

definition ascends_from :: "bool \<Rightarrow> u32 \<Rightarrow> (u32 \<times> site) list \<Rightarrow> bool" where
  "ascends_from first previous es \<longleftrightarrow>
     ascending es \<and> (first \<or> (\<forall>e\<in>set es. previous < fst e))"

lemma encode_loop_panics:
  "encode_loop first previous kept = None \<longleftrightarrow> \<not> ascends_from first previous kept"
proof (induction first previous kept rule: encode_loop.induct)
  case (2 first previous address s kept)
  show ?case
  proof (cases "\<not> first \<and> \<not> address > previous")
    case True
    then show ?thesis by (auto simp: ascends_from_def)
  next
    case False
    with "2.IH" [OF False] show ?thesis
      by (auto simp: ascends_from_def ascending_Cons bind_eq_None_conv dest: order_less_trans)
  qed
qed (simp add: ascends_from_def ascending_def)

lemma encode_loop_check:
  "encode_loop first previous kept = Some out \<Longrightarrow>
   first = (prev = None) \<Longrightarrow> previous = (case prev of None \<Rightarrow> 0 | Some p \<Rightarrow> p) \<Longrightarrow>
   check_loop (length kept) (pre @ out @ post) (length pre) prev = Ok (length pre + length out) \<and>
   entries_loop (length kept) (pre @ out @ post) (length pre) prev =
     Some (kept, length pre + length out)"
proof (induction first previous kept arbitrary: out pre prev rule: encode_loop.induct)
  case (2 first previous address s kept)
  from "2.prems"(1) obtain rest where
    up: "first \<or> address > previous" and rest: "encode_loop False address kept = Some rest" and
    out: "out = put_u32 (address - previous) @ put_u32 (line s) @ put_u32 (column s) @ rest"
    by (auto split: if_splits bind_splits)
  let ?b = "pre @ out @ post"
  let ?d = "length pre + length (put_u32 (address - previous))"
  let ?l = "?d + length (put_u32 (line s))"
  let ?c = "?l + length (put_u32 (column s))"
  have "get_u32 ?b (length pre) = Ok (address - previous, ?d)"
    unfolding out by (rule pos_u32.get_put_at [OF TrueI]) auto
  moreover have "get_u32 ?b ?d = Ok (line s, ?l)"
    unfolding out
    by (rule pos_u32.get_put_at [OF TrueI, where pre = "pre @ put_u32 (address - previous)"]) auto
  moreover have "get_u32 ?b ?l = Ok (column s, ?c)"
    unfolding out
    by (rule pos_u32.get_put_at [OF TrueI, where pre =
          "pre @ put_u32 (address - previous) @ put_u32 (line s)"]) auto
  moreover have "next_address prev (address - previous) = Ok address"
    using up "2.prems"(2,3) by (auto simp: next_address_def checked_sub_add split: option.splits)
  moreover have "check_loop (length kept) ?b ?c (Some address) = Ok (length pre + length out) \<and>
      entries_loop (length kept) ?b ?c (Some address) = Some (kept, length pre + length out)"
    using "2.IH" [OF _ rest, where prev = "Some address" and
        pre = "pre @ put_u32 (address - previous) @ put_u32 (line s) @ put_u32 (column s)"] up
    by (simp add: out add.assoc)
  ultimately show ?case
    using "2.prems"(2,3) by (simp add: Let_def split: option.splits)
qed simp

lemma encode_check:
  assumes "encode sites = Some table"
    and "length (filter (\<lambda>(_, s). line s \<noteq> 0) sites) < 2 ^ 32"
  shows "check table = Ok () \<and> entries table = filter (\<lambda>(_, s). line s \<noteq> 0) sites"
proof -
  let ?kept = "filter (\<lambda>(_, s). line s \<noteq> 0) sites"
  let ?n = "of_nat (length ?kept) :: u32"
  have n: "unat ?n = length ?kept" using assms(2) by (simp add: unat_of_nat take_bit_nat_eq_self)
  then have n64: "(of_nat (length ?kept) :: u64) = ucast ?n"
    using assms(2) by (simp add: word_unat_eq_iff unat_of_nat take_bit_nat_eq_self)
  from assms(1) obtain out where out: "encode_loop True 0 ?kept = Some out"
    and table: "table = put_u32 ?n @ out"
    by (auto simp: encode_def Let_def put_u32_def n64 split: bind_splits)
  have c: "get_u32 table 0 = Ok (?n, length (put_u32 ?n))"
    unfolding table using pos_u32.get_put [OF TrueI, of "[]" ?n out] by simp
  have "check_loop (length ?kept) table (length (put_u32 ?n)) None = Ok (length table) \<and>
     entries_loop (length ?kept) table (length (put_u32 ?n)) None = Some (?kept, length table)"
    using encode_loop_check [OF out, where prev = None and pre = "put_u32 ?n" and post = "[]"]
    by (simp add: table)
  with c n show ?thesis by (simp add: check_def entries_def)
qed

lemma encode_panics:
  "encode sites = None \<longleftrightarrow> \<not> ascending (filter (\<lambda>(_, s). line s \<noteq> 0) sites)"
  by (simp add: encode_def Let_def bind_eq_None_conv encode_loop_panics ascends_from_def)

lemmas check_loop_numeral =
  check_loop.simps(2) [of "pred_numeral k" for k, folded numeral_eq_Suc]

lemmas entries_loop_numeral =
  entries_loop.simps(2) [of "pred_numeral k" for k, folded numeral_eq_Suc]

section \<open>Properties\<close>

text \<open>
  C7. A table that \<open>check\<close> admits resolves exactly the entries it holds: the scan with its early
  exit finds the site recorded for an address, hides the sites with the unknown line 0, and
  answers \<open>None\<close> for every other address.
\<close>

theorem resolve_is_lookup:
  "check table = Ok () \<Longrightarrow>
   ascending (entries table) \<and>
   resolve table address = (case map_of (entries table) address of
       None \<Rightarrow> None
     | Some s \<Rightarrow> if line s = 0 then None else Some s)"
  using resolve_checked [of table address] check_ascending [of table]
  by (cases "map_of (entries table) address") (simp_all add: known_def)

theorem resolve_is_lookup_witness:
  "resolve [2, 5, 1, 3, 4, 0, 9] 5 = Some \<lparr>line = 1, column = 3\<rparr> \<and>
   resolve [2, 5, 1, 3, 4, 0, 9] 9 = None"
proof -
  have c: "check [2, 5, 1, 3, 4, 0, 9] = Ok ()"
    by (simp add: check_def get_u32_def get_u64_def varint_shifts_def get_at_def try_u32_def
        next_address_def checked_add32_def check_loop_numeral)
  show ?thesis
    unfolding resolve_is_lookup [OF c, THEN conjunct2]
    by (simp add: entries_def get_u32_def get_u64_def varint_shifts_def get_at_def try_u32_def
        entries_loop_numeral)
qed

text \<open>
  C8. The table written for sites in ascending order is admitted by \<open>check\<close> and resolves every
  address to the site that was written for it, sites with line 0 apart; the writer panics exactly
  when the kept addresses do not strictly ascend.
\<close>

theorem encode_resolve:
  assumes "length sites < 2 ^ 32"
  shows "case encode sites of
      None \<Rightarrow> \<not> ascending (filter (\<lambda>(_, s). line s \<noteq> 0) sites)
    | Some table \<Rightarrow> check table = Ok () \<and>
        (\<forall>address. resolve table address =
           map_of (filter (\<lambda>(_, s). line s \<noteq> 0) sites) address)"
proof (cases "encode sites")
  case None
  then show ?thesis using encode_panics [of sites] by simp
next
  case (Some table)
  have "length (filter (\<lambda>(_, s). line s \<noteq> 0) sites) < 2 ^ 32"
    using assms le_less_trans [OF length_filter_le] by blast
  from encode_check [OF Some this] have c: "check table = Ok ()"
    and e: "entries table = filter (\<lambda>(_, s). line s \<noteq> 0) sites" by auto
  have "known (map_of (entries table) a) = map_of (entries table) a" for a
    by (auto simp: known_def e dest!: map_of_SomeD split: option.splits)
  with c Some show ?thesis by (simp add: resolve_checked e)
qed

theorem encode_resolve_witness:
  "case encode [(3, \<lparr>line = 1, column = 2\<rparr>), (3, \<lparr>line = 0, column = 0\<rparr>),
      (300, \<lparr>line = 7, column = 0\<rparr>)] of
     None \<Rightarrow> False
   | Some table \<Rightarrow> resolve table 300 = Some \<lparr>line = 7, column = 0\<rparr>"
proof -
  have "encode [(3, \<lparr>line = 1, column = 2\<rparr>), (3, \<lparr>line = 0, column = 0\<rparr>),
      (300, \<lparr>line = 7, column = 0\<rparr>)] \<noteq> None" by code_simp
  then show ?thesis
    using encode_resolve [of "[(3, \<lparr>line = 1, column = 2\<rparr>), (3, \<lparr>line = 0, column = 0\<rparr>),
      (300, \<lparr>line = 7, column = 0\<rparr>)]"]
    by (auto split: option.splits)
qed

end
