(* ===== verification/Position.thy ===== *)
theory Position
  imports Prelude
begin

text \<open>
  Script positions (\<open>src/types/position.rs\<close>): a line and a character position of 16 bits each,
  with line 0 and character 0 as \<open>NONE\<close>. Operations that panic return \<open>None\<close>.
\<close>

record position =
  pline :: u16
  ppos :: u16

definition NONE :: position where
  "NONE = \<lparr>pline = 0, ppos = 0\<rparr>"

definition START :: position where
  "START = \<lparr>pline = 1, ppos = 0\<rparr>"

definition from_stored :: "u16 \<Rightarrow> u16 \<Rightarrow> position" where
  "from_stored ln p = \<lparr>pline = ln, ppos = p\<rparr>"

definition new_position :: "u16 \<Rightarrow> u16 \<Rightarrow> position option" where
  "new_position ln p = (if ln \<noteq> 0 then Some \<lparr>pline = ln, ppos = p\<rparr> else None)"

definition is_none :: "position \<Rightarrow> bool" where
  "is_none p \<longleftrightarrow> pline p = 0 \<and> ppos p = 0"

definition get_line :: "position \<Rightarrow> nat option" where
  "get_line p = (if is_none p then None else Some (unat (pline p)))"

definition get_position :: "position \<Rightarrow> nat option" where
  "get_position p = (if is_none p \<or> ppos p = 0 then None else Some (unat (ppos p)))"

definition is_beginning_of_line :: "position \<Rightarrow> bool" where
  "is_beginning_of_line p \<longleftrightarrow> ppos p = 0 \<and> \<not> is_none p"

text \<open>\<open>saturating_add(1)\<close> and \<open>saturating_sub(1)\<close> at 16 bits.\<close>

definition sat_inc :: "u16 \<Rightarrow> u16" where
  "sat_inc w = (if w = - 1 then - 1 else w + 1)"

definition sat_dec :: "u16 \<Rightarrow> u16" where
  "sat_dec w = (if w = 0 then 0 else w - 1)"

definition advance :: "position \<Rightarrow> position option" where
  "advance p = (if is_none p then None else Some (p\<lparr>ppos := sat_inc (ppos p)\<rparr>))"

definition rewind :: "position \<Rightarrow> position option" where
  "rewind p =
     (if is_none p \<or> ppos p = 0 then None else Some (p\<lparr>ppos := sat_dec (ppos p)\<rparr>))"

definition new_line :: "position \<Rightarrow> position option" where
  "new_line p =
     (if is_none p then None else Some (p\<lparr>pline := sat_inc (pline p), ppos := 0\<rparr>))"

definition or_else :: "position \<Rightarrow> position \<Rightarrow> position" where
  "or_else p q = (if is_none p then q else p)"

lemma is_none_NONE [simp]: "is_none p \<longleftrightarrow> p = NONE"
  by (cases p) (simp add: is_none_def NONE_def)

lemma get_line_NONE [simp]: "get_line NONE = None"
  by (simp add: get_line_def)

lemma sat_inc_pos: "w \<noteq> 0 \<Longrightarrow> sat_inc w \<noteq> 0"
  by (auto simp: sat_inc_def add_eq_0_iff2)

end
