(* ===== verification/Ops.thy ===== *)
theory Ops
  imports Prelude
begin

text \<open>
  The instruction set (\<open>src/grain/bytecode/op.rs\<close>). An instruction is a value of the datatype
  \<open>op\<close>, with the constructors of the source and its fields in the order of declaration; the
  operand widths are those of the source. A jump target is an instruction index before assembly
  and a byte address after it.
\<close>

section \<open>Operators\<close>

datatype bin_op_kind =
    Add | Subtract | Multiply | Divide | Modulo | Power | ShiftLeft | ShiftRight
  | And | Or | Xor | Equals | NotEquals | Greater | GreaterEquals | Less | LessEquals

datatype un_op_kind = Not_op

primrec kind_byte :: "bin_op_kind \<Rightarrow> u8" where
  "kind_byte Add = 0"
| "kind_byte Subtract = 1"
| "kind_byte Multiply = 2"
| "kind_byte Divide = 3"
| "kind_byte Modulo = 4"
| "kind_byte Power = 5"
| "kind_byte ShiftLeft = 6"
| "kind_byte ShiftRight = 7"
| "kind_byte And = 8"
| "kind_byte Or = 9"
| "kind_byte Xor = 10"
| "kind_byte Equals = 11"
| "kind_byte NotEquals = 12"
| "kind_byte Greater = 13"
| "kind_byte GreaterEquals = 14"
| "kind_byte Less = 15"
| "kind_byte LessEquals = 16"

definition kind_of_byte :: "u8 \<Rightarrow> bin_op_kind option" where
  "kind_of_byte byte = map_of
     [(0, Add), (1, Subtract), (2, Multiply), (3, Divide), (4, Modulo), (5, Power),
      (6, ShiftLeft), (7, ShiftRight), (8, And), (9, Or), (10, Xor), (11, Equals),
      (12, NotEquals), (13, Greater), (14, GreaterEquals), (15, Less), (16, LessEquals)] byte"

primrec un_kind_byte :: "un_op_kind \<Rightarrow> u8" where
  "un_kind_byte Not_op = 0"

definition un_kind_of_byte :: "u8 \<Rightarrow> un_op_kind option" where
  "un_kind_of_byte byte = (if byte = 0 then Some Not_op else None)"

lemma kind_of_byte_byte [simp]: "kind_of_byte (kind_byte k) = Some k"
  by (cases k) (simp_all add: kind_of_byte_def)

lemma un_kind_of_byte_byte [simp]: "un_kind_of_byte (un_kind_byte k) = Some k"
  by (cases k) (simp add: un_kind_of_byte_def)

lemma kind_of_byte_Some: "kind_of_byte b = Some k \<Longrightarrow> b = kind_byte k"
  by (auto simp: kind_of_byte_def split: if_splits)

section \<open>Instructions\<close>

text \<open>\<open>BinOperand\<close>, \<open>Receiver\<close> and \<open>Branch\<close>; the prefixes keep their constructors apart.\<close>

datatype bin_operand = OLocal u16 | OConst u32

datatype receiver = RLocal u16 | RNamed u32 | RThis

datatype branch = Branch (branch_target: u32) (taken_when: bool)

datatype (plugins only: code size) op =
    Const u32
  | Unit
  | Bool bool
  | LoadLocal u16
  | StoreLocal u16 bool
  | LoadNamed u32
  | AssignNamed u32 "u32 option"
  | AssignLocal u16 u32 "u32 option"
  | AssignLocalFrom u16 u32 "u32 option" bin_operand
  | DeclareLocal u32 bool
  | Pop
  | Jump u32
  | JumpIfTrue u32
  | JumpIfFalse u32
  | SkipIfNotUnit u32
  | Call u32 u8 "u32 option" bool
  | CallRef u32 u8 receiver bool
  | Rotate u8
  | Switch u32
  | Share u16
  | ShareNamed u32
  | LoadShared u16
  | LoadSharedNamed u32
  | LoadThis
  | LoadThisShared
  | RequireThis
  | AssignThis "u32 option"
  | IsShared
  | MakeClosure u32
  | MakeFnPtr
  | Curry u8
  | CallFnPtr u8 bool "receiver option"
  | InterpolateStart
  | InterpolateAppend
  | InterpolateEnd
  | MakeArray u16
  | MakeMap u16
  | CheckSize u16 bool
  | Chain u32 bool
  | UnwindTo u16
  | Tick
  | Checkpoint
  | Statement u16
  | EvalAst u32 bool
  | PushHandler u32 "u32 option"
  | PopHandler
  | IterInit
  | IterNext u32 bool
  | IterNextStore u32 u16
  | IterDrop
  | StoreShared u16
  | Throw
  | BinOp u32 u32 bin_op_kind "bin_operand option" "u32 option"
  | IndexSet u32 u16 "bin_operand option" "u32 option" "bin_op_kind option"
  | IndexGet u32 u16 "bin_operand option"
  | UnOp u32 un_op_kind "u32 option"
  | BinOpFrom u32 u32 bin_op_kind u16 bin_operand "branch option"
  | Return

end
