(* ===== verification/Tags.thy ===== *)
theory Tags
  imports Prelude
begin

text \<open>
  The opcode tags of the wire form (\<open>src/grain/bytecode/code.rs\<close>): the constants of module
  \<open>tag\<close> as a datatype with their bytes, the width table, the classification of the operator
  family, and the reads of operands.
\<close>

section \<open>Tags\<close>

definition CONST_TAG :: u8 where "CONST_TAG = 0x01"
definition UNIT :: u8 where "UNIT = 0x02"
definition FALSE :: u8 where "FALSE = 0x03"
definition TRUE :: u8 where "TRUE = 0x04"
definition LOAD_LOCAL :: u8 where "LOAD_LOCAL = 0x05"
definition STORE_LOCAL :: u8 where "STORE_LOCAL = 0x06"
definition ASSIGN_LOCAL :: u8 where "ASSIGN_LOCAL = 0x07"
definition ASSIGN_LOCAL_OP :: u8 where "ASSIGN_LOCAL_OP = 0x08"
definition DECLARE_LOCAL :: u8 where "DECLARE_LOCAL = 0x09"
definition DECLARE_CONST :: u8 where "DECLARE_CONST = 0x0a"
definition POP :: u8 where "POP = 0x0b"
definition JUMP :: u8 where "JUMP = 0x0c"
definition JUMP_IF_TRUE :: u8 where "JUMP_IF_TRUE = 0x0d"
definition JUMP_IF_FALSE :: u8 where "JUMP_IF_FALSE = 0x0e"
definition CALL :: u8 where "CALL = 0x0f"
definition CALL_OP :: u8 where "CALL_OP = 0x10"
definition UNWIND_TO :: u8 where "UNWIND_TO = 0x11"
definition TICK :: u8 where "TICK = 0x12"
definition RETURN :: u8 where "RETURN = 0x13"
definition EVAL_AST :: u8 where "EVAL_AST = 0x14"
definition EVAL_AST_KEEP :: u8 where "EVAL_AST_KEEP = 0x15"
definition CHAIN :: u8 where "CHAIN = 0x16"
definition MAKE_ARRAY :: u8 where "MAKE_ARRAY = 0x17"
definition SWITCH :: u8 where "SWITCH = 0x18"
definition LOAD_NAMED :: u8 where "LOAD_NAMED = 0x19"
definition ASSIGN_NAMED :: u8 where "ASSIGN_NAMED = 0x1a"
definition ASSIGN_NAMED_OP :: u8 where "ASSIGN_NAMED_OP = 0x1b"
definition THROW :: u8 where "THROW = 0x1c"
definition ITER_INIT :: u8 where "ITER_INIT = 0x1d"
definition ITER_NEXT :: u8 where "ITER_NEXT = 0x1e"
definition ITER_DROP :: u8 where "ITER_DROP = 0x1f"
definition STORE_SHARED :: u8 where "STORE_SHARED = 0x20"
definition ITER_NEXT_INDEXED :: u8 where "ITER_NEXT_INDEXED = 0x21"
definition POP_HANDLER :: u8 where "POP_HANDLER = 0x22"
definition PUSH_HANDLER :: u8 where "PUSH_HANDLER = 0x23"
definition PUSH_HANDLER_VAR :: u8 where "PUSH_HANDLER_VAR = 0x24"
definition INTERPOLATE_START :: u8 where "INTERPOLATE_START = 0x25"
definition INTERPOLATE_APPEND :: u8 where "INTERPOLATE_APPEND = 0x26"
definition INTERPOLATE_END :: u8 where "INTERPOLATE_END = 0x27"
definition MAKE_FN_PTR :: u8 where "MAKE_FN_PTR = 0x28"
definition CURRY :: u8 where "CURRY = 0x29"
definition CALL_FN_PTR :: u8 where "CALL_FN_PTR = 0x2a"
definition CALL_FN_PTR_METHOD :: u8 where "CALL_FN_PTR_METHOD = 0x2b"
definition SHARE :: u8 where "SHARE = 0x2c"
definition SHARE_NAMED :: u8 where "SHARE_NAMED = 0x2d"
definition LOAD_SHARED :: u8 where "LOAD_SHARED = 0x2e"
definition MAKE_CLOSURE :: u8 where "MAKE_CLOSURE = 0x2f"
definition IS_SHARED :: u8 where "IS_SHARED = 0x30"
definition CHECKPOINT :: u8 where "CHECKPOINT = 0x31"
definition CHECK_ARRAY_SIZE :: u8 where "CHECK_ARRAY_SIZE = 0x32"
definition CHECK_MAP_SIZE :: u8 where "CHECK_MAP_SIZE = 0x33"
definition MAKE_MAP :: u8 where "MAKE_MAP = 0x34"
definition CALL_LOCAL_REF :: u8 where "CALL_LOCAL_REF = 0x35"
definition ROTATE :: u8 where "ROTATE = 0x36"
definition CALL_NAMED_REF :: u8 where "CALL_NAMED_REF = 0x37"
definition LOAD_SHARED_NAMED :: u8 where "LOAD_SHARED_NAMED = 0x38"
definition LOAD_THIS :: u8 where "LOAD_THIS = 0x39"
definition LOAD_THIS_SHARED :: u8 where "LOAD_THIS_SHARED = 0x3a"
definition REQUIRE_THIS :: u8 where "REQUIRE_THIS = 0x3b"
definition ASSIGN_THIS :: u8 where "ASSIGN_THIS = 0x3c"
definition ASSIGN_THIS_OP :: u8 where "ASSIGN_THIS_OP = 0x3d"
definition CALL_THIS_REF :: u8 where "CALL_THIS_REF = 0x3e"
definition CALL_FN_PTR_ON_LOCAL :: u8 where "CALL_FN_PTR_ON_LOCAL = 0x3f"
definition CALL_FN_PTR_ON_NAMED :: u8 where "CALL_FN_PTR_ON_NAMED = 0x40"
definition CALL_FN_PTR_ON_THIS :: u8 where "CALL_FN_PTR_ON_THIS = 0x41"
definition SKIP_IF_NOT_UNIT :: u8 where "SKIP_IF_NOT_UNIT = 0x42"
definition CALL_CAPTURE :: u8 where "CALL_CAPTURE = 0x43"
definition CALL_LOCAL_REF_CAPTURE :: u8 where "CALL_LOCAL_REF_CAPTURE = 0x44"
definition CALL_NAMED_REF_CAPTURE :: u8 where "CALL_NAMED_REF_CAPTURE = 0x45"
definition CALL_THIS_REF_CAPTURE :: u8 where "CALL_THIS_REF_CAPTURE = 0x46"
definition STATEMENT :: u8 where "STATEMENT = 0x47"
definition STORE_CONST :: u8 where "STORE_CONST = 0x48"
definition BIN_OP :: u8 where "BIN_OP = 0x49"
definition ASSIGN_LOCAL_FROM :: u8 where "ASSIGN_LOCAL_FROM = 0x4a"
definition ASSIGN_LOCAL_FROM_OP :: u8 where "ASSIGN_LOCAL_FROM_OP = 0x4b"
definition ITER_NEXT_STORE :: u8 where "ITER_NEXT_STORE = 0x4c"
definition BIN_OP_FROM_LOCAL :: u8 where "BIN_OP_FROM_LOCAL = 0x4d"
definition BIN_OP_FROM_CONST :: u8 where "BIN_OP_FROM_CONST = 0x4e"
definition UN_OP :: u8 where "UN_OP = 0x4f"
definition INDEX_SET :: u8 where "INDEX_SET = 0x50"
definition ASSIGN_LOCAL_FROM_CONST :: u8 where "ASSIGN_LOCAL_FROM_CONST = 0x51"
definition ASSIGN_LOCAL_FROM_CONST_OP :: u8 where "ASSIGN_LOCAL_FROM_CONST_OP = 0x52"
definition BIN_OP_RHS_LOCAL :: u8 where "BIN_OP_RHS_LOCAL = 0x53"
definition BIN_OP_RHS_CONST :: u8 where "BIN_OP_RHS_CONST = 0x54"
definition INDEX_GET :: u8 where "INDEX_GET = 0x55"
definition INDEX_GET_FROM_LOCAL :: u8 where "INDEX_GET_FROM_LOCAL = 0x56"
definition INDEX_GET_FROM_CONST :: u8 where "INDEX_GET_FROM_CONST = 0x57"
definition INDEX_SET_FROM_LOCAL :: u8 where "INDEX_SET_FROM_LOCAL = 0x58"
definition INDEX_SET_FROM_CONST :: u8 where "INDEX_SET_FROM_CONST = 0x59"
definition INDEX_SET_FROM_LOCAL_VALUE_CONST :: u8 where "INDEX_SET_FROM_LOCAL_VALUE_CONST = 0x61"
definition INDEX_SET_FROM_CONST_VALUE_CONST :: u8 where "INDEX_SET_FROM_CONST_VALUE_CONST = 0x62"
definition INDEX_SET_OP :: u8 where "INDEX_SET_OP = 0x65"
definition INDEX_SET_OP_FROM_LOCAL :: u8 where "INDEX_SET_OP_FROM_LOCAL = 0x66"
definition INDEX_SET_OP_FROM_CONST :: u8 where "INDEX_SET_OP_FROM_CONST = 0x67"
definition INDEX_SET_OP_FROM_LOCAL_VALUE_CONST :: u8 where "INDEX_SET_OP_FROM_LOCAL_VALUE_CONST = 0x68"
definition INDEX_SET_OP_FROM_CONST_VALUE_CONST :: u8 where "INDEX_SET_OP_FROM_CONST_VALUE_CONST = 0x69"
definition BIN_OP_FROM_LOCAL_JT :: u8 where "BIN_OP_FROM_LOCAL_JT = 0x63"
definition BIN_OP_FROM_CONST_JT :: u8 where "BIN_OP_FROM_CONST_JT = 0x64"
definition BIN_OP_JF :: u8 where "BIN_OP_JF = 0x5a"
definition BIN_OP_RHS_LOCAL_JF :: u8 where "BIN_OP_RHS_LOCAL_JF = 0x5b"
definition BIN_OP_RHS_CONST_JF :: u8 where "BIN_OP_RHS_CONST_JF = 0x5c"
definition BIN_OP_FROM_LOCAL_JF :: u8 where "BIN_OP_FROM_LOCAL_JF = 0x5d"
definition BIN_OP_FROM_CONST_JF :: u8 where "BIN_OP_FROM_CONST_JF = 0x5e"
definition CHAIN_DISCARD :: u8 where "CHAIN_DISCARD = 0x5f"
definition UN_OP_JF :: u8 where "UN_OP_JF = 0x60"

lemmas tag_defs =
  CONST_TAG_def UNIT_def FALSE_def TRUE_def LOAD_LOCAL_def STORE_LOCAL_def ASSIGN_LOCAL_def
  ASSIGN_LOCAL_OP_def DECLARE_LOCAL_def DECLARE_CONST_def POP_def JUMP_def JUMP_IF_TRUE_def
  JUMP_IF_FALSE_def CALL_def CALL_OP_def UNWIND_TO_def TICK_def RETURN_def EVAL_AST_def
  EVAL_AST_KEEP_def CHAIN_def MAKE_ARRAY_def SWITCH_def LOAD_NAMED_def ASSIGN_NAMED_def
  ASSIGN_NAMED_OP_def THROW_def ITER_INIT_def ITER_NEXT_def ITER_DROP_def STORE_SHARED_def
  ITER_NEXT_INDEXED_def POP_HANDLER_def PUSH_HANDLER_def PUSH_HANDLER_VAR_def
  INTERPOLATE_START_def INTERPOLATE_APPEND_def INTERPOLATE_END_def MAKE_FN_PTR_def CURRY_def
  CALL_FN_PTR_def CALL_FN_PTR_METHOD_def SHARE_def SHARE_NAMED_def LOAD_SHARED_def
  MAKE_CLOSURE_def IS_SHARED_def CHECKPOINT_def CHECK_ARRAY_SIZE_def CHECK_MAP_SIZE_def
  MAKE_MAP_def CALL_LOCAL_REF_def ROTATE_def CALL_NAMED_REF_def LOAD_SHARED_NAMED_def
  LOAD_THIS_def LOAD_THIS_SHARED_def REQUIRE_THIS_def ASSIGN_THIS_def ASSIGN_THIS_OP_def
  CALL_THIS_REF_def CALL_FN_PTR_ON_LOCAL_def CALL_FN_PTR_ON_NAMED_def CALL_FN_PTR_ON_THIS_def
  SKIP_IF_NOT_UNIT_def CALL_CAPTURE_def CALL_LOCAL_REF_CAPTURE_def CALL_NAMED_REF_CAPTURE_def
  CALL_THIS_REF_CAPTURE_def STATEMENT_def STORE_CONST_def BIN_OP_def ASSIGN_LOCAL_FROM_def
  ASSIGN_LOCAL_FROM_OP_def ITER_NEXT_STORE_def BIN_OP_FROM_LOCAL_def BIN_OP_FROM_CONST_def
  UN_OP_def INDEX_SET_def ASSIGN_LOCAL_FROM_CONST_def ASSIGN_LOCAL_FROM_CONST_OP_def
  BIN_OP_RHS_LOCAL_def BIN_OP_RHS_CONST_def INDEX_GET_def INDEX_GET_FROM_LOCAL_def
  INDEX_GET_FROM_CONST_def INDEX_SET_FROM_LOCAL_def INDEX_SET_FROM_CONST_def
  INDEX_SET_FROM_LOCAL_VALUE_CONST_def INDEX_SET_FROM_CONST_VALUE_CONST_def INDEX_SET_OP_def
  INDEX_SET_OP_FROM_LOCAL_def INDEX_SET_OP_FROM_CONST_def
  INDEX_SET_OP_FROM_LOCAL_VALUE_CONST_def INDEX_SET_OP_FROM_CONST_VALUE_CONST_def
  BIN_OP_FROM_LOCAL_JT_def BIN_OP_FROM_CONST_JT_def BIN_OP_JF_def BIN_OP_RHS_LOCAL_JF_def
  BIN_OP_RHS_CONST_JF_def BIN_OP_FROM_LOCAL_JF_def BIN_OP_FROM_CONST_JF_def CHAIN_DISCARD_def
  UN_OP_JF_def

section \<open>Widths\<close>

text \<open>
  \<open>WIDTHS\<close>, as the pairs of its assignments in their order; every byte the list does not name
  keeps the width 0.
\<close>

definition WIDTHS :: "(u8 \<times> nat) list" where
  "WIDTHS =
    [(UNIT, 1), (FALSE, 1), (TRUE, 1), (POP, 1), (TICK, 1), (CHECKPOINT, 1), (STATEMENT, 3),
     (MAKE_MAP, 3), (CHECK_ARRAY_SIZE, 3), (CHECK_MAP_SIZE, 3), (RETURN, 1), (THROW, 1),
     (ITER_INIT, 1), (ITER_DROP, 1), (STORE_SHARED, 3), (ITER_NEXT, 5), (ITER_NEXT_INDEXED, 5),
     (POP_HANDLER, 1), (INTERPOLATE_START, 1), (INTERPOLATE_APPEND, 1), (INTERPOLATE_END, 1),
     (MAKE_FN_PTR, 1), (IS_SHARED, 1), (CURRY, 2), (ROTATE, 2), (CALL_FN_PTR, 2),
     (CALL_FN_PTR_METHOD, 2), (SHARE, 3), (SHARE_NAMED, 3), (LOAD_SHARED, 3),
     (LOAD_SHARED_NAMED, 3), (LOAD_THIS, 1), (LOAD_THIS_SHARED, 1), (REQUIRE_THIS, 1),
     (ASSIGN_THIS, 1), (ASSIGN_THIS_OP, 3), (CALL_THIS_REF, 4), (CALL_THIS_REF_CAPTURE, 4),
     (CALL_FN_PTR_ON_LOCAL, 4), (CALL_FN_PTR_ON_NAMED, 4), (CALL_FN_PTR_ON_THIS, 2),
     (MAKE_CLOSURE, 3), (PUSH_HANDLER, 5), (PUSH_HANDLER_VAR, 7), (CONST_TAG, 3), (LOAD_LOCAL, 3),
     (STORE_LOCAL, 3), (STORE_CONST, 3), (DECLARE_LOCAL, 3), (DECLARE_CONST, 3),
     (UNWIND_TO, 3), (EVAL_AST, 3), (EVAL_AST_KEEP, 3), (CHAIN, 3), (CHAIN_DISCARD, 3),
     (MAKE_ARRAY, 3), (SWITCH, 3), (LOAD_NAMED, 3), (ASSIGN_NAMED, 3), (ASSIGN_NAMED_OP, 5),
     (CALL, 4), (CALL_CAPTURE, 4), (ASSIGN_LOCAL, 5), (JUMP, 5), (JUMP_IF_TRUE, 5),
     (JUMP_IF_FALSE, 5), (SKIP_IF_NOT_UNIT, 5), (CALL_OP, 6), (BIN_OP, 6), (UN_OP, 4),
     (INDEX_SET, 5), (INDEX_GET, 5), (CALL_LOCAL_REF, 6), (CALL_LOCAL_REF_CAPTURE, 6),
     (CALL_NAMED_REF, 6), (CALL_NAMED_REF_CAPTURE, 6), (ASSIGN_LOCAL_OP, 7),
     (ASSIGN_LOCAL_FROM, 7), (ITER_NEXT_STORE, 7), (ASSIGN_LOCAL_FROM_CONST, 7),
     (ASSIGN_LOCAL_FROM_OP, 9), (ASSIGN_LOCAL_FROM_CONST_OP, 9), (INDEX_GET_FROM_LOCAL, 7),
     (INDEX_GET_FROM_CONST, 7), (INDEX_SET_FROM_LOCAL, 7), (INDEX_SET_FROM_CONST, 7),
     (INDEX_SET_FROM_LOCAL_VALUE_CONST, 9), (INDEX_SET_FROM_CONST_VALUE_CONST, 9),
     (INDEX_SET_OP, 6), (INDEX_SET_OP_FROM_LOCAL, 8), (INDEX_SET_OP_FROM_CONST, 8),
     (INDEX_SET_OP_FROM_LOCAL_VALUE_CONST, 10), (INDEX_SET_OP_FROM_CONST_VALUE_CONST, 10),
     (BIN_OP_RHS_LOCAL, 8), (BIN_OP_RHS_CONST, 8), (BIN_OP_FROM_LOCAL, 10),
     (BIN_OP_FROM_CONST, 10), (UN_OP_JF, 8), (BIN_OP_JF, 10), (BIN_OP_RHS_LOCAL_JF, 12),
     (BIN_OP_RHS_CONST_JF, 12), (BIN_OP_FROM_LOCAL_JF, 14), (BIN_OP_FROM_CONST_JF, 14),
     (BIN_OP_FROM_LOCAL_JT, 14), (BIN_OP_FROM_CONST_JT, 14)]"

definition widths :: "u8 \<Rightarrow> nat" where
  "widths byte = (case map_of WIDTHS byte of None \<Rightarrow> 0 | Some sz \<Rightarrow> sz)"

definition width_of :: "u8 \<Rightarrow> u8 list \<Rightarrow> nat \<Rightarrow> nat option" where
  "width_of tag code at =
     (let sz = widths tag in
      if sz = 0 then None
      else if at + sz \<le> length code then Some sz else None)"

definition width :: "u8 list \<Rightarrow> nat \<Rightarrow> nat option" where
  "width code at = Option.bind (get_at code at) (\<lambda>tag. width_of tag code at)"

section \<open>Operands\<close>

definition u16_at :: "u8 list \<Rightarrow> nat \<Rightarrow> u16 option" where
  "u16_at code at =
     (if at + 2 \<le> length code then Some (of_le16 (code ! at) (code ! (at + 1))) else None)"

definition u32_at :: "u8 list \<Rightarrow> nat \<Rightarrow> u32 option" where
  "u32_at code at =
     (if at + 4 \<le> length code
      then Some (of_le32 (code ! at) (code ! (at + 1)) (code ! (at + 2)) (code ! (at + 3)))
      else None)"

section \<open>The forms of the operator family\<close>

definition BRANCHES :: u16 where "BRANCHES = 0x001"
definition TYPED :: u16 where "TYPED = 0x002"
definition UNARY :: u16 where "UNARY = 0x004"
definition NAMES_FROM :: u16 where "NAMES_FROM = 0x008"
definition NAMES_RHS :: u16 where "NAMES_RHS = 0x010"
definition NAMED_IS_LOCAL :: u16 where "NAMED_IS_LOCAL = 0x020"
definition POOLED_OP :: u16 where "POOLED_OP = 0x040"
definition CAPTURES :: u16 where "CAPTURES = 0x080"
definition TAKEN_WHEN :: u16 where "TAKEN_WHEN = 0x100"

definition FORMS :: "(u8 \<times> u16) list" where
  "FORMS =
     (let binop = TYPED OR POOLED_OP;
          rhs = binop OR NAMES_RHS;
          fromop = binop OR NAMES_FROM;
          jt = fromop OR BRANCHES OR TAKEN_WHEN
      in
      [(CALL_CAPTURE, CAPTURES),
       (CALL_OP, POOLED_OP),
       (UN_OP, UNARY),
       (UN_OP_JF, UNARY OR BRANCHES),
       (BIN_OP, binop),
       (BIN_OP_JF, binop OR BRANCHES),
       (BIN_OP_RHS_CONST, rhs),
       (BIN_OP_RHS_LOCAL, rhs OR NAMED_IS_LOCAL),
       (BIN_OP_RHS_CONST_JF, rhs OR BRANCHES),
       (BIN_OP_RHS_LOCAL_JF, rhs OR NAMED_IS_LOCAL OR BRANCHES),
       (BIN_OP_FROM_CONST, fromop),
       (BIN_OP_FROM_LOCAL, fromop OR NAMED_IS_LOCAL),
       (BIN_OP_FROM_CONST_JF, fromop OR BRANCHES),
       (BIN_OP_FROM_LOCAL_JF, fromop OR NAMED_IS_LOCAL OR BRANCHES),
       (BIN_OP_FROM_CONST_JT, jt),
       (BIN_OP_FROM_LOCAL_JT, jt OR NAMED_IS_LOCAL)])"

definition form :: "u8 \<Rightarrow> u16" where
  "form tag = (case map_of FORMS tag of None \<Rightarrow> 0 | Some flags \<Rightarrow> flags)"

section \<open>Reading tags and operands\<close>

lemma width_Some:
  "width code at = Some w \<longleftrightarrow>
   at < length code \<and> w = widths (code ! at) \<and> 0 < w \<and> at + w \<le> length code"
  by (auto simp: width_def width_of_def Let_def get_at_def split: if_splits)

lemma width_bounds: "width code at = Some w \<Longrightarrow> 0 < w \<and> at + w \<le> length code"
  by (auto simp: width_Some)

lemma widths_tag:
  "widths UNIT = 1"
  "widths FALSE = 1"
  "widths TRUE = 1"
  "widths POP = 1"
  "widths TICK = 1"
  "widths CHECKPOINT = 1"
  "widths STATEMENT = 3"
  "widths MAKE_MAP = 3"
  "widths CHECK_ARRAY_SIZE = 3"
  "widths CHECK_MAP_SIZE = 3"
  "widths RETURN = 1"
  "widths THROW = 1"
  "widths ITER_INIT = 1"
  "widths ITER_DROP = 1"
  "widths STORE_SHARED = 3"
  "widths ITER_NEXT = 5"
  "widths ITER_NEXT_INDEXED = 5"
  "widths POP_HANDLER = 1"
  "widths INTERPOLATE_START = 1"
  "widths INTERPOLATE_APPEND = 1"
  "widths INTERPOLATE_END = 1"
  "widths MAKE_FN_PTR = 1"
  "widths IS_SHARED = 1"
  "widths CURRY = 2"
  "widths ROTATE = 2"
  "widths CALL_FN_PTR = 2"
  "widths CALL_FN_PTR_METHOD = 2"
  "widths SHARE = 3"
  "widths SHARE_NAMED = 3"
  "widths LOAD_SHARED = 3"
  "widths LOAD_SHARED_NAMED = 3"
  "widths LOAD_THIS = 1"
  "widths LOAD_THIS_SHARED = 1"
  "widths REQUIRE_THIS = 1"
  "widths ASSIGN_THIS = 1"
  "widths ASSIGN_THIS_OP = 3"
  "widths CALL_THIS_REF = 4"
  "widths CALL_THIS_REF_CAPTURE = 4"
  "widths CALL_FN_PTR_ON_LOCAL = 4"
  "widths CALL_FN_PTR_ON_NAMED = 4"
  "widths CALL_FN_PTR_ON_THIS = 2"
  "widths MAKE_CLOSURE = 3"
  "widths PUSH_HANDLER = 5"
  "widths PUSH_HANDLER_VAR = 7"
  "widths CONST_TAG = 3"
  "widths LOAD_LOCAL = 3"
  "widths STORE_LOCAL = 3"
  "widths STORE_CONST = 3"
  "widths DECLARE_LOCAL = 3"
  "widths DECLARE_CONST = 3"
  "widths UNWIND_TO = 3"
  "widths EVAL_AST = 3"
  "widths EVAL_AST_KEEP = 3"
  "widths CHAIN = 3"
  "widths CHAIN_DISCARD = 3"
  "widths MAKE_ARRAY = 3"
  "widths SWITCH = 3"
  "widths LOAD_NAMED = 3"
  "widths ASSIGN_NAMED = 3"
  "widths ASSIGN_NAMED_OP = 5"
  "widths CALL = 4"
  "widths CALL_CAPTURE = 4"
  "widths ASSIGN_LOCAL = 5"
  "widths JUMP = 5"
  "widths JUMP_IF_TRUE = 5"
  "widths JUMP_IF_FALSE = 5"
  "widths SKIP_IF_NOT_UNIT = 5"
  "widths CALL_OP = 6"
  "widths BIN_OP = 6"
  "widths UN_OP = 4"
  "widths INDEX_SET = 5"
  "widths INDEX_GET = 5"
  "widths CALL_LOCAL_REF = 6"
  "widths CALL_LOCAL_REF_CAPTURE = 6"
  "widths CALL_NAMED_REF = 6"
  "widths CALL_NAMED_REF_CAPTURE = 6"
  "widths ASSIGN_LOCAL_OP = 7"
  "widths ASSIGN_LOCAL_FROM = 7"
  "widths ITER_NEXT_STORE = 7"
  "widths ASSIGN_LOCAL_FROM_CONST = 7"
  "widths ASSIGN_LOCAL_FROM_OP = 9"
  "widths ASSIGN_LOCAL_FROM_CONST_OP = 9"
  "widths INDEX_GET_FROM_LOCAL = 7"
  "widths INDEX_GET_FROM_CONST = 7"
  "widths INDEX_SET_FROM_LOCAL = 7"
  "widths INDEX_SET_FROM_CONST = 7"
  "widths INDEX_SET_FROM_LOCAL_VALUE_CONST = 9"
  "widths INDEX_SET_FROM_CONST_VALUE_CONST = 9"
  "widths INDEX_SET_OP = 6"
  "widths INDEX_SET_OP_FROM_LOCAL = 8"
  "widths INDEX_SET_OP_FROM_CONST = 8"
  "widths INDEX_SET_OP_FROM_LOCAL_VALUE_CONST = 10"
  "widths INDEX_SET_OP_FROM_CONST_VALUE_CONST = 10"
  "widths BIN_OP_RHS_LOCAL = 8"
  "widths BIN_OP_RHS_CONST = 8"
  "widths BIN_OP_FROM_LOCAL = 10"
  "widths BIN_OP_FROM_CONST = 10"
  "widths UN_OP_JF = 8"
  "widths BIN_OP_JF = 10"
  "widths BIN_OP_RHS_LOCAL_JF = 12"
  "widths BIN_OP_RHS_CONST_JF = 12"
  "widths BIN_OP_FROM_LOCAL_JF = 14"
  "widths BIN_OP_FROM_CONST_JF = 14"
  "widths BIN_OP_FROM_LOCAL_JT = 14"
  "widths BIN_OP_FROM_CONST_JT = 14"
  by (simp_all add: widths_def WIDTHS_def tag_defs)

lemma widths_le: "widths b \<le> 14"
proof (cases "map_of WIDTHS b")
  case (Some n)
  then have "(b, n) \<in> set WIDTHS" by (rule map_of_SomeD)
  moreover have "list_all (\<lambda>(b, n). n \<le> 14) WIDTHS" by (simp add: WIDTHS_def)
  ultimately show ?thesis using Some by (auto simp: widths_def list_all_iff)
qed (simp add: widths_def)

lemma u16_at_le16: "u16_at (pre @ le16 w @ post) (length pre) = Some w"
  by (simp add: u16_at_def le16_def nth_append of_le16_le16)

lemma u32_at_le32: "u32_at (pre @ le32 w @ post) (length pre) = Some w"
  by (simp add: u32_at_def le32_def nth_append of_le32_le32)

lemma u16_at_append [simp]:
  "length pre = n \<Longrightarrow> u16_at (pre @ rest) (n + k) = u16_at rest k"
  by (auto simp: u16_at_def nth_append add.assoc)

end
