(* ===== verification/Assemble.thy ===== *)
theory Assemble
  imports Ops Tags
begin

text \<open>
  The assembler (\<open>src/grain/bytecode/code.rs\<close>): \<open>encoded_width\<close> measures an instruction,
  \<open>assemble\<close> lays the instructions out and writes them with jump targets turned from instruction
  indices into byte addresses. The single \<open>match\<close> of the source that writes an instruction is
  here a chain of four definitions, each covering a run of its arms and passing the rest on.
\<close>

section \<open>Errors and operands\<close>

datatype assemble_error =
    PoolTooLarge string nat
  | ValueWithoutIndex
  | JumpOutOfRange nat u32
  | SwitchTargetOutOfRange nat u32
  | ChunkTooLarge nat

text \<open>\<open>usize::MAX\<close> on a 64-bit target.\<close>

definition usize_max :: nat where
  "usize_max = 2 ^ 64 - 1"

definition small :: "u32 \<Rightarrow> string \<Rightarrow> assemble_error + u16" where
  "small value what =
     (if unat value < 2 ^ 16 then Ok (ucast value) else Err (PoolTooLarge what (unat value)))"

definition target :: "u32 list \<Rightarrow> nat \<Rightarrow> u32 \<Rightarrow> assemble_error + u32" where
  "target offsets index t = ok_or (JumpOutOfRange index t) (get_at offsets (unat t))"

primrec operand_index :: "bin_operand \<Rightarrow> assemble_error + u16" where
  "operand_index (OLocal slot) = Ok slot"
| "operand_index (OConst index) = small index ''constants''"

text \<open>
  The pieces an arm pushes, one after the other; the first error leaves the arm. \<open>p16\<close> and \<open>p32\<close>
  are \<open>extend_from_slice\<close> of the little-endian bytes, \<open>popt\<close> is \<open>if let Some(x)\<close>.
\<close>

fun emit :: "(assemble_error + u8 list) list \<Rightarrow> assemble_error + u8 list" where
  "emit [] = Ok []"
| "emit (part # parts) =
     rbind part (\<lambda>bytes. rbind (emit parts) (\<lambda>rest. Ok (bytes @ rest)))"

definition p8 :: "u8 \<Rightarrow> assemble_error + u8 list" where
  "p8 b = Ok [b]"

definition p16 :: "assemble_error + u16 \<Rightarrow> assemble_error + u8 list" where
  "p16 r = rbind r (\<lambda>w. Ok (le16 w))"

definition p32 :: "assemble_error + u32 \<Rightarrow> assemble_error + u8 list" where
  "p32 r = rbind r (\<lambda>w. Ok (le32 w))"

definition popt :: "'a option \<Rightarrow> ('a \<Rightarrow> assemble_error + u8 list) \<Rightarrow> assemble_error + u8 list" where
  "popt x f = (case x of None \<Rightarrow> Ok [] | Some v \<Rightarrow> f v)"

section \<open>Writing an instruction\<close>

text \<open>
  The arms from \<open>InterpolateStart\<close> to \<open>EvalAst\<close>; the arm for the other instructions is never
  reached, since the definitions below take theirs first.
\<close>

definition put_control :: "(u32 \<Rightarrow> assemble_error + u32) \<Rightarrow> op \<Rightarrow> assemble_error + u8 list" where
  "put_control tgt op = (case op of
       InterpolateStart \<Rightarrow> p8 INTERPOLATE_START
     | InterpolateAppend \<Rightarrow> p8 INTERPOLATE_APPEND
     | InterpolateEnd \<Rightarrow> p8 INTERPOLATE_END
     | Switch index \<Rightarrow> emit [p8 SWITCH, p16 (small index ''switches'')]
     | UnwindTo depth \<Rightarrow> emit [p8 UNWIND_TO, p16 (Ok depth)]
     | Tick \<Rightarrow> p8 TICK
     | Checkpoint \<Rightarrow> p8 CHECKPOINT
     | Statement depth \<Rightarrow> emit [p8 STATEMENT, p16 (Ok depth)]
     | Throw \<Rightarrow> p8 THROW
     | IterInit \<Rightarrow> p8 ITER_INIT
     | IterDrop \<Rightarrow> p8 ITER_DROP
     | PopHandler \<Rightarrow> p8 POP_HANDLER
     | PushHandler to catch_var \<Rightarrow>
         emit [p8 (case catch_var of Some _ \<Rightarrow> PUSH_HANDLER_VAR | None \<Rightarrow> PUSH_HANDLER),
           p32 (tgt to), popt catch_var (\<lambda>name. p16 (small name ''names''))]
     | IterNext body indexed \<Rightarrow>
         emit [p8 (if indexed then ITER_NEXT_INDEXED else ITER_NEXT), p32 (tgt body)]
     | BinOpFrom name operator kind lhs rhs branch \<Rightarrow>
         emit [p8 (case (rhs, branch) of
               (OLocal _, None) \<Rightarrow> BIN_OP_FROM_LOCAL
             | (OConst _, None) \<Rightarrow> BIN_OP_FROM_CONST
             | (OLocal _, Some (Branch _ False)) \<Rightarrow> BIN_OP_FROM_LOCAL_JF
             | (OConst _, Some (Branch _ False)) \<Rightarrow> BIN_OP_FROM_CONST_JF
             | (OLocal _, Some (Branch _ True)) \<Rightarrow> BIN_OP_FROM_LOCAL_JT
             | (OConst _, Some (Branch _ True)) \<Rightarrow> BIN_OP_FROM_CONST_JT),
           p16 (small name ''names''), p8 (kind_byte kind), p16 (small operator ''operators''),
           p16 (Ok lhs), p16 (operand_index rhs),
           popt branch (\<lambda>branch. p32 (tgt (branch_target branch)))]
     | IterNextStore body slot \<Rightarrow> emit [p8 ITER_NEXT_STORE, p32 (tgt body), p16 (Ok slot)]
     | StoreShared slot \<Rightarrow> emit [p8 STORE_SHARED, p16 (Ok slot)]
     | Return \<Rightarrow> p8 RETURN
     | EvalAst residual rewind_scope \<Rightarrow>
         emit [p8 (if rewind_scope then EVAL_AST else EVAL_AST_KEEP),
           p16 (small residual ''fragments'')]
     | _ \<Rightarrow> Ok [])"

text \<open>The arms from \<open>Rotate\<close> to \<open>CallFnPtr\<close>.\<close>

definition index_set_tags :: "bin_operand option \<Rightarrow> u32 option \<Rightarrow> assemble_error + u8 \<times> u8" where
  "index_set_tags index value = (case (index, value) of
       (None, None) \<Rightarrow> Ok (INDEX_SET, INDEX_SET_OP)
     | (None, Some _) \<Rightarrow> Err ValueWithoutIndex
     | (Some (OLocal _), None) \<Rightarrow> Ok (INDEX_SET_FROM_LOCAL, INDEX_SET_OP_FROM_LOCAL)
     | (Some (OConst _), None) \<Rightarrow> Ok (INDEX_SET_FROM_CONST, INDEX_SET_OP_FROM_CONST)
     | (Some (OLocal _), Some _) \<Rightarrow>
         Ok (INDEX_SET_FROM_LOCAL_VALUE_CONST, INDEX_SET_OP_FROM_LOCAL_VALUE_CONST)
     | (Some (OConst _), Some _) \<Rightarrow>
         Ok (INDEX_SET_FROM_CONST_VALUE_CONST, INDEX_SET_OP_FROM_CONST_VALUE_CONST))"

definition put_chains :: "(u32 \<Rightarrow> assemble_error + u32) \<Rightarrow> op \<Rightarrow> assemble_error + u8 list" where
  "put_chains tgt op = (case op of
       Rotate below \<Rightarrow> emit [p8 ROTATE, p8 below]
     | Chain chain discards \<Rightarrow>
         emit [p8 (if discards then CHAIN_DISCARD else CHAIN), p16 (small chain ''chains'')]
     | IndexSet chain slot index value kind \<Rightarrow>
         rbind (index_set_tags index value) (\<lambda>(plain, applied).
         emit [p8 (if kind \<noteq> None then applied else plain),
           p16 (small chain ''chains''), p16 (Ok slot),
           popt index (\<lambda>index. p16 (operand_index index)),
           popt value (\<lambda>value. p16 (small value ''constants'')),
           popt kind (\<lambda>kind. p8 (kind_byte kind))])
     | IndexGet chain slot index \<Rightarrow>
         emit [p8 (case index of
               None \<Rightarrow> INDEX_GET
             | Some (OLocal _) \<Rightarrow> INDEX_GET_FROM_LOCAL
             | Some (OConst _) \<Rightarrow> INDEX_GET_FROM_CONST),
           p16 (small chain ''chains''), p16 (Ok slot),
           popt index (\<lambda>index. p16 (operand_index index))]
     | MakeArray len \<Rightarrow> emit [p8 MAKE_ARRAY, p16 (Ok len)]
     | MakeMap len \<Rightarrow> emit [p8 MAKE_MAP, p16 (Ok len)]
     | CheckSize index is_map \<Rightarrow>
         emit [p8 (if is_map then CHECK_MAP_SIZE else CHECK_ARRAY_SIZE), p16 (Ok index)]
     | Share slot \<Rightarrow> emit [p8 SHARE, p16 (Ok slot)]
     | ShareNamed name \<Rightarrow> emit [p8 SHARE_NAMED, p16 (small name ''names'')]
     | LoadShared slot \<Rightarrow> emit [p8 LOAD_SHARED, p16 (Ok slot)]
     | LoadSharedNamed name \<Rightarrow> emit [p8 LOAD_SHARED_NAMED, p16 (small name ''names'')]
     | MakeClosure name \<Rightarrow> emit [p8 MAKE_CLOSURE, p16 (small name ''names'')]
     | MakeFnPtr \<Rightarrow> p8 MAKE_FN_PTR
     | IsShared \<Rightarrow> p8 IS_SHARED
     | Curry argc \<Rightarrow> emit [p8 CURRY, p8 argc]
     | CallFnPtr argc method receiver \<Rightarrow>
         rbind (case receiver of
             Some (RLocal slot) \<Rightarrow> Ok (CALL_FN_PTR_ON_LOCAL, slot)
           | Some (RNamed var) \<Rightarrow>
               rbind (small var ''names'') (\<lambda>var. Ok (CALL_FN_PTR_ON_NAMED, var))
           | Some RThis \<Rightarrow> Ok (CALL_FN_PTR_ON_THIS, 0)
           | None \<Rightarrow> Ok (if method then CALL_FN_PTR_METHOD else CALL_FN_PTR, 0))
         (\<lambda>(tag, operand).
         emit [p8 tag, p8 argc,
           if tag = CALL_FN_PTR_ON_LOCAL \<or> tag = CALL_FN_PTR_ON_NAMED then p16 (Ok operand)
           else Ok []])
     | _ \<Rightarrow> put_control tgt op)"

text \<open>The arms of \<open>Call\<close>, \<open>BinOp\<close>, \<open>UnOp\<close> and \<open>CallRef\<close>.\<close>

definition put_calls :: "(u32 \<Rightarrow> assemble_error + u32) \<Rightarrow> op \<Rightarrow> assemble_error + u8 list" where
  "put_calls tgt op = (case op of
       Call name argc None capture_parent_scope \<Rightarrow>
         emit [p8 (if capture_parent_scope then CALL_CAPTURE else CALL),
           p16 (small name ''names''), p8 argc]
     | Call name argc (Some token) _ \<Rightarrow>
         emit [p8 CALL_OP, p16 (small name ''names''), p8 argc, p16 (small token ''operators'')]
     | BinOp name operator kind rhs branch \<Rightarrow>
         emit [p8 (case (rhs, branch) of
               (None, None) \<Rightarrow> BIN_OP
             | (Some (OLocal _), None) \<Rightarrow> BIN_OP_RHS_LOCAL
             | (Some (OConst _), None) \<Rightarrow> BIN_OP_RHS_CONST
             | (None, Some _) \<Rightarrow> BIN_OP_JF
             | (Some (OLocal _), Some _) \<Rightarrow> BIN_OP_RHS_LOCAL_JF
             | (Some (OConst _), Some _) \<Rightarrow> BIN_OP_RHS_CONST_JF),
           p16 (small name ''names''), p8 (kind_byte kind), p16 (small operator ''operators''),
           popt rhs (\<lambda>rhs. p16 (operand_index rhs)), popt branch (\<lambda>branch. p32 (tgt branch))]
     | UnOp name kind branch \<Rightarrow>
         emit [p8 (if branch \<noteq> None then UN_OP_JF else UN_OP),
           p16 (small name ''names''), p8 (un_kind_byte kind),
           popt branch (\<lambda>branch. p32 (tgt branch))]
     | CallRef name argc receiver capture_parent_scope \<Rightarrow>
         rbind (case receiver of
             RLocal slot \<Rightarrow>
               Ok (Some (if capture_parent_scope then CALL_LOCAL_REF_CAPTURE else CALL_LOCAL_REF,
                 slot))
           | RNamed var \<Rightarrow> rbind (small var ''names'') (\<lambda>var.
               Ok (Some (if capture_parent_scope then CALL_NAMED_REF_CAPTURE else CALL_NAMED_REF,
                 var)))
           | RThis \<Rightarrow> Ok None)
         (\<lambda>operand.
         emit [p8 (case operand of
               None \<Rightarrow> (if capture_parent_scope then CALL_THIS_REF_CAPTURE else CALL_THIS_REF)
             | Some (tag, _) \<Rightarrow> tag),
           p16 (small name ''names''), p8 argc,
           popt operand (\<lambda>(_, operand). p16 (Ok operand))])
     | _ \<Rightarrow> put_chains tgt op)"

text \<open>The arms from \<open>Const\<close> to \<open>SkipIfNotUnit\<close>, and so the whole \<open>match\<close>.\<close>

definition put_op :: "(u32 \<Rightarrow> assemble_error + u32) \<Rightarrow> op \<Rightarrow> assemble_error + u8 list" where
  "put_op tgt op = (case op of
       Const index \<Rightarrow> emit [p8 CONST_TAG, p16 (small index ''constants'')]
     | Unit \<Rightarrow> p8 UNIT
     | Bool b \<Rightarrow> p8 (if b then TRUE else FALSE)
     | LoadLocal slot \<Rightarrow> emit [p8 LOAD_LOCAL, p16 (Ok slot)]
     | StoreLocal slot is_const \<Rightarrow>
         emit [p8 (if is_const then STORE_CONST else STORE_LOCAL), p16 (Ok slot)]
     | AssignLocal slot var_name None \<Rightarrow>
         emit [p8 ASSIGN_LOCAL, p16 (Ok slot), p16 (small var_name ''names'')]
     | AssignLocal slot var_name (Some assign_op) \<Rightarrow>
         emit [p8 ASSIGN_LOCAL_OP, p16 (Ok slot), p16 (small var_name ''names''),
           p16 (small assign_op ''op-assignments'')]
     | LoadThis \<Rightarrow> p8 LOAD_THIS
     | LoadThisShared \<Rightarrow> p8 LOAD_THIS_SHARED
     | RequireThis \<Rightarrow> p8 REQUIRE_THIS
     | AssignThis None \<Rightarrow> p8 ASSIGN_THIS
     | AssignThis (Some assign_op) \<Rightarrow>
         emit [p8 ASSIGN_THIS_OP, p16 (small assign_op ''op-assignments'')]
     | LoadNamed name \<Rightarrow> emit [p8 LOAD_NAMED, p16 (small name ''names'')]
     | AssignNamed name None \<Rightarrow> emit [p8 ASSIGN_NAMED, p16 (small name ''names'')]
     | AssignNamed name (Some assign_op) \<Rightarrow>
         emit [p8 ASSIGN_NAMED_OP, p16 (small name ''names''),
           p16 (small assign_op ''op-assignments'')]
     | AssignLocalFrom slot var_name assign_op src \<Rightarrow>
         emit [p8 (case (src, assign_op) of
               (OLocal _, Some _) \<Rightarrow> ASSIGN_LOCAL_FROM_OP
             | (OLocal _, None) \<Rightarrow> ASSIGN_LOCAL_FROM
             | (OConst _, Some _) \<Rightarrow> ASSIGN_LOCAL_FROM_CONST_OP
             | (OConst _, None) \<Rightarrow> ASSIGN_LOCAL_FROM_CONST),
           p16 (Ok slot), p16 (small var_name ''names''), p16 (operand_index src),
           popt assign_op (\<lambda>assign_op. p16 (small assign_op ''op-assignments''))]
     | DeclareLocal name is_const \<Rightarrow>
         emit [p8 (if is_const then DECLARE_CONST else DECLARE_LOCAL), p16 (small name ''names'')]
     | Pop \<Rightarrow> p8 POP
     | Jump to \<Rightarrow> emit [p8 JUMP, p32 (tgt to)]
     | JumpIfTrue to \<Rightarrow> emit [p8 JUMP_IF_TRUE, p32 (tgt to)]
     | JumpIfFalse to \<Rightarrow> emit [p8 JUMP_IF_FALSE, p32 (tgt to)]
     | SkipIfNotUnit to \<Rightarrow> emit [p8 SKIP_IF_NOT_UNIT, p32 (tgt to)]
     | _ \<Rightarrow> put_calls tgt op)"

section \<open>Measuring an instruction\<close>

definition encoded_width :: "op \<Rightarrow> nat" where
  "encoded_width op = (case op of
       Curry _ \<Rightarrow> 2
     | Rotate _ \<Rightarrow> 2
     | CallFnPtr _ _ receiver \<Rightarrow> (case receiver of
           Some (RLocal _) \<Rightarrow> 4 | Some (RNamed _) \<Rightarrow> 4 | Some RThis \<Rightarrow> 2 | None \<Rightarrow> 2)
     | Const _ \<Rightarrow> 3
     | LoadLocal _ \<Rightarrow> 3
     | StoreLocal _ _ \<Rightarrow> 3
     | DeclareLocal _ _ \<Rightarrow> 3
     | UnwindTo _ \<Rightarrow> 3
     | Statement _ \<Rightarrow> 3
     | EvalAst _ _ \<Rightarrow> 3
     | Chain _ _ \<Rightarrow> 3
     | Switch _ \<Rightarrow> 3
     | LoadNamed _ \<Rightarrow> 3
     | AssignNamed _ None \<Rightarrow> 3
     | StoreShared _ \<Rightarrow> 3
     | Share _ \<Rightarrow> 3
     | ShareNamed _ \<Rightarrow> 3
     | LoadShared _ \<Rightarrow> 3
     | LoadSharedNamed _ \<Rightarrow> 3
     | MakeClosure _ \<Rightarrow> 3
     | MakeArray _ \<Rightarrow> 3
     | MakeMap _ \<Rightarrow> 3
     | AssignThis (Some _) \<Rightarrow> 3
     | CheckSize _ _ \<Rightarrow> 3
     | Call _ _ None _ \<Rightarrow> 4
     | UnOp _ _ None \<Rightarrow> 4
     | CallRef _ _ RThis _ \<Rightarrow> 4
     | AssignLocal _ _ None \<Rightarrow> 5
     | AssignNamed _ (Some _) \<Rightarrow> 5
     | Jump _ \<Rightarrow> 5
     | JumpIfTrue _ \<Rightarrow> 5
     | JumpIfFalse _ \<Rightarrow> 5
     | SkipIfNotUnit _ \<Rightarrow> 5
     | IterNext _ _ \<Rightarrow> 5
     | IndexGet _ _ None \<Rightarrow> 5
     | PushHandler _ None \<Rightarrow> 5
     | IndexGet _ _ (Some _) \<Rightarrow> 7
     | PushHandler _ (Some _) \<Rightarrow> 7
     | IndexSet _ _ index value kind \<Rightarrow>
         5 + 2 * of_bool (index \<noteq> None) + 2 * of_bool (value \<noteq> None) + of_bool (kind \<noteq> None)
     | Call _ _ (Some _) _ \<Rightarrow> 6
     | BinOp _ _ _ None None \<Rightarrow> 6
     | CallRef _ _ _ _ \<Rightarrow> 6
     | BinOp _ _ _ (Some _) None \<Rightarrow> 8
     | AssignLocal _ _ (Some _) \<Rightarrow> 7
     | AssignLocalFrom _ _ None _ \<Rightarrow> 7
     | IterNextStore _ _ \<Rightarrow> 7
     | AssignLocalFrom _ _ (Some _) _ \<Rightarrow> 9
     | UnOp _ _ (Some _) \<Rightarrow> 8
     | BinOp _ _ _ None (Some _) \<Rightarrow> 10
     | BinOpFrom _ _ _ _ _ None \<Rightarrow> 10
     | BinOp _ _ _ (Some _) (Some _) \<Rightarrow> 12
     | BinOpFrom _ _ _ _ _ (Some _) \<Rightarrow> 14
     | _ \<Rightarrow> 1)"

section \<open>Assembling a chunk\<close>

text \<open>
  The first pass: the address of every instruction and one past the end. \<open>None\<close> is the overflow
  of the \<open>u32\<close> that counts.
\<close>

fun layout :: "op list \<Rightarrow> nat \<Rightarrow> nat list option" where
  "layout [] at = Some [at]"
| "layout (op # ops) at =
     (let next = at + encoded_width op in
      if next < 2 ^ 32 then map_option ((#) at) (layout ops next) else None)"

fun put_ops :: "u32 list \<Rightarrow> nat \<Rightarrow> op list \<Rightarrow> assemble_error + u8 list" where
  "put_ops offsets index [] = Ok []"
| "put_ops offsets index (op # ops) =
     rbind (put_op (target offsets index) op) (\<lambda>bytes.
     rbind (put_ops offsets (index + 1) ops) (\<lambda>rest. Ok (bytes @ rest)))"

definition assemble :: "op list \<Rightarrow> assemble_error + u8 list \<times> u32 list" where
  "assemble ops =
     rbind (ok_or (ChunkTooLarge usize_max) (layout ops 0)) (\<lambda>offsets.
     let offsets = map of_nat offsets in
     rbind (put_ops offsets 0 ops) (\<lambda>code. Ok (code, offsets)))"

section \<open>What an instruction takes\<close>

lemma emit_append_simp [simp]: "emit [part] = part"
  by (cases part) simp_all

lemma emit_Ok_Cons:
  "emit (part # parts) = Inr bytes \<longleftrightarrow>
   (\<exists>b r. part = Inr b \<and> emit parts = Inr r \<and> bytes = b @ r)"
  by (auto simp: rbind_eq_Ok)

lemma p8_simp [simp]: "p8 b = Inr [b]"
  by (simp add: p8_def)

lemma p16_Ok [simp]: "p16 r = Inr bytes \<longleftrightarrow> (\<exists>w. r = Inr w \<and> bytes = le16 w)"
  by (auto simp: p16_def rbind_eq_Ok)

lemma p32_Ok [simp]: "p32 r = Inr bytes \<longleftrightarrow> (\<exists>w. r = Inr w \<and> bytes = le32 w)"
  by (auto simp: p32_def rbind_eq_Ok)

lemma popt_simps [simp]: "popt None f = Inr []" "popt (Some x) f = f x"
  by (simp_all add: popt_def)

lemma small_Ok: "small v what = Inr w \<Longrightarrow> ucast w = v"
  by (auto simp: small_def word_unat_eq_iff unsigned_ucast_eq take_bit_nat_eq_self
      split: if_splits)

lemma small_iff: "small v what = Inr w \<longleftrightarrow> v = ucast w"
proof
  assume "v = ucast w"
  moreover have "unat w < 2 ^ LENGTH(16)" by (rule unsigned_less)
  ultimately show "small v what = Inr w"
    by (simp add: small_def word_unat_eq_iff unsigned_ucast_eq take_bit_nat_eq_self)
qed (simp add: small_Ok)

end
