(* ===== verification/Decode.thy ===== *)
theory Decode
  imports Assemble
begin

text \<open>
  The disassembler (\<open>decode\<close> and \<open>disassemble\<close> of \<open>src/grain/bytecode/code.rs\<close>) and what ties it to
  the assembler: every instruction the assembler writes is read back at the address it was given,
  with its jump targets turned into addresses.
\<close>

section \<open>Reading an instruction\<close>

text \<open>
  The reads of \<open>decode\<close> relative to the instruction: \<open>small\<close> is the closure of the source,
  \<open>wide\<close> is \<open>u32_at(code, at + offset)\<close> and \<open>byte\<close> is \<open>code[at + offset]\<close>, which the width check
  keeps inside the code.
\<close>

record reader =
  small_at :: "nat \<Rightarrow> u16 option"
  wide_at :: "nat \<Rightarrow> u32 option"
  byte_at :: "nat \<Rightarrow> u8 option"

definition reader :: "u8 list \<Rightarrow> nat \<Rightarrow> reader" where
  "reader code at = \<lparr>small_at = (\<lambda>offset. u16_at code (at + offset)),
     wide_at = (\<lambda>offset. u32_at code (at + offset)),
     byte_at = (\<lambda>offset. get_at code (at + offset))\<rparr>"

text \<open>\<open>u32::from(small(offset)?)\<close>.\<close>

definition name_at :: "reader \<Rightarrow> nat \<Rightarrow> u32 option" where
  "name_at r offset = map_option ucast (small_at r offset)"

definition assign_source :: "u8 \<Rightarrow> u16 \<Rightarrow> bin_operand" where
  "assign_source tag operand =
     (if tag = ASSIGN_LOCAL_FROM_CONST \<or> tag = ASSIGN_LOCAL_FROM_CONST_OP
      then OConst (ucast operand) else OLocal operand)"

definition local_at :: "reader \<Rightarrow> nat \<Rightarrow> bin_operand option" where
  "local_at r offset = map_option OLocal (small_at r offset)"

definition const_at :: "reader \<Rightarrow> nat \<Rightarrow> bin_operand option" where
  "const_at r offset = map_option OConst (name_at r offset)"

text \<open>\<open>Some(x?)\<close>: the field is there and has to be read.\<close>

definition present :: "'a option \<Rightarrow> 'a option option" where
  "present x = map_option Some x"

text \<open>The arms from \<open>ITER_NEXT_STORE\<close> to the end.\<close>

definition decode_last :: "u8 \<Rightarrow> reader \<Rightarrow> op option" where
  "decode_last t r =
    (if t = ITER_NEXT_STORE then do {body \<leftarrow> wide_at r 1; slot \<leftarrow> small_at r 5;
       Some (IterNextStore body slot)}
     else if t = STORE_SHARED then map_option StoreShared (small_at r 1)
     else if t = POP_HANDLER then Some PopHandler
     else if t = PUSH_HANDLER then do {to \<leftarrow> wide_at r 1; Some (PushHandler to None)}
     else if t = PUSH_HANDLER_VAR then do {to \<leftarrow> wide_at r 1; var \<leftarrow> name_at r 5;
       Some (PushHandler to (Some var))}
     else if t = RETURN then Some Return
     else if t = EVAL_AST then do {residual \<leftarrow> name_at r 1; Some (EvalAst residual True)}
     else if t = EVAL_AST_KEEP then do {residual \<leftarrow> name_at r 1; Some (EvalAst residual False)}
     else None)"

definition decode_bin_op_from :: "u8 \<Rightarrow> reader \<Rightarrow> op option" where
  "decode_bin_op_from t r = do {
     name \<leftarrow> name_at r 1;
     kind \<leftarrow> Option.bind (byte_at r 3) kind_of_byte;
     operator \<leftarrow> name_at r 4;
     lhs \<leftarrow> small_at r 6;
     rhs \<leftarrow> (if t \<in> {BIN_OP_FROM_LOCAL, BIN_OP_FROM_LOCAL_JF, BIN_OP_FROM_LOCAL_JT}
            then local_at r 8 else const_at r 8);
     branch \<leftarrow> (if t \<in> {BIN_OP_FROM_LOCAL_JF, BIN_OP_FROM_CONST_JF}
                 then present (do {to \<leftarrow> wide_at r 10; Some (Branch to False)})
               else if t \<in> {BIN_OP_FROM_LOCAL_JT, BIN_OP_FROM_CONST_JT}
                 then present (do {to \<leftarrow> wide_at r 10; Some (Branch to True)})
               else Some None);
     Some (BinOpFrom name operator kind lhs rhs branch)}"

text \<open>The arms from \<open>SWITCH\<close> to \<open>BIN_OP_FROM_CONST_JT\<close>.\<close>

definition decode_more :: "u8 \<Rightarrow> reader \<Rightarrow> op option" where
  "decode_more t r =
    (if t = SWITCH then map_option Switch (name_at r 1)
     else if t = MAKE_ARRAY then map_option MakeArray (small_at r 1)
     else if t = MAKE_MAP then map_option MakeMap (small_at r 1)
     else if t = CHECK_ARRAY_SIZE then do {index \<leftarrow> small_at r 1; Some (CheckSize index False)}
     else if t = CHECK_MAP_SIZE then do {index \<leftarrow> small_at r 1; Some (CheckSize index True)}
     else if t = SHARE then map_option Share (small_at r 1)
     else if t = SHARE_NAMED then map_option ShareNamed (name_at r 1)
     else if t = LOAD_SHARED then map_option LoadShared (small_at r 1)
     else if t = LOAD_SHARED_NAMED then map_option LoadSharedNamed (name_at r 1)
     else if t = MAKE_CLOSURE then map_option MakeClosure (name_at r 1)
     else if t = MAKE_FN_PTR then Some MakeFnPtr
     else if t = IS_SHARED then Some IsShared
     else if t = CURRY then map_option Curry (byte_at r 1)
     else if t = CALL_FN_PTR then do {argc \<leftarrow> byte_at r 1; Some (CallFnPtr argc False None)}
     else if t = CALL_FN_PTR_METHOD then do {argc \<leftarrow> byte_at r 1; Some (CallFnPtr argc True None)}
     else if t = CALL_FN_PTR_ON_LOCAL then do {argc \<leftarrow> byte_at r 1; slot \<leftarrow> small_at r 2;
       Some (CallFnPtr argc True (Some (RLocal slot)))}
     else if t = CALL_FN_PTR_ON_NAMED then do {argc \<leftarrow> byte_at r 1; var \<leftarrow> name_at r 2;
       Some (CallFnPtr argc True (Some (RNamed var)))}
     else if t = CALL_FN_PTR_ON_THIS then do {argc \<leftarrow> byte_at r 1;
       Some (CallFnPtr argc True (Some RThis))}
     else if t = INTERPOLATE_START then Some InterpolateStart
     else if t = INTERPOLATE_APPEND then Some InterpolateAppend
     else if t = INTERPOLATE_END then Some InterpolateEnd
     else if t = UNWIND_TO then map_option UnwindTo (small_at r 1)
     else if t = TICK then Some Tick
     else if t = CHECKPOINT then Some Checkpoint
     else if t = STATEMENT then map_option Statement (small_at r 1)
     else if t = THROW then Some Throw
     else if t = ITER_INIT then Some IterInit
     else if t = ITER_DROP then Some IterDrop
     else if t = ITER_NEXT then do {body \<leftarrow> wide_at r 1; Some (IterNext body False)}
     else if t = ITER_NEXT_INDEXED then do {body \<leftarrow> wide_at r 1; Some (IterNext body True)}
     else if t \<in> {BIN_OP_FROM_LOCAL, BIN_OP_FROM_CONST, BIN_OP_FROM_LOCAL_JF,
         BIN_OP_FROM_CONST_JF, BIN_OP_FROM_LOCAL_JT, BIN_OP_FROM_CONST_JT}
       then decode_bin_op_from t r
     else decode_last t r)"

text \<open>The index family: one operand layout, and the tag says which operands are there.\<close>

definition decode_index :: "u8 \<Rightarrow> reader \<Rightarrow> op option" where
  "decode_index t r = do {
     chain \<leftarrow> name_at r 1;
     slot \<leftarrow> small_at r 3;
     index \<leftarrow>
       (if t \<in> {INDEX_SET_FROM_LOCAL, INDEX_GET_FROM_LOCAL, INDEX_SET_FROM_LOCAL_VALUE_CONST,
            INDEX_SET_OP_FROM_LOCAL, INDEX_SET_OP_FROM_LOCAL_VALUE_CONST}
          then present (local_at r 5)
        else if t \<in> {INDEX_SET_FROM_CONST, INDEX_GET_FROM_CONST,
            INDEX_SET_FROM_CONST_VALUE_CONST, INDEX_SET_OP_FROM_CONST,
            INDEX_SET_OP_FROM_CONST_VALUE_CONST}
          then present (const_at r 5)
        else Some None);
     value \<leftarrow>
       (if t \<in> {INDEX_SET_FROM_LOCAL_VALUE_CONST, INDEX_SET_FROM_CONST_VALUE_CONST,
            INDEX_SET_OP_FROM_LOCAL_VALUE_CONST, INDEX_SET_OP_FROM_CONST_VALUE_CONST}
          then present (name_at r 7)
        else Some None);
     kind \<leftarrow>
       (if t = INDEX_SET_OP then map_option kind_of_byte (byte_at r 5)
        else if t \<in> {INDEX_SET_OP_FROM_LOCAL, INDEX_SET_OP_FROM_CONST}
          then map_option kind_of_byte (byte_at r 7)
        else if t \<in> {INDEX_SET_OP_FROM_LOCAL_VALUE_CONST, INDEX_SET_OP_FROM_CONST_VALUE_CONST}
          then map_option kind_of_byte (byte_at r 9)
        else Some None);
     Some (if t \<in> {INDEX_GET, INDEX_GET_FROM_LOCAL, INDEX_GET_FROM_CONST}
           then IndexGet chain slot index
           else IndexSet chain slot index value kind)}"

definition decode_bin_op :: "u8 \<Rightarrow> reader \<Rightarrow> op option" where
  "decode_bin_op t r = do {
     name \<leftarrow> name_at r 1;
     operator \<leftarrow> name_at r 4;
     kind \<leftarrow> Option.bind (byte_at r 3) kind_of_byte;
     rhs \<leftarrow> (if t \<in> {BIN_OP_RHS_LOCAL, BIN_OP_RHS_LOCAL_JF} then present (local_at r 6)
            else if t \<in> {BIN_OP_RHS_CONST, BIN_OP_RHS_CONST_JF} then present (const_at r 6)
            else Some None);
     branch \<leftarrow> (if t = BIN_OP_JF then present (wide_at r 6)
               else if t \<in> {BIN_OP_RHS_LOCAL_JF, BIN_OP_RHS_CONST_JF} then present (wide_at r 8)
               else Some None);
     Some (BinOp name operator kind rhs branch)}"

text \<open>The arms from \<open>CALL\<close> to the index family.\<close>

definition decode_calls :: "u8 \<Rightarrow> reader \<Rightarrow> op option" where
  "decode_calls t r =
    (if t \<in> {CALL, CALL_CAPTURE} then do {name \<leftarrow> name_at r 1; argc \<leftarrow> byte_at r 3;
       Some (Call name argc None (t = CALL_CAPTURE))}
     else if t = CALL_OP then do {name \<leftarrow> name_at r 1; argc \<leftarrow> byte_at r 3; token \<leftarrow> name_at r 4;
       Some (Call name argc (Some token) False)}
     else if t \<in> {BIN_OP, BIN_OP_RHS_LOCAL, BIN_OP_RHS_CONST, BIN_OP_JF, BIN_OP_RHS_LOCAL_JF,
         BIN_OP_RHS_CONST_JF} then decode_bin_op t r
     else if t \<in> {UN_OP, UN_OP_JF} then do {
       name \<leftarrow> name_at r 1;
       kind \<leftarrow> Option.bind (byte_at r 3) un_kind_of_byte;
       branch \<leftarrow> (if t = UN_OP_JF then present (wide_at r 4) else Some None);
       Some (UnOp name kind branch)}
     else if t \<in> {CALL_LOCAL_REF, CALL_LOCAL_REF_CAPTURE} then do {name \<leftarrow> name_at r 1;
       argc \<leftarrow> byte_at r 3; slot \<leftarrow> small_at r 4;
       Some (CallRef name argc (RLocal slot) (t = CALL_LOCAL_REF_CAPTURE))}
     else if t \<in> {CALL_THIS_REF, CALL_THIS_REF_CAPTURE} then do {name \<leftarrow> name_at r 1;
       argc \<leftarrow> byte_at r 3; Some (CallRef name argc RThis (t = CALL_THIS_REF_CAPTURE))}
     else if t \<in> {CALL_NAMED_REF, CALL_NAMED_REF_CAPTURE} then do {name \<leftarrow> name_at r 1;
       argc \<leftarrow> byte_at r 3; var \<leftarrow> name_at r 4;
       Some (CallRef name argc (RNamed var) (t = CALL_NAMED_REF_CAPTURE))}
     else if t = ROTATE then map_option Rotate (byte_at r 1)
     else if t \<in> {CHAIN, CHAIN_DISCARD} then do {chain \<leftarrow> name_at r 1;
       Some (Chain chain (t = CHAIN_DISCARD))}
     else if t \<in> {INDEX_SET, INDEX_SET_FROM_LOCAL, INDEX_SET_FROM_CONST, INDEX_GET,
         INDEX_GET_FROM_LOCAL, INDEX_GET_FROM_CONST, INDEX_SET_FROM_LOCAL_VALUE_CONST,
         INDEX_SET_FROM_CONST_VALUE_CONST, INDEX_SET_OP, INDEX_SET_OP_FROM_LOCAL,
         INDEX_SET_OP_FROM_CONST, INDEX_SET_OP_FROM_LOCAL_VALUE_CONST,
         INDEX_SET_OP_FROM_CONST_VALUE_CONST} then decode_index t r
     else decode_more t r)"

text \<open>The arms from \<open>CONST\<close> to \<open>SKIP_IF_NOT_UNIT\<close>.\<close>

definition decode_op :: "u8 \<Rightarrow> reader \<Rightarrow> op option" where
  "decode_op t r =
    (if t = CONST_TAG then map_option Const (name_at r 1)
     else if t = UNIT then Some Unit
     else if t = FALSE then Some (Bool False)
     else if t = TRUE then Some (Bool True)
     else if t = LOAD_LOCAL then map_option LoadLocal (small_at r 1)
     else if t = STORE_LOCAL then do {slot \<leftarrow> small_at r 1; Some (StoreLocal slot False)}
     else if t = STORE_CONST then do {slot \<leftarrow> small_at r 1; Some (StoreLocal slot True)}
     else if t = ASSIGN_LOCAL then do {slot \<leftarrow> small_at r 1; var \<leftarrow> name_at r 3;
       Some (AssignLocal slot var None)}
     else if t = ASSIGN_LOCAL_OP then do {slot \<leftarrow> small_at r 1; var \<leftarrow> name_at r 3;
       assign_op \<leftarrow> name_at r 5; Some (AssignLocal slot var (Some assign_op))}
     else if t \<in> {ASSIGN_LOCAL_FROM, ASSIGN_LOCAL_FROM_CONST} then do {slot \<leftarrow> small_at r 1;
       var \<leftarrow> name_at r 3; src \<leftarrow> small_at r 5;
       Some (AssignLocalFrom slot var None (assign_source t src))}
     else if t \<in> {ASSIGN_LOCAL_FROM_OP, ASSIGN_LOCAL_FROM_CONST_OP} then do {slot \<leftarrow> small_at r 1;
       var \<leftarrow> name_at r 3; assign_op \<leftarrow> name_at r 7; src \<leftarrow> small_at r 5;
       Some (AssignLocalFrom slot var (Some assign_op) (assign_source t src))}
     else if t = LOAD_NAMED then map_option LoadNamed (name_at r 1)
     else if t = ASSIGN_NAMED then do {name \<leftarrow> name_at r 1; Some (AssignNamed name None)}
     else if t = ASSIGN_NAMED_OP then do {name \<leftarrow> name_at r 1; assign_op \<leftarrow> name_at r 3;
       Some (AssignNamed name (Some assign_op))}
     else if t = LOAD_THIS then Some LoadThis
     else if t = LOAD_THIS_SHARED then Some LoadThisShared
     else if t = REQUIRE_THIS then Some RequireThis
     else if t = ASSIGN_THIS then Some (AssignThis None)
     else if t = ASSIGN_THIS_OP then do {assign_op \<leftarrow> name_at r 1; Some (AssignThis (Some assign_op))}
     else if t = DECLARE_LOCAL then do {name \<leftarrow> name_at r 1; Some (DeclareLocal name False)}
     else if t = DECLARE_CONST then do {name \<leftarrow> name_at r 1; Some (DeclareLocal name True)}
     else if t = POP then Some Pop
     else if t = JUMP then map_option Jump (wide_at r 1)
     else if t = JUMP_IF_TRUE then map_option JumpIfTrue (wide_at r 1)
     else if t = JUMP_IF_FALSE then map_option JumpIfFalse (wide_at r 1)
     else if t = SKIP_IF_NOT_UNIT then map_option SkipIfNotUnit (wide_at r 1)
     else decode_calls t r)"

definition decode :: "u8 list \<Rightarrow> nat \<Rightarrow> op option" where
  "decode code at = Option.bind (width code at) (\<lambda>_. decode_op (code ! at) (reader code at))"

function disassemble :: "u8 list \<Rightarrow> nat \<Rightarrow> (nat \<times> op) list" where
  "disassemble code at = (case decode code at of
       None \<Rightarrow> []
     | Some op \<Rightarrow> (case width code at of
         None \<Rightarrow> []
       | Some w \<Rightarrow> (at, op) # disassemble code (at + w)))"
  by pat_completeness auto
termination
  by (relation "measure (\<lambda>(code, at). length code - at)") (auto dest: width_bounds)

declare disassemble.simps [simp del]

section \<open>What survives assembly\<close>

text \<open>The instruction with its jump targets mapped.\<close>

definition map_target :: "(u32 \<Rightarrow> u32) \<Rightarrow> op \<Rightarrow> op" where
  "map_target f op = (case op of
       Jump to \<Rightarrow> Jump (f to)
     | JumpIfTrue to \<Rightarrow> JumpIfTrue (f to)
     | JumpIfFalse to \<Rightarrow> JumpIfFalse (f to)
     | SkipIfNotUnit to \<Rightarrow> SkipIfNotUnit (f to)
     | PushHandler to var \<Rightarrow> PushHandler (f to) var
     | IterNext body indexed \<Rightarrow> IterNext (f body) indexed
     | IterNextStore body slot \<Rightarrow> IterNextStore (f body) slot
     | BinOp name operator kind rhs branch \<Rightarrow> BinOp name operator kind rhs (map_option f branch)
     | UnOp name kind branch \<Rightarrow> UnOp name kind (map_option f branch)
     | BinOpFrom name operator kind lhs rhs branch \<Rightarrow>
         BinOpFrom name operator kind lhs rhs
           (map_option (\<lambda>b. Branch (f (branch_target b)) (taken_when b)) branch)
     | _ \<Rightarrow> op)"

text \<open>
  What the wire form has no room for: a call through an operator drops
  \<open>capture_parent_scope\<close>, and a function pointer called on a receiver is a method call whatever
  the instruction said.
\<close>

definition wire :: "op \<Rightarrow> op" where
  "wire op = (case op of
       Call name argc (Some token) _ \<Rightarrow> Call name argc (Some token) False
     | CallFnPtr argc _ (Some receiver) \<Rightarrow> CallFnPtr argc True (Some receiver)
     | _ \<Rightarrow> op)"

lemma width_local: "width (pre @ body) (length pre) = width body 0"
  by (simp add: width_def width_of_def get_at_def Let_def nth_append)

lemma reader_local: "reader (pre @ body) (length pre) = reader body 0"
  by (auto simp: reader_def u16_at_def u32_at_def get_at_def nth_append intro!: ext)

lemma decode_local: "decode (pre @ body) (length pre) = decode body 0"
  by (simp add: decode_def width_local reader_local nth_append)

lemmas widths_num = widths_tag [unfolded tag_defs]

lemma decode_Cons:
  "widths t = k \<Longrightarrow> 0 < k \<Longrightarrow> k \<le> Suc (length rest) \<Longrightarrow>
   decode (t # rest) 0 = decode_op t (reader (t # rest) 0) \<and> width (t # rest) 0 = Some k"
  by (simp add: decode_def width_def width_of_def get_at_def)

lemmas put_defs = put_op_def put_calls_def put_chains_def put_control_def index_set_tags_def

lemmas decode_defs =
  decode_op_def decode_calls_def decode_bin_op_def decode_index_def decode_more_def
  decode_bin_op_from_def decode_last_def

lemma small_reader [simp]: "small_at (reader code 0) k = u16_at code k"
  and wide_reader [simp]: "wide_at (reader code 0) k = u32_at code k"
  and byte_reader [simp]: "byte_at (reader code 0) k = get_at code k"
  by (simp_all add: reader_def)

lemmas read_defs =
  u16_at_def u32_at_def get_at_def name_at_def local_at_def const_at_def present_def
  assign_source_def le16_def le32_def of_le16_le16 of_le32_le32

lemmas put_simps = emit_Ok_Cons index_set_tags_def rbind_eq_Ok small_iff

lemmas here_simps =
  wire_def map_target_def encoded_width_def decode_def width_def width_of_def get_at_def widths_tag

text \<open>
  One lemma for each of the four runs of arms: what an arm writes, followed by anything, reads
  back as the instruction, and its width is the one \<open>encoded_width\<close> announced.
\<close>

lemmas assembler_splits =
  option.splits bin_operand.splits bool.splits branch.splits receiver.splits if_splits

text \<open>Which instructions each of the runs takes itself.\<close>

fun in_chains :: "op \<Rightarrow> bool" where
  "in_chains (Rotate _) = True"
| "in_chains (Chain _ _) = True"
| "in_chains (IndexSet _ _ _ _ _) = True"
| "in_chains (IndexGet _ _ _) = True"
| "in_chains (MakeArray _) = True"
| "in_chains (MakeMap _) = True"
| "in_chains (CheckSize _ _) = True"
| "in_chains (Share _) = True"
| "in_chains (ShareNamed _) = True"
| "in_chains (LoadShared _) = True"
| "in_chains (LoadSharedNamed _) = True"
| "in_chains (MakeClosure _) = True"
| "in_chains MakeFnPtr = True"
| "in_chains IsShared = True"
| "in_chains (Curry _) = True"
| "in_chains (CallFnPtr _ _ _) = True"
| "in_chains _ = False"

fun_cases in_chains_cases: "in_chains op"

fun in_calls :: "op \<Rightarrow> bool" where
  "in_calls (Call _ _ _ _) = True"
| "in_calls (BinOp _ _ _ _ _) = True"
| "in_calls (UnOp _ _ _) = True"
| "in_calls (CallRef _ _ _ _) = True"
| "in_calls _ = False"

fun_cases in_calls_cases: "in_calls op"

fun in_assigns :: "op \<Rightarrow> bool" where
  "in_assigns (AssignLocal _ _ _) = True"
| "in_assigns (AssignThis _) = True"
| "in_assigns (AssignNamed _ _) = True"
| "in_assigns (AssignLocalFrom _ _ _ _) = True"
| "in_assigns _ = False"

fun_cases in_assigns_cases: "in_assigns op"

fun in_op :: "op \<Rightarrow> bool" where
  "in_op (Const _) = True"
| "in_op Unit = True"
| "in_op (Bool _) = True"
| "in_op (LoadLocal _) = True"
| "in_op (StoreLocal _ _) = True"
| "in_op LoadThis = True"
| "in_op LoadThisShared = True"
| "in_op RequireThis = True"
| "in_op (LoadNamed _) = True"
| "in_op (DeclareLocal _ _) = True"
| "in_op Pop = True"
| "in_op (Jump _) = True"
| "in_op (JumpIfTrue _) = True"
| "in_op (JumpIfFalse _) = True"
| "in_op (SkipIfNotUnit _) = True"
| "in_op _ = False"

fun_cases in_op_cases: "in_op op"

lemma put_control_decode:
  assumes put: "put_control tgt op = Inr bytes" "bytes \<noteq> []"
    and f: "\<And>t a. tgt t = Inr a \<Longrightarrow> f t = a"
  shows "decode (bytes @ post) 0 = Some (wire (map_target f op)) \<and>
     width (bytes @ post) 0 = Some (length bytes) \<and> length bytes = encoded_width op"
  using assms
  by (cases op; auto simp: put_control_def put_simps here_simps split: assembler_splits;
    simp add: decode_defs tag_defs read_defs)

lemma put_chains_decode:
  assumes put: "put_chains tgt op = Inr bytes" "bytes \<noteq> []"
    and f: "\<And>t a. tgt t = Inr a \<Longrightarrow> f t = a"
  shows "decode (bytes @ post) 0 = Some (wire (map_target f op)) \<and>
     width (bytes @ post) 0 = Some (length bytes) \<and> length bytes = encoded_width op"
proof (cases "in_chains op")
  case True
  show ?thesis
      by (rule in_chains_cases [OF True])
        (insert put f, (auto simp: put_chains_def put_simps here_simps split: assembler_splits;
          simp add: decode_defs tag_defs read_defs)+)
next
  case False
  then have "put_chains tgt op = put_control tgt op"
    by (cases op) (simp_all add: put_chains_def)
  with assms show ?thesis by (intro put_control_decode) simp_all
qed

lemma put_calls_decode:
  assumes put: "put_calls tgt op = Inr bytes" "bytes \<noteq> []"
    and f: "\<And>t a. tgt t = Inr a \<Longrightarrow> f t = a"
  shows "decode (bytes @ post) 0 = Some (wire (map_target f op)) \<and>
     width (bytes @ post) 0 = Some (length bytes) \<and> length bytes = encoded_width op"
proof (cases "in_calls op")
  case True
  show ?thesis
  proof (rule in_calls_cases [OF True])
    fix name argc token capture assume "op = Call name argc token capture"
    with put f show ?thesis
      by (auto simp: put_calls_def put_simps here_simps split: assembler_splits;
        simp add: decode_defs tag_defs read_defs)
  next
    fix name argc receiver capture assume "op = CallRef name argc receiver capture"
    with put f show ?thesis
      by (cases receiver; cases capture; auto simp: put_calls_def put_simps here_simps split: assembler_splits;
        simp add: decode_defs tag_defs read_defs)
  next
    fix name operator kind rhs branch assume "op = BinOp name operator kind rhs branch"
    with put f show ?thesis
      by (auto simp: put_calls_def put_simps here_simps split: assembler_splits;
        simp add: decode_defs tag_defs read_defs)
  next
    fix name kind branch assume "op = UnOp name kind branch"
    with put f show ?thesis
      by (auto simp: put_calls_def put_simps here_simps split: assembler_splits;
        simp add: decode_defs tag_defs read_defs)
  qed
next
  case False
  then have "put_calls tgt op = put_chains tgt op"
    by (cases op) (simp_all add: put_calls_def)
  with assms show ?thesis by (intro put_chains_decode) simp_all
qed

lemma put_op_decode:
  assumes put: "put_op tgt op = Inr bytes" "bytes \<noteq> []"
    and f: "\<And>t a. tgt t = Inr a \<Longrightarrow> f t = a"
  shows "decode (bytes @ post) 0 = Some (wire (map_target f op)) \<and>
     width (bytes @ post) 0 = Some (length bytes) \<and> length bytes = encoded_width op"
proof -
  consider "in_op op" | "in_assigns op" | "\<not> in_op op" "\<not> in_assigns op" by blast
  then show ?thesis
  proof cases
    case 1
    show ?thesis
      by (rule in_op_cases [OF 1])
        (insert put f, (auto simp: put_op_def put_simps here_simps split: assembler_splits;
          simp add: decode_defs tag_defs read_defs)+)
  next
    case 2
    show ?thesis
      by (rule in_assigns_cases [OF 2])
        (insert put f, (auto simp: put_op_def put_simps here_simps split: assembler_splits;
          simp add: decode_defs tag_defs read_defs)+)
  next
    case 3
    then have "put_op tgt op = put_calls tgt op"
      by (cases op) (simp_all add: put_op_def)
    with assms show ?thesis by (intro put_calls_decode) simp_all
  qed
qed

lemma put_op_nonempty: "put_op tgt op = Inr bytes \<Longrightarrow> bytes \<noteq> []"
  by (cases op) (auto simp: put_defs put_simps split: assembler_splits)

section \<open>Assembling and reading back\<close>

text \<open>The instruction a chunk holds: its targets are the addresses of the layout.\<close>

definition relocated :: "u32 list \<Rightarrow> op \<Rightarrow> op" where
  "relocated offsets op = wire (map_target (\<lambda>t. offsets ! unat t) op)"

lemma put_op_target:
  assumes "put_op (target offsets index) op = Inr bytes"
  shows "decode (pre @ bytes @ post) (length pre) = Some (relocated offsets op) \<and>
    width (pre @ bytes @ post) (length pre) = Some (encoded_width op) \<and>
    length bytes = encoded_width op"
proof -
  have "target offsets index t = Inr a \<Longrightarrow> offsets ! unat t = a" for t a
    by (simp add: target_def get_at_Some)
  from put_op_decode [OF assms put_op_nonempty [OF assms] this] show ?thesis
    by (simp add: decode_local width_local relocated_def)
qed

lemma encoded_width_pos: "0 < encoded_width op"
  by (simp add: encoded_width_def split: op.splits option.splits receiver.splits)

lemma layout_Some:
  "layout ops at = Some offs \<Longrightarrow>
   length offs = Suc (length ops) \<and> hd offs = at \<and>
   last offs = at + sum_list (map encoded_width ops) \<and> (at < 2 ^ 32 \<longrightarrow> (\<forall>a\<in>set offs. a < 2 ^ 32))"
proof (induction ops arbitrary: "at" offs)
  case (Cons op ops)
  then obtain rest where rest: "layout ops (at + encoded_width op) = Some rest"
    and small: "at + encoded_width op < 2 ^ 32" and offs: "offs = at # rest"
    by (auto simp: Let_def split: if_splits)
  from Cons.IH [OF rest] small offs show ?case by auto
qed auto

lemma disassemble_step:
  "decode code at = Some op \<Longrightarrow> width code at = Some w \<Longrightarrow>
   disassemble code at = (at, op) # disassemble code (at + w)"
  by (simp add: disassemble.simps [of code "at"])

lemma decode_width: "decode code at = Some op \<Longrightarrow> \<exists>w. width code at = Some w"
  by (auto simp: decode_def bind_eq_Some_conv)

lemma disassemble_end [simp]: "disassemble code (length code) = []"
proof -
  have "decode code (length code) = None"
    by (simp add: decode_def width_def get_at_def)
  then show ?thesis by (simp add: disassemble.simps)
qed

lemma put_ops_decode:
  "put_ops offsets index ops = Inr bytes \<Longrightarrow> layout ops (length pre) = Some offs \<Longrightarrow>
   last offs = length pre + length bytes \<and>
   disassemble (pre @ bytes @ post) (length pre) =
     zip offs (map (relocated offsets) ops) @ disassemble (pre @ bytes @ post) (last offs)"
proof (induction ops arbitrary: index bytes pre offs)
  case Nil
  then show ?case by auto
next
  case (Cons op ops)
  from Cons.prems(1) obtain b rest where b: "put_op (target offsets index) op = Inr b"
    and rest: "put_ops offsets (index + 1) ops = Inr rest" and bytes: "bytes = b @ rest"
    by (auto simp: rbind_eq_Ok)
  note here = put_op_target [OF b, of pre "rest @ post"]
  from Cons.prems(2) obtain offs' where offs': "layout ops (length (pre @ b)) = Some offs'"
    and offs: "offs = length pre # offs'"
    using here by (auto simp: Let_def split: if_splits)
  from layout_Some [OF offs'] have "offs' \<noteq> []" by auto
  moreover have "disassemble (pre @ b @ rest @ post) (length pre) =
      (length pre, relocated offsets op) #
        disassemble (pre @ b @ rest @ post) (length pre + encoded_width op)"
    using here by (intro disassemble_step) auto
  ultimately show ?case
    using Cons.IH [OF rest offs'] here by (simp add: bytes offs)
qed

lemma assemble_Ok:
  assumes "assemble ops = Inr (code, offsets)"
  shows "length offsets = Suc (length ops)"
    and "unat (last offsets) = length code"
    and "length code = sum_list (map encoded_width ops)"
    and "disassemble code 0 = zip (map unat offsets) (map (relocated offsets) ops)"
proof -
  from assms obtain offs where offs: "layout ops 0 = Some offs"
    and offsets: "offsets = map of_nat offs" and code: "put_ops offsets 0 ops = Inr code"
    by (auto simp: assemble_def rbind_eq_Ok Let_def)
  from layout_Some [OF offs] have *: "length offs = Suc (length ops)"
    "last offs = sum_list (map encoded_width ops)" "\<forall>a\<in>set offs. a < 2 ^ 32" by auto
  then have u: "map unat offsets = offs"
    by (auto simp: offsets unat_of_nat take_bit_nat_eq_self intro!: map_idI)
  from put_ops_decode [OF code, where pre = "[]" and post = "[]"] offs
  have d: "last offs = length code"
    "disassemble code 0 = zip offs (map (relocated offsets) ops) @ disassemble code (last offs)"
    by simp_all
  show "length offsets = Suc (length ops)" by (simp add: offsets *)
  have "offs \<noteq> []" using * by auto
  then have "unat (last offsets) = last offs"
    using u by (metis last_map list.map_disc_iff)
  then show "unat (last offsets) = length code" by (simp add: d)
  show "length code = sum_list (map encoded_width ops)" using d * by simp
  show "disassemble code 0 = zip (map unat offsets) (map (relocated offsets) ops)"
    using d by (simp add: u)
qed

lemma disassemble_decode:
  "(a, op) \<in> set (disassemble code at) \<Longrightarrow> decode code a = Some op"
proof (induction code "at" rule: disassemble.induct)
  case (1 code "at")
  show ?case
  proof (cases "decode code at")
    case None
    with "1.prems" show ?thesis by (simp add: disassemble.simps)
  next
    case (Some op')
    then obtain w where w: "width code at = Some w" using decode_width by blast
    from "1.prems" "1.IH" [OF Some w] show ?thesis
      by (auto simp: disassemble_step [OF Some w] Some)
  qed
qed

lemma disassemble_sorted:
  "sorted_wrt (<) (map fst (disassemble code at)) \<and> (\<forall>(a, op)\<in>set (disassemble code at). at \<le> a \<and> a < length code)"
proof (induction code "at" rule: disassemble.induct)
  case (1 code "at")
  show ?case
  proof (cases "decode code at")
    case None
    then show ?thesis by (simp add: disassemble.simps)
  next
    case (Some op')
    then obtain w where w: "width code at = Some w" using decode_width by blast
    from "1.IH" [OF Some w] width_bounds [OF w] show ?thesis
      by (auto simp: disassemble_step [OF Some w])
  qed
qed


section \<open>When assembly succeeds\<close>

text \<open>
  The requirements on one instruction of a chunk of \<open>n\<close> instructions: pool indices fit a \<open>u16\<close>,
  targets name an instruction or the end, and a specialised write that names a value names its
  index.
\<close>

definition idx_fits :: "u32 \<Rightarrow> bool" where
  "idx_fits i \<longleftrightarrow> unat i < 2 ^ 16"

primrec operand_fits :: "bin_operand \<Rightarrow> bool" where
  "operand_fits (OLocal _) = True"
| "operand_fits (OConst i) = idx_fits i"

definition receiver_fits :: "receiver \<Rightarrow> bool" where
  "receiver_fits r = (case r of RNamed v \<Rightarrow> idx_fits v | _ \<Rightarrow> True)"

definition op_fits :: "nat \<Rightarrow> op \<Rightarrow> bool" where
  "op_fits n op = (case op of
       Const i \<Rightarrow> idx_fits i
     | LoadNamed i \<Rightarrow> idx_fits i
     | AssignNamed i assign_op \<Rightarrow> idx_fits i \<and> pred_option idx_fits assign_op
     | AssignLocal _ i assign_op \<Rightarrow> idx_fits i \<and> pred_option idx_fits assign_op
     | AssignLocalFrom _ i assign_op src \<Rightarrow>
         idx_fits i \<and> pred_option idx_fits assign_op \<and> operand_fits src
     | DeclareLocal i _ \<Rightarrow> idx_fits i
     | Jump t \<Rightarrow> unat t \<le> n
     | JumpIfTrue t \<Rightarrow> unat t \<le> n
     | JumpIfFalse t \<Rightarrow> unat t \<le> n
     | SkipIfNotUnit t \<Rightarrow> unat t \<le> n
     | Call i _ token _ \<Rightarrow> idx_fits i \<and> pred_option idx_fits token
     | CallRef i _ receiver _ \<Rightarrow> idx_fits i \<and> receiver_fits receiver
     | Switch i \<Rightarrow> idx_fits i
     | ShareNamed i \<Rightarrow> idx_fits i
     | LoadSharedNamed i \<Rightarrow> idx_fits i
     | AssignThis assign_op \<Rightarrow> pred_option idx_fits assign_op
     | MakeClosure i \<Rightarrow> idx_fits i
     | CallFnPtr _ _ receiver \<Rightarrow> pred_option receiver_fits receiver
     | Chain i _ \<Rightarrow> idx_fits i
     | EvalAst i _ \<Rightarrow> idx_fits i
     | PushHandler t var \<Rightarrow> unat t \<le> n \<and> pred_option idx_fits var
     | IterNext t _ \<Rightarrow> unat t \<le> n
     | IterNextStore t _ \<Rightarrow> unat t \<le> n
     | BinOp i operator _ rhs t \<Rightarrow> idx_fits i \<and> idx_fits operator \<and>
         pred_option operand_fits rhs \<and> pred_option (\<lambda>t. unat t \<le> n) t
     | IndexSet i _ index value _ \<Rightarrow> idx_fits i \<and> pred_option operand_fits index \<and>
         pred_option idx_fits value \<and> (value \<noteq> None \<longrightarrow> index \<noteq> None)
     | IndexGet i _ index \<Rightarrow> idx_fits i \<and> pred_option operand_fits index
     | UnOp i _ t \<Rightarrow> idx_fits i \<and> pred_option (\<lambda>t. unat t \<le> n) t
     | BinOpFrom i operator _ _ rhs branch \<Rightarrow> idx_fits i \<and> idx_fits operator \<and>
         operand_fits rhs \<and> pred_option (\<lambda>b. unat (branch_target b) \<le> n) branch
     | _ \<Rightarrow> True)"

definition succeeds :: "'e + 'a \<Rightarrow> bool" where
  "succeeds r \<longleftrightarrow> (case r of Inl _ \<Rightarrow> False | Inr _ \<Rightarrow> True)"

lemma succeeds_simps [simp]: "succeeds (Inr x)" "\<not> succeeds (Inl e)"
  by (simp_all add: succeeds_def)

lemma succeeds_iff: "succeeds r \<longleftrightarrow> (\<exists>x. r = Inr x)"
  by (cases r) auto

lemma succeeds_rbind: "succeeds (rbind r f) \<longleftrightarrow> (\<exists>x. r = Inr x \<and> succeeds (f x))"
  by (cases r) auto

lemma succeeds_emit: "succeeds (emit parts) \<longleftrightarrow> list_all succeeds parts"
proof (induction parts)
  case (Cons part parts)
  then show ?case by (cases part; cases "emit parts") simp_all
qed simp

lemma succeeds_put: "succeeds (p16 r) \<longleftrightarrow> succeeds r" "succeeds (p32 v) \<longleftrightarrow> succeeds v"
  by (cases r; simp add: p16_def) (cases v; simp add: p32_def)

lemma succeeds_popt: "succeeds (popt x f) \<longleftrightarrow> pred_option (\<lambda>v. succeeds (f v)) x"
  by (cases x) simp_all

lemma succeeds_small: "succeeds (small v what) \<longleftrightarrow> idx_fits v"
  by (simp add: small_def idx_fits_def)

lemma small_fits: "idx_fits v \<Longrightarrow> small v what = Ok (ucast v)"
  by (simp add: small_def idx_fits_def)

lemma small_idx: "small v what = Ok w \<Longrightarrow> idx_fits v"
  using succeeds_small [of v what] by simp

lemma succeeds_target:
  "length offsets = Suc n \<Longrightarrow> succeeds (target offsets index t) \<longleftrightarrow> unat t \<le> n"
  by (auto simp: target_def get_at_def less_Suc_eq_le)

lemma succeeds_operand: "succeeds (operand_index b) \<longleftrightarrow> operand_fits b"
  by (cases b) (simp_all add: succeeds_small)

lemmas succeeds_put_simps =
  succeeds_emit succeeds_put succeeds_popt succeeds_small succeeds_operand succeeds_rbind

lemma succeeds_put_op:
  assumes n: "length offsets = Suc n"
  shows "succeeds (put_op (target offsets index) op) \<longleftrightarrow> op_fits n op"
  by (cases op) (auto simp del: emit.simps simp: put_defs op_fits_def succeeds_put_simps
      succeeds_target [OF n] rbind_eq_Ok small_fits receiver_fits_def option.pred_True
      CALL_FN_PTR_ON_LOCAL_def CALL_FN_PTR_ON_NAMED_def CALL_FN_PTR_ON_THIS_def
      dest: small_idx intro: exI [of _ "63 :: u8"] exI [of _ "64 :: u8"] exI [of _ "65 :: u8"]
      split: assembler_splits)

lemma layout_succeeds:
  "at < 2 ^ 32 \<Longrightarrow> (\<exists>offs. layout ops at = Some offs) \<longleftrightarrow>
   at + sum_list (map encoded_width ops) < 2 ^ 32"
proof (induction ops arbitrary: "at")
  case (Cons op ops)
  then show ?case
    by (cases "at + encoded_width op < 2 ^ 32") (auto simp: Let_def add.assoc)
qed simp

lemma succeeds_put_ops:
  assumes n: "length offsets = Suc n"
  shows "succeeds (put_ops offsets index ops) \<longleftrightarrow> list_all (op_fits n) ops"
proof (induction ops arbitrary: index)
  case (Cons op ops)
  have *: "succeeds (put_op (target offsets index) op) = op_fits n op"
    using n by (rule succeeds_put_op)
  show ?case
  proof (cases "put_op (target offsets index) op")
    case (Inl e)
    with * show ?thesis by simp
  next
    case (Inr b)
    with * Cons.IH [of "Suc index"] show ?thesis
      by (cases "put_ops offsets (Suc index) ops") simp_all
  qed
qed simp

section \<open>Properties\<close>

text \<open>
  C9. What the compiler emitted is what comes back: disassembling an assembled chunk gives every
  instruction, in order, at the address the layout gave it, its jump targets turned into those
  addresses; only the two fields the wire form has no room for are normalised (\<open>wire\<close>). The walk
  ends exactly at the end of the code.
\<close>

theorem assemble_disassemble:
  assumes "assemble ops = Ok (code, offsets)"
  shows "disassemble code 0 = zip (map unat offsets) (map (relocated offsets) ops) \<and>
    length offsets = Suc (length ops) \<and> unat (last offsets) = length code \<and>
    length code = sum_list (map encoded_width ops)"
  using assemble_Ok [OF assms] by simp

theorem assemble_disassemble_witness:
  "assemble [LoadLocal 3, JumpIfFalse 3, Unit, Return] =
     Ok ([0x05, 3, 0, 0x0e, 9, 0, 0, 0, 0x02, 0x13], [0, 3, 8, 9, 10]) \<and>
   disassemble [0x05, 3, 0, 0x0e, 9, 0, 0, 0, 0x02, 0x13] 0 =
     [(0, LoadLocal 3), (3, JumpIfFalse 9), (8, Unit), (9, Return)]"
proof -
  have a: "assemble [LoadLocal 3, JumpIfFalse 3, Unit, Return] =
      Ok ([0x05, 3, 0, 0x0e, 9, 0, 0, 0, 0x02, 0x13], [0, 3, 8, 9, 10])"
    by (simp add: assemble_def encoded_width_def put_defs p16_def p32_def le16_def le32_def
        target_def get_at_def tag_defs)
  show ?thesis
    unfolding assemble_disassemble [OF a, THEN conjunct1]
    by (simp add: a relocated_def wire_def map_target_def)
qed

text \<open>
  C10. Assembly fails only for the reasons it names: it succeeds exactly when the chunk is smaller
  than \<open>2 ^ 32\<close> bytes, every pool index fits a \<open>u16\<close>, every jump names an instruction or the end,
  and no specialised write names a value without its index.
\<close>

theorem assemble_succeeds:
  "(\<exists>r. assemble ops = Ok r) = (sum_list (map encoded_width ops) < 2 ^ 32 \<and>
     list_all (op_fits (length ops)) ops)"
proof (cases "layout ops 0")
  case None
  then show ?thesis using layout_succeeds [of 0 ops] by (simp add: assemble_def)
next
  case (Some offs)
  from layout_Some [OF Some] have "length (map of_nat offs :: u32 list) = Suc (length ops)" by simp
  from succeeds_put_ops [OF this, of 0 ops] Some layout_succeeds [of 0 ops] show ?thesis
    by (cases "put_ops (map of_nat offs) 0 ops") (auto simp: assemble_def)
qed

end
