(* ===== verification/Chains.thy ===== *)
theory Chains
  imports Position
begin

text \<open>
  Chains (\<open>src/grain/bytecode/chain.rs\<close>): one instruction that walks \<open>a.b[i].c()\<close> from a root
  through its steps to a read or an assignment, with the positions its steps carry.
\<close>

section \<open>The record\<close>

type_synonym step_flags = u8

definition SKIP_IF_UNIT :: step_flags where
  "SKIP_IF_UNIT = 1"

datatype step =
    Index u16 step_flags position position
  | Property u32 u32 u32 step_flags position
  | Method u32 u8 u16 step_flags position

datatype tail = Read | Assign "u32 option"

datatype root = LocalRoot u16 u32 | NamedRoot u32 position | ThisRoot position | Temporary

record chain =
  root :: root
  steps :: "step list"
  tail :: tail
  operands :: u16

section \<open>What a chain takes and carries\<close>

fun step_pos :: "step \<Rightarrow> position" where
  "step_pos (Index operand flags pos bracket) = pos"
| "step_pos (Property name getter setter flags pos) = pos"
| "step_pos (Method name argc operand flags pos) = pos"

fun step_position_slots :: "step \<Rightarrow> nat" where
  "step_position_slots (Index _ _ _ _) = 2"
| "step_position_slots (Property _ _ _ _ _) = 1"
| "step_position_slots (Method _ _ _ _ _) = 1"

fun root_position_slots :: "root \<Rightarrow> nat" where
  "root_position_slots (NamedRoot _ _) = 1"
| "root_position_slots (ThisRoot _) = 1"
| "root_position_slots (LocalRoot _ _) = 0"
| "root_position_slots Temporary = 0"

definition assigns :: "chain \<Rightarrow> bool" where
  "assigns c = (case tail c of Assign _ \<Rightarrow> True | Read \<Rightarrow> False)"

definition roots_on_stack :: "chain \<Rightarrow> bool" where
  "roots_on_stack c = (case root c of
       LocalRoot _ _ \<Rightarrow> False | NamedRoot _ _ \<Rightarrow> False | ThisRoot _ \<Rightarrow> False
     | Temporary \<Rightarrow> True)"

definition consumes :: "chain \<Rightarrow> nat" where
  "consumes c = unat (operands c) + of_bool (roots_on_stack c) + of_bool (assigns c)"

definition position_slots :: "chain \<Rightarrow> nat" where
  "position_slots c =
     root_position_slots (root c) + sum_list (map step_position_slots (steps c))"

definition step_slot :: "chain \<Rightarrow> nat \<Rightarrow> nat option" where
  "step_slot c index =
     (if index < length (steps c)
      then Some (root_position_slots (root c) +
        sum_list (map step_position_slots (take index (steps c))))
      else None)"

fun step_positions :: "step \<Rightarrow> position list" where
  "step_positions (Index _ _ pos bracket) = [pos, bracket]"
| "step_positions (Property _ _ _ _ pos) = [pos]"
| "step_positions (Method _ _ _ _ pos) = [pos]"

fun root_positions :: "root \<Rightarrow> position list" where
  "root_positions (NamedRoot _ pos) = [pos]"
| "root_positions (ThisRoot pos) = [pos]"
| "root_positions (LocalRoot _ _) = []"
| "root_positions Temporary = []"

definition positions :: "chain \<Rightarrow> position list" where
  "positions c = root_positions (root c) @ concat (map step_positions (steps c))"

text \<open>
  \<open>positions_mut\<close>, as the writes its one caller makes through it: the positions of the chain
  replaced, in order, by those of a list; what the list leaves over is returned.
\<close>

fun set_step_positions :: "step \<Rightarrow> position list \<Rightarrow> step \<times> position list" where
  "set_step_positions (Index operand flags _ _) (pos # bracket # rest) =
     (Index operand flags pos bracket, rest)"
| "set_step_positions (Index operand flags _ bracket) [pos] = (Index operand flags pos bracket, [])"
| "set_step_positions (Property name getter setter flags _) (pos # rest) =
     (Property name getter setter flags pos, rest)"
| "set_step_positions (Method name argc operand flags _) (pos # rest) =
     (Method name argc operand flags pos, rest)"
| "set_step_positions step [] = (step, [])"

fun set_root_positions :: "root \<Rightarrow> position list \<Rightarrow> root \<times> position list" where
  "set_root_positions (NamedRoot name _) (pos # rest) = (NamedRoot name pos, rest)"
| "set_root_positions (ThisRoot _) (pos # rest) = (ThisRoot pos, rest)"
| "set_root_positions r rest = (r, rest)"

fun set_steps_positions :: "step list \<Rightarrow> position list \<Rightarrow> step list \<times> position list" where
  "set_steps_positions [] ps = ([], ps)"
| "set_steps_positions (s # ss) ps =
     (let (s', ps) = set_step_positions s ps; (ss', ps) = set_steps_positions ss ps
      in (s' # ss', ps))"

definition set_positions :: "chain \<Rightarrow> position list \<Rightarrow> chain \<times> position list" where
  "set_positions c ps =
     (let (r, ps) = set_root_positions (root c) ps; (ss, ps) = set_steps_positions (steps c) ps
      in (c\<lparr>root := r, steps := ss\<rparr>, ps))"

definition mutates :: "chain \<Rightarrow> bool" where
  "mutates c \<longleftrightarrow> assigns c \<or>
     list_ex (\<lambda>step. case step of Method _ _ _ _ _ \<Rightarrow> True | _ \<Rightarrow> False) (steps c)"

section \<open>Slots and positions agree\<close>

lemma length_step_positions [simp]: "length (step_positions s) = step_position_slots s"
  by (cases s) simp_all

lemma length_root_positions [simp]: "length (root_positions r) = root_position_slots r"
  by (cases r) simp_all

lemma length_steps_positions [simp]:
  "length (concat (map step_positions ss)) = sum_list (map step_position_slots ss)"
  by (induction ss) simp_all

lemma length_positions: "length (positions c) = position_slots c"
  by (simp add: positions_def position_slots_def)

lemma step_positions_Cons: "\<exists>rest. step_positions s = step_pos s # rest"
  by (cases s) simp_all

lemma positions_step_slot:
  assumes "step_slot c i = Some k"
  shows "k < position_slots c" and "positions c ! k = step_pos (steps c ! i)"
proof -
  let ?before = "concat (map step_positions (take i (steps c)))"
  from assms have i: "i < length (steps c)"
    and k: "k = length (root_positions (root c) @ ?before)"
    by (auto simp: step_slot_def split: if_splits)
  obtain rest where rest: "step_positions (steps c ! i) = step_pos (steps c ! i) # rest"
    using step_positions_Cons by blast
  have "steps c = take i (steps c) @ steps c ! i # drop (Suc i) (steps c)"
    using i by (rule id_take_nth_drop)
  then have "positions c = (root_positions (root c) @ ?before) @ step_pos (steps c ! i) #
      rest @ concat (map step_positions (drop (Suc i) (steps c)))"
    unfolding positions_def using rest
    by (metis append.assoc append_Cons concat.simps(2) concat_append list.simps(9) map_append)
  then have "positions c ! k = step_pos (steps c ! i) \<and> k < length (positions c)"
    unfolding k by (simp only: nth_append_length) simp
  then show "k < position_slots c" and "positions c ! k = step_pos (steps c ! i)"
    by (simp_all add: length_positions)
qed

lemma set_step_positions:
  "step_position_slots s \<le> length ps \<Longrightarrow>
   \<exists>s'. set_step_positions s ps = (s', drop (step_position_slots s) ps) \<and>
     step_positions s' = take (step_position_slots s) ps \<and>
     step_position_slots s' = step_position_slots s"
  by (cases "(s, ps)" rule: set_step_positions.cases; cases s) (auto simp: numeral_2_eq_2)

lemma set_root_positions:
  "root_position_slots r \<le> length ps \<Longrightarrow>
   \<exists>r'. set_root_positions r ps = (r', drop (root_position_slots r) ps) \<and>
     root_positions r' = take (root_position_slots r) ps"
  by (cases "(r, ps)" rule: set_root_positions.cases; cases r) auto

lemma set_steps_positions:
  "sum_list (map step_position_slots ss) \<le> length ps \<Longrightarrow>
   \<exists>ss'. set_steps_positions ss ps = (ss', drop (sum_list (map step_position_slots ss)) ps) \<and>
     concat (map step_positions ss') = take (sum_list (map step_position_slots ss)) ps"
proof (induction ss arbitrary: ps)
  case (Cons s ss)
  from Cons.prems set_step_positions [of s ps] obtain s' where
    s': "set_step_positions s ps = (s', drop (step_position_slots s) ps)"
    "step_positions s' = take (step_position_slots s) ps" by auto
  from Cons.prems have
    "sum_list (map step_position_slots ss) \<le> length (drop (step_position_slots s) ps)" by simp
  from Cons.IH [OF this] obtain ss' where
    "set_steps_positions ss (drop (step_position_slots s) ps) =
       (ss', drop (sum_list (map step_position_slots ss)) (drop (step_position_slots s) ps))"
    "concat (map step_positions ss') =
       take (sum_list (map step_position_slots ss)) (drop (step_position_slots s) ps)"
    by blast
  with s' show ?case by (simp add: take_add add.commute)
qed simp

lemma set_positions:
  assumes "position_slots c \<le> length ps"
  shows "positions (fst (set_positions c ps)) = take (position_slots c) ps \<and>
    snd (set_positions c ps) = drop (position_slots c) ps"
proof -
  let ?n = "root_position_slots (root c)"
  from assms have n: "?n \<le> length ps"
    and m: "sum_list (map step_position_slots (steps c)) \<le> length (drop ?n ps)"
    by (simp_all add: position_slots_def)
  from set_root_positions [OF n] set_steps_positions [OF m] show ?thesis
    by (auto simp: set_positions_def positions_def position_slots_def take_add add.commute)
qed

end
