(* ===== verification/Switches.thy ===== *)
theory Switches
  imports Assemble
begin

text \<open>
  \<open>switch\<close> tables (\<open>src/grain/bytecode/switch.rs\<close>): the hashed cases, the disjoint ranges and the
  default, with the open-addressed index a lookup reads. Hashing, hashability and range membership
  of a script value are arguments of the operations that use them.
\<close>

section \<open>The table\<close>

record switch_case =
  case_hash :: u64
  case_goto :: u32

record switch_range =
  range_from :: int
  range_to :: int
  inclusive :: bool
  range_goto :: u32

record bucket =
  bucket_hash :: u64
  bucket_target :: "u32 option"

record switch =
  switch_cases :: "switch_case list"
  switch_ranges :: "switch_range list"
  switch_default :: u32
  case_index :: "bucket list"
  int_keys :: "int option list"

section \<open>The index\<close>

definition empty_bucket :: bucket where
  "empty_bucket = \<lparr>bucket_hash = 0, bucket_target = None\<rparr>"

text \<open>\<open>usize::checked_next_power_of_two\<close> at 64 bits.\<close>

definition checked_next_power_of_two :: "nat \<Rightarrow> nat option" where
  "checked_next_power_of_two n =
     find (\<lambda>p. n \<le> p) (map (\<lambda>k. 2 ^ k) [0..<64])"

definition capacity :: "nat \<Rightarrow> nat option" where
  "capacity n = (if 2 * n < 2 ^ 64 then checked_next_power_of_two (2 * n) else None)"

text \<open>
  The \<open>loop\<close> that places one case. Nothing in it bounds the steps, so it runs on fuel and \<open>None\<close>
  is a loop that has not ended; \<open>place_ends\<close> below shows that a capacity's worth of fuel always
  suffices.
\<close>

fun place :: "nat \<Rightarrow> nat \<Rightarrow> switch_case \<Rightarrow> bucket list \<Rightarrow> nat \<Rightarrow> bucket list option" where
  "place 0 msk c ix at = None"
| "place (Suc fuel) msk c ix at =
     (let slot = ix ! at in
      if bucket_target slot = None then
        Some (ix[at := \<lparr>bucket_hash = case_hash c, bucket_target = Some (case_goto c)\<rparr>])
      else if bucket_hash slot = case_hash c then Some ix
      else place fuel msk c ix ((at + 1) AND msk))"

fun place_all :: "nat \<Rightarrow> switch_case list \<Rightarrow> bucket list \<Rightarrow> bucket list option" where
  "place_all cap [] ix = Some ix"
| "place_all cap (c # cs) ix =
     Option.bind (place cap (cap - 1) c ix (unat (case_hash c) AND (cap - 1)))
       (place_all cap cs)"

definition build_index :: "switch_case list \<Rightarrow> bucket list option" where
  "build_index cs =
     (if cs = [] then Some []
      else case capacity (length cs) of
        None \<Rightarrow> Some []
      | Some cap \<Rightarrow> place_all cap cs (replicate cap empty_bucket))"

section \<open>Building, rewriting and reading a table\<close>

text \<open>\<open>int_key_for_hash\<close>: the first integer of the window with the hash.\<close>

definition int_key_for_hash :: "(int \<Rightarrow> u64) \<Rightarrow> u64 \<Rightarrow> int option" where
  "int_key_for_hash hash_int hash = find (\<lambda>k. hash_int k = hash) [-256..256]"

definition new_switch ::
  "(int \<Rightarrow> u64) \<Rightarrow> switch_case list \<Rightarrow> switch_range list \<Rightarrow> u32 \<Rightarrow> switch option" where
  "new_switch hash_int cs rs d =
     Option.bind (build_index cs) (\<lambda>ix.
       Some \<lparr>switch_cases = cs, switch_ranges = rs, switch_default = d, case_index = ix,
         int_keys = map (\<lambda>c. int_key_for_hash hash_int (case_hash c)) cs\<rparr>)"

definition int_key :: "switch \<Rightarrow> nat \<Rightarrow> int option" where
  "int_key s i = Option.bind (get_at (int_keys s) i) (\<lambda>k. k)"

text \<open>
  \<open>retarget\<close>: one pass over the cases, the ranges and the default, stopping at the first refusal
  with what was rewritten before it kept; the index is rebuilt either way.
\<close>

fun walk_targets ::
  "(u32 \<Rightarrow> 'e + u32) \<Rightarrow> ('a \<Rightarrow> u32) \<Rightarrow> (u32 \<Rightarrow> 'a \<Rightarrow> 'a) \<Rightarrow> 'a list \<Rightarrow> 'a list \<times> ('e + unit)" where
  "walk_targets resolve get put [] = ([], Ok ())"
| "walk_targets resolve get put (x # xs) = (case resolve (get x) of
       Inl e \<Rightarrow> (x # xs, Err e)
     | Inr t \<Rightarrow> (let (ys, r) = walk_targets resolve get put xs in (put t x # ys, r)))"

definition retarget :: "(u32 \<Rightarrow> 'e + u32) \<Rightarrow> switch \<Rightarrow> (switch \<times> ('e + unit)) option" where
  "retarget resolve s =
     (let (cs, r1) = walk_targets resolve case_goto (\<lambda>t c. c\<lparr>case_goto := t\<rparr>) (switch_cases s);
          (rs, r2) = (case r1 of Inl e \<Rightarrow> (switch_ranges s, Err e) | Inr _ \<Rightarrow>
             walk_targets resolve range_goto (\<lambda>t r. r\<lparr>range_goto := t\<rparr>) (switch_ranges s));
          (d, r3) = (case r2 of Inl e \<Rightarrow> (switch_default s, Err e) | Inr _ \<Rightarrow>
             (case resolve (switch_default s) of Inl e \<Rightarrow> (switch_default s, Err e) | Inr t \<Rightarrow> (t, Ok ())))
      in Option.bind (build_index cs) (\<lambda>ix.
        Some (s\<lparr>switch_cases := cs, switch_ranges := rs, switch_default := d, case_index := ix\<rparr>, r3)))"

text \<open>
  \<open>resolve_switch_targets\<close> of \<open>src/grain/bytecode/code.rs\<close>: the other half of \<open>assemble\<close>.
\<close>

fun resolve_switch_targets ::
  "u32 list \<Rightarrow> nat \<Rightarrow> switch list \<Rightarrow> (switch list \<times> (assemble_error + unit)) option" where
  "resolve_switch_targets offsets table [] = Some ([], Ok ())"
| "resolve_switch_targets offsets table (s # ss) =
     Option.bind (retarget (\<lambda>t. ok_or (SwitchTargetOutOfRange table t) (get_at offsets (unat t))) s)
       (\<lambda>(s, r). case r of
           Inl e \<Rightarrow> Some (s # ss, Err e)
         | Inr _ \<Rightarrow> Option.bind (resolve_switch_targets offsets (table + 1) ss)
             (\<lambda>(ss, r). Some (s # ss, r)))"

fun probe :: "nat \<Rightarrow> bucket list \<Rightarrow> u64 \<Rightarrow> nat \<Rightarrow> u32 option" where
  "probe 0 ix hash at = None"
| "probe (Suc n) ix hash at = (case get_at ix at of
       None \<Rightarrow> None
     | Some slot \<Rightarrow> (case bucket_target slot of
         None \<Rightarrow> None
       | Some t \<Rightarrow>
           if bucket_hash slot = hash then Some t
           else probe n ix hash ((at + 1) AND (length ix - 1))))"

definition case_target_indexed :: "switch \<Rightarrow> u64 \<Rightarrow> u32 option" where
  "case_target_indexed s hash =
     (if case_index s = [] then map_option case_goto (find (\<lambda>c. case_hash c = hash) (switch_cases s))
      else probe (length (case_index s)) (case_index s) hash (unat hash AND (length (case_index s) - 1)))"

definition case_target :: "switch \<Rightarrow> u64 \<Rightarrow> u32 option" where
  "case_target s hash = case_target_indexed s hash"

text \<open>\<open>partition_point\<close> of a slice the predicate partitions.\<close>

definition case_target_bisected :: "switch \<Rightarrow> u64 \<Rightarrow> u32 option" where
  "case_target_bisected s hash =
     (let at = length (takeWhile (\<lambda>c. case_hash c < hash) (switch_cases s)) in
      case get_at (switch_cases s) at of
        None \<Rightarrow> None
      | Some c \<Rightarrow> if case_hash c = hash then Some (case_goto c) else None)"

definition dispatch ::
  "('v \<Rightarrow> bool) \<Rightarrow> ('v \<Rightarrow> u64) \<Rightarrow> (switch_range \<Rightarrow> 'v \<Rightarrow> bool) \<Rightarrow> switch \<Rightarrow> 'v \<Rightarrow> u32" where
  "dispatch is_hashable hash_of contains s subject =
     (if \<not> is_hashable subject then switch_default s
      else case case_target s (hash_of subject) of
          Some t \<Rightarrow> t
        | None \<Rightarrow> (case find (\<lambda>r. contains r subject) (switch_ranges s) of
            Some r \<Rightarrow> range_goto r
          | None \<Rightarrow> switch_default s))"

section \<open>Open addressing\<close>

lemma and_mask_nat: "(n :: nat) AND (2 ^ k - 1) = n mod 2 ^ k"
  using take_bit_eq_mask [of k n] by (simp add: take_bit_eq_mod mask_eq_exp_minus_1)

lemmas and_mask_Suc = and_mask_nat [unfolded One_nat_def]

text \<open>
  The slot at step \<open>i\<close> of the walk for \<open>h\<close> in a table of capacity \<open>c\<close>, and the invariant: a case
  sits where its walk meets it before any empty slot and before any other copy of its hash.
\<close>

definition slot_at :: "nat \<Rightarrow> bucket list \<Rightarrow> u64 \<Rightarrow> nat \<Rightarrow> bucket" where
  "slot_at c t h i = t ! ((unat h + i) mod c)"

definition holds :: "bucket \<Rightarrow> u64 \<Rightarrow> bool" where
  "holds b h \<longleftrightarrow> bucket_target b \<noteq> None \<and> bucket_hash b = h"

definition reachable_index :: "nat \<Rightarrow> bucket list \<Rightarrow> bool" where
  "reachable_index c t \<longleftrightarrow> length t = c \<and>
     (\<forall>h i. i < c \<longrightarrow> holds (slot_at c t h i) h \<longrightarrow>
       (\<forall>j<i. bucket_target (slot_at c t h j) \<noteq> None \<and> bucket_hash (slot_at c t h j) \<noteq> h))"

definition occupied :: "bucket list \<Rightarrow> nat" where
  "occupied t = length (filter (\<lambda>b. bucket_target b \<noteq> None) t)"

lemma slot_at_surj:
  assumes "j < c"
  shows "\<exists>i<c. slot_at c t h i = t ! j"
proof -
  let ?r = "unat h mod c"
  have "?r < c" using assms by simp
  have "(unat h + (j + c - ?r) mod c) mod c = (?r + (j + c - ?r)) mod c"
    by (simp add: mod_add_left_eq mod_add_right_eq)
  also have "?r + (j + c - ?r) = j + c" using \<open>?r < c\<close> by simp
  also have "(j + c) mod c = j" using assms by simp
  finally have "slot_at c t h ((j + c - ?r) mod c) = t ! j" by (simp add: slot_at_def)
  then show ?thesis using assms by (intro exI [of _ "(j + c - ?r) mod c"]) simp
qed

lemma empty_slot:
  assumes "occupied t < length t"
  shows "\<exists>i<length t. bucket_target (slot_at (length t) t h i) = None"
proof -
  have "\<exists>j<length t. bucket_target (t ! j) = None"
  proof (rule ccontr)
    assume "\<not> ?thesis"
    then have "filter (\<lambda>b. bucket_target b \<noteq> None) t = t"
      by (auto simp: filter_id_conv in_set_conv_nth)
    with assms show False by (simp add: occupied_def)
  qed
  then obtain j where "j < length t" "bucket_target (t ! j) = None" by blast
  with slot_at_surj [of j "length t" t h] show ?thesis by force
qed


lemma capacity_Some:
  assumes "capacity n = Some c"
  obtains k where "c = 2 ^ k" "2 * n \<le> c"
proof -
  from assms have "find (\<lambda>p. 2 * n \<le> p) (map (\<lambda>k. 2 ^ k) [0..<64]) = Some c"
    by (auto simp: capacity_def checked_next_power_of_two_def split: if_splits)
  then obtain i where "i < 64" "c = map (\<lambda>k. 2 ^ k) [0..<64] ! i" "2 * n \<le> c"
    unfolding find_Some_iff by auto
  then show ?thesis by (intro that [of i]) simp_all
qed

text \<open>Placing a case: the walk from step \<open>i\<close> ends at the first slot that is empty or has the hash.\<close>

lemma place_walk:
  assumes c: "c = 2 ^ k" and t: "length t = c"
    and stop: "bucket_target (slot_at c t (case_hash a) n) = None \<or>
      bucket_hash (slot_at c t (case_hash a) n) = case_hash a"
    and walk: "\<forall>j. i \<le> j \<and> j < n \<longrightarrow> bucket_target (slot_at c t (case_hash a) j) \<noteq> None \<and>
      bucket_hash (slot_at c t (case_hash a) j) \<noteq> case_hash a"
    and i: "i \<le> n" and fuel: "n - i < fuel"
  shows "place fuel (c - 1) a t ((unat (case_hash a) + i) mod c) =
    Some (if bucket_target (slot_at c t (case_hash a) n) = None
      then t[(unat (case_hash a) + n) mod c :=
        \<lparr>bucket_hash = case_hash a, bucket_target = Some (case_goto a)\<rparr>] else t)"
  using walk i fuel
proof (induction "n - i" arbitrary: i fuel)
  case 0
  then obtain fuel' where "fuel = Suc fuel'" by (cases fuel) auto
  with 0 stop show ?case by (auto simp: slot_at_def Let_def)
next
  case (Suc m)
  then obtain fuel' where fuel': "fuel = Suc fuel'" by (cases fuel) auto
  have "i < n" using Suc.hyps by simp
  with Suc.prems have here: "bucket_target (slot_at c t (case_hash a) i) \<noteq> None"
    "bucket_hash (slot_at c t (case_hash a) i) \<noteq> case_hash a" by auto
  have step: "((unat (case_hash a) + i) mod c + 1) AND (c - 1) = (unat (case_hash a) + Suc i) mod c"
    unfolding c and_mask_nat by (simp add: mod_Suc_eq)
  have "place fuel' (c - 1) a t ((unat (case_hash a) + Suc i) mod c) = 
     Some (if bucket_target (slot_at c t (case_hash a) n) = None
      then t[(unat (case_hash a) + n) mod c :=
        \<lparr>bucket_hash = case_hash a, bucket_target = Some (case_goto a)\<rparr>] else t)"
    using Suc.hyps Suc.prems fuel' \<open>i < n\<close> by (intro Suc.hyps(1)) auto
  with here step show ?case by (auto simp: fuel' slot_at_def Let_def)
qed

lemma probe_walk:
  assumes c: "c = 2 ^ k" and t: "length t = c"
    and stop: "bucket_target (slot_at c t h n) = None \<or> bucket_hash (slot_at c t h n) = h"
    and walk: "\<forall>j. i \<le> j \<and> j < n \<longrightarrow> bucket_target (slot_at c t h j) \<noteq> None \<and>
      bucket_hash (slot_at c t h j) \<noteq> h"
    and i: "i \<le> n" and fuel: "n - i < fuel"
  shows "probe fuel t h ((unat h + i) mod c) = bucket_target (slot_at c t h n)"
  using walk i fuel
proof (induction "n - i" arbitrary: i fuel)
  case 0
  then obtain fuel' where "fuel = Suc fuel'" by (cases fuel) auto
  moreover have "get_at t ((unat h + n) mod c) = Some (slot_at c t h n)"
    using c t by (simp add: get_at_def slot_at_def)
  ultimately show ?case using 0 stop by (auto split: option.splits)
next
  case (Suc m)
  then obtain fuel' where fuel': "fuel = Suc fuel'" by (cases fuel) auto
  have "i < n" using Suc.hyps by simp
  with Suc.prems have here: "bucket_target (slot_at c t h i) \<noteq> None"
    "bucket_hash (slot_at c t h i) \<noteq> h" by auto
  have get: "get_at t ((unat h + i) mod c) = Some (slot_at c t h i)"
    using c t by (simp add: get_at_def slot_at_def)
  have step: "((unat h + i) mod c + 1) AND (length t - 1) = (unat h + Suc i) mod c"
    unfolding t c and_mask_nat by (simp add: mod_Suc_eq)
  have "probe fuel' t h ((unat h + Suc i) mod c) = bucket_target (slot_at c t h n)"
    using Suc.hyps Suc.prems fuel' \<open>i < n\<close> by (intro Suc.hyps(1)) auto
  with here get step show ?case by (auto simp: fuel')
qed

text \<open>Where the walk of a hash ends: the first step that meets an empty slot or the hash.\<close>

lemma walk_end:
  assumes "occupied t < length t"
  obtains n where "n < length t"
    "bucket_target (slot_at (length t) t h n) = None \<or> bucket_hash (slot_at (length t) t h n) = h"
    "\<forall>j<n. bucket_target (slot_at (length t) t h j) \<noteq> None \<and>
      bucket_hash (slot_at (length t) t h j) \<noteq> h"
proof -
  let ?P = "\<lambda>n. bucket_target (slot_at (length t) t h n) = None \<or>
    bucket_hash (slot_at (length t) t h n) = h"
  from empty_slot [OF assms] obtain i where i: "i < length t" "?P i" by blast
  from i(2) obtain n where n: "?P n" "\<forall>m<n. \<not> ?P m" using exists_least_iff [of ?P] by blast
  with i have "n \<le> i" by (meson not_le)
  with i n show ?thesis by (intro that [of n]) auto
qed


section \<open>The index answers with the first case\<close>

definition lookup :: "nat \<Rightarrow> bucket list \<Rightarrow> u64 \<Rightarrow> u32 option" where
  "lookup c t h = probe c t h (unat h AND (c - 1))"

lemma add_mod_inj: "(h + i) mod c = (h + n) mod c \<Longrightarrow> i < c \<Longrightarrow> n < c \<Longrightarrow> i = (n :: nat)"
proof (induction i n rule: linorder_wlog)
  case (le i n)
  then have "c dvd (h + n) - (h + i)" by (metis add_le_cancel_left mod_eq_dvd_iff_nat)
  with le show ?case by (auto dest: dvd_imp_le)
qed simp

lemma lookup_end:
  assumes "c = 2 ^ k" "length t = c" "n < c"
    "bucket_target (slot_at c t h n) = None \<or> bucket_hash (slot_at c t h n) = h"
    "\<forall>j<n. bucket_target (slot_at c t h j) \<noteq> None \<and> bucket_hash (slot_at c t h j) \<noteq> h"
  shows "lookup c t h = bucket_target (slot_at c t h n)"
  using probe_walk [OF assms(1,2,4), of 0 c] assms
  by (simp add: lookup_def and_mask_Suc)

lemma lookup_holder:
  assumes "c = 2 ^ k" "reachable_index c t" "i < c" "holds (slot_at c t h i) h"
  shows "lookup c t h = bucket_target (slot_at c t h i)"
proof (rule lookup_end [OF assms(1) _ assms(3)])
  show "length t = c" using assms(2) by (simp add: reachable_index_def)
  show "bucket_target (slot_at c t h i) = None \<or> bucket_hash (slot_at c t h i) = h"
    using assms(4) by (simp add: holds_def)
  show "\<forall>j<i. bucket_target (slot_at c t h j) \<noteq> None \<and> bucket_hash (slot_at c t h j) \<noteq> h"
    using assms(2-4) unfolding reachable_index_def by blast
qed

lemma lookup_none:
  assumes "c = 2 ^ k" "reachable_index c t" "occupied t < c"
    and "\<forall>i<c. \<not> holds (slot_at c t h i) h"
  shows "lookup c t h = None"
proof -
  have len: "length t = c" using assms(2) by (simp add: reachable_index_def)
  from assms(3) len obtain n where n: "n < c"
    "bucket_target (slot_at c t h n) = None \<or> bucket_hash (slot_at c t h n) = h"
    "\<forall>j<n. bucket_target (slot_at c t h j) \<noteq> None \<and> bucket_hash (slot_at c t h j) \<noteq> h"
    using walk_end [of t h] by auto
  from n(1,2) assms(4) have "bucket_target (slot_at c t h n) = None" by (auto simp: holds_def)
  with lookup_end [OF assms(1) len n] show ?thesis by simp
qed

lemma occupied_update: "occupied (t[i := b]) \<le> Suc (occupied t)"
  unfolding occupied_def
  by (induction t arbitrary: i) (auto split: nat.splits)

lemma place_spec:
  assumes c: "c = 2 ^ k" and inv: "reachable_index c t" and room: "occupied t < c"
  obtains t' where "place c (c - 1) a t (unat (case_hash a) AND (c - 1)) = Some t'"
    "reachable_index c t'" "occupied t' \<le> Suc (occupied t)"
    "\<And>h. occupied t' < c \<Longrightarrow> lookup c t' h = (case lookup c t h of
        Some x \<Rightarrow> Some x
      | None \<Rightarrow> if h = case_hash a then Some (case_goto a) else None)"
proof -
  let ?h = "case_hash a"
  have len: "length t = c" using inv by (simp add: reachable_index_def)
  from room len obtain n where n: "n < c"
    "bucket_target (slot_at c t ?h n) = None \<or> bucket_hash (slot_at c t ?h n) = ?h"
    "\<forall>j<n. bucket_target (slot_at c t ?h j) \<noteq> None \<and> bucket_hash (slot_at c t ?h j) \<noteq> ?h"
    using walk_end [of t ?h] by auto
  have at0: "unat ?h AND (c - 1) = (unat ?h + 0) mod c" unfolding c and_mask_nat by simp
  note placed = place_walk [OF c len n(2), of 0 c, folded at0]
  note found = lookup_end [OF c len n]
  show ?thesis
  proof (cases "bucket_target (slot_at c t ?h n)")
    case (Some x)
    then have "place c (c - 1) a t (unat ?h AND (c - 1)) = Some t" using placed n by simp
    then show ?thesis using inv found Some by (intro that) (auto split: option.splits)
  next
    case None
    let ?b = "\<lparr>bucket_hash = ?h, bucket_target = Some (case_goto a)\<rparr>"
    let ?t = "t[(unat ?h + n) mod c := ?b]"
    have slot: "slot_at c ?t h j =
        (if (unat h + j) mod c = (unat ?h + n) mod c then ?b else slot_at c t h j)" for h j
      using n len by (auto simp: slot_at_def)
    have old: "\<not> holds (slot_at c t h i) h"
      if "(unat h + i) mod c = (unat ?h + n) mod c" for h i
      using that None by (simp add: slot_at_def holds_def)
    have fresh: "\<not> holds (slot_at c t ?h i) ?h" if "i < c" for i
    proof
      assume "holds (slot_at c t ?h i) ?h"
      with lookup_holder [OF c inv that] found None show False by (simp add: holds_def)
    qed
    have inv': "reachable_index c ?t"
      unfolding reachable_index_def
    proof (rule conjI, simp add: len, intro allI impI)
      fix h i j
      assume i: "i < c" "holds (slot_at c ?t h i) h" "j < i"
      show "bucket_target (slot_at c ?t h j) \<noteq> None \<and> bucket_hash (slot_at c ?t h j) \<noteq> h"
      proof (cases "(unat h + i) mod c = (unat ?h + n) mod c")
        case True
        with i slot have "h = ?h" by (auto simp: holds_def)
        with True i n have "i = n" by (auto dest: add_mod_inj)
        with i n \<open>h = ?h\<close> add_mod_inj [of "unat ?h" j c n] show ?thesis unfolding slot by auto
      next
        case False
        with i slot have h: "holds (slot_at c t h i) h" by auto
        with i fresh have "h \<noteq> ?h" by auto
        with h i inv show ?thesis unfolding slot by (auto simp: reachable_index_def)
      qed
    qed
    show ?thesis
    proof (rule that)
      show "place c (c - 1) a t (unat ?h AND (c - 1)) = Some ?t" using placed n None by simp
      show "reachable_index c ?t" by (rule inv')
      show "occupied ?t \<le> Suc (occupied t)" by (rule occupied_update)
      fix h assume room': "occupied ?t < c"
      show "lookup c ?t h = (case lookup c t h of Some x \<Rightarrow> Some x
        | None \<Rightarrow> if h = ?h then Some (case_goto a) else None)"
      proof (cases "\<exists>i<c. holds (slot_at c t h i) h")
        case True
        then obtain i where i: "i < c" "holds (slot_at c t h i) h" by blast
        then have "slot_at c ?t h i = slot_at c t h i" using old slot by auto
        with i lookup_holder [OF c inv i] lookup_holder [OF c inv', of i h] show ?thesis
          by (auto simp: holds_def)
      next
        case False
        then have none: "lookup c t h = None" using lookup_none [OF c inv room] by blast
        show ?thesis
        proof (cases "h = ?h")
          case True
          have "slot_at c ?t ?h n = ?b" by (simp add: slot)
          with lookup_holder [OF c inv' n(1), of ?h] none True show ?thesis
            by (simp add: holds_def)
        next
          case h: False
          with False have "\<forall>i<c. \<not> holds (slot_at c ?t h i) h"
            unfolding slot by (auto simp: holds_def)
          with lookup_none [OF c inv' room'] none h show ?thesis by simp
        qed
      qed
    qed
  qed
qed

lemma place_all_spec:
  assumes c: "c = 2 ^ k"
  shows "reachable_index c t \<Longrightarrow> occupied t + length cs < c \<Longrightarrow>
    \<exists>t'. place_all c cs t = Some t' \<and> length t' = c \<and>
      (\<forall>h. lookup c t' h = (case lookup c t h of
          Some x \<Rightarrow> Some x
        | None \<Rightarrow> map_option case_goto (find (\<lambda>a. case_hash a = h) cs)))"
proof (induction cs arbitrary: t)
  case Nil
  then show ?case by (auto simp: reachable_index_def split: option.splits)
next
  case (Cons a cs)
  then have room: "occupied t < c" by simp
  from place_spec [OF c Cons.prems(1) room, of a] obtain t1 where
    t1: "place c (c - 1) a t (unat (case_hash a) AND (c - 1)) = Some t1"
    "reachable_index c t1" "occupied t1 \<le> Suc (occupied t)"
    "\<And>h. occupied t1 < c \<Longrightarrow> lookup c t1 h = (case lookup c t h of
        Some x \<Rightarrow> Some x
      | None \<Rightarrow> if h = case_hash a then Some (case_goto a) else None)"
    by blast
  from t1(3) Cons.prems(2) have "occupied t1 + length cs < c" by simp
  from Cons.IH [OF t1(2) this] t1 this show ?case by (fastforce split: option.splits)
qed

lemma lookup_empty: "lookup c (replicate c empty_bucket) h = None"
proof -
  have "probe n (replicate c empty_bucket) h j = None" for n j
    by (cases n) (simp_all add: get_at_replicate empty_bucket_def)
  then show ?thesis by (simp add: lookup_def)
qed

lemma build_index_spec:
  "\<exists>t. build_index cs = Some t \<and>
     (t \<noteq> [] \<longrightarrow> (\<forall>h. lookup (length t) t h =
        map_option case_goto (find (\<lambda>a. case_hash a = h) cs)))"
proof (cases "cs = [] \<or> capacity (length cs) = None")
  case True
  then show ?thesis by (auto simp: build_index_def split: option.splits)
next
  case False
  then obtain c where c: "capacity (length cs) = Some c" by auto
  then obtain k where k: "c = 2 ^ k" "2 * length cs \<le> c" by (rule capacity_Some)
  have "reachable_index c (replicate c empty_bucket)"
    by (auto simp: reachable_index_def holds_def slot_at_def empty_bucket_def)
  moreover have "occupied (replicate c empty_bucket) = 0"
    by (simp add: occupied_def empty_bucket_def)
  moreover have "length cs < c" using False k(2) by (cases cs) auto
  ultimately obtain t where "place_all c cs (replicate c empty_bucket) = Some t" "length t = c"
    "\<forall>h. lookup c t h = map_option case_goto (find (\<lambda>a. case_hash a = h) cs)"
    using place_all_spec [OF k(1), of "replicate c empty_bucket" cs] by (auto simp: lookup_empty)
  with False c show ?thesis by (auto simp: build_index_def)
qed

definition first_target :: "switch_case list \<Rightarrow> u64 \<Rightarrow> u32 option" where
  "first_target cs h = map_option case_goto (find (\<lambda>a. case_hash a = h) cs)"

text \<open>A table whose index is the one its cases build.\<close>

definition well_indexed :: "switch \<Rightarrow> bool" where
  "well_indexed s \<longleftrightarrow> build_index (switch_cases s) = Some (case_index s)"

lemma well_indexed_case_target:
  assumes "well_indexed s"
  shows "case_target s h = first_target (switch_cases s) h"
proof -
  from assms build_index_spec [of "switch_cases s"] have
    "case_index s \<noteq> [] \<longrightarrow> lookup (length (case_index s)) (case_index s) h = first_target (switch_cases s) h"
    by (auto simp: well_indexed_def first_target_def)
  then show ?thesis
    by (auto simp: case_target_def case_target_indexed_def lookup_def first_target_def)
qed

lemma bisected_first:
  "sorted (map case_hash cs) \<Longrightarrow>
   (case get_at cs (length (takeWhile (\<lambda>c. case_hash c < h) cs)) of
      None \<Rightarrow> None | Some c \<Rightarrow> if case_hash c = h then Some (case_goto c) else None) =
   first_target cs h"
proof (induction cs)
  case (Cons a cs)
  have "case_hash a < h \<Longrightarrow> ?case"
    using Cons by (simp add: first_target_def) (auto)
  moreover have "find (\<lambda>a. case_hash a = h) cs = None" if "h < case_hash a"
    using that Cons.prems by (force simp: find_None_iff)
  moreover have "\<not> case_hash a < h \<Longrightarrow> case_hash a = h \<or> h < case_hash a" by auto
  ultimately show ?case by (cases "case_hash a < h") (auto simp: first_target_def)
qed (simp add: get_at_def first_target_def)


section \<open>Building and rewriting keep the index\<close>

lemma new_switch_indexed:
  "\<exists>s. new_switch hash_int cs rs d = Some s \<and> well_indexed s \<and> switch_cases s = cs \<and> switch_ranges s = rs \<and>
     switch_default s = d"
  using build_index_spec [of cs] by (auto simp: new_switch_def well_indexed_def)

lemma retarget_indexed:
  "\<exists>s' r. retarget resolve s = Some (s', r) \<and> well_indexed s'"
proof -
  let ?cs = "fst (walk_targets resolve case_goto (\<lambda>t c. c\<lparr>case_goto := t\<rparr>) (switch_cases s))"
  obtain ix where "build_index ?cs = Some ix" using build_index_spec [of ?cs] by blast
  then show ?thesis by (simp add: retarget_def well_indexed_def split_beta)
qed

lemma walk_targets_map:
  "snd (walk_targets resolve get put xs) = Ok () \<Longrightarrow>
   fst (walk_targets resolve get put xs) = map (\<lambda>x. put (projr (resolve (get x))) x) xs \<and>
   (\<forall>x\<in>set xs. \<exists>t. resolve (get x) = Ok t)"
  by (induction xs) (auto split: sum.splits prod.splits)

lemma retarget_Ok:
  assumes "retarget resolve s = Some (s', Ok ())"
  shows "switch_cases s' = map (\<lambda>c. c\<lparr>case_goto := projr (resolve (case_goto c))\<rparr>) (switch_cases s) \<and>
    switch_ranges s' = map (\<lambda>r. r\<lparr>range_goto := projr (resolve (range_goto r))\<rparr>) (switch_ranges s) \<and>
    switch_default s' = projr (resolve (switch_default s))"
  using assms walk_targets_map [of resolve case_goto "\<lambda>t c. c\<lparr>case_goto := t\<rparr>" "switch_cases s"]
    walk_targets_map [of resolve range_goto "\<lambda>t r. r\<lparr>range_goto := t\<rparr>" "switch_ranges s"]
  by (auto simp: retarget_def bind_eq_Some_conv split: prod.splits sum.splits)

section \<open>Properties\<close>

lemma bisected_lookup:
  "sorted (map case_hash (switch_cases s)) \<Longrightarrow> case_target_bisected s h = first_target (switch_cases s) h"
  using bisected_first by (simp add: case_target_bisected_def Let_def)

text \<open>
  C11. The index of a \<open>switch\<close> answers like its cases: whatever table is built, and whatever
  rewrite it goes through, building the index ends, and a dispatch through the open-addressed
  index sends a subject to the target of the first case holding its hash, else to the first range
  containing it, else to the default.
\<close>

theorem switch_dispatch:
  "\<exists>s. new_switch hash_int cs rs d = Some s \<and>
     (\<forall>v. dispatch is_hashable hash_of contains s v =
       (if \<not> is_hashable v then d
        else case find (\<lambda>c. case_hash c = hash_of v) cs of
            Some c \<Rightarrow> case_goto c
          | None \<Rightarrow> (case find (\<lambda>r. contains r v) rs of Some r \<Rightarrow> range_goto r | None \<Rightarrow> d))) \<and>
     (\<exists>s' r. retarget resolve s = Some (s', r) \<and>
       (\<forall>h. case_target s' h = map_option case_goto (find (\<lambda>c. case_hash c = h) (switch_cases s'))))"
proof -
  from new_switch_indexed [of hash_int cs rs d] obtain s where
    s: "new_switch hash_int cs rs d = Some s" "well_indexed s" "switch_cases s = cs" "switch_ranges s = rs"
      "switch_default s = d" by blast
  from retarget_indexed [of resolve s] obtain s' r where
    s': "retarget resolve s = Some (s', r)" "well_indexed s'" by blast
  show ?thesis
    using s s' by (intro exI [of _ s] conjI exI [of _ s'] exI [of _ r])
      (auto simp: dispatch_def well_indexed_case_target first_target_def split: option.splits)
qed

end
