(* ===== verification/Range_Split.thy ===== *)
theory Range_Split
  imports Switches
begin

text \<open>
  The range arms of a \<open>switch\<close> (\<open>RangeCase\<close> of \<open>src/ast/stmt.rs\<close>) and their split into disjoint
  table entries (\<open>src/grain/compile/cases.rs\<close>). A range matches integers and numbers of other
  types, converted from its integer bounds; the conversion is the argument \<open>emb\<close>.
\<close>

section \<open>Range arms\<close>

datatype range_case = ExclusiveInt int int nat | InclusiveInt int int nat

fun contains_int :: "range_case \<Rightarrow> int \<Rightarrow> bool" where
  "contains_int (ExclusiveInt s e _) n \<longleftrightarrow> s \<le> n \<and> n < e"
| "contains_int (InclusiveInt s e _) n \<longleftrightarrow> s \<le> n \<and> n \<le> e"

text \<open>\<open>contains_float\<close> and \<open>contains_decimal\<close>: the bounds converted, then compared.\<close>

fun contains_by :: "(int \<Rightarrow> 'v :: linorder) \<Rightarrow> range_case \<Rightarrow> 'v \<Rightarrow> bool" where
  "contains_by emb (ExclusiveInt s e _) v \<longleftrightarrow> emb s \<le> v \<and> v < emb e"
| "contains_by emb (InclusiveInt s e _) v \<longleftrightarrow> emb s \<le> v \<and> v \<le> emb e"

fun range_index :: "range_case \<Rightarrow> nat" where
  "range_index (ExclusiveInt _ _ n) = n"
| "range_index (InclusiveInt _ _ n) = n"

fun range_len :: "range_case \<Rightarrow> int" where
  "range_len (ExclusiveInt s e _) = (if e \<le> s then 0 else e - s)"
| "range_len (InclusiveInt s e _) = (if e < s then 0 else e - s + 1)"

text \<open>\<open>SwitchRange::contains\<close>, which rebuilds the arm.\<close>

definition switch_range_contains :: "(int \<Rightarrow> 'v :: linorder) \<Rightarrow> switch_range \<Rightarrow> 'v \<Rightarrow> bool" where
  "switch_range_contains emb r v =
     contains_by emb
       (if inclusive r then InclusiveInt (range_from r) (range_to r) usize_max
        else ExclusiveInt (range_from r) (range_to r) usize_max) v"

section \<open>Splitting\<close>

fun bounds :: "range_case \<Rightarrow> int \<times> int \<times> bool" where
  "bounds (ExclusiveInt s e _) = (s, e, False)"
| "bounds (InclusiveInt s e _) = (s, e, True)"

datatype atom = Point int | Between int int

fun covers :: "range_case \<Rightarrow> atom \<Rightarrow> bool" where
  "covers r (Point point) = contains_int r point"
| "covers r (Between low high) = (case bounds r of (s, e, _) \<Rightarrow> s \<le> low \<and> high \<le> e)"

record run =
  run_from :: int
  run_to :: int
  run_inclusive :: bool
  blocks :: "nat list"

definition finish :: "run \<Rightarrow> switch_range \<times> nat list" where
  "finish r =
     (\<lparr>range_from = run_from r, range_to = run_to r, inclusive = run_inclusive r,
       range_goto = 0\<rparr>, blocks r)"

definition split_points :: "range_case list \<Rightarrow> int list" where
  "split_points rs =
     remdups_adj (sort (concat (map (\<lambda>r. case bounds r of (s, e, _) \<Rightarrow> [s, e]) rs)))"

fun atoms_of :: "int list \<Rightarrow> atom list" where
  "atoms_of [] = []"
| "atoms_of [p] = [Point p]"
| "atoms_of (p # q # ps) = Point p # Between p q # atoms_of (q # ps)"

definition atom_blocks :: "range_case list \<Rightarrow> atom \<Rightarrow> nat list" where
  "atom_blocks rs a = map range_index (filter (\<lambda>r. covers r a) rs)"

fun atom_span :: "atom \<Rightarrow> int \<times> int \<times> bool" where
  "atom_span (Point p) = (p, p, True)"
| "atom_span (Between low high) = (low, high, False)"

fun split_loop :: "range_case list \<Rightarrow> atom list \<Rightarrow> run option \<Rightarrow> (switch_range \<times> nat list) list"
  where
  "split_loop rs [] open_run = (case open_run of None \<Rightarrow> [] | Some r \<Rightarrow> [finish r])"
| "split_loop rs (a # as) open_run =
     (let bs = atom_blocks rs a; (from, to, incl) = atom_span a in
      case open_run of
        Some r \<Rightarrow>
          if blocks r = bs then split_loop rs as (Some (r\<lparr>run_to := to, run_inclusive := incl\<rparr>))
          else finish r # split_loop rs as (if bs \<noteq> []
            then Some \<lparr>run_from = from, run_to = to, run_inclusive = incl, blocks = bs\<rparr> else None)
      | None \<Rightarrow>
          split_loop rs as (if bs \<noteq> []
            then Some \<lparr>run_from = from, run_to = to, run_inclusive = incl, blocks = bs\<rparr> else None))"

definition split_ranges :: "range_case list \<Rightarrow> (switch_range \<times> nat list) list" where
  "split_ranges rs = split_loop rs (atoms_of (split_points rs)) None"

section \<open>Atoms and values\<close>

fun atom_has :: "(int \<Rightarrow> 'v :: linorder) \<Rightarrow> atom \<Rightarrow> 'v \<Rightarrow> bool" where
  "atom_has emb (Point p) v \<longleftrightarrow> v = emb p"
| "atom_has emb (Between low high) v \<longleftrightarrow> emb low < v \<and> v < emb high"

text \<open>Consecutive atoms of one sequence of points.\<close>

fun contiguous :: "atom list \<Rightarrow> bool" where
  "contiguous (Point p # Between low high # as) \<longleftrightarrow>
     p = low \<and> low < high \<and> contiguous (Between low high # as)"
| "contiguous (Between low high # Point p # as) \<longleftrightarrow>
     p = high \<and> low < high \<and> contiguous (Point p # as)"
| "contiguous [Point p] \<longleftrightarrow> True"
| "contiguous [] \<longleftrightarrow> True"
| "contiguous _ \<longleftrightarrow> False"

lemma atoms_contiguous: "sorted_wrt (<) ps \<Longrightarrow> contiguous (atoms_of ps)"
proof (induction ps rule: atoms_of.induct)
  case (3 p q ps)
  then show ?case by (cases ps) auto
qed auto

lemma contiguous_tl: "contiguous (a # as) \<Longrightarrow> contiguous as"
  by (cases "a # as" rule: contiguous.cases) auto

text \<open>The arms a value is in, by the atom it is in.\<close>

definition found :: "(int \<Rightarrow> 'v :: linorder) \<Rightarrow> range_case list \<Rightarrow> atom list \<Rightarrow> 'v \<Rightarrow> nat list" where
  "found emb rs as v = (case find (\<lambda>a. atom_has emb a v) as of
       Some a \<Rightarrow> atom_blocks rs a | None \<Rightarrow> [])"

definition picked :: "(int \<Rightarrow> 'v :: linorder) \<Rightarrow> (switch_range \<times> nat list) list \<Rightarrow> 'v \<Rightarrow> nat list"
  where
  "picked emb out v = (case find (\<lambda>(r, _). switch_range_contains emb r v) out of
       Some (_, bs) \<Rightarrow> bs | None \<Rightarrow> [])"

definition in_run :: "(int \<Rightarrow> 'v :: linorder) \<Rightarrow> run \<Rightarrow> 'v \<Rightarrow> bool" where
  "in_run emb r v \<longleftrightarrow> emb (run_from r) \<le> v \<and>
     (if run_inclusive r then v \<le> emb (run_to r) else v < emb (run_to r))"

definition touches :: "run \<Rightarrow> atom list \<Rightarrow> bool" where
  "touches r as \<longleftrightarrow> run_from r \<le> run_to r \<and> (case as of
       [] \<Rightarrow> True
     | Point p # _ \<Rightarrow> run_to r = p \<and> \<not> run_inclusive r
     | Between low _ # _ \<Rightarrow> run_to r = low \<and> run_inclusive r)"

lemma picked_simps:
  "picked emb [] v = []"
  "picked emb (finish r # out) v = (if in_run emb r v then blocks r else picked emb out v)"
  by (auto simp: picked_def finish_def in_run_def switch_range_contains_def)

lemma found_Cons:
  "found emb rs (a # as) v = (if atom_has emb a v then atom_blocks rs a else found emb rs as v)"
  by (simp add: found_def)

lemma found_Nil: "found emb rs [] v = []"
  by (simp add: found_def)

text \<open>Atoms to the right of a value do not have it.\<close>

lemma found_right:
  assumes "strict_mono emb"
  shows "contiguous as \<Longrightarrow>
    (case as of [] \<Rightarrow> True | Point p # _ \<Rightarrow> v < emb p | Between low _ # _ \<Rightarrow> v \<le> emb low) \<Longrightarrow>
    found emb rs as v = []"
proof (induction as rule: contiguous.induct)
  case (1 p low high as)
  then show ?case by (auto simp: found_Cons)
next
  case (2 low high p as)
  then have "v < emb high" using assms by (auto simp: strict_mono_def dest: le_less_trans)
  with 2 show ?case by (auto simp: found_Cons)
qed (auto simp: found_Cons found_Nil)

lemma found_disjoint:
  assumes "strict_mono emb" "contiguous (a # as)" "atom_has emb a v"
  shows "found emb rs as v = []"
proof (rule found_right [OF assms(1)])
  show "contiguous as" using assms(2) by (rule contiguous_tl)
  show "case as of [] \<Rightarrow> True | Point p # _ \<Rightarrow> v < emb p | Between low _ # _ \<Rightarrow> v \<le> emb low"
    using assms(2,3) by (cases "a # as" rule: contiguous.cases) auto
qed

lemma blocks_point:
  "atom_blocks rs (Point low) = [] \<Longrightarrow> low < high \<Longrightarrow> atom_blocks rs (Between low high) = []"
proof -
  assume none: "atom_blocks rs (Point low) = []" and less: "low < high"
  have "\<not> covers r (Between low high)" if "r \<in> set rs" for r
    using none that less by (cases r) (auto simp: atom_blocks_def filter_empty_conv)
  then show ?thesis by (simp add: atom_blocks_def filter_empty_conv)
qed

section \<open>The loop\<close>

lemma split_loop_picked:
  assumes emb: "strict_mono emb"
  shows "contiguous as \<Longrightarrow>
    (case run of
       None \<Rightarrow> (case as of Between low high # _ \<Rightarrow> atom_blocks rs (Between low high) = [] | _ \<Rightarrow> True)
     | Some r \<Rightarrow> touches r as) \<Longrightarrow>
    picked emb (split_loop rs as run) v = (case run of
       None \<Rightarrow> found emb rs as v
     | Some r \<Rightarrow> if in_run emb r v then blocks r else found emb rs as v)"
proof (induction as arbitrary: run)
  case Nil
  then show ?case by (cases run) (simp_all add: picked_simps found_Nil)
next
  case (Cons a as)
  note tl = contiguous_tl [OF Cons.prems(1)]
  let ?bs = "atom_blocks rs a"
  obtain lo hi incl where span: "atom_span a = (lo, hi, incl)" by (cases "atom_span a")
  let ?new = "\<lparr>run_from = lo, run_to = hi, run_inclusive = incl, blocks = ?bs\<rparr>"
  note less = emb [THEN strict_mono_less] emb [THEN strict_mono_less_eq] emb [THEN strict_mono_eq]
  have touch_new: "touches ?new as"
    using Cons.prems(1) span
    by (cases "a # as" rule: contiguous.cases) (auto simp: touches_def split: list.splits)
  have none: "case as of Between low high # _ \<Rightarrow> atom_blocks rs (Between low high) = [] | _ \<Rightarrow> True"
    if "?bs = []"
    using Cons.prems(1) that blocks_point
    by (cases "a # as" rule: contiguous.cases) auto
  note IHn = Cons.IH [OF tl, of None, simplified]
  note IHs = Cons.IH [OF tl, of "Some r" for r, simplified]
  have in_new: "in_run emb ?new v \<longleftrightarrow> atom_has emb a v \<or> (\<exists>low high. a = Between low high \<and> v = emb low)"
    using span Cons.prems(1)
    by (cases a; cases "a # as" rule: contiguous.cases) (auto simp: in_run_def less)
  show ?case
  proof (cases run)
    case None
    show ?thesis
    proof (cases "?bs = []")
      case True
      then have "picked emb (split_loop rs (a # as) run) v = found emb rs as v"
        using None span none Cons.IH [OF tl, of None] by simp
      then show ?thesis using None True found_disjoint [OF emb Cons.prems(1)]
        by (auto simp: found_Cons)
    next
      case False
      with Cons.prems(2) None obtain p where "a = Point p" by (cases a) auto
      then have "picked emb (split_loop rs (a # as) run) v =
          (if atom_has emb a v then ?bs else found emb rs as v)"
        using None False span touch_new in_new Cons.IH [OF tl, of "Some ?new"]
        by (cases "v = emb p") auto
      then show ?thesis using None by (simp add: found_Cons)
    qed
  next
    case (Some r)
    then have touch: "touches r (a # as)" using Cons.prems(2) by simp
    let ?r = "r\<lparr>run_to := hi, run_inclusive := incl\<rparr>"
    have "emb (run_from r) \<le> emb (run_to r)" using touch by (simp add: less touches_def)
    moreover have "emb lo \<le> emb hi" "a = Between lo hi \<longrightarrow> emb lo < emb hi"
      using span Cons.prems(1) by (cases "a # as" rule: contiguous.cases; auto simp: less)+
    ultimately have grown: "in_run emb ?r v \<longleftrightarrow> in_run emb r v \<or> atom_has emb a v"
      using touch span by (cases a) (auto simp: in_run_def touches_def)
    show ?thesis
    proof (cases "blocks r = ?bs")
      case True
      have "touches ?r as"
        using touch touch_new span Cons.prems(1) by (auto simp: touches_def split: list.splits atom.splits)
      then have "picked emb (split_loop rs (a # as) run) v =
          (if in_run emb ?r v then blocks r else found emb rs as v)"
        using Some True span Cons.IH [OF tl, of "Some ?r"] by simp
      then show ?thesis using Some True grown by (simp add: found_Cons)
    next
      case False
      let ?next = "if ?bs \<noteq> [] then Some ?new else None"
      have "picked emb (split_loop rs (a # as) run) v =
          (if in_run emb r v then blocks r else picked emb (split_loop rs as ?next) v)"
        using Some False span by (simp add: picked_simps)
      moreover have "picked emb (split_loop rs as ?next) v = found emb rs (a # as) v"
        if "\<not> in_run emb r v"
      proof (cases "?bs = []")
        case True
        then show ?thesis using none Cons.IH [OF tl, of None] found_disjoint [OF emb Cons.prems(1)]
          by (auto simp: found_Cons)
      next
        case nonempty: False
        have "in_run emb ?new v = atom_has emb a v"
          using that touch in_new by (auto simp: touches_def in_run_def less)
        then show ?thesis using nonempty touch_new Cons.IH [OF tl, of "Some ?new"]
          by (simp add: found_Cons)
      qed
      ultimately show ?thesis using Some by simp
    qed
  qed
qed

section \<open>The split answers like the arms\<close>

lemma bounds_cases: "\<exists>s e incl. bounds r = (s, e, incl)"
  by (cases r) auto

lemma contains_bounds:
  "contains_by emb r v \<Longrightarrow> emb (fst (bounds r)) \<le> v"
  "contains_by emb r v \<Longrightarrow> v \<le> emb (fst (snd (bounds r)))"
  by (cases r; auto)+

lemma atom_covers:
  assumes emb: "strict_mono emb" and has: "atom_has emb a v"
    and ends: "fst (bounds r) \<in> P" "fst (snd (bounds r)) \<in> P"
    and gap: "\<forall>low high. a = Between low high \<longrightarrow> (\<forall>p\<in>P. p \<le> low \<or> high \<le> p)"
  shows "covers r a \<longleftrightarrow> contains_by emb r v"
proof (cases a)
  case (Point p)
  with has emb show ?thesis
    by (cases r) (auto simp: strict_mono_less strict_mono_less_eq)
next
  case (Between low high)
  note less = emb [THEN strict_mono_less] emb [THEN strict_mono_less_eq]
  from has Between have v: "emb low < v" "v < emb high" by auto
  have l: "emb p \<le> v \<longleftrightarrow> p \<le> low" if "p \<in> P" for p
  proof
    assume "emb p \<le> v"
    then have "emb p < emb high" using v by simp
    then show "p \<le> low" using gap Between that less by fastforce
  next
    assume "p \<le> low"
    then have "emb p \<le> emb low" using less by simp
    then show "emb p \<le> v" using v by simp
  qed
  have h: "v < emb p \<longleftrightarrow> high \<le> p" "v \<le> emb p \<longleftrightarrow> high \<le> p" if "p \<in> P" for p
  proof -
    have "v \<le> emb p \<Longrightarrow> high \<le> p"
    proof -
      assume "v \<le> emb p"
      then have "emb low < emb p" using v by simp
      then show "high \<le> p" using gap Between that less by fastforce
    qed
    moreover have "high \<le> p \<Longrightarrow> v < emb p"
    proof -
      assume "high \<le> p"
      then have "emb high \<le> emb p" using less by simp
      then show "v < emb p" using v by simp
    qed
    ultimately show "v < emb p \<longleftrightarrow> high \<le> p" "v \<le> emb p \<longleftrightarrow> high \<le> p"
      by (auto intro: less_imp_le)
  qed
  show ?thesis using ends l h Between by (cases r) auto
qed

lemma atoms_gap:
  "sorted_wrt (<) ps \<Longrightarrow> Between low high \<in> set (atoms_of ps) \<Longrightarrow>
   low \<in> set ps \<and> high \<in> set ps \<and> (\<forall>p\<in>set ps. p \<le> low \<or> high \<le> p)"
  by (induction ps rule: atoms_of.induct) (auto simp: less_imp_le)

lemma atoms_cover:
  assumes emb: "strict_mono emb"
  shows "sorted_wrt (<) ps \<Longrightarrow> p \<in> set ps \<Longrightarrow> q \<in> set ps \<Longrightarrow> emb p \<le> v \<Longrightarrow> v \<le> emb q \<Longrightarrow>
    \<exists>a\<in>set (atoms_of ps). atom_has emb a v"
proof (induction ps arbitrary: p q rule: atoms_of.induct)
  case (3 x y ps)
  show ?case
  proof (cases "v < emb y")
    case True
    have "emb x \<le> emb p" using "3.prems" emb by (auto simp: strict_mono_less_eq)
    with "3.prems" have "emb x \<le> v" by auto
    with True show ?thesis by (cases "v = emb x") auto
  next
    case False
    moreover have "emb x < emb y" using "3.prems"(1) emb by (simp add: strict_mono_less)
    ultimately have "q \<in> set (y # ps)" using "3.prems" by auto
    with "3.IH" [of y q] "3.prems" False show ?thesis by auto
  qed
qed auto

lemma sorted_remdups_adj_strict: "sorted (xs :: int list) \<Longrightarrow> sorted_wrt (<) (remdups_adj xs)"
  by (induction xs rule: remdups_adj.induct) (auto simp: order.strict_iff_order)

lemma split_points_sorted: "sorted_wrt (<) (split_points rs)"
  unfolding split_points_def by (intro sorted_remdups_adj_strict) simp

lemma split_points_ends:
  "r \<in> set rs \<Longrightarrow> fst (bounds r) \<in> set (split_points rs) \<and>
   fst (snd (bounds r)) \<in> set (split_points rs)"
  using bounds_cases [of r] by (force simp: split_points_def)

text \<open>
  C12. Splitting overlapping range arms into a table loses nothing: for every number, the first
  table entry that contains it carries exactly the arms that contain it, in source order, and no
  entry contains it when no arm does. The numbers are any type the integer bounds convert into
  without two of them meeting (\<open>strict_mono emb\<close>).
\<close>

theorem split_ranges_correct:
  assumes "strict_mono emb"
  shows "(case find (\<lambda>(r, _). switch_range_contains emb r v) (split_ranges rs) of
      Some (_, bs) \<Rightarrow> bs | None \<Rightarrow> []) =
    map range_index (filter (\<lambda>r. contains_by emb r v) rs)"
proof -
  let ?ps = "split_points rs" and ?as = "atoms_of (split_points rs)"
  have first: "case ?as of Between low high # _ \<Rightarrow> atom_blocks rs (Between low high) = [] | _ \<Rightarrow> True"
    by (cases ?ps rule: atoms_of.cases) auto
  have "picked emb (split_ranges rs) v = found emb rs ?as v"
    using split_loop_picked [OF assms atoms_contiguous [OF split_points_sorted], where run = None] first
    by (simp add: split_ranges_def)
  also have "\<dots> = map range_index (filter (\<lambda>r. contains_by emb r v) rs)"
  proof (cases "find (\<lambda>a. atom_has emb a v) ?as")
    case None
    have "\<not> contains_by emb r v" if r: "r \<in> set rs" for r
    proof
      assume "contains_by emb r v"
      then have "emb (fst (bounds r)) \<le> v" "v \<le> emb (fst (snd (bounds r)))"
        by (rule contains_bounds)+
      with atoms_cover [OF assms split_points_sorted] split_points_ends [OF r] None
      show False unfolding find_None_iff by blast
    qed
    then show ?thesis using None by (simp add: found_def filter_empty_conv)
  next
    case (Some a)
    then have a: "a \<in> set ?as" "atom_has emb a v"
      by (auto simp: find_Some_iff in_set_conv_nth)
    have "covers r a \<longleftrightarrow> contains_by emb r v" if "r \<in> set rs" for r
      using split_points_ends [OF that] atoms_gap [OF split_points_sorted] a
      by (intro atom_covers [OF assms a(2), where P = "set ?ps"]) auto
    then show ?thesis using Some by (simp add: found_def atom_blocks_def cong: filter_cong)
  qed
  finally show ?thesis by (simp add: picked_def)
qed

theorem split_ranges_correct_witness:
  "map (\<lambda>v. case find (\<lambda>(r, _). switch_range_contains (\<lambda>n :: int. 2 * n) r v)
       (split_ranges [ExclusiveInt 0 10 0, InclusiveInt 5 7 1, ExclusiveInt 3 3 2]) of
       Some (_, bs) \<Rightarrow> bs | None \<Rightarrow> []) [-1, 0, 9, 10, 11, 14, 15, 20] =
   [[], [0], [0], [0, 1], [0, 1], [0, 1], [0], []]"
proof -
  have "strict_mono (\<lambda>n :: int. 2 * n)" by (simp add: strict_mono_def)
  show ?thesis unfolding split_ranges_correct [OF \<open>strict_mono _\<close>] by simp
qed

end
