(* ===== verification/Caps.thy ===== *)
theory Caps
  imports Prelude
begin

text \<open>
  Capabilities and the build fingerprint (\<open>src/grain/format/abi.rs\<close>). \<open>Caps\<close> is a set of flags in
  a \<open>u32\<close>; its set operations are the bitwise ones the \<open>bitflags\<close> crate documents (\<open>contains\<close>,
  \<open>insert\<close> and \<open>difference\<close>, which is \<open>-\<close>). What a build has depends on its feature flags, which
  are a record here.
\<close>

section \<open>The flags\<close>

type_synonym caps = u32

definition FLOAT :: caps where "FLOAT = 2 ^ 0"
definition ARRAY :: caps where "ARRAY = 2 ^ 1"
definition BLOB :: caps where "BLOB = 2 ^ 2"
definition MAP :: caps where "MAP = 2 ^ 3"
definition DECIMAL :: caps where "DECIMAL = 2 ^ 4"
definition FUNCTION :: caps where "FUNCTION = 2 ^ 5"
definition FN_PTR :: caps where "FN_PTR = 2 ^ 6"
definition CURRYING :: caps where "CURRYING = 2 ^ 7"
definition INDEXING :: caps where "INDEXING = 2 ^ 8"
definition PROPERTY :: caps where "PROPERTY = 2 ^ 9"
definition METHOD :: caps where "METHOD = 2 ^ 10"
definition THIS :: caps where "THIS = 2 ^ 11"
definition SHARING :: caps where "SHARING = 2 ^ 12"
definition IMPORT :: caps where "IMPORT = 2 ^ 13"
definition EXPORT :: caps where "EXPORT = 2 ^ 14"
definition CUSTOM_SYNTAX :: caps where "CUSTOM_SYNTAX = 2 ^ 15"

lemmas caps_defs =
  FLOAT_def ARRAY_def BLOB_def MAP_def DECIMAL_def FUNCTION_def FN_PTR_def CURRYING_def
  INDEXING_def PROPERTY_def METHOD_def THIS_def SHARING_def IMPORT_def EXPORT_def
  CUSTOM_SYNTAX_def

definition caps_contains :: "caps \<Rightarrow> caps \<Rightarrow> bool" where
  "caps_contains cs c \<longleftrightarrow> cs AND c = c"

definition caps_minus :: "caps \<Rightarrow> caps \<Rightarrow> caps" where
  "caps_minus cs c = cs AND NOT c"

text \<open>The feature flags \<open>CAP_FLAGS\<close> looks at.\<close>

record features =
  no_float :: bool
  no_index :: bool
  no_object :: bool
  no_function :: bool
  no_closure :: bool
  no_module :: bool
  no_custom_syntax :: bool
  decimal :: bool

definition CAP_FLAGS :: "features \<Rightarrow> (caps \<times> string \<times> bool) list" where
  "CAP_FLAGS f =
     [(FLOAT, ''uses floating-point numbers'', \<not> no_float f),
      (ARRAY, ''uses arrays'', \<not> no_index f),
      (BLOB, ''uses BLOB's'', \<not> no_index f),
      (MAP, ''uses object maps'', \<not> no_object f),
      (DECIMAL, ''uses decimal numbers'', decimal f),
      (FUNCTION, ''defines functions'', \<not> no_function f),
      (FN_PTR, ''uses function pointers'', True),
      (CURRYING, ''uses currying'', True),
      (INDEXING, ''uses indexing'', \<not> no_index f),
      (PROPERTY, ''accesses properties'', \<not> no_object f),
      (METHOD, ''uses method calling style'', \<not> no_object f),
      (THIS, ''uses `this`'', \<not> no_function f),
      (SHARING, ''uses shared values'', \<not> no_closure f),
      (IMPORT, ''imports modules'', \<not> no_module f),
      (EXPORT, ''exports data in modules'', \<not> no_module f),
      (CUSTOM_SYNTAX, ''uses custom syntax'', False \<and> \<not> no_custom_syntax f)]"

definition all_caps :: caps where
  "all_caps = fold (\<lambda>c cs. cs OR c)
     [FLOAT, ARRAY, BLOB, MAP, DECIMAL, FUNCTION, FN_PTR, CURRYING, INDEXING, PROPERTY, METHOD,
      THIS, SHARING, IMPORT, EXPORT, CUSTOM_SYNTAX] 0"

section \<open>What a set of flags is called\<close>

fun join :: "string \<Rightarrow> string list \<Rightarrow> string" where
  "join sep [] = []"
| "join sep [s] = s"
| "join sep (s # ss) = s @ sep @ join sep ss"

definition caps_description :: "features \<Rightarrow> caps \<Rightarrow> string" where
  "caps_description f cs =
     join '', '' (map (\<lambda>(cap, name, on). name)
       (filter (\<lambda>(cap, name, on). caps_contains cs cap) (CAP_FLAGS f)))"

definition caps_to_string :: "features \<Rightarrow> caps \<Rightarrow> string" where
  "caps_to_string f cs =
     (let description = caps_description f cs in
      description @
      (if caps_minus cs all_caps \<noteq> 0
       then (if description \<noteq> [] then '', '' else []) @ ''requires an unknown capability''
       else []) @
      (if description = [] then ''requires nothing'' else []))"

section \<open>The fingerprint\<close>

record abi =
  int_bytes :: u8
  float_bytes :: u8
  abi_caps :: caps

datatype abi_mismatch = DataWidth string u8 u8 | AbiMissingCaps string

text \<open>\<open>host\<close>: the widths are measured by the compiler, so they are arguments.\<close>

definition host :: "features \<Rightarrow> u8 \<Rightarrow> u8 \<Rightarrow> abi" where
  "host f int_size float_size =
     \<lparr>int_bytes = int_size,
      float_bytes = (if no_float f then 0 else float_size),
      abi_caps = fold (\<lambda>(flag, name, on) cs. if on then cs OR flag else cs AND NOT flag)
        (CAP_FLAGS f) 0\<rparr>"

definition is_incompatible_with :: "features \<Rightarrow> abi \<Rightarrow> abi \<Rightarrow> abi_mismatch option" where
  "is_incompatible_with f self hst =
     (if int_bytes self \<noteq> int_bytes hst
      then Some (DataWidth ''integer'' (int_bytes self) (int_bytes hst))
      else if float_bytes self \<noteq> float_bytes hst
      then Some (DataWidth ''floating-point number'' (float_bytes self) (float_bytes hst))
      else let missing = caps_minus (abi_caps self) (abi_caps hst) in
        if missing \<noteq> 0 then Some (AbiMissingCaps (caps_to_string f missing)) else None)"

section \<open>Sets of flags\<close>

lemma caps_contains_iff: "caps_contains cs c \<longleftrightarrow> (\<forall>n<32. bit c n \<longrightarrow> bit cs n)"
proof
  assume "caps_contains cs c"
  then have "bit (cs AND c) n = bit c n" for n by (simp add: caps_contains_def)
  then show "\<forall>n<32. bit c n \<longrightarrow> bit cs n" by (auto simp: bit_and_iff)
next
  assume "\<forall>n<32. bit c n \<longrightarrow> bit cs n"
  then show "caps_contains cs c"
    unfolding caps_contains_def by (intro bit_word_eqI) (auto simp: bit_and_iff)
qed

lemma caps_minus_0: "caps_minus cs c = 0 \<longleftrightarrow> caps_contains c cs"
proof
  assume "caps_minus cs c = 0"
  then have "bit (cs AND NOT c) n = bit (0 :: caps) n" for n by (simp add: caps_minus_def)
  then show "caps_contains c cs"
    by (auto simp: caps_contains_iff bit_and_iff bit_not_iff)
next
  assume "caps_contains c cs"
  then show "caps_minus cs c = 0"
    unfolding caps_minus_def caps_contains_iff
    by (intro bit_word_eqI) (auto simp: bit_and_iff bit_not_iff)
qed

lemma caps_contains_refl [simp]: "caps_contains c c"
  by (simp add: caps_contains_def)

lemma caps_contains_0 [simp]: "caps_contains c 0"
  by (simp add: caps_contains_def)

lemma caps_contains_or: "caps_contains cs (a OR b) \<longleftrightarrow> caps_contains cs a \<and> caps_contains cs b"
  by (auto simp: caps_contains_iff bit_or_iff)

lemma caps_contains_trans:
  "caps_contains a b \<Longrightarrow> caps_contains b c \<Longrightarrow> caps_contains a c"
  by (auto simp: caps_contains_iff)

end
