(* ===== verification/Effects.thy ===== *)
theory Effects
  imports Chains Switches Caps Decode
begin

text \<open>
  What the verifier knows of an instruction (\<open>src/grain/bytecode/verify.rs\<close>): the capabilities it
  requires, what it takes from and leaves on the operand stack, how deep it gets while it runs,
  and which pool entries it names.
\<close>

section \<open>Pools, chunks and errors\<close>

record pools =
  consts_len :: nat
  names_len :: nat
  tokens_len :: nat
  assign_ops_len :: nat
  residuals_len :: nat
  chains :: "chain list"
  switches :: "switch list"

text \<open>\<open>src/grain/bytecode/chunk.rs\<close>.\<close>

record chunk =
  entry :: u32
  chunk_end :: u32
  max_stack :: u16

definition chunk_body :: "chunk \<Rightarrow> u8 list \<Rightarrow> u8 list" where
  "chunk_body c code =
     (if unat (entry c) \<le> unat (chunk_end c) \<and> unat (chunk_end c) \<le> length code
      then take (unat (chunk_end c) - unat (entry c)) (drop (unat (entry c)) code) else [])"

definition chunk_ops :: "chunk \<Rightarrow> u8 list \<Rightarrow> (nat \<times> op) list" where
  "chunk_ops c code =
     map (\<lambda>(at, op). (at + unat (entry c), op)) (disassemble (chunk_body c code) 0)"

text \<open>\<open>VerifyError\<close>, with the prefix that keeps its constructors apart from the other errors.\<close>

datatype verify_error =
    VMissingCaps string string nat
  | VUndecodable nat
  | VTrailingBytes nat nat
  | VChunkOutOfRange u32 u32 nat
  | VJumpOutOfRange nat u32
  | VJumpIntoAnInstruction nat u32
  | VDepthConflict nat nat nat
  | VUnderflow nat nat nat
  | VFallsOffTheEnd
  | VStackExceedsDeclared nat u16
  | VIteratorUnderflow nat
  | VHandlerUnderflow nat
  | VBadIndex nat string u32

section \<open>Capabilities\<close>

definition root_caps :: "root \<Rightarrow> caps" where
  "root_caps r = (case r of ThisRoot _ \<Rightarrow> THIS | _ \<Rightarrow> 0)"

definition step_caps :: "step \<Rightarrow> caps" where
  "step_caps s = (case s of
       Index _ _ _ _ \<Rightarrow> INDEXING
     | Property _ _ _ _ _ \<Rightarrow> PROPERTY
     | Method _ _ _ _ _ \<Rightarrow> METHOD)"

definition chain_caps :: "pools \<Rightarrow> u32 \<Rightarrow> caps" where
  "chain_caps pools i = (case get_at (chains pools) (unat i) of
       None \<Rightarrow> 0
     | Some c \<Rightarrow> fold (\<lambda>s cs. cs OR step_caps s) (steps c) (root_caps (root c)))"

definition required_caps :: "op \<Rightarrow> pools \<Rightarrow> caps" where
  "required_caps op pools = (case op of
       Chain i _ \<Rightarrow> chain_caps pools i
     | IndexSet i _ _ _ _ \<Rightarrow> chain_caps pools i
     | IndexGet i _ _ \<Rightarrow> chain_caps pools i
     | MakeFnPtr \<Rightarrow> FN_PTR
     | MakeClosure _ \<Rightarrow> FN_PTR
     | CallFnPtr _ _ _ \<Rightarrow> FN_PTR
     | Curry _ \<Rightarrow> FN_PTR OR CURRYING
     | Share _ \<Rightarrow> SHARING
     | ShareNamed _ \<Rightarrow> SHARING
     | RequireThis \<Rightarrow> THIS
     | LoadThis \<Rightarrow> THIS
     | LoadThisShared \<Rightarrow> THIS
     | AssignThis _ \<Rightarrow> THIS
     | CallRef _ _ receiver _ \<Rightarrow> (case receiver of RThis \<Rightarrow> THIS | _ \<Rightarrow> 0)
     | MakeArray _ \<Rightarrow> ARRAY
     | MakeMap _ \<Rightarrow> MAP
     | IsShared \<Rightarrow> SHARING
     | _ \<Rightarrow> 0)"

section \<open>Stack effects\<close>

definition opcode_temps :: "op \<Rightarrow> nat" where
  "opcode_temps op = (case op of
       BinOpFrom _ _ _ _ _ _ \<Rightarrow> 2
     | BinOp _ _ _ (Some _) _ \<Rightarrow> 1
     | CallRef _ _ (RLocal _) _ \<Rightarrow> 1
     | Call _ _ _ _ \<Rightarrow> 1
     | CallFnPtr _ _ _ \<Rightarrow> 1
     | AssignLocalFrom _ _ (Some _) _ \<Rightarrow> 2
     | AssignLocalFrom _ _ None _ \<Rightarrow> 1
     | IndexSet _ _ index value _ \<Rightarrow>
         if index \<noteq> None \<or> value \<noteq> None then of_bool (index \<noteq> None) + 1 else 0
     | _ \<Rightarrow> 0)"

definition step_argc :: "step \<Rightarrow> nat" where
  "step_argc s = (case s of Method _ argc _ _ _ \<Rightarrow> unat argc | _ \<Rightarrow> 0)"

definition op_chain :: "op \<Rightarrow> u32 option" where
  "op_chain op = (case op of
       Chain i _ \<Rightarrow> Some i | IndexGet i _ _ \<Rightarrow> Some i | IndexSet i _ _ _ _ \<Rightarrow> Some i | _ \<Rightarrow> None)"

definition chain_method_repush :: "op \<Rightarrow> pools \<Rightarrow> nat" where
  "chain_method_repush op pools = (case op_chain op of
       None \<Rightarrow> 0
     | Some i \<Rightarrow> (case get_at (chains pools) (unat i) of
         None \<Rightarrow> 0
       | Some c \<Rightarrow> fold (\<lambda>s extra. max extra (step_argc s)) (steps c) 0))"

definition stack_peak :: "op \<Rightarrow> pools \<Rightarrow> nat \<Rightarrow> nat" where
  "stack_peak op pools depth = depth + opcode_temps op + chain_method_repush op pools"

text \<open>\<open>saturating_sub\<close> is the subtraction of \<open>nat\<close>.\<close>

definition chain_effect :: "op \<Rightarrow> pools \<Rightarrow> u32 \<Rightarrow> nat \<times> nat \<times> nat" where
  "chain_effect op pools i = (case get_at (chains pools) (unat i) of
       Some c \<Rightarrow>
         (let named = (case op of
              IndexSet _ _ index value _ \<Rightarrow> of_bool (index \<noteq> None) + of_bool (value \<noteq> None)
            | IndexGet _ _ index \<Rightarrow> of_bool (index \<noteq> None)
            | _ \<Rightarrow> 0);
          consumed = consumes c - named;
          produces = of_bool (tail c = Read \<and>
            (case op of Chain _ discards \<Rightarrow> \<not> discards | _ \<Rightarrow> True))
         in (consumed, consumed, produces))
     | None \<Rightarrow> (0, 0, 1))"

definition effect :: "op \<Rightarrow> pools \<Rightarrow> nat \<times> nat \<times> nat" where
  "effect op pools = (case op of
       Chain i _ \<Rightarrow> chain_effect op pools i
     | IndexSet i _ _ _ _ \<Rightarrow> chain_effect op pools i
     | IndexGet i _ _ \<Rightarrow> chain_effect op pools i
     | Const _ \<Rightarrow> (0, 0, 1)
     | Unit \<Rightarrow> (0, 0, 1)
     | Bool _ \<Rightarrow> (0, 0, 1)
     | LoadLocal _ \<Rightarrow> (0, 0, 1)
     | LoadNamed _ \<Rightarrow> (0, 0, 1)
     | LoadShared _ \<Rightarrow> (0, 0, 1)
     | LoadSharedNamed _ \<Rightarrow> (0, 0, 1)
     | MakeClosure _ \<Rightarrow> (0, 0, 1)
     | LoadThis \<Rightarrow> (0, 0, 1)
     | LoadThisShared \<Rightarrow> (0, 0, 1)
     | EvalAst _ _ \<Rightarrow> (0, 0, 1)
     | RequireThis \<Rightarrow> (0, 0, 0)
     | Share _ \<Rightarrow> (0, 0, 0)
     | ShareNamed _ \<Rightarrow> (0, 0, 0)
     | StoreLocal _ _ \<Rightarrow> (1, 1, 0)
     | DeclareLocal _ _ \<Rightarrow> (1, 1, 0)
     | Pop \<Rightarrow> (1, 1, 0)
     | AssignLocal _ _ _ \<Rightarrow> (1, 1, 0)
     | AssignNamed _ _ \<Rightarrow> (1, 1, 0)
     | AssignThis _ \<Rightarrow> (1, 1, 0)
     | AssignLocalFrom _ _ _ _ \<Rightarrow> (0, 0, 0)
     | BinOpFrom _ _ _ _ _ None \<Rightarrow> (0, 0, 1)
     | BinOpFrom _ _ _ _ _ (Some _) \<Rightarrow> (0, 0, 0)
     | JumpIfFalse _ \<Rightarrow> (1, 1, 0)
     | JumpIfTrue _ \<Rightarrow> (1, 1, 0)
     | Switch _ \<Rightarrow> (1, 1, 0)
     | Jump _ \<Rightarrow> (0, 0, 0)
     | UnwindTo _ \<Rightarrow> (0, 0, 0)
     | Tick \<Rightarrow> (0, 0, 0)
     | Checkpoint \<Rightarrow> (0, 0, 0)
     | Statement _ \<Rightarrow> (0, 0, 0)
     | PushHandler _ _ \<Rightarrow> (0, 0, 0)
     | PopHandler \<Rightarrow> (0, 0, 0)
     | SkipIfNotUnit _ \<Rightarrow> (1, 0, 0)
     | Call _ argc _ _ \<Rightarrow> (unat argc, unat argc, 1)
     | BinOp _ _ _ rhs branch \<Rightarrow>
         (let taken = (if rhs \<noteq> None then 1 else 2) in (taken, taken, of_bool (branch = None)))
     | UnOp _ _ branch \<Rightarrow> (1, 1, of_bool (branch = None))
     | CallRef _ argc receiver _ \<Rightarrow> (case receiver of
           RLocal _ \<Rightarrow> (unat argc - 1, unat argc - 1, 1)
         | _ \<Rightarrow> (unat argc, unat argc, 1))
     | Rotate below \<Rightarrow> (unat below + 1, unat below + 1, unat below + 1)
     | MakeArray len \<Rightarrow> (unat len, unat len, 1)
     | MakeMap len \<Rightarrow> (let n = 2 * unat len + 1 in (n, n, 1))
     | CheckSize _ _ \<Rightarrow> (1, 1, 1)
     | MakeFnPtr \<Rightarrow> (1, 1, 1)
     | IsShared \<Rightarrow> (1, 1, 1)
     | Curry argc \<Rightarrow> (unat argc + 1, unat argc + 1, 1)
     | CallFnPtr argc _ _ \<Rightarrow> (unat argc + 1, unat argc + 1, 1)
     | InterpolateStart \<Rightarrow> (0, 0, 1)
     | InterpolateAppend \<Rightarrow> (1, 1, 0)
     | InterpolateEnd \<Rightarrow> (1, 1, 1)
     | Throw \<Rightarrow> (1, 1, 0)
     | StoreShared _ \<Rightarrow> (1, 1, 0)
     | IterInit \<Rightarrow> (1, 1, 2)
     | IterDrop \<Rightarrow> (1, 1, 0)
     | IterNext _ _ \<Rightarrow> (0, 0, 0)
     | IterNextStore _ _ \<Rightarrow> (0, 0, 0)
     | Return \<Rightarrow> (0, 0, 0))"

section \<open>Pool references\<close>

definition bounded :: "nat \<Rightarrow> u32 \<Rightarrow> string \<Rightarrow> nat \<Rightarrow> verify_error + unit" where
  "bounded at i what len = (if unat i \<ge> len then Err (VBadIndex at what i) else Ok ())"

text \<open>Checks one after the other, each with its \<open>?\<close>.\<close>

fun all_ok :: "('e + unit) list \<Rightarrow> 'e + unit" where
  "all_ok [] = Ok ()"
| "all_ok (r # rs) = rbind r (\<lambda>_. all_ok rs)"

definition check_root_indices :: "nat \<Rightarrow> root \<Rightarrow> pools \<Rightarrow> verify_error + unit" where
  "check_root_indices at r pools = (case r of
       LocalRoot _ name \<Rightarrow> bounded at name ''name'' (names_len pools)
     | NamedRoot name _ \<Rightarrow> bounded at name ''name'' (names_len pools)
     | ThisRoot _ \<Rightarrow> Ok ()
     | Temporary \<Rightarrow> Ok ())"

definition check_step_indices :: "nat \<Rightarrow> pools \<Rightarrow> step \<Rightarrow> verify_error + unit" where
  "check_step_indices at pools s = (case s of
       Index _ _ _ _ \<Rightarrow> Ok ()
     | Property name getter setter _ _ \<Rightarrow> all_ok
         [bounded at name ''name'' (names_len pools), bounded at getter ''name'' (names_len pools),
          bounded at setter ''name'' (names_len pools)]
     | Method name _ _ _ _ \<Rightarrow> bounded at name ''name'' (names_len pools))"

definition check_chain_indices :: "nat \<Rightarrow> chain \<Rightarrow> pools \<Rightarrow> verify_error + unit" where
  "check_chain_indices at c pools = all_ok
     [check_root_indices at (root c) pools,
      all_ok (map (check_step_indices at pools) (steps c)),
      (case tail c of
         Assign (Some operator) \<Rightarrow> bounded at operator ''op-assignment'' (assign_ops_len pools)
       | _ \<Rightarrow> Ok ())]"

text \<open>\<open>index\<close> of \<open>check_indices\<close>, and the check of an operator byte.\<close>

definition index_at :: "u8 list \<Rightarrow> nat \<Rightarrow> nat \<Rightarrow> u32" where
  "index_at code at offset = (case u16_at code (at + offset) of None \<Rightarrow> 0 | Some w \<Rightarrow> ucast w)"

definition check_kind :: "nat \<Rightarrow> u8 list \<Rightarrow> verify_error + unit" where
  "check_kind at code =
     (if kind_of_byte (code ! (at + 3)) = None
      then Err (VBadIndex at ''operator kind'' (ucast (code ! (at + 3)))) else Ok ())"

definition check_un_kind :: "nat \<Rightarrow> u8 list \<Rightarrow> verify_error + unit" where
  "check_un_kind at code =
     (if un_kind_of_byte (code ! (at + 3)) = None
      then Err (VBadIndex at ''operator kind'' (ucast (code ! (at + 3)))) else Ok ())"

definition check_index_family :: "nat \<Rightarrow> u8 list \<Rightarrow> pools \<Rightarrow> verify_error + unit" where
  "check_index_family at code pools =
    (let t = code ! at; const_ok = (\<lambda>offset. bounded at (index_at code at offset) ''constant'' (consts_len pools))
     in all_ok
     [bounded at (index_at code at 1) ''chain'' (length (chains pools)),
      if t \<in> {INDEX_SET_FROM_CONST, INDEX_GET_FROM_CONST, INDEX_SET_FROM_CONST_VALUE_CONST,
           INDEX_SET_OP_FROM_CONST, INDEX_SET_OP_FROM_CONST_VALUE_CONST}
        then const_ok 5 else Ok (),
      if t \<in> {INDEX_SET_FROM_LOCAL_VALUE_CONST, INDEX_SET_FROM_CONST_VALUE_CONST,
           INDEX_SET_OP_FROM_LOCAL_VALUE_CONST, INDEX_SET_OP_FROM_CONST_VALUE_CONST}
        then const_ok 7 else Ok (),
      check_chain_indices at (chains pools ! unat (index_at code at 1)) pools])"

definition check_operator :: "nat \<Rightarrow> u8 list \<Rightarrow> pools \<Rightarrow> u8 set \<Rightarrow> nat \<Rightarrow> verify_error + unit" where
  "check_operator at code pools const_tags offset = all_ok
     [bounded at (index_at code at 1) ''name'' (names_len pools),
      check_kind at code,
      bounded at (index_at code at 4) ''operator'' (tokens_len pools),
      if code ! at \<in> const_tags
        then bounded at (index_at code at offset) ''constant'' (consts_len pools) else Ok ()]"

definition check_indices :: "nat \<Rightarrow> u8 list \<Rightarrow> pools \<Rightarrow> verify_error + unit" where
  "check_indices at code pools =
    (let t = code ! at;
         const = (\<lambda>offset. bounded at (index_at code at offset) ''constant'' (consts_len pools));
         name = (\<lambda>offset. bounded at (index_at code at offset) ''name'' (names_len pools));
         op_assign = (\<lambda>offset.
           bounded at (index_at code at offset) ''op-assignment'' (assign_ops_len pools))
     in
     if t = CONST_TAG then const 1
     else if t \<in> {DECLARE_LOCAL, DECLARE_CONST} then name 1
     else if t \<in> {CALL, CALL_CAPTURE, CALL_LOCAL_REF, CALL_LOCAL_REF_CAPTURE, CALL_THIS_REF,
         CALL_THIS_REF_CAPTURE} then name 1
     else if t \<in> {CALL_NAMED_REF, CALL_NAMED_REF_CAPTURE} then all_ok [name 1, name 4]
     else if t = CALL_OP then
       all_ok [name 1, bounded at (index_at code at 4) ''operator'' (tokens_len pools)]
     else if t \<in> {BIN_OP, BIN_OP_JF} then check_operator at code pools {} 0
     else if t \<in> {UN_OP, UN_OP_JF} then all_ok [check_un_kind at code, name 1]
     else if t \<in> {BIN_OP_RHS_LOCAL, BIN_OP_RHS_CONST, BIN_OP_RHS_LOCAL_JF, BIN_OP_RHS_CONST_JF}
       then check_operator at code pools {BIN_OP_RHS_CONST, BIN_OP_RHS_CONST_JF} 6
     else if t \<in> {BIN_OP_FROM_LOCAL, BIN_OP_FROM_CONST, BIN_OP_FROM_LOCAL_JF,
         BIN_OP_FROM_CONST_JF, BIN_OP_FROM_LOCAL_JT, BIN_OP_FROM_CONST_JT}
       then check_operator at code pools
         {BIN_OP_FROM_CONST, BIN_OP_FROM_CONST_JF, BIN_OP_FROM_CONST_JT} 8
     else if t \<in> {ASSIGN_LOCAL, ASSIGN_LOCAL_FROM} then name 3
     else if t = ASSIGN_LOCAL_FROM_CONST then all_ok [name 3, const 5]
     else if t = ASSIGN_LOCAL_FROM_OP then all_ok [name 3, op_assign 7]
     else if t = ASSIGN_LOCAL_FROM_CONST_OP then all_ok [name 3, const 5, op_assign 7]
     else if t \<in> {LOAD_NAMED, LOAD_SHARED_NAMED, ASSIGN_NAMED, SHARE_NAMED, MAKE_CLOSURE}
       then name 1
     else if t = ASSIGN_NAMED_OP then all_ok [name 1, op_assign 3]
     else if t = ASSIGN_LOCAL_OP then all_ok [name 3, op_assign 5]
     else if t = ASSIGN_THIS_OP then op_assign 1
     else if t = CALL_FN_PTR_ON_NAMED then name 2
     else if t \<in> {EVAL_AST, EVAL_AST_KEEP} then
       bounded at (index_at code at 1) ''fragment'' (residuals_len pools)
     else if t \<in> {CHAIN, CHAIN_DISCARD, INDEX_SET, INDEX_SET_FROM_LOCAL, INDEX_SET_FROM_CONST,
         INDEX_GET, INDEX_GET_FROM_LOCAL, INDEX_GET_FROM_CONST, INDEX_SET_FROM_LOCAL_VALUE_CONST,
         INDEX_SET_FROM_CONST_VALUE_CONST, INDEX_SET_OP, INDEX_SET_OP_FROM_LOCAL,
         INDEX_SET_OP_FROM_CONST, INDEX_SET_OP_FROM_LOCAL_VALUE_CONST,
         INDEX_SET_OP_FROM_CONST_VALUE_CONST} then check_index_family at code pools
     else if t = SWITCH then
       bounded at (index_at code at 1) ''switch'' (length (switches pools))
     else Ok ())"

end
