(* ===== verification/Verify.thy ===== *)
theory Verify
  imports Effects
begin

text \<open>
  The bytecode verifier (\<open>src/grain/bytecode/verify.rs\<close>): a straight scan that finds where
  instructions start and checks their pool indices, then, chunk by chunk, an abstract
  interpretation over the depths of the operand, iterator and handler stacks with a work list.
\<close>

section \<open>One instruction\<close>

record vstate =
  v_operands :: nat
  v_iters :: nat
  v_handlers :: nat

definition vstate0 :: vstate where
  "vstate0 = \<lparr>v_operands = 0, v_iters = 0, v_handlers = 0\<rparr>"

text \<open>What \<open>verify_chunk\<close> is given: \<open>starts\<close> is the result of the scan.\<close>

record vcontext =
  v_features :: features
  v_caps :: caps
  v_code :: "u8 list"
  v_starts :: "bool list"
  v_pools :: pools

definition checked_sub :: "nat \<Rightarrow> nat \<Rightarrow> nat option" where
  "checked_sub a b = (if b \<le> a then Some (a - b) else None)"

fun seq_ok :: "('e + 'a) list \<Rightarrow> 'e + 'a list" where
  "seq_ok [] = Ok []"
| "seq_ok (r # rs) = rbind r (\<lambda>x. rbind (seq_ok rs) (\<lambda>xs. Ok (x # xs)))"

definition go ::
  "vcontext \<Rightarrow> chunk \<Rightarrow> nat \<Rightarrow> u32 \<Rightarrow> vstate \<Rightarrow> verify_error + nat \<times> vstate" where
  "go cx c at t s =
     (if unat t < unat (entry c) \<or> unat (chunk_end c) \<le> unat t then Err (VJumpOutOfRange at t)
      else if \<not> v_starts cx ! unat t then Err (VJumpIntoAnInstruction at t)
      else Ok (unat t, s))"

definition next_iters :: "nat \<Rightarrow> op \<Rightarrow> vstate \<Rightarrow> verify_error + nat" where
  "next_iters at op s = (case op of
       IterInit \<Rightarrow> Ok (v_iters s + 1)
     | IterDrop \<Rightarrow> ok_or (VIteratorUnderflow at) (checked_sub (v_iters s) 1)
     | _ \<Rightarrow> Ok (v_iters s))"

definition next_handlers :: "nat \<Rightarrow> op \<Rightarrow> vstate \<Rightarrow> verify_error + nat" where
  "next_handlers at op s = (case op of
       PushHandler _ _ \<Rightarrow> Ok (v_handlers s + 1)
     | PopHandler \<Rightarrow> ok_or (VHandlerUnderflow at) (checked_sub (v_handlers s) 1)
     | _ \<Rightarrow> Ok (v_handlers s))"

text \<open>The edge of \<open>IterNext\<close> and \<open>IterNextStore\<close> that falls out of the loop.\<close>

definition exhausted :: "nat \<Rightarrow> nat \<Rightarrow> vstate \<Rightarrow> verify_error + nat \<times> vstate" where
  "exhausted at next s =
     rbind (ok_or (VUnderflow at 2 (v_operands s)) (checked_sub (v_operands s) 2)) (\<lambda>operands.
     rbind (ok_or (VIteratorUnderflow at) (checked_sub (v_iters s) 1)) (\<lambda>iters.
       Ok (next, \<lparr>v_operands = operands, v_iters = iters, v_handlers = v_handlers s\<rparr>)))"

definition switch_targets :: "switch \<Rightarrow> u32 list" where
  "switch_targets s =
     map case_goto (switch_cases s) @ map range_goto (switch_ranges s) @ [switch_default s]"

definition branch_of :: "op \<Rightarrow> u32 option" where
  "branch_of op = (case op of
       JumpIfFalse t \<Rightarrow> Some t
     | JumpIfTrue t \<Rightarrow> Some t
     | SkipIfNotUnit t \<Rightarrow> Some t
     | BinOp _ _ _ _ (Some t) \<Rightarrow> Some t
     | BinOpFrom _ _ _ _ _ (Some b) \<Rightarrow> Some (branch_target b)
     | UnOp _ _ (Some t) \<Rightarrow> Some t
     | _ \<Rightarrow> None)"

text \<open>What the work list is given, in the order of the pushes.\<close>

definition edges ::
  "vcontext \<Rightarrow> chunk \<Rightarrow> nat \<Rightarrow> op \<Rightarrow> nat \<Rightarrow> vstate \<Rightarrow> vstate \<Rightarrow>
   verify_error + (nat \<times> vstate) list" where
  "edges cx c at op next s next_state =
    (case branch_of op of
       Some t \<Rightarrow> seq_ok [go cx c at t next_state, Ok (next, next_state)]
     | None \<Rightarrow>
    (case op of
       Return \<Rightarrow> Ok []
     | Throw \<Rightarrow> Ok []
     | Jump t \<Rightarrow> seq_ok [go cx c at t next_state]
     | PushHandler t _ \<Rightarrow> seq_ok
         [go cx c at t \<lparr>v_operands = v_operands s, v_iters = v_iters s,
            v_handlers = v_handlers next_state\<rparr>,
          Ok (next, next_state)]
     | IterNextStore body _ \<Rightarrow> seq_ok [go cx c at body next_state, exhausted at next s]
     | IterNext body indexed \<Rightarrow> seq_ok
         [go cx c at body \<lparr>v_operands = v_operands s + 1 + of_bool indexed, v_iters = v_iters s,
            v_handlers = v_handlers s\<rparr>,
          exhausted at next s]
     | Switch i \<Rightarrow> (case get_at (switches (v_pools cx)) (unat i) of
           None \<Rightarrow> Ok []
         | Some table \<Rightarrow> seq_ok (map (\<lambda>t. go cx c at t next_state) (switch_targets table)))
     | _ \<Rightarrow> if unat (chunk_end c) \<le> next then Err VFallsOffTheEnd else Ok [(next, next_state)]))"

text \<open>
  The body of the loop for a first visit: the successors and the depth reached while the
  instruction runs.
\<close>

definition verify_step ::
  "vcontext \<Rightarrow> chunk \<Rightarrow> nat \<Rightarrow> vstate \<Rightarrow> verify_error + (nat \<times> vstate) list \<times> nat" where
  "verify_step cx c at s =
     rbind (ok_or (VUndecodable at) (decode (v_code cx) at)) (\<lambda>op.
     let required = required_caps op (v_pools cx); depth = v_operands s in
     if \<not> caps_contains (v_caps cx) required then
       Err (VMissingCaps (caps_to_string (v_features cx) (v_caps cx))
         (caps_to_string (v_features cx) (caps_minus required (v_caps cx))) at)
     else case effect op (v_pools cx) of (requires, pops, pushes) \<Rightarrow>
     if requires < pops then Err (VUndecodable at)
     else if depth < requires then Err (VUnderflow at requires depth)
     else
     rbind (next_iters at op s) (\<lambda>iters.
     rbind (next_handlers at op s) (\<lambda>handlers.
     let next_state = \<lparr>v_operands = depth - pops + pushes, v_iters = iters,
           v_handlers = handlers\<rparr>;
         peak = max (v_operands next_state) (stack_peak op (v_pools cx) depth);
         next = at + the (width (v_code cx) at)
     in rbind (edges cx c at op next s next_state) (\<lambda>succs. Ok (succs, peak)))))"

section \<open>The walk\<close>

text \<open>
  The loop over the work list; its top is the head of the list. An address is visited at most
  once, which is why it ends.
\<close>

lemma unvisited_less:
  fixes end_at :: nat and D :: "nat \<Rightarrow> 's option"
  shows "\<not> end_at \<le> at \<Longrightarrow> D at = None \<Longrightarrow>
   card {a. a < end_at \<and> (D(at \<mapsto> s)) a = None} < card {a. a < end_at \<and> D a = None}"
proof -
  assume new: "\<not> end_at \<le> at" "D at = None"
  have "{a. a < end_at \<and> (D(at \<mapsto> s)) a = None} = {a. a < end_at \<and> D a = None} - {at}"
    by (auto split: if_splits)
  moreover have "at \<in> {a. a < end_at \<and> D a = None}" using new by simp
  moreover have "finite {a. a < end_at \<and> D a = None}" by simp
  ultimately show ?thesis by (metis card_Diff1_less)
qed

function verify_loop ::
  "(nat \<Rightarrow> vstate \<Rightarrow> verify_error + (nat \<times> vstate) list \<times> nat) \<Rightarrow> nat \<Rightarrow>
   (nat \<Rightarrow> vstate option) \<Rightarrow> (nat \<times> vstate) list \<Rightarrow> nat \<Rightarrow>
   verify_error + (nat \<Rightarrow> vstate option) \<times> nat" where
  "verify_loop step end_at depth_at [] high = Ok (depth_at, high)"
| "verify_loop step end_at depth_at ((at, s) # work) high =
     (if end_at \<le> at then Err VFallsOffTheEnd
      else case depth_at at of
        Some seen \<Rightarrow>
          if seen = s then verify_loop step end_at depth_at work high
          else Err (VDepthConflict at (v_operands seen) (v_operands s))
      | None \<Rightarrow> (case step at s of
          Inl e \<Rightarrow> Err e
        | Inr (succs, peak) \<Rightarrow>
            verify_loop step end_at (depth_at(at \<mapsto> s)) (rev succs @ work)
              (max (max high (v_operands s)) peak)))"
  by pat_completeness auto

termination
  by (relation "measures [\<lambda>(step, end_at, D, work, high). card {a. a < end_at \<and> D a = None},
      \<lambda>(step, end_at, D, work, high). length work]")
    (auto simp del: fun_upd_apply intro: unvisited_less)

definition verify_chunk :: "vcontext \<Rightarrow> chunk \<Rightarrow> verify_error + u16" where
  "verify_chunk cx c =
     (let entry_at = unat (entry c); end_at = unat (chunk_end c); len = length (v_code cx) in
      if len < end_at \<or> end_at < entry_at then Err (VChunkOutOfRange (entry c) (chunk_end c) len)
      else
      rbind (verify_loop (verify_step cx c) end_at (\<lambda>_. None) [(entry_at, vstate0)] 0)
        (\<lambda>(depth_at, high).
      if 2 ^ 16 \<le> high \<or> unat (max_stack c) < high
      then Err (VStackExceedsDeclared high (max_stack c)) else Ok (of_nat high)))"

section \<open>The whole program\<close>

record func =
  func_name :: u32
  params :: "u32 list"
  this_type :: "u32 option"
  takes_this :: bool
  func_chunk :: chunk

function scan :: "u8 list \<Rightarrow> pools \<Rightarrow> nat \<Rightarrow> bool list \<Rightarrow> verify_error + nat \<times> bool list" where
  "scan code pools at starts =
     (if at < length code then
        (case width code at of
           None \<Rightarrow> Err (VUndecodable at)
         | Some w \<Rightarrow> rbind (check_indices at code pools)
             (\<lambda>_. scan code pools (at + w) (starts[at := True])))
      else Ok (at, starts))"
  by pat_completeness auto
termination
  by (relation "measure (\<lambda>(code, pools, at, starts). length code - at)") (auto dest: width_bounds)

declare scan.simps [simp del]

definition check_params :: "pools \<Rightarrow> func \<Rightarrow> verify_error + unit" where
  "check_params pools f = all_ok
     (map (\<lambda>param. bounded (unat (entry (func_chunk f))) param ''name'' (names_len pools)) (params f))"

definition verify ::
  "features \<Rightarrow> caps \<Rightarrow> u8 list \<Rightarrow> func list \<Rightarrow> chunk list \<Rightarrow> pools \<Rightarrow> verify_error + u16 list" where
  "verify f caps code functions chunks pools =
     rbind (scan code pools 0 (replicate (length code + 1) False)) (\<lambda>(at, starts).
     if at \<noteq> length code then Err (VTrailingBytes at (length code))
     else if functions \<noteq> [] \<and> \<not> caps_contains caps FUNCTION then
       Err (VMissingCaps (caps_to_string f caps) (caps_to_string f FUNCTION) 0)
     else
     rbind (all_ok (map (check_params pools) functions)) (\<lambda>_.
     seq_ok (map (verify_chunk \<lparr>v_features = f, v_caps = caps, v_code = code,
       v_starts = starts, v_pools = pools\<rparr>) chunks)))"

section \<open>What the walk establishes\<close>

text \<open>
  An assignment of states to addresses that every edge respects: the inductive invariant the
  verifier looks for.
\<close>

definition admits ::
  "(nat \<Rightarrow> vstate \<Rightarrow> verify_error + (nat \<times> vstate) list \<times> nat) \<Rightarrow> nat \<Rightarrow> nat \<Rightarrow>
   (nat \<Rightarrow> vstate option) \<Rightarrow> nat \<Rightarrow> vstate \<Rightarrow> bool" where
  "admits step end_at high D at s \<longleftrightarrow> at < end_at \<and> v_operands s \<le> high \<and>
     (\<exists>succs peak. step at s = Ok (succs, peak) \<and> peak \<le> high \<and>
       (\<forall>(a, s') \<in> set succs. D a = Some s'))"

definition stable ::
  "(nat \<Rightarrow> vstate \<Rightarrow> verify_error + (nat \<times> vstate) list \<times> nat) \<Rightarrow> nat \<Rightarrow> nat \<Rightarrow>
   (nat \<Rightarrow> vstate option) \<Rightarrow> bool" where
  "stable step end_at high D \<longleftrightarrow> (\<forall>at s. D at = Some s \<longrightarrow> admits step end_at high D at s)"

lemma verify_loop_sound:
  "verify_loop step end_at D W h = Ok (D', h') \<Longrightarrow>
   h \<le> h' \<and> D \<subseteq>\<^sub>m D' \<and> (\<forall>(a, s) \<in> set W. D' a = Some s) \<and>
   (\<forall>at s. D' at = Some s \<longrightarrow> D at = Some s \<or> admits step end_at h' D' at s)"
proof (induction step end_at D W h rule: verify_loop.induct)
  case (1 step end_at D h)
  then show ?case by simp
next
  case (2 step end_at D "at" s W h)
  show ?case
  proof (cases "D at")
    case (Some seen)
    with "2.prems" have "seen = s" "\<not> end_at \<le> at" by (auto split: if_splits)
    with "2.IH"(2) [OF _ Some] "2.prems" Some show ?thesis
      by (auto simp: map_le_def dom_def)
  next
    case None
    with "2.prems" obtain succs peak where at: "\<not> end_at \<le> at"
      and step: "step at s = Ok (succs, peak)"
      and rest: "verify_loop step end_at (D(at \<mapsto> s)) (rev succs @ W)
        (max (max h (v_operands s)) peak) = Ok (D', h')"
      by (auto split: if_splits sum.splits)
    from "2.IH"(1) [OF at None step refl rest] have IH:
      "max (max h (v_operands s)) peak \<le> h'" "D(at \<mapsto> s) \<subseteq>\<^sub>m D'"
      "\<forall>(a, s) \<in> set (rev succs @ W). D' a = Some s"
      "\<forall>a t. D' a = Some t \<longrightarrow> (D(at \<mapsto> s)) a = Some t \<or> admits step end_at h' D' a t" by blast+
    from IH(2) have "D' at = Some s" by (auto simp: map_le_def)
    moreover have "admits step end_at h' D' at s"
      using IH(1,3) step at by (auto simp: admits_def)
    moreover have "D \<subseteq>\<^sub>m D'"
      using None by (intro map_le_trans [OF _ IH(2)]) (auto simp: map_le_def dom_def)
    moreover have "D a = Some t \<or> admits step end_at h' D' a t" if "D' a = Some t" for a t
    proof (cases "a = at")
      case True
      then show ?thesis using that calculation(1,2) by simp
    next
      case False
      from IH(4) that have "(D(at \<mapsto> s)) a = Some t \<or> admits step end_at h' D' a t" by blast
      with False show ?thesis by simp
    qed
    ultimately show ?thesis using IH(1,3) by auto
  qed
qed

lemma verify_loop_complete:
  "stable step end_at H E \<Longrightarrow> D \<subseteq>\<^sub>m E \<Longrightarrow> (\<forall>(a, s) \<in> set W. E a = Some s) \<Longrightarrow> h \<le> H \<Longrightarrow>
   \<exists>D' h'. verify_loop step end_at D W h = Ok (D', h') \<and> D' \<subseteq>\<^sub>m E \<and> h' \<le> H"
proof (induction step end_at D W h rule: verify_loop.induct)
  case (1 step end_at D h)
  then show ?case by simp
next
  case (2 step end_at D "at" s W h)
  from "2.prems" have E: "E at = Some s" by simp
  with "2.prems"(1) have "admits step end_at H E at s" by (simp add: stable_def)
  then obtain succs peak where at: "at < end_at" and high: "v_operands s \<le> H"
    and step: "step at s = Ok (succs, peak)" "peak \<le> H" "\<forall>(a, s') \<in> set succs. E a = Some s'"
    unfolding admits_def by blast
  show ?case
  proof (cases "D at")
    case (Some seen)
    with "2.prems"(2) E have "seen = s" by (force simp: map_le_def dom_def)
    with "2.IH"(2) [OF _ Some] "2.prems" Some at show ?thesis by auto
  next
    case None
    have "D(at \<mapsto> s) \<subseteq>\<^sub>m E" using "2.prems"(2) E by (auto simp: map_le_def)
    with "2.IH"(1) [OF _ None step(1) refl] "2.prems" at high step None show ?thesis
      by (auto simp del: fun_upd_apply simp: ball_Un)
  qed
qed

text \<open>
  What it means for a chunk to be sound at a height: an assignment that starts at the entry with
  empty stacks and that every edge respects.
\<close>

definition sound_at :: "vcontext \<Rightarrow> chunk \<Rightarrow> nat \<Rightarrow> (nat \<Rightarrow> vstate option) \<Rightarrow> bool" where
  "sound_at cx c high D \<longleftrightarrow>
     D (unat (entry c)) = Some vstate0 \<and> stable (verify_step cx c) (unat (chunk_end c)) high D"

lemma verify_chunk_sound:
  assumes "verify_chunk cx c = Ok high"
  obtains D where "sound_at cx c (unat high) D" "high \<le> max_stack c"
    "unat (chunk_end c) \<le> length (v_code cx)"
proof -
  from assms obtain D h where
    D: "verify_loop (verify_step cx c) (unat (chunk_end c)) (\<lambda>_. None) [(unat (entry c), vstate0)] 0 =
      Ok (D, h)"
    and h: "h < 2 ^ 16" "h \<le> unat (max_stack c)" "high = of_nat h"
    and len: "unat (chunk_end c) \<le> length (v_code cx)"
    by (auto simp: verify_chunk_def Let_def rbind_eq_Ok split: if_splits)
  have u: "unat high = h" using h by (simp add: unat_of_nat take_bit_nat_eq_self)
  from verify_loop_sound [OF D] u have "sound_at cx c (unat high) D"
    by (auto simp: sound_at_def stable_def)
  moreover have "high \<le> max_stack c" using h(2) u by (simp add: word_le_nat_alt)
  ultimately show ?thesis using len that by blast
qed

lemma verify_chunk_complete:
  assumes "sound_at cx c (unat (max_stack c)) D"
    and "unat (entry c) \<le> unat (chunk_end c)" "unat (chunk_end c) \<le> length (v_code cx)"
  shows "\<exists>high. verify_chunk cx c = Ok high"
proof -
  from assms(1) verify_loop_complete [of "verify_step cx c" "unat (chunk_end c)" "unat (max_stack c)"
      D "\<lambda>_. None" "[(unat (entry c), vstate0)]" 0]
  obtain D' h where
    "verify_loop (verify_step cx c) (unat (chunk_end c)) (\<lambda>_. None) [(unat (entry c), vstate0)] 0 =
      Ok (D', h)" "h \<le> unat (max_stack c)"
    by (auto simp: sound_at_def map_le_def)
  moreover have "unat (max_stack c) < 2 ^ LENGTH(16)" by (rule unsigned_less)
  ultimately show ?thesis using assms(2,3) by (auto simp: verify_chunk_def Let_def)
qed

text \<open>The reported height is the least one: no sound assignment stays below it.\<close>

lemma verify_chunk_least:
  assumes "verify_chunk cx c = Ok high" "sound_at cx c h D"
  shows "unat high \<le> h"
proof -
  from assms(1) obtain D0 h0 where
    D0: "verify_loop (verify_step cx c) (unat (chunk_end c)) (\<lambda>_. None) [(unat (entry c), vstate0)] 0 =
      Ok (D0, h0)" and h0: "h0 < 2 ^ 16" "high = of_nat h0"
    by (auto simp: verify_chunk_def Let_def rbind_eq_Ok split: if_splits)
  from assms(2) verify_loop_complete [of "verify_step cx c" "unat (chunk_end c)" h D
      "\<lambda>_. None" "[(unat (entry c), vstate0)]" 0] D0
  have "h0 \<le> h" by (auto simp: sound_at_def map_le_def)
  with h0 show ?thesis by (simp add: unat_of_nat take_bit_nat_eq_self)
qed

section \<open>Where instructions start\<close>

text \<open>The addresses a straight decode of the code arrives at.\<close>

inductive boundary :: "u8 list \<Rightarrow> nat \<Rightarrow> nat \<Rightarrow> bool" for code :: "u8 list" where
  here: "boundary code at at"
| onwards: "width code at = Some w \<Longrightarrow> boundary code (at + w) i \<Longrightarrow> boundary code at i"

inductive_simps boundary_simps: "boundary code at i"

lemma boundary_le: "boundary code at i \<Longrightarrow> at \<le> i"
  by (induction rule: boundary.induct) auto

lemma boundary_snoc: "boundary code at i \<Longrightarrow> width code i = Some w \<Longrightarrow> boundary code at (i + w)"
  by (induction rule: boundary.induct) (auto intro: boundary.intros)

lemma scan_step:
  "at < length code \<Longrightarrow> scan code pools at starts = (case width code at of
     None \<Rightarrow> Err (VUndecodable at)
   | Some w \<Rightarrow> rbind (check_indices at code pools) (\<lambda>_. scan code pools (at + w) (starts[at := True])))"
  by (simp add: scan.simps [of code pools "at"])

lemma scan_end: "scan code pools (length code) starts = Ok (length code, starts)"
  by (simp add: scan.simps)

text \<open>What the straight scan finds, for any list of flags it starts from.\<close>

lemma scan_Ok:
  "scan code pools at starts = Ok (at', starts') \<Longrightarrow> at \<le> length code \<Longrightarrow>
   length code < length starts \<Longrightarrow>
   at' = length code \<and> length starts' = length starts \<and>
   (\<forall>i < length starts. starts' ! i = (starts ! i \<or> i < length code \<and> boundary code at i)) \<and>
   (\<forall>i. boundary code at i \<longrightarrow> i < length code \<longrightarrow>
      (\<exists>w. width code i = Some w) \<and> check_indices i code pools = Ok ())"
proof (induction code pools "at" starts rule: scan.induct)
  case (1 code pools "at" starts)
  show ?case
  proof (cases "at < length code")
    case False
    with "1.prems" have eq: "at = length code" by simp
    have none: "\<not> (i < length code \<and> boundary code (length code) i)" for i
      using boundary_le by fastforce
    show ?thesis using "1.prems"(1) none unfolding eq scan_end by auto
  next
    case True
    with "1.prems"(1) obtain w where w: "width code at = Some w"
      and check: "check_indices at code pools = Ok ()"
      and rest: "scan code pools (at + w) (starts[at := True]) = Ok (at', starts')"
      by (auto simp: scan_step rbind_eq_Ok split: option.splits)
    from width_bounds [OF w] have "at + w \<le> length code" "0 < w" by auto
    with "1.IH" [OF True w rest] "1.prems"(3) have IH: "at' = length code"
      "length starts' = length starts"
      "\<forall>i < length starts. starts' ! i =
        (starts[at := True] ! i \<or> i < length code \<and> boundary code (at + w) i)"
      "\<forall>i. boundary code (at + w) i \<longrightarrow> i < length code \<longrightarrow>
        (\<exists>w. width code i = Some w) \<and> check_indices i code pools = Ok ()"
      by simp_all
    have split: "boundary code at i \<longleftrightarrow> i = at \<or> boundary code (at + w) i" for i
      using w by (subst boundary_simps) auto
    have "starts' ! i = (starts ! i \<or> i < length code \<and> boundary code at i)" if "i < length starts" for i
      using IH(3) that True split by (cases "i = at") auto
    moreover have "(\<exists>w. width code i = Some w) \<and> check_indices i code pools = Ok ()"
      if "boundary code at i" "i < length code" for i
      using IH(4) that split w check by auto
    ultimately show ?thesis using IH(1,2) by blast
  qed
qed

lemma scan_complete:
  "at \<le> length code \<Longrightarrow>
   \<forall>i. boundary code at i \<longrightarrow> i < length code \<longrightarrow>
      (\<exists>w. width code i = Some w) \<and> check_indices i code pools = Ok () \<Longrightarrow>
   \<exists>r. scan code pools at starts = Ok r"
proof (induction code pools "at" starts rule: scan.induct)
  case (1 code pools "at" starts)
  show ?case
  proof (cases "at < length code")
    case False
    with "1.prems" show ?thesis by (simp add: scan.simps)
  next
    case True
    with "1.prems"(2) obtain w where w: "width code at = Some w" "check_indices at code pools = Ok ()"
      using boundary.here by blast
    have "\<exists>r. scan code pools (at + w) (starts[at := True]) = Ok r"
      using width_bounds [OF w(1)] "1.prems"(2) boundary.onwards [OF w(1)]
      by (intro "1.IH" [OF True w(1)]) auto
    then show ?thesis using True w by (auto simp: scan_step)
  qed
qed

text \<open>
  C6. The first pass of the verifier accepts a buffer exactly when every address a straight
  decode arrives at has a width and names only pool entries that exist; it then ends at the end
  of the buffer, and the flags it returns are those addresses and no others.
\<close>

theorem scan_finds_boundaries:
  "scan code pools 0 (replicate (length code + 1) False) = Ok (at, starts) \<longleftrightarrow>
     at = length code \<and>
     starts = map (\<lambda>i. i < length code \<and> boundary code 0 i) [0..<length code + 1] \<and>
     (\<forall>i. boundary code 0 i \<longrightarrow> i < length code \<longrightarrow>
        (\<exists>w. width code i = Some w) \<and> check_indices i code pools = Ok ())"
    (is "?scan = _ \<longleftrightarrow> ?at \<and> ?starts \<and> ?ok")
proof
  assume "?scan = Ok (at, starts)"
  from scan_Ok [OF this] show "?at \<and> ?starts \<and> ?ok"
    by (auto simp: nth_append intro!: nth_equalityI simp del: upt_Suc replicate_Suc)
next
  assume a: "?at \<and> ?starts \<and> ?ok"
  then have "\<exists>r. ?scan = Ok r" by (intro scan_complete) auto
  then obtain r where r: "?scan = Ok r" ..
  obtain at' starts' where "r = (at', starts')" by (cases r)
  with scan_Ok [of code pools 0 _ at' starts'] r have "at' = length code"
    "starts' = map (\<lambda>i. i < length code \<and> boundary code 0 i) [0..<length code + 1]"
    by (auto simp: nth_append intro!: nth_equalityI simp del: upt_Suc replicate_Suc)
  with a r \<open>r = (at', starts')\<close> show "?scan = Ok (at, starts)" by simp
qed

text \<open>Concrete inputs: the two-byte chunk \<open>Unit; Return\<close>, with empty pools.\<close>

definition no_pools :: pools where
  "no_pools = \<lparr>consts_len = 0, names_len = 0, tokens_len = 0, assign_ops_len = 0,
     residuals_len = 0, chains = [], switches = []\<rparr>"

definition full_features :: features where
  "full_features = \<lparr>no_float = False, no_index = False, no_object = False, no_function = False,
     no_closure = False, no_module = False, no_custom_syntax = False, decimal = False\<rparr>"

definition context_of :: "u8 list \<Rightarrow> bool list \<Rightarrow> vcontext" where
  "context_of code starts = \<lparr>v_features = full_features, v_caps = 0, v_code = code, v_starts = starts,
     v_pools = no_pools\<rparr>"

lemma decode_unit_return:
  "width [2, 19] 0 = Some 1" "width [2, 19] (Suc 0) = Some 1"
  "decode [2, 19] 0 = Some Unit" "decode [2, 19] (Suc 0) = Some Return"
  by (simp_all add: decode_def width_def width_of_def Let_def widths_num get_at_def decode_defs
      tag_defs)

lemmas step_eval =
  verify_step_def required_caps_def caps_contains_def effect_def opcode_temps_def stack_peak_def
  chain_method_repush_def op_chain_def next_iters_def next_handlers_def edges_def branch_of_def
  vstate0_def Let_def

definition unit_return :: vcontext where
  "unit_return = context_of [2, 19] [True, True, False]"

definition unit_return_chunk :: chunk where
  "unit_return_chunk = \<lparr>entry = 0, chunk_end = 2, max_stack = 4\<rparr>"

lemma unit_return_verifies: "verify_chunk unit_return unit_return_chunk = Ok 1"
  by (simp add: verify_chunk_def unit_return_def unit_return_chunk_def context_of_def step_eval
      decode_unit_return)

text \<open>A sound assignment stays sound at any greater height.\<close>

lemma sound_at_mono: "sound_at cx c h D \<Longrightarrow> h \<le> h' \<Longrightarrow> sound_at cx c h' D"
  by (force simp: sound_at_def stable_def admits_def)

text \<open>
  C5. The second pass accepts a chunk exactly when it lies in the buffer and its declared stack
  height admits an assignment of stack states to addresses that starts empty at the entry and
  that every edge respects; the height it returns is the least that does.
\<close>

theorem verify_chunk_exact:
  "verify_chunk cx c = Ok high \<longleftrightarrow>
     unat (entry c) \<le> unat (chunk_end c) \<and> unat (chunk_end c) \<le> length (v_code cx) \<and>
     high \<le> max_stack c \<and> (\<exists>D. sound_at cx c (unat high) D) \<and>
     (\<forall>h D. sound_at cx c h D \<longrightarrow> unat high \<le> h)"
    (is "?ok high \<longleftrightarrow> ?range \<and> ?fin \<and> ?max high \<and> ?sound high \<and> ?least high")
proof -
  have forth: "?range \<and> ?fin \<and> ?max h \<and> ?sound h \<and> ?least h" if "?ok h" for h
  proof -
    have ?range ?fin using that by (auto simp: verify_chunk_def Let_def split: if_splits)
    moreover from verify_chunk_sound [OF that] have "?max h \<and> ?sound h" by blast
    ultimately show ?thesis using verify_chunk_least [OF that] by blast
  qed
  have "?ok high" if r: "?range" "?fin" "?max high" "?sound high" "?least high"
  proof -
    from r(4) obtain D where D: "sound_at cx c (unat high) D" ..
    with r(3) have "sound_at cx c (unat (max_stack c)) D"
      by (auto simp: word_le_nat_alt intro: sound_at_mono)
    from verify_chunk_complete [OF this r(1,2)] obtain high' where high': "?ok high'" ..
    from forth [OF high'] D r(5) have "unat high' = unat high" by (meson le_antisym)
    with high' show ?thesis by (simp add: word_unat_eq_iff)
  qed
  with forth show ?thesis by blast
qed

theorem verify_chunk_exact_witness:
  "\<exists>D. sound_at unit_return unit_return_chunk 1 D"
  using verify_chunk_exact [of unit_return unit_return_chunk 1, THEN iffD1, OF unit_return_verifies]
  by simp

theorem scan_finds_boundaries_witness:
  "boundary [2, 19] 0 1 \<and> check_indices 1 [2, 19] no_pools = Ok ()"
proof -
  have "scan [2, 19] no_pools 0 (replicate (length [2 :: u8, 19] + 1) False) =
      Ok (2, [True, True, False])"
    by (simp add: scan.simps decode_unit_return check_indices_def tag_defs Let_def)
  from this [unfolded scan_finds_boundaries] show ?thesis by simp
qed

text \<open>
  C33. The entry of a chunk need not be an instruction: a buffer that holds one \<open>UnwindTo\<close> whose
  operand bytes read as \<open>Unit; Return\<close> verifies with a chunk that starts inside it, although
  no instruction starts there.
\<close>

theorem entry_inside_instruction:
  "verify full_features 0 [UNWIND_TO, 2, 19] [] [\<lparr>entry = 1, chunk_end = 3, max_stack = 1\<rparr>] no_pools =
     Ok [1] \<and> \<not> boundary [UNWIND_TO, 2, 19] 0 1"
proof -
  have w: "width [UNWIND_TO, 2, 19] 0 = Some 3" "width [UNWIND_TO, 2, 19] (Suc 0) = Some 1"
    "width [UNWIND_TO, 2, 19] 2 = Some 1"
    by (simp_all add: width_def width_of_def Let_def widths_num get_at_def tag_defs)
  have d: "decode [UNWIND_TO, 2, 19] (Suc 0) = Some Unit" "decode [UNWIND_TO, 2, 19] 2 = Some Return"
    by (simp_all add: decode_def w [unfolded tag_defs] decode_defs tag_defs)
  have c: "check_indices 0 [UNWIND_TO, 2, 19] no_pools = Ok ()"
    by (simp add: check_indices_def tag_defs Let_def)
  have "scan [UNWIND_TO, 2, 19] no_pools 0 [False, False, False, False] =
      scan [UNWIND_TO, 2, 19] no_pools (length [UNWIND_TO, 2, 19]) [True, False, False, False]"
    by (simp add: scan_step w c numeral_3_eq_3)
  then have s: "scan [UNWIND_TO, 2, 19] no_pools 0 [False, False, False, False] =
      Ok (3, [True, False, False, False])"
    by (simp only: scan_end) simp
  have "verify full_features 0 [UNWIND_TO, 2, 19] [] [\<lparr>entry = 1, chunk_end = 3, max_stack = 1\<rparr>] no_pools =
     Ok [1]"
    by (simp add: verify_def s verify_chunk_def step_eval d d [unfolded numeral_2_eq_2] w
        w [unfolded numeral_2_eq_2])
  moreover have "\<not> boundary [UNWIND_TO, 2, 19] 0 1"
    using w boundary_le [of _ 3 1] by (subst boundary_simps) auto
  ultimately show ?thesis ..
qed

end
