(* ===== verification/Frame.thy ===== *)
theory Frame
  imports Prelude
begin

text \<open>
  The operand array of an interpreter frame (\<open>GrainFrame\<close> in \<open>src/grain/vm/mod.rs\<close>, without the
  \<open>grain-jit\<close> feature): slots allocated once, \<open>floor + max_stack\<close> of them, and a depth. A frame
  sees its own operands from its floor upwards; the slots below are the caller's and stay empty
  here. The lemmas show that the array implements a stack of values as long as the depth stays
  between the floor and the length.
\<close>

section \<open>Slots\<close>

text \<open>
  How an operation on the array ends. \<open>Underflow\<close> is the error that \<open>checked_sub\<close> becomes;
  \<open>NoRoom\<close> is the panic of an index past the slots, \<open>EmptySlot\<close> that of a read from a slot that
  holds nothing; \<open>Refused\<close> is any other error of the source that leaves the instruction.
\<close>

datatype fault = Underflow | NoRoom | EmptySlot | Refused

record 'v frame =
  cells :: "'v option list"
  depth :: nat
  stack_base :: nat

text \<open>\<open>operand_slots\<close> and the frame of \<open>execute\<close>.\<close>

definition new_frame :: "nat \<Rightarrow> nat \<Rightarrow> 'v frame" where
  "new_frame floor max_stack =
     \<lparr>cells = replicate (floor + max_stack) None, depth = floor, stack_base = floor\<rparr>"

definition write_cell :: "nat \<Rightarrow> 'v \<Rightarrow> 'v frame \<Rightarrow> fault + 'v frame" where
  "write_cell i v f =
     (if i < length (cells f) then Ok (f\<lparr>cells := (cells f)[i := Some v]\<rparr>) else Err NoRoom)"

definition cell :: "nat \<Rightarrow> 'v frame \<Rightarrow> fault + 'v" where
  "cell i f = (case get_at (cells f) i of
       None \<Rightarrow> Err NoRoom
     | Some None \<Rightarrow> Err EmptySlot
     | Some (Some v) \<Rightarrow> Ok v)"

definition take_cell :: "nat \<Rightarrow> 'v frame \<Rightarrow> fault + 'v \<times> 'v frame" where
  "take_cell i f = rbind (cell i f) (\<lambda>v. Ok (v, f\<lparr>cells := (cells f)[i := None]\<rparr>))"

definition push_cell :: "'v \<Rightarrow> 'v frame \<Rightarrow> fault + 'v frame" where
  "push_cell v f = rbind (write_cell (depth f) v f) (\<lambda>f. Ok (f\<lparr>depth := depth f + 1\<rparr>))"

text \<open>\<open>while slot < self.operand_depth\<close> of \<open>truncate_cells\<close>.\<close>

fun clear_cells :: "nat \<Rightarrow> nat \<Rightarrow> 'v option list \<Rightarrow> 'v option list" where
  "clear_cells slot 0 cs = cs"
| "clear_cells slot (Suc n) cs = clear_cells (slot + 1) n (cs[slot := None])"

definition truncate_cells :: "nat \<Rightarrow> 'v frame \<Rightarrow> 'v frame" where
  "truncate_cells d f =
     (if d \<ge> depth f then f
      else f\<lparr>cells := clear_cells d (depth f - d) (cells f), depth := d\<rparr>)"

fun take_loop :: "nat \<Rightarrow> nat \<Rightarrow> 'v frame \<Rightarrow> fault + 'v list \<times> 'v frame" where
  "take_loop slot 0 f = Ok ([], f)"
| "take_loop slot (Suc n) f =
     rbind (take_cell slot f) (\<lambda>(v, f).
     rbind (take_loop (slot + 1) n f) (\<lambda>(vs, f). Ok (v # vs, f)))"

definition take_cells_from :: "nat \<Rightarrow> 'v frame \<Rightarrow> fault + 'v list \<times> 'v frame" where
  "take_cells_from start f =
     (if start \<ge> depth f then Ok ([], f)
      else rbind (take_loop start (depth f - start) f) (\<lambda>(vs, f). Ok (vs, f\<lparr>depth := start\<rparr>)))"

text \<open>\<open>while slot > at\<close> of \<open>open_cells\<close>, for the \<open>n\<close> slots from the depth down to \<open>at\<close>.\<close>

fun open_loop :: "nat \<Rightarrow> nat \<Rightarrow> nat \<Rightarrow> 'v frame \<Rightarrow> fault + 'v frame" where
  "open_loop at 0 count f = Ok f"
| "open_loop at (Suc n) count f =
     rbind (take_cell (at + n) f) (\<lambda>(v, f).
     rbind (write_cell (at + n + count) v f) (\<lambda>f. open_loop at n count f))"

definition open_cells :: "nat \<Rightarrow> nat \<Rightarrow> 'v frame \<Rightarrow> fault + 'v frame" where
  "open_cells at count f =
     rbind (open_loop at (depth f - at) count f) (\<lambda>f. Ok (f\<lparr>depth := depth f + count\<rparr>))"

text \<open>\<open>for (offset, value) in curried.iter().enumerate()\<close>: the opened slots filled in order.\<close>

fun fill_cells :: "nat \<Rightarrow> 'v list \<Rightarrow> 'v frame \<Rightarrow> fault + 'v frame" where
  "fill_cells at [] f = Ok f"
| "fill_cells at (v # vs) f = rbind (write_cell at v f) (\<lambda>f. fill_cells (at + 1) vs f)"

section \<open>The operations of the dispatch loop\<close>

text \<open>\<open>checked_sub\<close> on the depth with its \<open>or_raise!\<close>.\<close>

definition below_top :: "nat \<Rightarrow> 'v frame \<Rightarrow> fault + nat" where
  "below_top n f = (if n \<le> depth f then Ok (depth f - n) else Err Underflow)"

definition pop :: "'v frame \<Rightarrow> fault + 'v \<times> 'v frame" where
  "pop f = rbind (below_top 1 f) (\<lambda>d. take_cell d (f\<lparr>depth := d\<rparr>))"

definition pop_or_unit :: "'v \<Rightarrow> 'v frame \<Rightarrow> fault + 'v \<times> 'v frame" where
  "pop_or_unit unit_value f =
     (if depth f = 0 then Ok (unit_value, f)
      else take_cell (depth f - 1) (f\<lparr>depth := depth f - 1\<rparr>))"

definition inspect :: "'v frame \<Rightarrow> fault + 'v" where
  "inspect f = rbind (below_top 1 f) (\<lambda>d. cell d f)"

text \<open>The arm of \<open>ROTATE\<close>.\<close>

definition rotate_arm :: "nat \<Rightarrow> 'v frame \<Rightarrow> fault + 'v frame" where
  "rotate_arm below f =
     rbind (below_top 1 f) (\<lambda>top.
     if top < below then Err Underflow
     else let to = top - below; last = cells f ! top;
              prev = ((cells f)[top := None]) ! to
          in Ok (f\<lparr>cells := (cells f)[top := None, to := last, top := prev]\<rparr>))"

section \<open>The stack it implements\<close>

text \<open>
  The frame whose slots hold exactly the stack \<open>xs\<close> above the floor: empty slots below it (they
  are the caller's), empty slots up to the capacity.
\<close>

definition stack_frame :: "nat \<Rightarrow> nat \<Rightarrow> 'v list \<Rightarrow> 'v frame" where
  "stack_frame floor cap xs =
     \<lparr>cells = replicate floor None @ map Some xs @ replicate (cap - length xs) None,
      depth = floor + length xs, stack_base = floor\<rparr>"

named_theorems frame_simps

lemma new_frame_stack: "new_frame floor cap = stack_frame floor cap []"
  by (simp add: new_frame_def stack_frame_def replicate_add)

lemma stack_frame_sel [simp]:
  "depth (stack_frame floor cap xs) = floor + length xs"
  "stack_base (stack_frame floor cap xs) = floor"
  "cells (stack_frame floor cap xs) =
     replicate floor None @ map Some xs @ replicate (cap - length xs) None"
  by (simp_all add: stack_frame_def)

lemma frame_eqI:
  fixes f g :: "'v frame"
  shows "cells f = cells g \<Longrightarrow> depth f = depth g \<Longrightarrow> stack_base f = stack_base g \<Longrightarrow> f = g"
  by (cases f; cases g) simp

lemma cell_stack:
  "length xs \<le> cap \<Longrightarrow> cell i (stack_frame floor cap xs) =
     (if floor + cap \<le> i then Err NoRoom
      else if i < floor \<or> floor + length xs \<le> i then Err EmptySlot
      else Ok (xs ! (i - floor)))"
  by (auto simp: cell_def get_at_def nth_append split: option.splits)

lemma cell_depth [simp]: "cell i (f\<lparr>depth := d\<rparr>) = cell i f"
  by (simp add: cell_def)

lemma push_cell_stack [frame_simps]:
  "length xs \<le> cap \<Longrightarrow> push_cell v (stack_frame floor cap xs) =
     (if length xs < cap then Ok (stack_frame floor cap (xs @ [v])) else Err NoRoom)"
proof -
  assume "length xs \<le> cap"
  moreover have "(replicate floor None @ map Some xs @ replicate (cap - length xs) None)
      [floor + length xs := Some v] =
      replicate floor None @ map Some (xs @ [v]) @ replicate (cap - length (xs @ [v])) None"
    if "length xs < cap"
  proof -
    from that obtain k where "cap - length xs = Suc k" by (cases "cap - length xs") auto
    moreover from this have "cap - Suc (length xs) = k" by simp
    ultimately show ?thesis by (simp add: list_update_append)
  qed
  ultimately show ?thesis
    by (auto simp: push_cell_def write_cell_def intro!: frame_eqI)
qed

lemma clear_cells_append:
  "n = length ys \<Longrightarrow> clear_cells (length xs) n (xs @ ys @ zs) = xs @ replicate n None @ zs"
proof (induction n arbitrary: xs ys)
  case 0
  then show ?case by simp
next
  case (Suc n)
  then obtain y ys' where ys: "ys = y # ys'" "length ys' = n" by (cases ys) auto
  with Suc.IH [of ys' "xs @ [None]"] show ?case by simp
qed

lemma truncate_stack [frame_simps]:
  "length xs \<le> cap \<Longrightarrow> k \<le> length xs \<Longrightarrow>
   truncate_cells (floor + k) (stack_frame floor cap xs) = stack_frame floor cap (take k xs)"
proof -
  assume len: "length xs \<le> cap" "k \<le> length xs"
  show ?thesis
  proof (cases "k = length xs")
    case True
    then show ?thesis by (simp add: truncate_cells_def)
  next
    case False
    with len have k: "k < length xs" by simp
    have "clear_cells (length (replicate floor None @ map Some (take k xs))) (length xs - k)
        ((replicate floor None @ map Some (take k xs)) @ map Some (drop k xs) @
          replicate (cap - length xs) None) =
        (replicate floor None @ map Some (take k xs)) @ replicate (length xs - k) None @
          replicate (cap - length xs) None"
      by (rule clear_cells_append) simp
    moreover have "map Some xs = map Some (take k xs) @ map Some (drop k xs)"
      by (metis append_take_drop_id map_append)
    moreover have "length xs - k + (cap - length xs) = cap - k" using len k by simp
    ultimately show ?thesis using k
      by (auto simp: truncate_cells_def min_def replicate_add [symmetric] intro!: frame_eqI)
  qed
qed

lemma truncate_to_floor: "truncate_cells floor (stack_frame floor cap xs) = stack_frame floor cap []"
  if "length xs \<le> cap"
  using truncate_stack [of xs cap 0 floor] that by simp

lemma take_loop_append:
  "n = length ys \<Longrightarrow> take_loop (length xs) n \<lparr>cells = xs @ map Some ys @ zs, depth = d, stack_base = s\<rparr> =
     Ok (ys, \<lparr>cells = xs @ replicate n None @ zs, depth = d, stack_base = s\<rparr>)"
proof (induction n arbitrary: xs ys)
  case 0
  then show ?case by simp
next
  case (Suc n)
  then obtain y ys' where ys: "ys = y # ys'" "length ys' = n" by (cases ys) auto
  with Suc.IH [of ys' "xs @ [None]"] show ?case
    by (simp add: take_cell_def cell_def)
qed

lemma take_cells_stack [frame_simps]:
  "length xs \<le> cap \<Longrightarrow> k \<le> length xs \<Longrightarrow>
   take_cells_from (floor + k) (stack_frame floor cap xs) =
     Ok (drop k xs, stack_frame floor cap (take k xs))"
proof -
  assume len: "length xs \<le> cap" "k \<le> length xs"
  have split: "map Some xs = map Some (take k xs) @ map Some (drop k xs)"
    by (metis append_take_drop_id map_append)
  show ?thesis
  proof (cases "k = length xs")
    case True
    then show ?thesis by (simp add: take_cells_from_def)
  next
    case False
    with len have k: "k < length xs" by simp
    have "take_loop (length (replicate floor None @ map Some (take k xs))) (length xs - k)
        \<lparr>cells = (replicate floor None @ map Some (take k xs)) @ map Some (drop k xs) @
          replicate (cap - length xs) None, depth = floor + length xs, stack_base = floor\<rparr> =
        Ok (drop k xs, \<lparr>cells = (replicate floor None @ map Some (take k xs)) @
          replicate (length xs - k) None @ replicate (cap - length xs) None,
          depth = floor + length xs, stack_base = floor\<rparr>)"
      by (rule take_loop_append) simp
    with split len k show ?thesis
      by (simp add: take_cells_from_def stack_frame_def min_def replicate_add [symmetric])
  qed
qed

lemma below_top_stack [frame_simps]:
  "below_top n (stack_frame floor cap xs) =
     (if n \<le> floor + length xs then Ok (floor + length xs - n) else Err Underflow)"
  by (simp add: below_top_def)

lemma take_top:
  "length xs < cap \<Longrightarrow>
   take_cell (floor + length xs) ((stack_frame floor cap (xs @ [v]))\<lparr>depth := floor + length xs\<rparr>) =
     Ok (v, stack_frame floor cap xs)"
proof -
  assume len: "length xs < cap"
  then obtain k where "cap - length xs = Suc k" by (cases "cap - length xs") auto
  moreover from this have "cap - Suc (length xs) = k" by simp
  ultimately show ?thesis using len
    by (simp add: take_cell_def cell_def get_at_def nth_append list_update_append stack_frame_def)
qed

lemma pop_stack [frame_simps]:
  "length xs < cap \<Longrightarrow>
   pop (stack_frame floor cap (xs @ [v])) = Ok (v, stack_frame floor cap xs)"
  using take_top by (simp add: pop_def below_top_def)

lemma pop_or_unit_stack [frame_simps]:
  "length xs < cap \<Longrightarrow>
   pop_or_unit u (stack_frame floor cap (xs @ [v])) = Ok (v, stack_frame floor cap xs)"
  using take_top by (simp add: pop_or_unit_def)

text \<open>
  Under the floor: the depth is absolute, so \<open>checked_sub\<close> sees an empty stack only in a frame
  whose floor is 0; in any other the read hits an empty slot.
\<close>

lemma cell_under: "0 < floor \<Longrightarrow> cell (floor - Suc 0) (stack_frame floor cap []) = Err EmptySlot"
  by (simp add: cell_stack not_le)

lemma pop_empty [frame_simps]:
  "pop (stack_frame floor cap []) = Err (if floor = 0 then Underflow else EmptySlot)"
  by (auto simp: pop_def below_top_def take_cell_def cell_under)

lemma pop_or_unit_empty [frame_simps]:
  "pop_or_unit u (stack_frame floor cap []) =
     (if floor = 0 then Ok (u, stack_frame floor cap []) else Err EmptySlot)"
  by (auto simp: pop_or_unit_def take_cell_def cell_under)

lemma inspect_stack [frame_simps]:
  "length xs < cap \<Longrightarrow> inspect (stack_frame floor cap (xs @ [v])) = Ok v"
  by (simp add: inspect_def below_top_def cell_stack)

section \<open>Opening slots in the middle\<close>

lemma open_loop_append:
  "n \<le> length bs \<Longrightarrow>
   open_loop (length P) n count \<lparr>cells = P @ map Some (take n bs) @ replicate count None @
       map Some (drop n bs) @ Z, depth = d, stack_base = s\<rparr> =
     Ok \<lparr>cells = P @ replicate count None @ map Some bs @ Z, depth = d, stack_base = s\<rparr>"
proof (induction n)
  case 0
  then show ?case by simp
next
  case (Suc n)
  define b where "b = bs ! n"
  let ?P' = "P @ map Some (take n bs)"
  have take: "take (Suc n) bs = take n bs @ [b]" and drop: "drop n bs = b # drop (Suc n) bs"
    using Suc.prems by (simp_all add: b_def take_Suc_conv_app_nth Cons_nth_drop_Suc)
  have len: "length P + n = length ?P'" using Suc.prems by simp
  have "take_cell (length P + n) \<lparr>cells = P @ map Some (take (Suc n) bs) @ replicate count None @
       map Some (drop (Suc n) bs) @ Z, depth = d, stack_base = s\<rparr> =
     Ok (b, \<lparr>cells = ?P' @ None # replicate count None @ map Some (drop (Suc n) bs) @ Z,
       depth = d, stack_base = s\<rparr>)"
    using len by (simp add: take_cell_def cell_def take get_at_def nth_append list_update_append)
  moreover have "(None # replicate count None @ R)[count := Some b] =
      replicate count None @ Some b # R" for R :: "'a option list"
    by (induction count) auto
  then have "write_cell (length P + n + count) b
      \<lparr>cells = ?P' @ None # replicate count None @ map Some (drop (Suc n) bs) @ Z,
       depth = d, stack_base = s\<rparr> =
     Ok \<lparr>cells = P @ map Some (take n bs) @ replicate count None @ map Some (drop n bs) @ Z,
       depth = d, stack_base = s\<rparr>"
    using Suc.prems by (simp add: write_cell_def list_update_append drop)
  ultimately show ?case using Suc by simp
qed

lemma fill_cells_append:
  "length ys = length vs \<Longrightarrow>
   fill_cells (length P) vs \<lparr>cells = P @ ys @ Z, depth = d, stack_base = s\<rparr> =
     Ok \<lparr>cells = P @ map Some vs @ Z, depth = d, stack_base = s\<rparr>"
proof (induction vs arbitrary: P ys)
  case Nil
  then show ?case by simp
next
  case (Cons v vs)
  then obtain y ys' where "ys = y # ys'" "length ys' = length vs" by (cases ys) auto
  with Cons.IH [of ys' "P @ [Some v]"] show ?case
    by (simp add: write_cell_def list_update_append)
qed

lemma fill_cells_overflow:
  "at \<le> length (cells f) \<Longrightarrow> length (cells f) < at + length vs \<Longrightarrow> fill_cells at vs f = Err NoRoom"
proof (induction vs arbitrary: "at" f)
  case Nil
  then show ?case by simp
next
  case (Cons v vs)
  then show ?case by (cases "at = length (cells f)") (auto simp: write_cell_def)
qed

text \<open>The slots opened for the curried arguments of a call, and the arguments put there.\<close>

definition insert_cells :: "nat \<Rightarrow> 'v list \<Rightarrow> 'v frame \<Rightarrow> fault + 'v frame" where
  "insert_cells at vs f = rbind (open_cells at (length vs) f) (fill_cells at vs)"

lemma insert_cells_stack [frame_simps]:
  "length xs \<le> cap \<Longrightarrow> k \<le> length xs \<Longrightarrow>
   insert_cells (floor + k) vs (stack_frame floor cap xs) =
     (if length xs + length vs \<le> cap
      then Ok (stack_frame floor cap (take k xs @ vs @ drop k xs)) else Err NoRoom)"
proof -
  assume len: "length xs \<le> cap" "k \<le> length xs"
  define P where "P = replicate floor None @ map Some (take k xs)"
  have P: "length P = floor + k" using len by (simp add: P_def)
  have split: "map Some xs = map Some (take k xs) @ map Some (drop k xs)"
    by (metis append_take_drop_id map_append)
  show ?thesis
  proof (cases "length xs + length vs \<le> cap")
    case True
    define Z :: "'a option list" where "Z = replicate (cap - length xs - length vs) None"
    have "replicate (cap - length xs) None = replicate (length vs) (None :: 'a option) @ Z"
      using True by (simp add: Z_def replicate_add [symmetric])
    then have f: "stack_frame floor cap xs = \<lparr>cells = P @ map Some (take (length xs - k) (drop k xs)) @
        replicate (length vs) None @ map Some (drop (length xs - k) (drop k xs)) @ Z,
        depth = floor + length xs, stack_base = floor\<rparr>"
      using len by (simp add: stack_frame_def P_def split)
    have "open_loop (length P) (length xs - k) (length vs) (stack_frame floor cap xs) =
        Ok \<lparr>cells = P @ replicate (length vs) None @ map Some (drop k xs) @ Z,
          depth = floor + length xs, stack_base = floor\<rparr>"
      unfolding f by (rule open_loop_append) simp
    moreover have "floor + length xs - (floor + k) = length xs - k" by simp
    ultimately have "open_cells (floor + k) (length vs) (stack_frame floor cap xs) =
        Ok \<lparr>cells = P @ replicate (length vs) None @ map Some (drop k xs) @ Z,
          depth = floor + length xs + length vs, stack_base = floor\<rparr>"
      by (simp add: open_cells_def P)
    moreover have "fill_cells (length P) vs
        \<lparr>cells = P @ replicate (length vs) None @ map Some (drop k xs) @ Z,
          depth = floor + length xs + length vs, stack_base = floor\<rparr> =
        Ok \<lparr>cells = P @ map Some vs @ map Some (drop k xs) @ Z,
          depth = floor + length xs + length vs, stack_base = floor\<rparr>"
      by (rule fill_cells_append) simp
    ultimately show ?thesis using True len
      by (auto simp: insert_cells_def P P_def Z_def stack_frame_def)
  next
    case False
    show ?thesis
    proof (cases "k = length xs")
      case True
      then have "open_cells (floor + k) (length vs) (stack_frame floor cap xs) =
          Ok ((stack_frame floor cap xs)\<lparr>depth := floor + length xs + length vs\<rparr>)"
        by (simp add: open_cells_def)
      moreover have "fill_cells (floor + k) vs
          ((stack_frame floor cap xs)\<lparr>depth := floor + length xs + length vs\<rparr>) = Err NoRoom"
        using False len True by (intro fill_cells_overflow) auto
      ultimately show ?thesis using False by (simp add: insert_cells_def)
    next
      case neq: False
      with len obtain n where n: "length xs - k = Suc n" by (cases "length xs - k") auto
      then have last: "floor + k + n = floor + length xs - 1" using len by simp
      have "take_cell (floor + k + n) (stack_frame floor cap xs) =
          Ok (xs ! (k + n), (stack_frame floor cap xs)\<lparr>cells :=
            (cells (stack_frame floor cap xs))[floor + k + n := None]\<rparr>)"
        using n len by (simp add: take_cell_def cell_stack)
      moreover have "write_cell (floor + k + n + length vs) (xs ! (k + n))
          ((stack_frame floor cap xs)\<lparr>cells :=
            (cells (stack_frame floor cap xs))[floor + k + n := None]\<rparr>) = Err NoRoom"
        using False n len by (simp add: write_cell_def)
      ultimately have "open_cells (floor + k) (length vs) (stack_frame floor cap xs) = Err NoRoom"
        using n by (simp add: open_cells_def)
      then show ?thesis using False by (simp add: insert_cells_def)
    qed
  qed
qed

section \<open>Rotation\<close>

text \<open>
  What the documentation of \<open>Op::Rotate\<close> promises (\<open>src/grain/bytecode/op.rs\<close>): the top of the
  stack moved down past \<open>n\<close> values, which keep their order.
\<close>

definition move_down :: "nat \<Rightarrow> 'v list \<Rightarrow> 'v list" where
  "move_down n xs =
     (let at = length xs - 1 - n in take at xs @ [last xs] @ drop at (butlast xs))"

lemma move_down_append: "move_down (Suc (length ys)) (xs @ a # ys @ [b]) = xs @ b # a # ys"
  by (simp add: move_down_def butlast_append)

lemma rotate_arm_stack [frame_simps]:
  "length (xs @ a # ys @ [b]) \<le> cap \<Longrightarrow>
   rotate_arm (Suc (length ys)) (stack_frame floor cap (xs @ a # ys @ [b])) =
     Ok (stack_frame floor cap (xs @ b # ys @ [a]))"
  by (simp add: rotate_arm_def below_top_def nth_append list_update_append stack_frame_def Let_def)

text \<open>
  C32. The arm of \<open>ROTATE\<close> exchanges the top of the operand stack with the value \<open>n\<close> below it
  and leaves those between them where they are, so it is the rotation its documentation
  promises exactly when the values it should move down are all alike.
\<close>

theorem rotate_exchanges:
  assumes "length (xs @ a # ys @ [b]) \<le> cap"
  shows "rotate_arm (Suc (length ys)) (stack_frame floor cap (xs @ a # ys @ [b])) =
      Ok (stack_frame floor cap (xs @ b # ys @ [a])) \<and>
    (xs @ b # ys @ [a] = move_down (Suc (length ys)) (xs @ a # ys @ [b])) = list_all ((=) a) ys"
proof -
  have "ys @ [a] = a # ys \<longleftrightarrow> list_all ((=) a) ys"
    by (induction ys) auto
  with rotate_arm_stack [OF assms] show ?thesis by (simp add: move_down_append)
qed

theorem rotate_exchanges_witness:
  "rotate_arm 2 (stack_frame 0 4 [7, 1, 2, 3 :: nat]) = Ok (stack_frame 0 4 [7, 3, 2, 1]) \<and>
   [7, 3, 2, 1] \<noteq> move_down 2 [7, 1, 2, 3 :: nat]"
  using rotate_exchanges [of "[7]" 1 "[2]" "3 :: nat" 4 0]
  by (simp add: numeral_2_eq_2)

end
