(* ===== verification/Machine.thy ===== *)
theory Machine
  imports Frame Verify
begin

text \<open>
  The stack discipline of the dispatch loop (\<open>run_frame\<close>, \<open>dispatch_cold\<close>, \<open>dispatch_late\<close> and
  \<open>dispatch_tail\<close> of \<open>src/grain/vm/mod.rs\<close>, in the build without \<open>grain-jit\<close>): which moves each
  arm makes on the operand array of \<open>Frame\<close>, in what order, and where control goes after them.
  The values that are pushed, which of the ways through an arm is taken and whether it raises a
  script error depend on values and host functions; the step relation allows them all.
\<close>

section \<open>Moves on the operand array\<close>

datatype 'v micro =
    MPush 'v
  | MPop
  | MPopUnit
  | MPeek
  | MNeed nat
  | MDrop nat
  | MTake nat
  | MInsert nat "'v list"
  | MExchange nat
  | MBuffer

text \<open>
  \<open>MNeed\<close> is a \<open>checked_sub\<close> with its error, \<open>MDrop n\<close> truncates to \<open>n\<close> below the depth, \<open>MInsert n\<close>
  opens slots under the top \<open>n\<close> values and fills them, \<open>MBuffer\<close> is the look of
  \<open>append_segment\<close> at the buffer under the segment.
\<close>

fun move :: "'v \<Rightarrow> 'v micro \<Rightarrow> 'v frame \<Rightarrow> fault + 'v frame" where
  "move unit_value (MPush v) f = push_cell v f"
| "move unit_value MPop f = rbind (pop f) (\<lambda>(v, f). Ok f)"
| "move unit_value MPopUnit f = rbind (pop_or_unit unit_value f) (\<lambda>(v, f). Ok f)"
| "move unit_value MPeek f = rbind (inspect f) (\<lambda>v. Ok f)"
| "move unit_value (MNeed n) f = rbind (below_top n f) (\<lambda>d. Ok f)"
| "move unit_value (MDrop n) f = rbind (below_top n f) (\<lambda>d. Ok (truncate_cells d f))"
| "move unit_value (MTake n) f =
     rbind (below_top n f) (\<lambda>d. rbind (take_cells_from d f) (\<lambda>(vs, f). Ok f))"
| "move unit_value (MInsert n vs) f = rbind (below_top n f) (\<lambda>d. insert_cells d vs f)"
| "move unit_value (MExchange n) f = rotate_arm n f"
| "move unit_value MBuffer f =
     (if depth f = 0 then Err Refused else rbind (cell (depth f - 1) f) (\<lambda>v. Ok f))"

fun moves :: "'v \<Rightarrow> 'v micro list \<Rightarrow> 'v frame \<Rightarrow> fault + 'v frame" where
  "moves unit_value [] f = Ok f"
| "moves unit_value (m # ms) f = rbind (move unit_value m f) (moves unit_value ms)"

section \<open>The arms\<close>

text \<open>
  A way through an arm: its moves, the pushed values left open, and its end: the next
  instruction, a \<open>transfer!\<close>, the \<open>return Ok\<close> of \<open>RETURN\<close> or an error in any case.
\<close>

datatype ending = Next | Goto u32 | Finish | Fail

type_synonym way = "unit micro list \<times> ending"

definition straight :: "unit micro list \<Rightarrow> way list" where
  "straight ms = [(ms, Next)]"

text \<open>\<open>deliver!\<close> after its truncation: a value pushed, or a branch taken on it or not.\<close>

definition deliver :: "u32 option \<Rightarrow> way list" where
  "deliver branch = (case branch of
       None \<Rightarrow> [([MPush ()], Next)]
     | Some t \<Rightarrow> [([], Next), ([], Goto t)])"

definition after :: "unit micro list \<Rightarrow> way list \<Rightarrow> way list" where
  "after ms = map (\<lambda>(ms', e). (ms @ ms', e))"

text \<open>
  The arguments of a call: truncated away after it, or taken before it when a captured scope is
  handed to a compiled function (\<open>call_stacked\<close>).
\<close>

definition call_ways :: "nat \<Rightarrow> way list" where
  "call_ways argc = [([MDrop argc, MPush ()], Next), ([MTake argc, MPush ()], Next)]"

definition call_ref_ways :: "nat \<Rightarrow> receiver \<Rightarrow> way list" where
  "call_ref_ways argc receiver =
     (if argc = 0 then [([], Fail)]
      else case receiver of
        RLocal _ \<Rightarrow> ([MNeed (argc - 1), MDrop (argc - 1), MPush ()], Next) #
          after [MNeed (argc - 1), MInsert (argc - 1) [()]] (call_ways argc)
      | _ \<Rightarrow> after [MNeed argc] (call_ways argc))"

text \<open>
  \<open>call_fn_ptr\<close>: the pointer is the deepest operand or, in method form, the second when the
  deepest is the receiver; a compiled target has its curried arguments, at most \<open>bound\<close> of
  them, put under the others.
\<close>

definition call_fn_ptr_ways :: "nat \<Rightarrow> nat \<Rightarrow> bool \<Rightarrow> way list" where
  "call_fn_ptr_ways bound argc method =
     after [MNeed (argc + 1)]
       (([MTake argc, MDrop 1, MPush ()], Next) #
        map (\<lambda>c. ([MInsert argc (replicate c ()), MDrop (argc + 1 + c), MPush ()], Next))
          [0..<Suc bound] @
        (if \<not> method then []
         else if argc = 0 then [([], Fail)]
         else ([MTake (argc - 1), MDrop 2, MPush ()], Next) #
           map (\<lambda>c. ([MInsert (argc - 1) (replicate c ()), MDrop (argc + 1 + c), MPush ()], Next))
             [0..<Suc bound]))"

definition step_flags_of :: "step \<Rightarrow> step_flags" where
  "step_flags_of s = (case s of
       Index _ flags _ _ \<Rightarrow> flags
     | Property _ _ _ flags _ \<Rightarrow> flags
     | Method _ _ _ flags _ \<Rightarrow> flags)"

text \<open>
  \<open>walk_chain\<close>: a compiled method has its arguments pushed again and truncated after the call;
  a coalescing step may end the walk.
\<close>

definition step_moves :: "step \<Rightarrow> unit micro list list" where
  "step_moves s = (case s of
       Method _ argc _ _ _ \<Rightarrow> [[], replicate (unat argc) (MPush ()) @ [MDrop (unat argc)]]
     | _ \<Rightarrow> [[]])"

fun walk_chain :: "step list \<Rightarrow> unit micro list list" where
  "walk_chain [] = [[]]"
| "walk_chain (s # rest) =
     (if step_flags_of s AND SKIP_IF_UNIT \<noteq> 0 then [[]] else []) @
     concat (map (\<lambda>m. map ((@) m) (walk_chain rest)) (step_moves s))"

text \<open>\<open>eval_chain!\<close> over \<open>run_chain_steps\<close>.\<close>

definition eval_chain :: "pools \<Rightarrow> u32 \<Rightarrow> (chain \<Rightarrow> bool) \<Rightarrow> way list" where
  "eval_chain pools i keeps = (case get_at (chains pools) (unat i) of
       None \<Rightarrow> [([], Fail)]
     | Some c \<Rightarrow> map (\<lambda>w. ([MNeed (consumes c)] @ w @ [MDrop (consumes c)] @
         (if keeps c then [MPush ()] else []), Next)) (walk_chain (steps c)))"

text \<open>
  The indexed forms: the fast path on an array, then the walk, which finds a named operand on
  the stack because the arm has pushed it there.
\<close>

definition index_set_ways :: "pools \<Rightarrow> u32 \<Rightarrow> bool \<Rightarrow> bool \<Rightarrow> way list" where
  "index_set_ways pools i named valued =
     ((if valued then [] else [MPopUnit]) @ (if named then [] else [MPopUnit]), Next) #
     after
       (if named \<or> valued
        then (if valued then [] else [MPopUnit]) @ (if named then [MPush ()] else []) @ [MPush ()]
        else [])
       (eval_chain pools i (\<lambda>c. False))"

definition index_get_ways :: "pools \<Rightarrow> u32 \<Rightarrow> bool \<Rightarrow> way list" where
  "index_get_ways pools i named =
     ([if named then MPush () else MPeek], Next) #
     after (if named then [MPush ()] else []) (eval_chain pools i (\<lambda>c. True))"

definition arms :: "pools \<Rightarrow> nat \<Rightarrow> op \<Rightarrow> way list" where
  "arms pools bound op = (case op of
       Const _ \<Rightarrow> straight [MPush ()]
     | Unit \<Rightarrow> straight [MPush ()]
     | Bool _ \<Rightarrow> straight [MPush ()]
     | LoadLocal _ \<Rightarrow> straight [MPush ()]
     | LoadNamed _ \<Rightarrow> straight [MPush ()]
     | LoadShared _ \<Rightarrow> straight [MPush ()]
     | LoadSharedNamed _ \<Rightarrow> straight [MPush ()]
     | LoadThis \<Rightarrow> straight [MPush ()]
     | LoadThisShared \<Rightarrow> straight [MPush ()]
     | MakeClosure _ \<Rightarrow> straight [MPush ()]
     | EvalAst _ _ \<Rightarrow> straight [MPush ()]
     | InterpolateStart \<Rightarrow> straight [MPush ()]
     | StoreLocal _ _ \<Rightarrow> straight [MPop]
     | StoreShared _ \<Rightarrow> straight [MPop]
     | DeclareLocal _ _ \<Rightarrow> straight [MPop]
     | AssignLocal _ _ _ \<Rightarrow> straight [MPop]
     | AssignNamed _ _ \<Rightarrow> straight [MPop]
     | AssignThis _ \<Rightarrow> straight [MPop]
     | Pop \<Rightarrow> straight [MPop]
     | AssignLocalFrom _ _ _ _ \<Rightarrow> straight []
     | RequireThis \<Rightarrow> straight []
     | Share _ \<Rightarrow> straight []
     | ShareNamed _ \<Rightarrow> straight []
     | UnwindTo _ \<Rightarrow> straight []
     | Tick \<Rightarrow> straight []
     | Checkpoint \<Rightarrow> straight []
     | Statement _ \<Rightarrow> straight []
     | PushHandler _ _ \<Rightarrow> straight []
     | PopHandler \<Rightarrow> straight []
     | IsShared \<Rightarrow> straight [MPop, MPush ()]
     | MakeFnPtr \<Rightarrow> straight [MPop, MPush ()]
     | InterpolateEnd \<Rightarrow> straight [MPop, MPush ()]
     | InterpolateAppend \<Rightarrow> straight [MPop, MBuffer]
     | CheckSize _ _ \<Rightarrow> [([], Next), ([MPeek], Next)]
     | Rotate below \<Rightarrow> straight [MExchange (unat below)]
     | MakeArray len \<Rightarrow> straight [MNeed (unat len), MTake (unat len), MPush ()]
     | MakeMap len \<Rightarrow>
         straight [MNeed (2 * unat len + 1), MTake (2 * unat len + 1), MPush ()]
     | Curry argc \<Rightarrow>
         straight [MNeed (unat argc + 1), MTake (unat argc), MDrop 1, MPush ()]
     | Jump t \<Rightarrow> [([], Goto t)]
     | JumpIfFalse t \<Rightarrow> [([MPop], Next), ([MPop], Goto t)]
     | JumpIfTrue t \<Rightarrow> [([MPop], Next), ([MPop], Goto t)]
     | SkipIfNotUnit t \<Rightarrow> [([MPeek], Next), ([MPeek], Goto t)]
     | Switch i \<Rightarrow> (case get_at (switches pools) (unat i) of
           None \<Rightarrow> [([], Fail)]
         | Some table \<Rightarrow> map (\<lambda>t. ([MPop], Goto t)) (switch_targets table))
     | Call _ argc _ _ \<Rightarrow> after [MNeed (unat argc)] (call_ways (unat argc))
     | CallRef _ argc receiver _ \<Rightarrow> call_ref_ways (unat argc) receiver
     | CallFnPtr argc method _ \<Rightarrow> call_fn_ptr_ways bound (unat argc) method
     | BinOp _ _ _ None branch \<Rightarrow> after [MNeed 2, MDrop 2] (deliver branch)
     | BinOp _ _ _ (Some _) branch \<Rightarrow>
         after [MNeed 1, MDrop 1] (deliver branch) @
         after [MPush (), MNeed 2, MDrop 2] (deliver branch)
     | BinOpFrom _ _ _ _ _ branch \<Rightarrow>
         deliver (map_option branch_target branch) @
         after [MPush (), MPush (), MNeed 2, MDrop 2] (deliver (map_option branch_target branch))
     | UnOp _ _ branch \<Rightarrow> after [MNeed 1, MDrop 1] (deliver branch)
     | Chain i discards \<Rightarrow> eval_chain pools i (\<lambda>c. tail c = Read \<and> \<not> discards)
     | IndexSet i _ index value _ \<Rightarrow> index_set_ways pools i (index \<noteq> None) (value \<noteq> None)
     | IndexGet i _ index \<Rightarrow> index_get_ways pools i (index \<noteq> None)
     | IterInit \<Rightarrow> straight [MPeek] @ [([MPop], Fail)]
     | IterDrop \<Rightarrow> straight [MPeek, MPop]
     | IterNext body indexed \<Rightarrow>
         [([MPeek, MPop], Next),
          ([MPeek, MPush ()] @ (if indexed then [MPush ()] else []), Goto body)]
     | IterNextStore body _ \<Rightarrow> [([MPeek, MPop], Next), ([MPeek], Goto body)]
     | Throw \<Rightarrow> [([MPop], Fail)]
     | Return \<Rightarrow> [([MPopUnit], Finish)])"

section \<open>A frame that runs\<close>

text \<open>
  \<open>Returned\<close> and \<open>Raised\<close> leave the frame, with a value or with an error a handler may see;
  \<open>Crashed\<close> is an underflow or a panic on the operand array.
\<close>

datatype 'v config = Running nat "'v frame" | Returned | Raised | Crashed fault

definition land :: "nat \<Rightarrow> ending \<Rightarrow> 'v frame \<Rightarrow> 'v config" where
  "land next e f = (case e of
       Next \<Rightarrow> Running next f
     | Goto t \<Rightarrow> Running (unat t) f
     | Finish \<Rightarrow> Returned
     | Fail \<Rightarrow> Raised)"

definition faulted :: "fault \<Rightarrow> 'v config" where
  "faulted x = (if x = Refused then Raised else Crashed x)"

abbreviation shape :: "'v micro list \<Rightarrow> unit micro list" where
  "shape \<equiv> map (map_micro (\<lambda>_. ()))"

inductive vm_step ::
  "u8 list \<Rightarrow> pools \<Rightarrow> nat \<Rightarrow> 'v \<Rightarrow> 'v config \<Rightarrow> 'v config \<Rightarrow> bool"
  for code :: "u8 list" and pools :: pools and bound :: nat and unit_value :: 'v
where
  run: "decode code pc = Some op \<Longrightarrow> width code pc = Some w \<Longrightarrow>
    (shape ms, e) \<in> set (arms pools bound op) \<Longrightarrow> moves unit_value ms f = Ok f' \<Longrightarrow>
    vm_step code pools bound unit_value (Running pc f) (land (pc + w) e f')"
| raise: "decode code pc = Some op \<Longrightarrow> (shape ms @ rest, e) \<in> set (arms pools bound op) \<Longrightarrow>
    moves unit_value ms f = Ok f' \<Longrightarrow>
    vm_step code pools bound unit_value (Running pc f) Raised"
| fault: "decode code pc = Some op \<Longrightarrow> (shape ms, e) \<in> set (arms pools bound op) \<Longrightarrow>
    moves unit_value ms f = Err x \<Longrightarrow>
    vm_step code pools bound unit_value (Running pc f) (faulted x)"
| undecodable: "decode code pc = None \<Longrightarrow>
    vm_step code pools bound unit_value (Running pc f) Raised"

section \<open>Moves as changes of height\<close>

text \<open>
  What a move does to the height above the floor, in a frame with room for \<open>cap\<close> values; \<open>None\<close>
  when it would touch a slot it must not.
\<close>

definition guard :: "bool \<Rightarrow> 'a \<Rightarrow> 'a option" where
  "guard b x = (if b then Some x else None)"

lemma guard_simps [simp]: "guard True x = Some x" "guard False x = None"
  by (simp_all add: guard_def)

lemma guard_eq_Some [simp]: "guard b x = Some y \<longleftrightarrow> b \<and> x = y"
  by (auto simp: guard_def)

lemma bind_guard [simp]: "Option.bind (guard b x) f = Some y \<longleftrightarrow> b \<and> f x = Some y"
  by (simp add: guard_def)

fun climb :: "nat \<Rightarrow> 'v micro \<Rightarrow> nat \<Rightarrow> nat option" where
  "climb cap (MPush v) h = guard (h < cap) (h + 1)"
| "climb cap MPop h = guard (0 < h) (h - 1)"
| "climb cap MPopUnit h = guard (0 < h) (h - 1)"
| "climb cap MPeek h = guard (0 < h) h"
| "climb cap (MNeed n) h = guard (n \<le> h) h"
| "climb cap (MDrop n) h = guard (n \<le> h) (h - n)"
| "climb cap (MTake n) h = guard (n \<le> h) (h - n)"
| "climb cap (MInsert n vs) h = guard (n \<le> h \<and> h + length vs \<le> cap) (h + length vs)"
| "climb cap (MExchange n) h = guard (0 < n \<and> n < h) h"
| "climb cap MBuffer h = guard (0 < h) h"

fun climbs :: "nat \<Rightarrow> 'v micro list \<Rightarrow> nat \<Rightarrow> nat option" where
  "climbs cap [] h = Some h"
| "climbs cap (m # ms) h = Option.bind (climb cap m h) (climbs cap ms)"

lemma climbs_append: "climbs cap (ms @ ms') h = Option.bind (climbs cap ms h) (climbs cap ms')"
  by (induction ms arbitrary: h) (auto split: bind_splits)

lemma climbs_prefix: "climbs cap (ms @ ms') h = Some h' \<Longrightarrow> \<exists>h''. climbs cap ms h = Some h''"
  by (auto simp: climbs_append split: bind_splits)

lemma climb_shape: "climb cap (map_micro g m) h = climb cap m h"
  by (cases m) simp_all

lemma climbs_shape: "climbs cap (shape ms) h = climbs cap ms h"
  by (induction ms arbitrary: h) (auto simp: climb_shape split: bind_splits)

text \<open>A climb that works out on heights works out on the array.\<close>

lemma below_top_in: "n \<le> length xs \<Longrightarrow>
   below_top n (stack_frame floor cap xs) = Ok (floor + (length xs - n))"
  by (simp add: below_top_def)

lemma rotate_in:
  assumes "0 < n" "n < length xs" "length xs \<le> cap"
  shows "\<exists>ys. rotate_arm n (stack_frame floor cap xs) = Ok (stack_frame floor cap ys) \<and>
    length ys = length xs"
proof -
  from assms obtain zs b where zs: "xs = zs @ [b]" by (cases xs rule: rev_cases) auto
  with assms have "length (drop (length zs - n) zs) = n" by simp
  with assms(1) obtain a ys where ys: "drop (length zs - n) zs = a # ys" "n = Suc (length ys)"
    by (cases "drop (length zs - n) zs") auto
  have "zs = take (length zs - n) zs @ a # ys" using ys(1) by (metis append_take_drop_id)
  then obtain as where as: "xs = as @ a # ys @ [b]" using zs by (metis append.assoc append_Cons)
  show ?thesis using assms unfolding as ys(2) by (subst rotate_arm_stack) auto
qed

lemma move_climb:
  assumes "climb cap m (length xs) = Some h" "length xs \<le> cap"
  shows "\<exists>ys. move u m (stack_frame floor cap xs) = Ok (stack_frame floor cap ys) \<and>
    length ys = h \<and> h \<le> cap"
proof (cases m)
  case MPop
  with assms show ?thesis by (cases xs rule: rev_cases) (auto simp: pop_stack)
next
  case MPopUnit
  with assms show ?thesis by (cases xs rule: rev_cases) (auto simp: pop_or_unit_stack)
next
  case MPeek
  with assms show ?thesis by (cases xs rule: rev_cases) (auto simp: inspect_stack)
next
  case (MDrop n)
  with assms truncate_stack [of xs cap "length xs - n" floor] show ?thesis
    by (auto simp: below_top_in)
next
  case (MTake n)
  with assms take_cells_stack [of xs cap "length xs - n" floor] show ?thesis
    by (auto simp: below_top_in)
next
  case (MInsert n vs)
  with assms insert_cells_stack [of xs cap "length xs - n" floor vs] show ?thesis
    by (auto simp: below_top_in)
next
  case (MExchange n)
  with assms rotate_in [of n xs cap floor] show ?thesis by auto
next
  case MBuffer
  with assms show ?thesis by (cases xs rule: rev_cases) (auto simp: cell_stack)
qed (use assms in \<open>auto simp: push_cell_stack below_top_in\<close>)

lemma moves_climb:
  "climbs cap ms (length xs) = Some h \<Longrightarrow> length xs \<le> cap \<Longrightarrow>
   \<exists>ys. moves u ms (stack_frame floor cap xs) = Ok (stack_frame floor cap ys) \<and>
     length ys = h \<and> h \<le> cap"
proof (induction ms arbitrary: xs)
  case Nil
  then show ?case by auto
next
  case (Cons m ms)
  then obtain h1 where h1: "climb cap m (length xs) = Some h1" "climbs cap ms h1 = Some h"
    by (auto split: bind_splits)
  from move_climb [OF h1(1) Cons.prems(2)] obtain ys where
    "move u m (stack_frame floor cap xs) = Ok (stack_frame floor cap ys)" "length ys = h1"
    "h1 \<le> cap" by blast
  with Cons.IH [of ys] h1(2) show ?case by simp
qed

section \<open>The effects of the verifier are those of the arms\<close>

text \<open>
  The instructions for which they are: no iterator and no \<open>try\<close>, no rotation by 0, and indexed
  forms that name a chain of the form the compiler gives them.
\<close>

definition index_chain :: "pools \<Rightarrow> u32 \<Rightarrow> bool \<Rightarrow> bool" where
  "index_chain pools i reads = (case get_at (chains pools) (unat i) of
       None \<Rightarrow> False
     | Some c \<Rightarrow> consumes c = (if reads then 1 else 2) \<and> (tail c = Read) = reads \<and>
         list_all (\<lambda>s. step_argc s = 0) (steps c))"

definition plain :: "pools \<Rightarrow> op \<Rightarrow> bool" where
  "plain pools op = (case op of
       IterInit \<Rightarrow> False
     | IterDrop \<Rightarrow> False
     | IterNext _ _ \<Rightarrow> False
     | IterNextStore _ _ \<Rightarrow> False
     | PushHandler _ _ \<Rightarrow> False
     | Rotate below \<Rightarrow> below \<noteq> 0
     | IndexSet i _ _ _ _ \<Rightarrow> index_chain pools i False
     | IndexGet i _ _ \<Rightarrow> index_chain pools i True
     | _ \<Rightarrow> True)"

lemma climbs_pushes: "h + n \<le> cap \<Longrightarrow> climbs cap (replicate n (MPush ())) h = Some (h + n)"
  by (induction n arbitrary: h) simp_all

lemma fold_max_ge: "(m :: nat) \<le> fold (\<lambda>s extra. max extra (g s)) ss m"
  by (induction ss arbitrary: m) (auto intro: order_trans [OF max.cobounded1])

lemma fold_max_mem: "s \<in> set ss \<Longrightarrow> g s \<le> fold (\<lambda>s extra. max extra (g s)) ss (m :: nat)"
proof (induction ss arbitrary: m)
  case Nil
  then show ?case by simp
next
  case (Cons a ss)
  then show ?case
    using fold_max_ge [of "max m (g a)" g ss] by auto
qed

lemma walk_chain_climbs:
  "w \<in> set (walk_chain ss) \<Longrightarrow> \<forall>s\<in>set ss. h + step_argc s \<le> cap \<Longrightarrow> climbs cap w h = Some h"
proof (induction ss arbitrary: w)
  case Nil
  then show ?case by simp
next
  case (Cons s ss)
  show ?case
  proof (cases "w = []")
    case True
    then show ?thesis by simp
  next
    case False
    with Cons.prems(1) obtain m w' where w: "w = m @ w'" "m \<in> set (step_moves s)"
      "w' \<in> set (walk_chain ss)"
      by (auto split: if_splits)
    have "climbs cap m h = Some h"
      using w(2) Cons.prems(2)
      by (cases s) (auto simp: step_moves_def step_argc_def climbs_append climbs_pushes)
    with Cons w show ?thesis by (simp add: climbs_append)
  qed
qed

lemma eval_chain_climbs:
  assumes "(ms, e) \<in> set (eval_chain pools i keeps)" "get_at (chains pools) (unat i) = Some c"
    and "consumes c \<le> h" "h \<le> cap" "\<forall>s\<in>set (steps c). h + step_argc s \<le> cap"
    and "keeps c \<Longrightarrow> h - consumes c < cap"
  shows "e = Next \<and> climbs cap ms h = Some (h - consumes c + of_bool (keeps c))"
  using assms by (auto simp: eval_chain_def climbs_append walk_chain_climbs)

text \<open>What the arms come to under the verifier's numbers for an instruction.\<close>

definition arm_agrees :: "nat \<Rightarrow> nat \<Rightarrow> nat \<Rightarrow> unit micro list \<Rightarrow> ending \<Rightarrow> bool" where
  "arm_agrees cap h h' ms e = (case climbs cap ms h of
       None \<Rightarrow> False
     | Some h1 \<Rightarrow> (case e of Next \<Rightarrow> h1 = h' | Goto t \<Rightarrow> h1 = h' | Finish \<Rightarrow> True | Fail \<Rightarrow> True))"

lemma arm_agrees_end:
  "arm_agrees cap h h' ms Next = (climbs cap ms h = Some h')"
  "arm_agrees cap h h' ms (Goto t) = (climbs cap ms h = Some h')"
  "arm_agrees cap h h' ms Fail = (climbs cap ms h \<noteq> None)"
  "arm_agrees cap h h' ms Finish = (climbs cap ms h \<noteq> None)"
  by (auto simp: arm_agrees_def split: option.splits)

lemmas arm_simps =
  arm_agrees_end effect_def stack_peak_def opcode_temps_def chain_method_repush_def op_chain_def
  arms_def straight_def after_def deliver_def plain_def

lemma max_le: "max a b \<le> c \<longleftrightarrow> a \<le> c \<and> b \<le> (c :: nat)"
  by auto

lemma chain_arms_agree:
  assumes "plain pools op" "effect op pools = (r, p, q)" "r \<le> h"
    and "max (h - p + q) (stack_peak op pools h) \<le> cap"
    and "(ms, e) \<in> set (arms pools bound op)" and "op_chain op = Some i"
  shows "arm_agrees cap h (h - p + q) ms e"
proof (cases "get_at (chains pools) (unat i)")
  case None
  with assms show ?thesis
    by (cases op) (auto simp: arm_simps eval_chain_def index_chain_def)
next
  case (Some c)
  have repush: "h + opcode_temps op + step_argc s \<le> cap" if "s \<in> set (steps c)" for s
    using fold_max_mem [OF that, of step_argc 0] assms(4,6) Some
    by (simp add: stack_peak_def chain_method_repush_def)
  show ?thesis
  proof (cases op)
    case (Chain j discards)
    with assms(6) have "j = i" by (simp add: op_chain_def)
    with assms(5) Chain have "(ms, e) \<in> set (eval_chain pools i (\<lambda>c. tail c = Read \<and> \<not> discards))"
      by (simp add: arms_def)
    from eval_chain_climbs [OF this Some, of h cap] show ?thesis
      using assms(2-4) Chain \<open>j = i\<close> Some repush
      by (auto simp: arm_agrees_end effect_def chain_effect_def opcode_temps_def stack_peak_def
          Let_def)
  next
    case (IndexSet j slot index value' op')
    with assms(6) have j: "j = i" by (simp add: op_chain_def)
    define pre where "pre = (if index \<noteq> None \<or> value' \<noteq> None
      then (if value' \<noteq> None then [] else [MPopUnit]) @
        (if index \<noteq> None then [MPush ()] else []) @ [MPush ()] else [])"
    define h2 where "h2 = h - p + 2"
    from assms(1) IndexSet j Some have c: "consumes c = 2" "tail c \<noteq> Read"
      "\<forall>s\<in>set (steps c). step_argc s = 0"
      by (auto simp: plain_def index_chain_def list_all_iff)
    from assms(2-4) IndexSet j Some c have bounds: "p \<le> h" "q = 0" "h \<le> cap"
      "p = 2 - (of_bool (index \<noteq> None) + of_bool (value' \<noteq> None))"
      "h + opcode_temps op \<le> cap"
      by (auto simp: effect_def chain_effect_def stack_peak_def Let_def)
    from assms(5) IndexSet j consider
      "ms = (if value' \<noteq> None then [] else [MPopUnit]) @ (if index \<noteq> None then [] else [MPopUnit])"
        "e = Next"
      | ms' where "ms = pre @ ms'" "(ms', e) \<in> set (eval_chain pools i (\<lambda>c. False))"
      by (auto simp: arms_def index_set_ways_def after_def pre_def)
    then show ?thesis
    proof cases
      case 1
      with bounds show ?thesis by (auto simp: arm_agrees_end split: if_splits)
    next
      case 2
      have "climbs cap pre h = Some h2" "h2 \<le> cap"
        using bounds IndexSet by (auto simp: pre_def h2_def opcode_temps_def split: if_splits)
      moreover from this c have "e = Next \<and> climbs cap ms' h2 = Some (h2 - 2)"
        using eval_chain_climbs [OF 2(2) Some, of h2 cap] by (simp add: h2_def)
      ultimately show ?thesis using 2 bounds by (simp add: arm_agrees_end climbs_append h2_def)
    qed
  next
    case (IndexGet j slot index)
    with assms(6) have j: "j = i" by (simp add: op_chain_def)
    define pre where "pre = (if index \<noteq> None then [MPush ()] else [])"
    define h2 where "h2 = h - p + 1"
    from assms(1) IndexGet j Some have c: "consumes c = 1" "tail c = Read"
      "\<forall>s\<in>set (steps c). step_argc s = 0"
      by (auto simp: plain_def index_chain_def list_all_iff)
    from assms(2-4) IndexGet j Some c have bounds: "p \<le> h" "q = 1" "h - p + 1 \<le> cap"
      "p = 1 - of_bool (index \<noteq> None)"
      by (auto simp: effect_def chain_effect_def Let_def)
    from assms(5) IndexGet j consider
      "ms = [if index \<noteq> None then MPush () else MPeek]" "e = Next"
      | ms' where "ms = pre @ ms'" "(ms', e) \<in> set (eval_chain pools i (\<lambda>c. True))"
      by (auto simp: arms_def index_get_ways_def after_def pre_def)
    then show ?thesis
    proof cases
      case 1
      with bounds show ?thesis by (auto simp: arm_agrees_end split: if_splits)
    next
      case 2
      have "climbs cap pre h = Some h2" "h2 \<le> cap"
        using bounds by (auto simp: pre_def h2_def split: if_splits)
      moreover from this c have "e = Next \<and> climbs cap ms' h2 = Some (h2 - 1 + 1)"
        using eval_chain_climbs [OF 2(2) Some, of h2 cap] by (simp add: h2_def)
      ultimately show ?thesis using 2 bounds by (simp add: arm_agrees_end climbs_append h2_def)
    qed
  qed (use assms in \<open>auto simp: op_chain_def\<close>)
qed


lemma arms_agree:
  assumes "plain pools op" "effect op pools = (r, p, q)" "r \<le> h"
    and "max (h - p + q) (stack_peak op pools h) \<le> cap"
    and "(ms, e) \<in> set (arms pools bound op)" and "bound \<le> 1"
    and "op \<noteq> InterpolateAppend" "op \<noteq> Return"
  shows "arm_agrees cap h (h - p + q) ms e"
proof (cases "op_chain op")
  case (Some i)
  with chain_arms_agree [OF assms(1-5)] show ?thesis .
next
  case None
  note [simp] = arm_simps Let_def
  show ?thesis
  proof (cases op)
    case (Call name argc op capture)
    with assms show ?thesis by (auto simp: call_ways_def)
  next
    case (CallRef name argc receiver capture)
    with assms show ?thesis
      by (auto simp: call_ways_def call_ref_ways_def split: receiver.splits if_splits)
  next
    case (CallFnPtr argc meth receiver)
    with assms show ?thesis
      by (auto simp: call_fn_ptr_ways_def split: if_splits)
  next
    case (BinOp name tok kind rhs branch)
    with assms show ?thesis by (cases rhs; cases branch) auto
  next
    case (BinOpFrom name tok kind lhs rhs branch)
    with assms show ?thesis by (cases branch) auto
  next
    case (UnOp name kind branch)
    with assms show ?thesis by (cases branch) auto
  next
    case (Switch i)
    with assms show ?thesis by (auto split: option.splits)
  next
    case (Rotate below)
    with assms show ?thesis by (auto simp: unat_gt_0)
  qed (use assms None in \<open>auto simp del: One_nat_def\<close>)
qed


text \<open>Where the arms go is where the verifier's edges go.\<close>

definition edge_of :: "nat \<Rightarrow> ending \<Rightarrow> nat option" where
  "edge_of next e = (case e of Next \<Rightarrow> Some next | Goto t \<Rightarrow> Some (unat t) | Finish \<Rightarrow> None | Fail \<Rightarrow> None)"

lemma seq_ok_Ok: "seq_ok rs = Ok xs \<longleftrightarrow> list_all2 (\<lambda>r x. r = Ok x) rs xs"
  by (induction rs arbitrary: xs) (auto simp: rbind_eq_Ok list_all2_Cons1)

lemma go_Ok: "go cx c at t s = Ok x \<Longrightarrow> x = (unat t, s)"
  by (auto simp: go_def split: if_splits)

lemma after_end: "(ms, e) \<in> set (after pre ws) \<Longrightarrow> \<exists>ms'. (ms', e) \<in> set ws"
  by (auto simp: after_def)

lemma deliver_end: "(ms, e) \<in> set (deliver branch) \<Longrightarrow>
   e = Next \<or> (\<exists>t. branch = Some t \<and> e = Goto t)"
  by (auto simp: deliver_def split: option.splits)

lemma call_end:
  "(ms, e) \<in> set (call_ways n) \<Longrightarrow> e = Next"
  "(ms, e) \<in> set (call_ref_ways n rc) \<Longrightarrow> e = Next \<or> e = Fail"
  "(ms, e) \<in> set (call_fn_ptr_ways b n m) \<Longrightarrow> e = Next \<or> e = Fail"
  "(ms, e) \<in> set (eval_chain pools i k) \<Longrightarrow> e = Next \<or> e = Fail"
  "(ms, e) \<in> set (index_set_ways pools i named valued) \<Longrightarrow> e = Next \<or> e = Fail"
  "(ms, e) \<in> set (index_get_ways pools i named) \<Longrightarrow> e = Next \<or> e = Fail"
  by (auto simp: call_ways_def call_ref_ways_def call_fn_ptr_ways_def after_def eval_chain_def
      index_set_ways_def index_get_ways_def split: if_splits receiver.splits option.splits)

definition end_ok :: "pools \<Rightarrow> op \<Rightarrow> ending \<Rightarrow> bool" where
  "end_ok pools op e \<longleftrightarrow> e = Fail \<or>
     (case branch_of op of
        Some t \<Rightarrow> e = Next \<or> e = Goto t
      | None \<Rightarrow> (case op of
          Jump t \<Rightarrow> e = Goto t
        | Switch i \<Rightarrow> (case get_at (switches pools) (unat i) of
            None \<Rightarrow> False
          | Some table \<Rightarrow> (\<exists>t\<in>set (switch_targets table). e = Goto t))
        | Return \<Rightarrow> e = Finish
        | Throw \<Rightarrow> False
        | _ \<Rightarrow> e = Next))"

lemma arms_end_ok:
  assumes "plain pools op" "(ms, e) \<in> set (arms pools bound op)"
  shows "end_ok pools op e"
proof (cases op)
  case (BinOp name tok kind rhs branch)
  with assms show ?thesis
    by (cases rhs; cases branch)
      (auto simp: end_ok_def arms_def branch_of_def dest!: after_end deliver_end)
next
  case (BinOpFrom name tok kind lhs rhs branch)
  with assms show ?thesis
    by (cases branch) (auto simp: end_ok_def arms_def branch_of_def dest!: after_end deliver_end)
next
  case (UnOp name kind branch)
  with assms show ?thesis
    by (cases branch) (auto simp: end_ok_def arms_def branch_of_def dest!: after_end deliver_end)
next
  case (Switch i)
  with assms show ?thesis
    by (auto simp: end_ok_def arms_def branch_of_def split: option.splits)
next
  case (Call name argc tok capture)
  with assms show ?thesis
    by (auto simp: end_ok_def arms_def branch_of_def dest!: after_end call_end)
qed (use assms in \<open>auto simp: end_ok_def arms_def branch_of_def plain_def straight_def dest: call_end\<close>)


lemma seq_go:
  "seq_ok (map (\<lambda>t. go cx c at t ns) ts) = Ok succs \<Longrightarrow> t \<in> set ts \<Longrightarrow> (unat t, ns) \<in> set succs"
proof (induction ts arbitrary: succs)
  case Nil
  then show ?case by simp
next
  case (Cons u ts)
  from Cons.prems(1) obtain x xs where x: "go cx c at u ns = Ok x"
    "seq_ok (map (\<lambda>t. go cx c at t ns) ts) = Ok xs" "succs = x # xs"
    by (auto simp: rbind_eq_Ok)
  with Cons go_Ok [OF x(1)] show ?case by auto
qed

lemma end_in_edges:
  assumes "end_ok (v_pools cx) op e" "plain (v_pools cx) op"
    and "edges cx c at op next s ns = Ok succs" "edge_of next e = Some a"
  shows "(a, ns) \<in> set succs"
proof (cases "branch_of op")
  case (Some t)
  with assms show ?thesis
    by (auto simp: end_ok_def edges_def edge_of_def rbind_eq_Ok dest!: go_Ok split: ending.splits)
next
  case None
  show ?thesis
  proof (cases op)
    case (Switch i)
    with assms None obtain table t where "get_at (switches (v_pools cx)) (unat i) = Some table"
      "t \<in> set (switch_targets table)" "e = Goto t"
      by (auto simp: end_ok_def edge_of_def split: option.splits)
    with assms None Switch show ?thesis
      by (auto simp: edges_def edge_of_def intro: seq_go)
  qed (use assms None in \<open>auto simp: end_ok_def edges_def edge_of_def rbind_eq_Ok plain_def
      dest!: go_Ok split: ending.splits if_splits\<close>)
qed

end
