(* ===== verification/Soundness.thy ===== *)
theory Soundness
  imports Machine
begin

text \<open>
  What the verifier buys the interpreter: on a chunk that \<open>verify_chunk\<close> (\<open>Verify\<close>) accepts, every
  frame the dispatch loop (\<open>Machine\<close>) can reach holds exactly the operands the verifier counted,
  fits the slots it was given and stands at an instruction.
\<close>

section \<open>Invariants of a step relation\<close>

locale step_invariant =
  fixes start :: "'c \<Rightarrow> bool"
    and steps :: "'c \<Rightarrow> 'c \<Rightarrow> bool"
    and inv :: "'c \<Rightarrow> bool"
  assumes initial: "start c \<Longrightarrow> inv c"
    and preserved: "inv c \<Longrightarrow> steps c c' \<Longrightarrow> inv c'"
begin

lemma reachable: "steps\<^sup>*\<^sup>* c c' \<Longrightarrow> start c \<Longrightarrow> inv c'"
proof (induction rule: rtranclp_induct)
  case base
  then show ?case by (rule initial)
next
  case (step c1 c2)
  then show ?case by (auto intro: preserved)
qed

end

section \<open>The assignment of the verifier as an invariant of the machine\<close>

text \<open>A chunk with a sound assignment, all of whose visited instructions are \<open>plain\<close>.\<close>

definition sound_plain :: "vcontext \<Rightarrow> chunk \<Rightarrow> (nat \<Rightarrow> vstate option) \<Rightarrow> bool" where
  "sound_plain cx c D \<longleftrightarrow> sound_at cx c (unat (max_stack c)) D \<and>
     (\<forall>at s op. D at = Some s \<longrightarrow> decode (v_code cx) at = Some op \<longrightarrow> plain (v_pools cx) op)"

definition in_step :: "chunk \<Rightarrow> (nat \<Rightarrow> vstate option) \<Rightarrow> nat \<Rightarrow> 'v config \<Rightarrow> bool" where
  "in_step c D floor cfg = (case cfg of
       Running pc f \<Rightarrow> (\<exists>s xs. D pc = Some s \<and> length xs = v_operands s \<and>
         f = stack_frame floor (unat (max_stack c)) xs)
     | Crashed x \<Rightarrow> x = EmptySlot \<and> 0 < floor
     | Returned \<Rightarrow> True
     | Raised \<Rightarrow> True)"

definition start_config :: "chunk \<Rightarrow> nat \<Rightarrow> 'v config \<Rightarrow> bool" where
  "start_config c floor cfg \<longleftrightarrow>
     cfg = Running (unat (entry c)) (new_frame floor (unat (max_stack c)))"

text \<open>What a sound assignment says at an address it assigns.\<close>

lemma sound_atD:
  assumes "sound_at cx c high D" "D at = Some s" "decode (v_code cx) at = Some op"
    and "width (v_code cx) at = Some w"
  obtains r p q it ha succs where
    "effect op (v_pools cx) = (r, p, q)" "p \<le> r" "r \<le> v_operands s" "at < unat (chunk_end c)"
    "max (v_operands s - p + q) (stack_peak op (v_pools cx) (v_operands s)) \<le> high"
    "edges cx c at op (at + w) s
       \<lparr>v_operands = v_operands s - p + q, v_iters = it, v_handlers = ha\<rparr> = Ok succs"
    "\<forall>(a, s') \<in> set succs. D a = Some s'"
proof -
  from assms(1,2) have "admits (verify_step cx c) (unat (chunk_end c)) high D at s"
    by (simp add: sound_at_def stable_def)
  then obtain succs peak where v: "verify_step cx c at s = Ok (succs, peak)" "peak \<le> high"
    "at < unat (chunk_end c)" "\<forall>(a, s') \<in> set succs. D a = Some s'"
    unfolding admits_def by blast
  obtain r p q where e: "effect op (v_pools cx) = (r, p, q)" by (cases "effect op (v_pools cx)")
  from v(1) assms(3,4) e obtain it ha where
    "p \<le> r" "r \<le> v_operands s"
    "edges cx c at op (at + w) s
       \<lparr>v_operands = v_operands s - p + q, v_iters = it, v_handlers = ha\<rparr> = Ok succs"
    "peak = max (v_operands s - p + q) (stack_peak op (v_pools cx) (v_operands s))"
    by (auto simp: verify_step_def rbind_eq_Ok Let_def split: if_splits)
  with v e that show thesis by blast
qed

text \<open>A move that fails on a frame the verifier counted is one of two.\<close>

lemma append_moves:
  assumes "0 < length xs" "length xs \<le> cap"
  shows "moves u [MPop, MBuffer] (stack_frame floor cap xs) =
    (if length xs = 1 then Err (if floor = 0 then Refused else EmptySlot)
     else Ok (stack_frame floor cap (butlast xs)))"
proof -
  from assms obtain zs b where xs: "xs = zs @ [b]" by (cases xs rule: rev_cases) auto
  with assms(2) have pop: "pop (stack_frame floor cap xs) = Ok (b, stack_frame floor cap zs)"
    using pop_stack [of zs cap floor b] by simp
  show ?thesis
  proof (cases "zs = []")
    case True
    with pop xs show ?thesis by (auto simp: cell_under)
  next
    case False
    then have "cell (floor + length zs - 1) (stack_frame floor cap zs) = Ok (last zs)"
      using assms xs by (cases zs rule: rev_cases) (auto simp: cell_stack)
    with False pop xs show ?thesis by auto
  qed
qed

inductive_cases vm_stepE: "vm_step code pools bound u (Running pc f) cfg"

lemma vm_step_from_running: "vm_step code pools bound u cfg cfg' \<Longrightarrow> \<exists>pc f. cfg = Running pc f"
  by (auto elim: vm_step.cases)

lemma map_micro_eq [simp]:
  "map_micro g m = MPop \<longleftrightarrow> m = MPop" "map_micro g m = MBuffer \<longleftrightarrow> m = MBuffer"
  "map_micro g m = MPopUnit \<longleftrightarrow> m = MPopUnit"
  by (cases m; simp)+

text \<open>
  The two arms the verifier does not cover: the buffer of an interpolation and the result of a
  \<open>Return\<close> may be missing, which is a panic in a frame above another one.
\<close>

lemma append_step:
  assumes "vm_step code pools bound u (Running pc (stack_frame floor cap xs)) cfg"
    and "decode code pc = Some InterpolateAppend" "0 < length xs" "length xs \<le> cap"
  shows "cfg = Raised \<or> cfg = Crashed EmptySlot \<and> 0 < floor \<or>
    (\<exists>w ys. width code pc = Some w \<and> cfg = Running (pc + w) (stack_frame floor cap ys) \<and>
       length ys = length xs - 1)"
  using assms(1)
proof (cases rule: vm_step.cases)
  case (run op w ms e f')
  with assms(2) have "ms = [MPop, MBuffer]" "e = Next"
    by (auto simp: arms_def straight_def map_eq_Cons_conv)
  with run assms(3,4) append_moves [OF assms(3,4), of u floor] show ?thesis
    by (auto simp: land_def split: if_splits)
next
  case (fault op ms e x)
  with assms(2) have "ms = [MPop, MBuffer]"
    by (auto simp: arms_def straight_def map_eq_Cons_conv)
  with fault assms(3,4) append_moves [OF assms(3,4), of u floor] show ?thesis
    by (auto simp: faulted_def split: if_splits)
qed auto

lemma return_step:
  assumes "vm_step code pools bound u (Running pc (stack_frame floor cap xs)) cfg"
    and "decode code pc = Some Return" "length xs \<le> cap"
  shows "cfg = Raised \<or> cfg = Returned \<or> cfg = Crashed EmptySlot \<and> 0 < floor"
  using assms(1)
proof (cases rule: vm_step.cases)
  case (run op w ms e f')
  with assms(2) show ?thesis by (auto simp: arms_def land_def)
next
  case (fault op ms e x)
  with assms(2) have ms: "ms = [MPopUnit]" by (auto simp: arms_def map_eq_Cons_conv)
  show ?thesis
  proof (cases xs rule: rev_cases)
    case Nil
    with fault ms show ?thesis by (auto simp: pop_or_unit_empty faulted_def split: if_splits)
  next
    case (snoc zs b)
    with fault ms assms(3) show ?thesis by (auto simp: pop_or_unit_stack)
  qed
qed auto

text \<open>Every other arm stays within what the verifier granted it.\<close>

lemma plain_step:
  assumes "vm_step code pools bound u (Running pc (stack_frame floor cap xs)) cfg"
    and "decode code pc = Some op" "plain pools op" "bound \<le> 1" "length xs \<le> cap"
    and "op \<noteq> InterpolateAppend" "op \<noteq> Return"
    and "effect op pools = (r, p, q)" "r \<le> length xs"
    and "max (length xs - p + q) (stack_peak op pools (length xs)) \<le> cap"
  shows "cfg = Raised \<or> (\<exists>w e a ys. width code pc = Some w \<and> end_ok pools op e \<and>
    edge_of (pc + w) e = Some a \<and> cfg = Running a (stack_frame floor cap ys) \<and>
    length ys = length xs - p + q) \<or> cfg = Returned"
  using assms(1)
proof (cases rule: vm_step.cases)
  case (run op' w ms e f')
  then have way: "(shape ms, e) \<in> set (arms pools bound op)" using assms(2) by simp
  from arms_agree [OF assms(3,8,9,10) way assms(4,6,7)] obtain h where
    h: "climbs cap ms (length xs) = Some h" and eh: "e = Next \<or> (\<exists>t. e = Goto t) \<Longrightarrow> h = length xs - p + q"
    by (auto simp: arm_agrees_def climbs_shape split: option.splits ending.splits)
  from moves_climb [OF h assms(5), of u floor] run obtain ys where
    "f' = stack_frame floor cap ys" "length ys = h" by auto
  with run eh arms_end_ok [OF assms(3) way] show ?thesis
    by (cases e) (auto simp: land_def edge_of_def)
next
  case (fault op' ms e x)
  then have way: "(shape ms, e) \<in> set (arms pools bound op)" using assms(2) by simp
  from arms_agree [OF assms(3,8,9,10) way assms(4,6,7)] obtain h where
    h: "climbs cap ms (length xs) = Some h"
    by (auto simp: arm_agrees_def climbs_shape split: option.splits)
  from moves_climb [OF h assms(5), of u floor] fault show ?thesis by auto
qed auto

section \<open>Soundness\<close>

lemma in_step_start: "sound_plain cx c D \<Longrightarrow> start_config c floor cfg \<Longrightarrow> in_step c D floor cfg"
  by (simp add: sound_plain_def sound_at_def start_config_def in_step_def vstate0_def
      new_frame_stack)

lemma in_step_at:
  fixes xs :: "'v list"
  assumes sound: "sound_at cx c (unat (max_stack c)) D" and op: "decode (v_code cx) pc = Some op"
    "plain (v_pools cx) op" and "bound \<le> 1"
    and D: "D pc = Some s" and len: "length xs = v_operands s"
    and step: "vm_step (v_code cx) (v_pools cx) bound u
      (Running pc (stack_frame floor (unat (max_stack c)) xs)) cfg'"
  shows "in_step c D floor cfg'"
proof -
  let ?cap = "unat (max_stack c)"
  from decode_width [OF op(1)] obtain w where w: "width (v_code cx) pc = Some w" ..
  obtain r p q it ha succs where
    e: "effect op (v_pools cx) = (r, p, q)" "p \<le> r" "r \<le> v_operands s"
      "max (v_operands s - p + q) (stack_peak op (v_pools cx) (v_operands s)) \<le> ?cap"
    and edges: "edges cx c pc op (pc + w) s
       \<lparr>v_operands = v_operands s - p + q, v_iters = it, v_handlers = ha\<rparr> = Ok succs"
    and succs: "\<forall>(a, s') \<in> set succs. D a = Some s'"
    using sound_atD [OF sound D op(1) w] by (metis (no_types, lifting))
  have cap: "length xs \<le> ?cap" using e(4) len by (simp add: stack_peak_def)
  have goes: "\<exists>s'. D a = Some s' \<and> v_operands s' = v_operands s - p + q"
    if "end_ok (v_pools cx) op e'" "edge_of (pc + w) e' = Some a" for e' a
    using end_in_edges [OF that(1) op(2) edges that(2)] succs by auto
  consider "op = InterpolateAppend" | "op = Return" | "op \<noteq> InterpolateAppend" "op \<noteq> Return"
    by blast
  then show ?thesis
  proof cases
    case 1
    with e have "0 < length xs" "p = 1" "q = 0" by (auto simp: effect_def len)
    from append_step [OF step op(1) [unfolded 1] this(1) cap] goes [of Next "pc + w"] w len 1 this
    show ?thesis by (auto simp: in_step_def end_ok_def branch_of_def edge_of_def)
  next
    case 2
    from return_step [OF step op(1) [unfolded 2] cap] show ?thesis by (auto simp: in_step_def)
  next
    case 3
    from plain_step [OF step op assms(4) cap 3 e(1)] e(3,4) len
    consider "cfg' = Raised \<or> cfg' = Returned"
      | w' e' a ys where "width (v_code cx) pc = Some w'" "end_ok (v_pools cx) op e'"
          "edge_of (pc + w') e' = Some a" "cfg' = Running a (stack_frame floor ?cap ys)"
          "length ys = v_operands s - p + q"
      by (metis (no_types))
    then show ?thesis
    proof cases
      case 1
      then show ?thesis by (auto simp: in_step_def)
    next
      case 2
      with w have "w' = w" by simp
      with goes 2 show ?thesis by (fastforce simp: in_step_def)
    qed
  qed
qed

lemma in_step_step:
  assumes "sound_plain cx c D" "bound \<le> 1" "in_step c D floor cfg"
    and "vm_step (v_code cx) (v_pools cx) bound u cfg cfg'"
  shows "in_step c D floor cfg'"
proof -
  from vm_step_from_running [OF assms(4)] obtain pc f where cfg: "cfg = Running pc f" by blast
  with assms(3) obtain s xs where D: "D pc = Some s" and len: "length xs = v_operands s"
    and f: "f = stack_frame floor (unat (max_stack c)) xs"
    by (auto simp: in_step_def)
  note step = assms(4) [unfolded cfg f]
  show ?thesis
  proof (cases "decode (v_code cx) pc")
    case None
    with step show ?thesis by (auto simp: in_step_def elim: vm_step.cases)
  next
    case (Some op)
    with assms(1) D have "sound_at cx c (unat (max_stack c)) D" "plain (v_pools cx) op"
      by (auto simp: sound_plain_def)
    with Some D len step assms(2) show ?thesis by (blast intro: in_step_at)
  qed
qed

interpretation vm: step_invariant
  "start_config c floor" "vm_step (v_code cx) (v_pools cx) bound u"
  "\<lambda>cfg. sound_plain cx c D \<longrightarrow> bound \<le> 1 \<longrightarrow> in_step c D floor cfg"
  for cx c D floor bound u
  by unfold_locales (auto intro: in_step_start in_step_step)

section \<open>Staying on instructions\<close>

text \<open>An edge goes to the next instruction or to a checked jump target.\<close>

lemma go_target:
  "go cx c at t s = Ok (a, s') \<Longrightarrow>
   v_starts cx ! a \<and> unat (entry c) \<le> a \<and> a < unat (chunk_end c)"
  by (auto simp: go_def split: if_splits)

lemma seq_go_target:
  "seq_ok (map (\<lambda>t. go cx c at t ns) ts) = Ok succs \<Longrightarrow> (a, s') \<in> set succs \<Longrightarrow>
   v_starts cx ! a \<and> unat (entry c) \<le> a \<and> a < unat (chunk_end c)"
  by (induction ts arbitrary: succs) (auto simp: rbind_eq_Ok dest: go_target)

lemma edges_targets:
  assumes "edges cx c at op next s ns = Ok succs" "(a, s') \<in> set succs"
  shows "a = next \<or> v_starts cx ! a \<and> unat (entry c) \<le> a \<and> a < unat (chunk_end c)"
proof (cases "branch_of op")
  case (Some t)
  with assms show ?thesis by (auto simp: edges_def rbind_eq_Ok dest: go_target)
next
  case None
  show ?thesis
  proof (cases op)
    case (Switch i)
    with assms None show ?thesis
      by (auto simp: edges_def dest: seq_go_target split: option.splits)
  qed (use assms None in \<open>auto simp: edges_def exhausted_def rbind_eq_Ok dest: go_target
      split: if_splits\<close>)
qed

text \<open>The part of an assignment that lies on instructions is as sound as the whole.\<close>

definition on_instructions ::
  "u8 list \<Rightarrow> nat \<Rightarrow> (nat \<Rightarrow> vstate option) \<Rightarrow> nat \<Rightarrow> vstate option" where
  "on_instructions code lo D a = (if boundary code 0 a \<and> lo \<le> a then D a else None)"

lemma sound_on_instructions:
  assumes "sound_at cx c high D" "boundary (v_code cx) 0 (unat (entry c))"
    and starts: "\<And>a. a < unat (chunk_end c) \<Longrightarrow> v_starts cx ! a \<Longrightarrow> boundary (v_code cx) 0 a"
  shows "sound_at cx c high (on_instructions (v_code cx) (unat (entry c)) D)"
    (is "sound_at cx c high ?D")
proof -
  have "admits (verify_step cx c) (unat (chunk_end c)) high ?D a s" if "?D a = Some s" for a s
  proof -
    from that have a: "D a = Some s" "boundary (v_code cx) 0 a" "unat (entry c) \<le> a"
      by (auto simp: on_instructions_def split: if_splits)
    from a assms(1) have "admits (verify_step cx c) (unat (chunk_end c)) high D a s"
      by (simp add: sound_at_def stable_def)
    then obtain succs peak where v: "verify_step cx c a s = Ok (succs, peak)" "peak \<le> high"
      "a < unat (chunk_end c)" "v_operands s \<le> high" "\<forall>(a, s') \<in> set succs. D a = Some s'"
      unfolding admits_def by blast
    from v(1) obtain op ns where op: "decode (v_code cx) a = Some op"
      and e: "edges cx c a op (a + the (width (v_code cx) a)) s ns = Ok succs"
      by (auto simp: verify_step_def rbind_eq_Ok Let_def split: if_splits prod.splits)
    from decode_width [OF op] obtain w where w: "width (v_code cx) a = Some w" ..
    have "boundary (v_code cx) 0 b \<and> unat (entry c) \<le> b" if "(b, s') \<in> set succs" for b s'
      using edges_targets [OF e that] starts [of b] boundary_snoc [OF a(2) w] w a(3) by auto
    with v show ?thesis by (force simp: admits_def on_instructions_def)
  qed
  with assms show ?thesis by (auto simp: sound_at_def stable_def on_instructions_def)
qed

section \<open>Verified programs\<close>

definition plain_chunk :: "u8 list \<Rightarrow> pools \<Rightarrow> chunk \<Rightarrow> bool" where
  "plain_chunk code pools c \<longleftrightarrow> boundary code 0 (unat (entry c)) \<and>
     (\<forall>at op. boundary code 0 at \<longrightarrow> unat (entry c) \<le> at \<longrightarrow> at < unat (chunk_end c) \<longrightarrow>
        decode code at = Some op \<longrightarrow> plain pools op)"

text \<open>
  A safe configuration: at an instruction of the chunk whose references resolve, with an operand
  stack within the measured height; or left; or, above another frame, at an empty slot.
\<close>

definition safe_config ::
  "u8 list \<Rightarrow> pools \<Rightarrow> chunk \<Rightarrow> u16 \<Rightarrow> nat \<Rightarrow> 'v config \<Rightarrow> bool" where
  "safe_config code pools c high floor cfg = (case cfg of
       Running pc f \<Rightarrow> boundary code 0 pc \<and> unat (entry c) \<le> pc \<and> pc < unat (chunk_end c) \<and>
         check_indices pc code pools = Ok () \<and>
         (\<exists>xs. f = stack_frame floor (unat (max_stack c)) xs \<and> length xs \<le> unat high)
     | Crashed x \<Rightarrow> x = EmptySlot \<and> 0 < floor
     | Returned \<Rightarrow> True
     | Raised \<Rightarrow> True)"

lemma seq_ok_mem: "seq_ok (map g cs) = Ok rs \<Longrightarrow> c \<in> set cs \<Longrightarrow> \<exists>r \<in> set rs. g c = Ok r"
  by (induction cs arbitrary: rs) (auto simp: rbind_eq_Ok)

lemma verify_Ok:
  assumes "verify f caps code functions chunks pools = Ok highs" "i < length chunks"
  obtains cx where "v_code cx = code" "v_pools cx = pools"
    "\<And>a. a < length code \<Longrightarrow> v_starts cx ! a = boundary code 0 a"
    "\<And>a. boundary code 0 a \<Longrightarrow> a < length code \<Longrightarrow> check_indices a code pools = Ok ()"
    "verify_chunk cx (chunks ! i) = Ok (highs ! i)"
proof -
  from assms(1) obtain at starts where
    s: "scan code pools 0 (replicate (length code + 1) False) = Ok (at, starts)"
    and v: "seq_ok (map (verify_chunk \<lparr>v_features = f, v_caps = caps, v_code = code,
       v_starts = starts, v_pools = pools\<rparr>) chunks) = Ok highs"
    by (auto simp: verify_def rbind_eq_Ok split: if_splits)
  have at: "list_all2 (\<lambda>r x. r = Ok x) (map (verify_chunk \<lparr>v_features = f, v_caps = caps,
      v_code = code, v_starts = starts, v_pools = pools\<rparr>) chunks) highs"
    using v by (simp add: seq_ok_Ok)
  then have "verify_chunk \<lparr>v_features = f, v_caps = caps, v_code = code, v_starts = starts,
      v_pools = pools\<rparr> (chunks ! i) = Ok (highs ! i)"
    using assms(2) by (auto simp: list_all2_conv_all_nth)
  with scan_Ok [OF s] that [of "\<lparr>v_features = f, v_caps = caps, v_code = code,
      v_starts = starts, v_pools = pools\<rparr>"] show thesis
    by (simp del: replicate_Suc)
qed

lemma runs_safely:
  fixes cfg :: "'v config"
  assumes "verify f caps code functions chunks pools = Ok highs" "i < length chunks"
    and "c = chunks ! i" "plain_chunk code pools c" "bound \<le> 1"
    and "(vm_step code pools bound u)\<^sup>*\<^sup>*
      (Running (unat (entry c)) (new_frame floor (unat (max_stack c)))) cfg"
  shows "safe_config code pools c (highs ! i) floor cfg"
proof -
  from verify_Ok [OF assms(1,2)] obtain cx where cx: "v_code cx = code" "v_pools cx = pools"
    and starts: "\<And>a. a < length code \<Longrightarrow> v_starts cx ! a = boundary code 0 a"
    and idx: "\<And>a. boundary code 0 a \<Longrightarrow> a < length code \<Longrightarrow> check_indices a code pools = Ok ()"
    and vc: "verify_chunk cx c = Ok (highs ! i)"
    using assms(3) by metis
  from verify_chunk_sound [OF vc] obtain D0 where D0: "sound_at cx c (unat (highs ! i)) D0"
    and high: "highs ! i \<le> max_stack c" and len: "unat (chunk_end c) \<le> length code"
    using cx by metis
  define D where "D = on_instructions code (unat (entry c)) D0"
  have D: "sound_at cx c (unat (highs ! i)) D"
    unfolding D_def cx(1) [symmetric]
    using assms(4) starts len cx by (intro sound_on_instructions [OF D0]) (auto simp: plain_chunk_def)
  have at: "boundary code 0 a \<and> unat (entry c) \<le> a \<and> a < unat (chunk_end c) \<and>
      v_operands s \<le> unat (highs ! i)" if "D a = Some s" for a s
  proof -
    from D that have "admits (verify_step cx c) (unat (chunk_end c)) (unat (highs ! i)) D a s"
      by (simp add: sound_at_def stable_def)
    with that show ?thesis by (auto simp: admits_def D_def on_instructions_def split: if_splits)
  qed
  have "sound_at cx c (unat (max_stack c)) D"
    using sound_at_mono [OF D] high by (simp add: word_le_nat_alt)
  moreover have "plain pools op" if "D a = Some s" "decode code a = Some op" for a s op
    using assms(4) at [OF that(1)] that(2) unfolding plain_chunk_def by blast
  ultimately have "sound_plain cx c D" by (auto simp: sound_plain_def cx)
  with vm.reachable [of cx bound u] assms(5,6) have "in_step c D floor cfg"
    by (simp add: start_config_def cx)
  with at idx len show ?thesis by (fastforce simp: in_step_def safe_config_def split: config.splits)
qed

text \<open>
  C1. A plain chunk of a program that verifies runs safely. The conditions, all of them premises:
  the chunk is entered at the start of an instruction (\<open>plain_chunk\<close>), as the verifier does not check
  it (\<open>Verify.entry_inside_instruction\<close>); every instruction in it is \<open>plain\<close>: no \<open>IterInit\<close>, \<open>IterDrop\<close>,
  \<open>IterNext\<close> or \<open>IterNextStore\<close>, whose effects differ from what the interpreter does
  (\<open>Verifier_Gaps.iter_init_underflows\<close>), no \<open>PushHandler\<close>, whose catch block may find fewer operands than
  the verifier counted (\<open>Handlers.try_underflows\<close>), no \<open>Rotate 0\<close>, and no \<open>IndexGet\<close> or \<open>IndexSet\<close> but over
  a chain of the form the compiler gives them (\<open>index_chain\<close>); and a function pointer brings at most
  one curried argument (\<open>bound \<le> 1\<close>), as a call is granted one slot
  (\<open>Verifier_Gaps.curried_call_overflows\<close>). Then every configuration the dispatch loop reaches is at an
  instruction of the chunk, with its pool references in range and at most as many operands as the
  verifier measured, or has returned or raised an error of the script. For the frame at the
  bottom of the operand array (\<open>floor = 0\<close>) there is no crash; in a frame above another one
  the only fault left is the panic of a read of the empty slot under its floor (\<open>EmptySlot\<close>).
\<close>

theorem verified_runs_safely:
  fixes cfg :: "'v config"
  assumes "verify f caps code functions chunks pools = Ok highs" "i < length chunks"
    and "c = chunks ! i" "plain_chunk code pools c" "bound \<le> 1"
    and "(vm_step code pools bound u)\<^sup>*\<^sup>*
      (Running (unat (entry c)) (new_frame floor (unat (max_stack c)))) cfg"
  shows "safe_config code pools c (highs ! i) floor cfg"
  by (rule runs_safely [OF assms])

lemma boundary_step: "boundary code at i \<longleftrightarrow>
   i = at \<or> (case width code at of None \<Rightarrow> False | Some w \<Rightarrow> boundary code (at + w) i)"
  by (subst boundary_simps) (auto split: option.splits)

lemma verify_unit_return: "verify full_features 0 [2, 19] [] [unit_return_chunk] pools = Ok [1]"
proof -
  have "scan [2, 19] pools 0 [False, False, False] = Ok (2, [True, True, False])"
    by (simp add: scan.simps decode_unit_return check_indices_def tag_defs Let_def)
  moreover have "verify_chunk \<lparr>v_features = full_features, v_caps = 0, v_code = [2, 19],
      v_starts = [True, True, False], v_pools = pools\<rparr> unit_return_chunk = Ok 1"
    by (simp add: verify_chunk_def unit_return_chunk_def step_eval decode_unit_return)
  ultimately show ?thesis by (simp add: verify_def)
qed

lemma unit_return_plain: "plain_chunk [2, 19] pools unit_return_chunk"
proof -
  have stop: "width [2, 19] (Suc (Suc 0)) = None"
    by (simp add: width_def width_of_def get_at_def)
  have "boundary [2, 19] 0 i \<longleftrightarrow> i = 0 \<or> i = 1 \<or> i = 2" for i
    by (auto simp: boundary_step [of _ 0] boundary_step [of _ "Suc 0"] boundary_step [of _ "Suc (Suc 0)"]
        decode_unit_return stop)
  then show ?thesis
    by (auto simp: plain_chunk_def unit_return_chunk_def decode_unit_return plain_def)
qed

lemma unit_return_steps:
  "(vm_step [2, 19] pools 1 True)\<^sup>*\<^sup>*
      (Running (unat (entry unit_return_chunk)) (new_frame 3 (unat (max_stack unit_return_chunk))))
      (Running 1 (stack_frame 3 4 [True]))"
proof -
  have "vm_step [2, 19] pools 1 True (Running 0 (new_frame 3 4)) (land (0 + 1) Next
      (stack_frame 3 4 [True]))"
    by (rule vm_step.run [where op = Unit and ms = "[MPush True]"])
      (auto simp: decode_unit_return arms_def straight_def new_frame_stack push_cell_stack)
  then show ?thesis by (simp add: unit_return_chunk_def land_def r_into_rtranclp)
qed

theorem verified_runs_safely_witness:
  "safe_config [2, 19] no_pools unit_return_chunk 1 3 (Running 1 (stack_frame 3 4 [True]))"
  using verified_runs_safely [OF verify_unit_return _ _ unit_return_plain _ unit_return_steps, of 0 no_pools]
  by simp

end
