(* ===== verification/Verifier_Gaps.thy ===== *)
theory Verifier_Gaps
  imports Soundness
begin

text \<open>
  Concrete chunks on which the verifier (\<open>src/grain/bytecode/verify.rs\<close>) and the dispatch loop
  (\<open>src/grain/vm/mod.rs\<close>) disagree: the exceptions \<open>Soundness\<close> makes are needed.
\<close>

section \<open>Steps of the machine\<close>

lemma unit_step:
  "decode code pc = Some Unit \<Longrightarrow> width code pc = Some w \<Longrightarrow> length xs < cap \<Longrightarrow>
   vm_step code pools bound u (Running pc (stack_frame floor cap xs))
     (Running (pc + w) (stack_frame floor cap (xs @ [v])))"
  by (rule vm_step.run [where op = Unit and ms = "[MPush v]" and e = Next, unfolded land_def ending.case])
    (auto simp: arms_def straight_def push_cell_stack)

lemma iter_init_step:
  "decode code pc = Some IterInit \<Longrightarrow> width code pc = Some w \<Longrightarrow> length xs < cap \<Longrightarrow>
   vm_step code pools bound u (Running pc (stack_frame floor cap (xs @ [v])))
     (Running (pc + w) (stack_frame floor cap (xs @ [v])))"
  by (rule vm_step.run [where op = IterInit and ms = "[MPeek]" and e = Next, unfolded land_def ending.case])
    (auto simp: arms_def straight_def inspect_stack)

lemma pop_step:
  "decode code pc = Some Pop \<Longrightarrow> width code pc = Some w \<Longrightarrow> length xs < cap \<Longrightarrow>
   vm_step code pools bound u (Running pc (stack_frame floor cap (xs @ [v])))
     (Running (pc + w) (stack_frame floor cap xs))"
  by (rule vm_step.run [where op = Pop and ms = "[MPop]" and e = Next, unfolded land_def ending.case])
    (auto simp: arms_def straight_def pop_stack)

lemma pop_empty_step:
  "decode code pc = Some Pop \<Longrightarrow>
   vm_step code pools bound u (Running pc (stack_frame 0 cap [])) (Crashed Underflow)"
  using vm_step.fault [where op = Pop and ms = "[MPop]" and e = Next and x = Underflow
      and f = "stack_frame 0 cap []"]
  by (auto simp: arms_def straight_def pop_empty faulted_def)

definition iterate_twice :: "u8 list" where
  "iterate_twice = [UNIT, ITER_INIT, POP, POP, UNIT, RETURN]"

lemma widths_iterate_twice:
  "i < 6 \<Longrightarrow> width iterate_twice i = Some 1"
  by (auto simp: iterate_twice_def width_def width_of_def get_at_def Let_def widths_num tag_defs
      less_Suc_eq numeral_eq_Suc)


lemma decode_iterate_twice:
  "decode iterate_twice 0 = Some Unit" "decode iterate_twice 1 = Some IterInit"
  "decode iterate_twice 2 = Some Pop" "decode iterate_twice 3 = Some Pop"
  "decode iterate_twice 4 = Some Unit" "decode iterate_twice 5 = Some Return"
  by (simp_all add: decode_def widths_iterate_twice)
    (simp_all add: iterate_twice_def decode_defs tag_defs)


definition iterate_twice_chunk :: chunk where
  "iterate_twice_chunk = \<lparr>entry = 0, chunk_end = 6, max_stack = 2\<rparr>"

text \<open>
  C34. The verifier counts an iterator as a value more than the interpreter keeps: \<open>IterInit\<close>
  replaces the iterable in its slot, but its effect is one value taken and two left. So the chunk
  \<open>Unit; IterInit; Pop; Pop; Unit; Return\<close> verifies, and its second \<open>Pop\<close> underflows.
\<close>

theorem iter_init_underflows:
  "verify_chunk (context_of iterate_twice starts) iterate_twice_chunk = Ok 2 \<and>
   (vm_step iterate_twice no_pools bound u)\<^sup>*\<^sup>*
     (Running (unat (entry iterate_twice_chunk))
       (new_frame 0 (unat (max_stack iterate_twice_chunk)))) (Crashed Underflow)"
proof
  note d = decode_iterate_twice and w = widths_iterate_twice
  have len: "length iterate_twice = 6" by (simp add: iterate_twice_def)
  show "verify_chunk (context_of iterate_twice starts) iterate_twice_chunk = Ok 2"
    by (simp add: verify_chunk_def iterate_twice_chunk_def context_of_def step_eval d w len
        del: One_nat_def)
  let ?step = "vm_step iterate_twice no_pools bound u"
  have "?step\<^sup>*\<^sup>* (Running 0 (stack_frame 0 2 [])) (Running 1 (stack_frame 0 2 [u]))"
    using unit_step [of iterate_twice 0 1 "[]" 2] d w by (intro r_into_rtranclp) simp
  also have "?step\<^sup>*\<^sup>* \<dots> (Running 2 (stack_frame 0 2 [u]))"
    using iter_init_step [of iterate_twice 1 1 "[]" 2] d w by (intro r_into_rtranclp) (simp del: One_nat_def)
  also have "?step\<^sup>*\<^sup>* \<dots> (Running 3 (stack_frame 0 2 []))"
    using pop_step [of iterate_twice 2 1 "[]" 2] d w by (intro r_into_rtranclp) (simp del: One_nat_def)
  also have "?step\<^sup>*\<^sup>* \<dots> (Crashed Underflow)"
    using pop_empty_step [of iterate_twice 3] d by (intro r_into_rtranclp) (simp del: One_nat_def)
  finally show "?step\<^sup>*\<^sup>* (Running (unat (entry iterate_twice_chunk))
      (new_frame 0 (unat (max_stack iterate_twice_chunk)))) (Crashed Underflow)"
    by (simp add: iterate_twice_chunk_def new_frame_stack)
qed


section \<open>Calling a function pointer\<close>

text \<open>
  \<open>call_fn_ptr\<close> up to the call, with the values looked at: which operand is the pointer, the curried
  arguments put in front of the others, and who is called. \<open>Not_A_Pointer\<close> is the mismatch, with
  the value whose type it names; a compiled callee gets the operands from an index on, any other
  takes the arguments off the stack. \<open>curry_of\<close> answers the curried arguments of a value that is an
  \<open>FnPtr\<close>, and \<open>compiled\<close> whether \<open>function_named\<close> finds the name of the pointer with a
  number of arguments; both belong to types outside of this development.
\<close>

datatype 'v callee =
    Not_A_Pointer 'v
  | Compiled_Callee nat "'v option" "'v frame"
  | Raw_Callee "'v list" "'v option" "'v frame"

definition call_fn_ptr ::
  "('v \<Rightarrow> 'v list option) \<Rightarrow> ('v \<Rightarrow> nat \<Rightarrow> bool) \<Rightarrow> nat \<Rightarrow> bool \<Rightarrow> 'v frame \<Rightarrow> fault + 'v callee" where
  "call_fn_ptr curry_of compiled argc in_method f =
     rbind (below_top (argc + 1) f) (\<lambda>base.
     rbind (cell base f) (\<lambda>target.
     let shifted = in_method \<and> curry_of target = None;
         at = (if shifted then base + 1 else base);
         receiver = (if shifted then Some target else None)
     in if shifted \<and> at \<ge> depth f then Ok (Not_A_Pointer target)
        else rbind (cell at f) (\<lambda>pointer. case curry_of pointer of
            None \<Rightarrow> Ok (Not_A_Pointer pointer)
          | Some curried \<Rightarrow>
              if compiled pointer (length curried + (depth f - at - 1))
              then rbind (insert_cells (at + 1) curried f) (\<lambda>f. Ok (Compiled_Callee (at + 1) receiver f))
              else rbind (take_cells_from (at + 1) f) (\<lambda>(args, f). Ok (Raw_Callee args receiver f)))))"

text \<open>A call \<open>f.call(args)\<close> or \<open>obj.call(f, args)\<close> on a stack of values.\<close>

lemma call_fn_ptr_stack:
  assumes "length xs + 1 + length args \<le> cap" "argc = length args" "curry_of v = Some curried"
  shows "call_fn_ptr curry_of compiled argc in_method (stack_frame floor cap (xs @ v # args)) =
     (if \<not> compiled v (length curried + argc)
      then Ok (Raw_Callee args None (stack_frame floor cap (xs @ [v])))
      else if cap < length xs + 1 + argc + length curried then Err NoRoom
      else Ok (Compiled_Callee (floor + length xs + 1) None (stack_frame floor cap (xs @ v # curried @ args))))"
proof -
  have "cell (floor + length xs) (stack_frame floor cap (xs @ v # args)) = Ok v"
    using assms(1) by (subst cell_stack) auto
  moreover have "take_cells_from (floor + (length xs + 1)) (stack_frame floor cap (xs @ v # args)) =
      Ok (args, stack_frame floor cap (xs @ [v]))"
    using assms(1) by (subst take_cells_stack) auto
  moreover have "insert_cells (floor + (length xs + 1)) curried (stack_frame floor cap (xs @ v # args)) =
      (if length xs + 1 + argc + length curried \<le> cap
       then Ok (stack_frame floor cap (xs @ v # curried @ args)) else Err NoRoom)"
    using assms(1,2) by (subst insert_cells_stack) auto
  ultimately show ?thesis
    using assms by (auto simp: call_fn_ptr_def below_top_def add.assoc Let_def)
qed

lemma call_no_pointer:
  assumes "length xs < cap" "curry_of v = None"
  shows "call_fn_ptr curry_of compiled 0 in_method (stack_frame floor cap (xs @ [v])) = Ok (Not_A_Pointer v)"
proof -
  have "cell (floor + length xs) (stack_frame floor cap (xs @ [v])) = Ok v"
    using assms(1) by (subst cell_stack) auto
  then show ?thesis using assms by (simp add: call_fn_ptr_def below_top_def)
qed

definition call_curried :: "u8 list" where
  "call_curried = [LOAD_LOCAL, 0, 0, CALL_FN_PTR, 0, RETURN]"

lemma decode_call_curried:
  "decode call_curried 0 = Some (LoadLocal 0)" "decode call_curried 3 = Some (CallFnPtr 0 False None)"
  "decode call_curried 5 = Some Return"
  "width call_curried 0 = Some 3" "width call_curried 3 = Some 2" "width call_curried 5 = Some 1"
  by (simp_all add: decode_def width_def width_of_def Let_def call_curried_def get_at_def widths_num
      decode_defs tag_defs reader_def u16_at_def of_le16_def)

definition call_curried_chunk :: chunk where
  "call_curried_chunk = \<lparr>entry = 0, chunk_end = 6, max_stack = 2\<rparr>"

text \<open>
  C35. The slots of a frame do not cover curried arguments. The chunk \<open>LoadLocal 0; CallFnPtr 0;
  Return\<close>, a function that calls its parameter, verifies with two slots: one for the operand and
  the one a call of a pointer is granted. Whatever the value of the local, the call ends thus: a
  value that is no pointer is a mismatch, a pointer to a function that is not compiled takes its
  arguments off the stack, and a pointer to a compiled one has its curried arguments put above it when
  there is at most one. With two or more the slots do not hold them, and the write past the array
  panics, in a verified chunk.
\<close>

theorem curried_call_overflows:
  "verify_chunk ((context_of call_curried starts)\<lparr>v_caps := FN_PTR\<rparr>) call_curried_chunk = Ok 2 \<and>
   (vm_step call_curried no_pools bound u)\<^sup>*\<^sup>*
     (Running (unat (entry call_curried_chunk)) (new_frame floor (unat (max_stack call_curried_chunk))))
     (Running 3 (stack_frame floor 2 [v])) \<and>
   decode call_curried 3 = Some (CallFnPtr 0 False None) \<and>
   call_fn_ptr curry_of compiled 0 False (stack_frame floor 2 [v]) =
     (case curry_of v of
        None \<Rightarrow> Ok (Not_A_Pointer v)
      | Some curried \<Rightarrow>
          if \<not> compiled v (length curried) then Ok (Raw_Callee [] None (stack_frame floor 2 [v]))
          else if length curried \<le> 1
          then Ok (Compiled_Callee (floor + 1) None (stack_frame floor 2 (v # curried)))
          else Err NoRoom)"
proof (intro conjI)
  note d = decode_call_curried
  have len: "length call_curried = 6" by (simp add: call_curried_def)
  show "verify_chunk ((context_of call_curried starts)\<lparr>v_caps := FN_PTR\<rparr>) call_curried_chunk = Ok 2"
    by (simp add: verify_chunk_def call_curried_chunk_def context_of_def step_eval d len
        del: One_nat_def)
  have "vm_step call_curried no_pools bound u (Running 0 (stack_frame floor 2 []))
      (land (0 + 3) Next (stack_frame floor 2 [v]))"
    by (rule vm_step.run [where op = "LoadLocal 0" and ms = "[MPush v]"])
      (auto simp: d arms_def straight_def push_cell_stack)
  then show "(vm_step call_curried no_pools bound u)\<^sup>*\<^sup>*
     (Running (unat (entry call_curried_chunk)) (new_frame floor (unat (max_stack call_curried_chunk))))
     (Running 3 (stack_frame floor 2 [v]))"
    by (simp add: call_curried_chunk_def new_frame_stack land_def r_into_rtranclp)
  show "decode call_curried 3 = Some (CallFnPtr 0 False None)" by (rule d)
qed (auto simp: call_fn_ptr_stack [where xs = "[]" and args = "[]", simplified]
      call_no_pointer [where xs = "[]", simplified] split: option.splits)

end
