(* ===== verification/Tokens.thy ===== *)
theory Tokens
  imports Ops Caps
begin

text \<open>
  The tokens of the language (\<open>src/tokenizer.rs\<close>) as far as the artifact and the compiler use
  them: their literal syntax, the classification of operators,
      and the two \<open>gperf\<close> tables that
  take a piece of syntax back to a symbol and tell reserved words. Rust's \<open>&str\<close> is its UTF-8
  bytes, and a HOL \<open>char\<close> is a byte,
      so a \<open>string\<close> here is the bytes of the text; the feature
  flags that remove tokens are the record \<open>features\<close>. The variants without a payload are grouped
  in four enumerations (punctuation, operators, op-assignments, keywords), which keeps each
  datatype small. Float and decimal literals keep only their
  source text.
\<close>

section \<open>Tokens\<close>

text \<open>\<open>LexError\<close> of \<open>src/types/parse_error.rs\<close>.\<close>

datatype lex_error =
    UnexpectedInput string | UnterminatedString | StringTooLong nat
  | MalformedEscapeSequence string | MalformedNumber string | MalformedChar string
  | MalformedIdentifier string | ImproperSymbol string string | Runtime string

datatype (plugins only: code size) symbol =
    TLeftBrace | TRightBrace | TLeftParen | TRightParen | TLeftBracket | TRightBracket | TUnit |
    TSemiColon | TColon | TDoubleColon | TDoubleArrow | TUnderscore | TComma | TPeriod | TElvis |
    TDoubleQuestion | TQuestionBracket | TExclusiveRange | TInclusiveRange | TMapStart | TEquals

datatype (plugins only: code size) operator =
    TPlus | TUnaryPlus | TMinus | TUnaryMinus | TMultiply | TDivide | TModulo | TPowerOf |
    TLeftShift | TRightShift | TLessThan | TGreaterThan | TLessThanEqualsTo |
    TGreaterThanEqualsTo | TEqualsTo | TNotEqualsTo | TBang | TPipe | TOr | TXOr | TAmpersand |
    TAnd | TIn | TNotIn

datatype (plugins only: code size) assignment =
    TPlusAssign | TMinusAssign | TMultiplyAssign | TDivideAssign | TLeftShiftAssign |
    TRightShiftAssign | TAndAssign | TOrAssign | TXOrAssign | TModuloAssign | TPowerOfAssign

datatype (plugins only: code size) keyword =
    TTrue | TFalse | TLet | TConst | TIf | TElse | TSwitch | TDo | TWhile | TUntil | TLoop |
    TFor | TFn | TContinue | TBreak | TReturn | TThrow | TTry | TCatch | TPrivate | TImport |
    TExport | TAs

datatype (plugins only: code size) token =
    Sym symbol | Opr operator | Asg assignment | Kwd keyword |
    TIntegerConstant int | TFloatConstant string | TDecimalConstant string | TIdentifier string |
    TCharConstant u32 | TStringConstant string | TInterpolatedString string |
    TLexError lex_error | TComment string | TReserved string | TCustom string |
    TUnprocessedRawChar u32 | TEOF

text \<open>The variants that a feature flag takes out of the type.\<close>

definition token_exists :: "features \<Rightarrow> token \<Rightarrow> bool" where
  "token_exists f t = (case t of
       TFloatConstant _ \<Rightarrow> \<not> no_float f
     | TDecimalConstant _ \<Rightarrow> decimal f | Sym TElvis \<Rightarrow> \<not> no_object f
     | Sym TQuestionBracket \<Rightarrow> \<not> no_index f
     | Kwd TFn \<Rightarrow> \<not> no_function f
     | Kwd TPrivate \<Rightarrow> \<not> no_function f
     | Kwd TImport \<Rightarrow> \<not> no_module f
     | Kwd TExport \<Rightarrow> \<not> no_module f | Kwd TAs \<Rightarrow> \<not> no_module f
     | TCustom _ \<Rightarrow> \<not> no_custom_syntax f
     | TUnprocessedRawChar _ \<Rightarrow> \<not> no_custom_syntax f | _ \<Rightarrow> True)"

definition is_literal :: "token \<Rightarrow> bool" where
  "is_literal t = (case t of
       TIntegerConstant _ \<Rightarrow> False | TFloatConstant _ \<Rightarrow> False
     | TDecimalConstant _ \<Rightarrow> False | TStringConstant _ \<Rightarrow> False
     | TInterpolatedString _ \<Rightarrow> False | TCharConstant _ \<Rightarrow> False
     | TIdentifier _ \<Rightarrow> False | TReserved _ \<Rightarrow> False
     | TCustom _ \<Rightarrow> False | TLexError _ \<Rightarrow> False
     | TComment _ \<Rightarrow> False | TEOF \<Rightarrow> False | _ \<Rightarrow> True)"

text \<open>\<open>literal_syntax\<close>; \<open>None\<close> is its panic.\<close>

definition literal_syntax :: "token \<Rightarrow> string option" where
  "literal_syntax t = (case t of
       Sym TLeftBrace \<Rightarrow> Some ''{'' | Sym TRightBrace \<Rightarrow> Some ''}''
     | Sym TLeftParen \<Rightarrow> Some ''('' | Sym TRightParen \<Rightarrow> Some '')''
     | Sym TLeftBracket \<Rightarrow> Some ''['' | Sym TRightBracket \<Rightarrow> Some '']''
     | Sym TUnit \<Rightarrow> Some ''()'' | Opr TPlus \<Rightarrow> Some ''+''
     | Opr TUnaryPlus \<Rightarrow> Some ''+'' | Opr TMinus \<Rightarrow> Some ''-''
     | Opr TUnaryMinus \<Rightarrow> Some ''-'' | Opr TMultiply \<Rightarrow> Some ''*''
     | Opr TDivide \<Rightarrow> Some ''/'' | Sym TSemiColon \<Rightarrow> Some '';''
     | Sym TColon \<Rightarrow> Some '':'' | Sym TDoubleColon \<Rightarrow> Some ''::''
     | Sym TDoubleArrow \<Rightarrow> Some ''=>'' | Sym TUnderscore \<Rightarrow> Some ''_''
     | Sym TComma \<Rightarrow> Some '','' | Sym TPeriod \<Rightarrow> Some ''.''
     | Sym TElvis \<Rightarrow> Some ''?.'' | Sym TDoubleQuestion \<Rightarrow> Some ''??''
     | Sym TQuestionBracket \<Rightarrow> Some ''?[''
     | Sym TExclusiveRange \<Rightarrow> Some ''..''
     | Sym TInclusiveRange \<Rightarrow> Some ''..='' | Sym TMapStart \<Rightarrow> Some ''#{''
     | Sym TEquals \<Rightarrow> Some ''='' | Kwd TTrue \<Rightarrow> Some ''true''
     | Kwd TFalse \<Rightarrow> Some ''false'' | Kwd TLet \<Rightarrow> Some ''let''
     | Kwd TConst \<Rightarrow> Some ''const'' | Kwd TIf \<Rightarrow> Some ''if''
     | Kwd TElse \<Rightarrow> Some ''else'' | Kwd TSwitch \<Rightarrow> Some ''switch''
     | Kwd TDo \<Rightarrow> Some ''do'' | Kwd TWhile \<Rightarrow> Some ''while''
     | Kwd TUntil \<Rightarrow> Some ''until'' | Kwd TLoop \<Rightarrow> Some ''loop''
     | Kwd TFor \<Rightarrow> Some ''for'' | Opr TIn \<Rightarrow> Some ''in''
     | Opr TNotIn \<Rightarrow> Some ''!in'' | Opr TLessThan \<Rightarrow> Some ''<''
     | Opr TGreaterThan \<Rightarrow> Some ''>'' | Opr TBang \<Rightarrow> Some ''!''
     | Opr TLessThanEqualsTo \<Rightarrow> Some ''<=''
     | Opr TGreaterThanEqualsTo \<Rightarrow> Some ''>=''
     | Opr TEqualsTo \<Rightarrow> Some ''==''
     | Opr TNotEqualsTo \<Rightarrow> Some ''!='' | Opr TPipe \<Rightarrow> Some ''|''
     | Opr TOr \<Rightarrow> Some ''||'' | Opr TAmpersand \<Rightarrow> Some ''&''
     | Opr TAnd \<Rightarrow> Some ''&&'' | Kwd TContinue \<Rightarrow> Some ''continue''
     | Kwd TBreak \<Rightarrow> Some ''break'' | Kwd TReturn \<Rightarrow> Some ''return''
     | Kwd TThrow \<Rightarrow> Some ''throw'' | Kwd TTry \<Rightarrow> Some ''try''
     | Kwd TCatch \<Rightarrow> Some ''catch'' | Asg TPlusAssign \<Rightarrow> Some ''+=''
     | Asg TMinusAssign \<Rightarrow> Some ''-='' | Asg TMultiplyAssign \<Rightarrow> Some ''*=''
     | Asg TDivideAssign \<Rightarrow> Some ''/=''
     | Asg TLeftShiftAssign \<Rightarrow> Some ''<<=''
     | Asg TRightShiftAssign \<Rightarrow> Some ''>>='' | Asg TAndAssign \<Rightarrow> Some ''&=''
     | Asg TOrAssign \<Rightarrow> Some ''|='' | Asg TXOrAssign \<Rightarrow> Some ''^=''
     | Opr TLeftShift \<Rightarrow> Some ''<<'' | Opr TRightShift \<Rightarrow> Some ''>>''
     | Opr TXOr \<Rightarrow> Some ''^'' | Opr TModulo \<Rightarrow> Some ''%''
     | Asg TModuloAssign \<Rightarrow> Some ''%='' | Opr TPowerOf \<Rightarrow> Some ''**''
     | Asg TPowerOfAssign \<Rightarrow> Some ''**='' | Kwd TFn \<Rightarrow> Some ''fn''
     | Kwd TPrivate \<Rightarrow> Some ''private'' | Kwd TImport \<Rightarrow> Some ''import''
     | Kwd TExport \<Rightarrow> Some ''export'' | Kwd TAs \<Rightarrow> Some ''as''
     | _ \<Rightarrow> None)"

section \<open>Operators\<close>

definition is_op_assignment :: "token \<Rightarrow> bool" where
  "is_op_assignment t = (case t of
       Asg TPlusAssign \<Rightarrow> True | Asg TMinusAssign \<Rightarrow> True
     | Asg TMultiplyAssign \<Rightarrow> True | Asg TDivideAssign \<Rightarrow> True
     | Asg TLeftShiftAssign \<Rightarrow> True | Asg TRightShiftAssign \<Rightarrow> True
     | Asg TModuloAssign \<Rightarrow> True | Asg TPowerOfAssign \<Rightarrow> True
     | Asg TAndAssign \<Rightarrow> True | Asg TOrAssign \<Rightarrow> True
     | Asg TXOrAssign \<Rightarrow> True | _ \<Rightarrow> False)"

definition get_base_op_from_assignment :: "token \<Rightarrow> token option" where
  "get_base_op_from_assignment t = (case t of
       Asg TPlusAssign \<Rightarrow> Some (Opr TPlus)
     | Asg TMinusAssign \<Rightarrow> Some (Opr TMinus)
     | Asg TMultiplyAssign \<Rightarrow> Some (Opr TMultiply)
     | Asg TDivideAssign \<Rightarrow> Some (Opr TDivide)
     | Asg TLeftShiftAssign \<Rightarrow> Some (Opr TLeftShift)
     | Asg TRightShiftAssign \<Rightarrow> Some (Opr TRightShift)
     | Asg TModuloAssign \<Rightarrow> Some (Opr TModulo)
     | Asg TPowerOfAssign \<Rightarrow> Some (Opr TPowerOf)
     | Asg TAndAssign \<Rightarrow> Some (Opr TAmpersand)
     | Asg TOrAssign \<Rightarrow> Some (Opr TPipe)
     | Asg TXOrAssign \<Rightarrow> Some (Opr TXOr) | _ \<Rightarrow> None)"

definition has_op_assignment :: "token \<Rightarrow> bool" where
  "has_op_assignment t = (case t of
       Opr TPlus \<Rightarrow> True | Opr TMinus \<Rightarrow> True
     | Opr TMultiply \<Rightarrow> True
     | Opr TDivide \<Rightarrow> True | Opr TLeftShift \<Rightarrow> True
     | Opr TRightShift \<Rightarrow> True | Opr TModulo \<Rightarrow> True
     | Opr TPowerOf \<Rightarrow> True
     | Opr TAmpersand \<Rightarrow> True | Opr TPipe \<Rightarrow> True
     | Opr TXOr \<Rightarrow> True
     | _ \<Rightarrow> False)"

definition convert_to_op_assignment :: "token \<Rightarrow> token option" where
  "convert_to_op_assignment t = (case t of
       Opr TPlus \<Rightarrow> Some (Asg TPlusAssign)
     | Opr TMinus \<Rightarrow> Some (Asg TMinusAssign)
     | Opr TMultiply \<Rightarrow> Some (Asg TMultiplyAssign)
     | Opr TDivide \<Rightarrow> Some (Asg TDivideAssign)
     | Opr TLeftShift \<Rightarrow> Some (Asg TLeftShiftAssign)
     | Opr TRightShift \<Rightarrow> Some (Asg TRightShiftAssign)
     | Opr TModulo \<Rightarrow> Some (Asg TModuloAssign)
     | Opr TPowerOf \<Rightarrow> Some (Asg TPowerOfAssign)
     | Opr TAmpersand \<Rightarrow> Some (Asg TAndAssign)
     | Opr TPipe \<Rightarrow> Some (Asg TOrAssign)
     | Opr TXOr \<Rightarrow> Some (Asg TXOrAssign) | _ \<Rightarrow> None)"

definition is_next_unary :: "features \<Rightarrow> token \<Rightarrow> bool" where
  "is_next_unary f t = (case t of
       Sym TSemiColon \<Rightarrow> True | Sym TColon \<Rightarrow> True
     | Sym TComma \<Rightarrow> True
     | Sym TDoubleQuestion \<Rightarrow> True | Sym TExclusiveRange \<Rightarrow> True
     | Sym TInclusiveRange \<Rightarrow> True | Sym TLeftBrace \<Rightarrow> True
     | Sym TLeftParen \<Rightarrow> True | Sym TLeftBracket \<Rightarrow> True
     | Opr TPlus \<Rightarrow> True | Asg TPlusAssign \<Rightarrow> True
     | Opr TUnaryPlus \<Rightarrow> True
     | Opr TMinus \<Rightarrow> True | Asg TMinusAssign \<Rightarrow> True
     | Opr TUnaryMinus \<Rightarrow> True | Opr TMultiply \<Rightarrow> True
     | Asg TMultiplyAssign \<Rightarrow> True | Opr TDivide \<Rightarrow> True
     | Asg TDivideAssign \<Rightarrow> True | Opr TModulo \<Rightarrow> True
     | Asg TModuloAssign \<Rightarrow> True | Opr TPowerOf \<Rightarrow> True
     | Asg TPowerOfAssign \<Rightarrow> True | Opr TLeftShift \<Rightarrow> True
     | Asg TLeftShiftAssign \<Rightarrow> True | Opr TRightShift \<Rightarrow> True
     | Asg TRightShiftAssign \<Rightarrow> True | Sym TEquals \<Rightarrow> True
     | Opr TEqualsTo \<Rightarrow> True | Opr TNotEqualsTo \<Rightarrow> True
     | Opr TLessThan \<Rightarrow> True | Opr TGreaterThan \<Rightarrow> True
     | Opr TBang \<Rightarrow> True
     | Opr TLessThanEqualsTo \<Rightarrow> True | Opr TGreaterThanEqualsTo \<Rightarrow> True
     | Opr TPipe \<Rightarrow> True | Opr TAmpersand \<Rightarrow> True
     | Kwd TIf \<Rightarrow> True
     | Kwd TWhile \<Rightarrow> True | Kwd TUntil \<Rightarrow> True | Opr TIn \<Rightarrow> True
     | Opr TNotIn \<Rightarrow> True | Opr TAnd \<Rightarrow> True
     | Asg TAndAssign \<Rightarrow> True
     | Opr TOr \<Rightarrow> True | Asg TOrAssign \<Rightarrow> True | Opr TXOr \<Rightarrow> True
     | Asg TXOrAssign \<Rightarrow> True | Kwd TReturn \<Rightarrow> True
     | Kwd TThrow \<Rightarrow> True
     | Sym TQuestionBracket \<Rightarrow> \<not> no_index f | TLexError _ \<Rightarrow> True
     | _ \<Rightarrow> False)"

text \<open>\<open>Precedence::new\<close> is \<open>NonZeroU8::new\<close>.\<close>

definition precedence :: "token \<Rightarrow> nat option" where
  "precedence t =
     (let p = (case t of
       Opr TOr \<Rightarrow> 30 | Opr TXOr \<Rightarrow> 30 | Opr TPipe \<Rightarrow> 30
     | Opr TAnd \<Rightarrow> 60 | Opr TAmpersand \<Rightarrow> 60
     | Opr TEqualsTo \<Rightarrow> 90
     | Opr TNotEqualsTo \<Rightarrow> 90 | Opr TIn \<Rightarrow> 110
     | Opr TNotIn \<Rightarrow> 110
     | Opr TLessThan \<Rightarrow> 130 | Opr TLessThanEqualsTo \<Rightarrow> 130
     | Opr TGreaterThan \<Rightarrow> 130 | Opr TGreaterThanEqualsTo \<Rightarrow> 130
     | Sym TDoubleQuestion \<Rightarrow> 135 | Sym TExclusiveRange \<Rightarrow> 140
     | Sym TInclusiveRange \<Rightarrow> 140 | Opr TPlus \<Rightarrow> 150
     | Opr TMinus \<Rightarrow> 150
     | Opr TDivide \<Rightarrow> 180 | Opr TMultiply \<Rightarrow> 180
     | Opr TModulo \<Rightarrow> 180
     | Opr TPowerOf \<Rightarrow> 190 | Opr TLeftShift \<Rightarrow> 210
     | Opr TRightShift \<Rightarrow> 210
     | _ \<Rightarrow> 0)
      in if p = 0 then None else Some p)"

definition is_bind_right :: "token \<Rightarrow> bool" where
  "is_bind_right t = (case t of Opr TPowerOf \<Rightarrow> True | _ \<Rightarrow> False)"

definition is_standard_symbol :: "features \<Rightarrow> token \<Rightarrow> bool" where
  "is_standard_symbol f t = (case t of
       Sym TLeftBrace \<Rightarrow> True | Sym TRightBrace \<Rightarrow> True
     | Sym TLeftParen \<Rightarrow> True | Sym TRightParen \<Rightarrow> True
     | Sym TLeftBracket \<Rightarrow> True | Sym TRightBracket \<Rightarrow> True
     | Opr TPlus \<Rightarrow> True | Opr TUnaryPlus \<Rightarrow> True
     | Opr TMinus \<Rightarrow> True
     | Opr TUnaryMinus \<Rightarrow> True | Opr TMultiply \<Rightarrow> True
     | Opr TDivide \<Rightarrow> True | Opr TModulo \<Rightarrow> True
     | Opr TPowerOf \<Rightarrow> True
     | Opr TLeftShift \<Rightarrow> True | Opr TRightShift \<Rightarrow> True
     | Sym TSemiColon \<Rightarrow> True | Sym TColon \<Rightarrow> True
     | Sym TDoubleColon \<Rightarrow> True | Sym TComma \<Rightarrow> True
     | Sym TPeriod \<Rightarrow> True
     | Sym TDoubleQuestion \<Rightarrow> True | Sym TExclusiveRange \<Rightarrow> True
     | Sym TInclusiveRange \<Rightarrow> True | Sym TMapStart \<Rightarrow> True
     | Sym TEquals \<Rightarrow> True | Opr TLessThan \<Rightarrow> True
     | Opr TGreaterThan \<Rightarrow> True | Opr TLessThanEqualsTo \<Rightarrow> True
     | Opr TGreaterThanEqualsTo \<Rightarrow> True | Opr TEqualsTo \<Rightarrow> True
     | Opr TNotEqualsTo \<Rightarrow> True | Opr TBang \<Rightarrow> True
     | Opr TPipe \<Rightarrow> True
     | Opr TOr \<Rightarrow> True | Opr TXOr \<Rightarrow> True
     | Opr TAmpersand \<Rightarrow> True
     | Opr TAnd \<Rightarrow> True | Asg TPlusAssign \<Rightarrow> True
     | Asg TMinusAssign \<Rightarrow> True | Asg TMultiplyAssign \<Rightarrow> True
     | Asg TDivideAssign \<Rightarrow> True | Asg TLeftShiftAssign \<Rightarrow> True
     | Asg TRightShiftAssign \<Rightarrow> True | Asg TAndAssign \<Rightarrow> True
     | Asg TOrAssign \<Rightarrow> True | Asg TXOrAssign \<Rightarrow> True
     | Asg TModuloAssign \<Rightarrow> True | Asg TPowerOfAssign \<Rightarrow> True
     | Sym TElvis \<Rightarrow> \<not> no_object f
     | Sym TQuestionBracket \<Rightarrow> \<not> no_index f | _ \<Rightarrow> False)"

definition is_standard_keyword :: "features \<Rightarrow> token \<Rightarrow> bool" where
  "is_standard_keyword f t = (case t of
       Kwd TTrue \<Rightarrow> True | Kwd TFalse \<Rightarrow> True | Kwd TLet \<Rightarrow> True
     | Kwd TConst \<Rightarrow> True | Kwd TIf \<Rightarrow> True | Kwd TElse \<Rightarrow> True
     | Kwd TDo \<Rightarrow> True | Kwd TWhile \<Rightarrow> True | Kwd TUntil \<Rightarrow> True
     | Kwd TLoop \<Rightarrow> True | Kwd TFor \<Rightarrow> True | Opr TIn \<Rightarrow> True
     | Kwd TContinue \<Rightarrow> True | Kwd TBreak \<Rightarrow> True
     | Kwd TReturn \<Rightarrow> True
     | Kwd TThrow \<Rightarrow> True | Kwd TTry \<Rightarrow> True | Kwd TCatch \<Rightarrow> True
     | Kwd TFn \<Rightarrow> \<not> no_function f
     | Kwd TPrivate \<Rightarrow> \<not> no_function f
     | Kwd TImport \<Rightarrow> \<not> no_module f | Kwd TExport \<Rightarrow> \<not> no_module f
     | Kwd TAs \<Rightarrow> \<not> no_module f | _ \<Rightarrow> False)"

text \<open>\<open>BinOpKind::of\<close> and \<open>BinOpKind::of_assign\<close> of \<open>src/grain/bytecode/op.rs\<close>.\<close>

definition kind_of :: "token \<Rightarrow> bin_op_kind option" where
  "kind_of t = (case t of
       Opr TPlus \<Rightarrow> Some Add | Opr TMinus \<Rightarrow> Some Subtract
     | Opr TMultiply \<Rightarrow> Some Multiply | Opr TDivide \<Rightarrow> Some Divide
     | Opr TModulo \<Rightarrow> Some Modulo | Opr TPowerOf \<Rightarrow> Some Power
     | Opr TLeftShift \<Rightarrow> Some ShiftLeft | Opr TRightShift \<Rightarrow> Some ShiftRight
     | Opr TAmpersand \<Rightarrow> Some And | Opr TPipe \<Rightarrow> Some Or
     | Opr TXOr \<Rightarrow> Some Xor | Opr TEqualsTo \<Rightarrow> Some Equals
     | Opr TNotEqualsTo \<Rightarrow> Some NotEquals | Opr TGreaterThan \<Rightarrow> Some Greater
     | Opr TGreaterThanEqualsTo \<Rightarrow> Some GreaterEquals
     | Opr TLessThan \<Rightarrow> Some Less
     | Opr TLessThanEqualsTo \<Rightarrow> Some LessEquals | _ \<Rightarrow> None)"

definition kind_of_assign :: "token \<Rightarrow> bin_op_kind option" where
  "kind_of_assign t = (case t of
       Asg TPlusAssign \<Rightarrow> Some Add | Asg TMinusAssign \<Rightarrow> Some Subtract
     | Asg TMultiplyAssign \<Rightarrow> Some Multiply
     | Asg TDivideAssign \<Rightarrow> Some Divide
     | Asg TModuloAssign \<Rightarrow> Some Modulo | Asg TPowerOfAssign \<Rightarrow> Some Power
     | Asg TLeftShiftAssign \<Rightarrow> Some ShiftLeft
     | Asg TRightShiftAssign \<Rightarrow> Some ShiftRight | Asg TAndAssign \<Rightarrow> Some And
     | Asg TOrAssign \<Rightarrow> Some Or | Asg TXOrAssign \<Rightarrow> Some Xor
     | _ \<Rightarrow> None)"

text \<open>\<open>UnOpKind::of\<close>.\<close>

definition un_kind_of :: "token \<Rightarrow> un_op_kind option" where
  "un_kind_of t = (case t of Opr TBang \<Rightarrow> Some Not_op | _ \<Rightarrow> None)"

section \<open>From syntax to symbol\<close>

abbreviation gap :: "string \<times> token" where
  "gap \<equiv> ([], TEOF)"

definition cfg :: "bool \<Rightarrow> string \<Rightarrow> token \<Rightarrow> string \<times> token" where
  "cfg on s t = (if on then (s, t) else gap)"

definition KEYWORD_ASSOC_VALUES :: "nat list" where
  "KEYWORD_ASSOC_VALUES =
     [
      153, 153, 153, 153, 153, 153, 153, 153, 153, 153, 153, 153, 153, 153, 153, 153, 153, 153,
      153, 153, 153, 153, 153, 153, 153, 153, 153, 153, 153, 153, 153, 153, 153, 115, 153, 100,
      153, 110, 105, 40, 80, 2, 20, 25, 125, 95, 15, 40, 153, 153, 153, 153, 153, 153, 153, 153,
      153, 153, 55, 35, 10, 5, 0, 30, 110, 153, 153, 153, 153, 153, 153, 153, 153, 153, 153, 153,
      153, 153, 153, 153, 153, 153, 153, 153, 153, 153, 153, 153, 153, 153, 153, 120, 105, 100,
      85, 90, 153, 125, 5, 0, 125, 35, 10, 100, 153, 20, 0, 153, 10, 0, 45, 55, 0, 153, 50, 55,
      5, 0, 153, 0, 0, 35, 153, 45, 50, 30, 153, 153, 153, 153, 153, 153, 153, 153, 153, 153,
      153, 153, 153, 153, 153, 153, 153, 153, 153, 153, 153, 153, 153, 153, 153, 153, 153, 153,
      153, 153, 153, 153, 153, 153, 153, 153, 153, 153, 153, 153, 153, 153, 153, 153, 153, 153,
      153, 153, 153, 153, 153, 153, 153, 153, 153, 153, 153, 153, 153, 153, 153, 153, 153, 153,
      153, 153, 153, 153, 153, 153, 153, 153, 153, 153, 153, 153, 153, 153, 153, 153, 153, 153,
      153, 153, 153, 153, 153, 153, 153, 153, 153, 153, 153, 153, 153, 153, 153, 153, 153, 153,
      153, 153, 153, 153, 153, 153, 153, 153, 153, 153, 153, 153, 153, 153, 153, 153, 153, 153,
      153, 153, 153, 153, 153, 153, 153, 153, 153, 153, 153, 153, 153]"

definition KEYWORDS_LIST :: "features \<Rightarrow> (string \<times> token) list" where
  "KEYWORDS_LIST f =
     [
      gap, (''>'', Opr TGreaterThan), (''>='', Opr TGreaterThanEqualsTo), ('')'',
      Sym TRightParen), gap,
      (''const'', Kwd TConst), (''='', Sym TEquals), (''=='', Opr TEqualsTo), (''continue'',
      Kwd TContinue), gap,
      (''catch'', Kwd TCatch), (''<'', Opr TLessThan), (''<='', Opr TLessThanEqualsTo),
      (''for'', Kwd TFor),
      (''loop'', Kwd TLoop), gap, (''.'', Sym TPeriod), (''<<'', Opr TLeftShift),
      (''<<='', Asg TLeftShiftAssign), gap, (''false'', Kwd TFalse), (''*'', Opr TMultiply),
      (''*='', Asg TMultiplyAssign), (''let'', Kwd TLet), gap, (''while'', Kwd TWhile), (''+'',
      Opr TPlus),
      (''+='', Asg TPlusAssign), gap, gap, (''throw'', Kwd TThrow), (''}'', Sym TRightBrace),
      (''>>'', Opr TRightShift), (''>>='', Asg TRightShiftAssign), gap, gap, ('';'',
      Sym TSemiColon),
      (''=>'', Sym TDoubleArrow), gap, (''else'', Kwd TElse), gap, (''/'', Opr TDivide),
      (''/='', Asg TDivideAssign), gap, gap, gap, (''{'', Sym TLeftBrace), (''**'', Opr TPowerOf),
      (''**='', Asg TPowerOfAssign), gap, gap, (''|'', Opr TPipe), (''|='', Asg TOrAssign), gap,
      gap, gap,
      ('':'', Sym TColon), (''..'', Sym TExclusiveRange), (''..='', Sym TInclusiveRange), gap,
      (''until'', Kwd TUntil), (''switch'', Kwd TSwitch),
      cfg (\<not> no_function f) ''private'' (Kwd TPrivate), (''try'', Kwd TTry), (''true'',
      Kwd TTrue),
      (''break'', Kwd TBreak), (''return'', Kwd TReturn),
      cfg (\<not> no_function f) ''fn'' (Kwd TFn), gap,
      gap, gap, cfg (\<not> no_module f) ''import'' (Kwd TImport),
      cfg (\<not> no_object f) ''?.'' (Sym TElvis), gap, gap, gap,
      cfg (\<not> no_module f) ''export'' (Kwd TExport), (''in'', Opr TIn), gap, gap, gap,
      (''('', Sym TLeftParen), (''||'', Opr TOr), gap, gap, gap, (''^'', Opr TXOr), (''^='',
      Asg TXOrAssign),
      gap, gap, gap, (''_'', Sym TUnderscore), (''::'', Sym TDoubleColon), gap, gap, gap,
      (''-'', Opr TMinus), (''-='', Asg TMinusAssign), gap, gap, gap, ('']'', Sym TRightBracket),
      (''()'', Sym TUnit), gap, gap, gap, (''&'', Opr TAmpersand), (''&='', Asg TAndAssign),
      gap, gap, gap,
      (''%'', Opr TModulo), (''%='', Asg TModuloAssign), gap, gap, gap, (''!'', Opr TBang),
      (''!='', Opr TNotEqualsTo), (''!in'', Opr TNotIn), gap, gap, (''['', Sym TLeftBracket),
      (''if'', Kwd TIf),
      gap, gap, gap, ('','', Sym TComma), (''do'', Kwd TDo), gap, gap, gap, gap,
      cfg (\<not> no_module f) ''as'' (Kwd TAs), gap, gap, gap, gap,
      cfg (\<not> no_index f) ''?['' (Sym TQuestionBracket), gap, gap, gap, gap,
      (''??'', Sym TDoubleQuestion), gap, gap, gap, gap, (''&&'', Opr TAnd), gap, gap, gap, gap,
      (''#{'', Sym TMapStart)]"

definition keyword_hash :: "string \<Rightarrow> nat" where
  "keyword_hash s =
     length s
     + (if length s = 1 then 0 else KEYWORD_ASSOC_VALUES ! (of_char (s ! 1) + 1))
     + KEYWORD_ASSOC_VALUES ! of_char (s ! 0)"

definition lookup_symbol_from_syntax :: "features \<Rightarrow> string \<Rightarrow> token option" where
  "lookup_symbol_from_syntax f s =
     (if length s < 1 \<or> 8 < length s then None
      else let h = keyword_hash s in
        if h < 1 \<or> 152 < h then None
        else case KEYWORDS_LIST f ! h of (k, t) \<Rightarrow>
          if t = TEOF then None
          else if length k = length s \<and> k ! 0 = s ! 0 \<and> k = s then Some t
          else None)"

section \<open>Reserved words\<close>

abbreviation rgap :: "string \<times> bool \<times> bool \<times> bool" where
  "rgap \<equiv> ([], False, False, False)"

definition RESERVED_ASSOC_VALUES :: "nat list" where
  "RESERVED_ASSOC_VALUES =
     [
      150, 150, 150, 150, 150, 150, 150, 150, 150, 150, 150, 150, 150, 150, 150, 150, 150, 150,
      150, 150, 150, 150, 150, 150, 150, 150, 150, 150, 150, 150, 150, 150, 150, 10, 150, 5, 35,
      150, 150, 150, 45, 35, 30, 30, 150, 20, 15, 150, 150, 150, 150, 150, 150, 150, 150, 150,
      150, 150, 35, 30, 15, 5, 25, 0, 25, 150, 150, 150, 150, 150, 65, 150, 150, 150, 150, 150,
      150, 150, 150, 150, 150, 150, 150, 150, 150, 150, 150, 150, 150, 150, 150, 40, 150, 150,
      150, 150, 150, 0, 150, 0, 0, 0, 15, 45, 10, 15, 150, 150, 35, 25, 10, 50, 0, 150, 5, 0, 15,
      0, 5, 25, 45, 15, 150, 150, 25, 150, 20, 150, 150, 150, 150, 150, 150, 150, 150, 150, 150,
      150, 150, 150, 150, 150, 150, 150, 150, 150, 150, 150, 150, 150, 150, 150, 150, 150, 150,
      150, 150, 150, 150, 150, 150, 150, 150, 150, 150, 150, 150, 150, 150, 150, 150, 150, 150,
      150, 150, 150, 150, 150, 150, 150, 150, 150, 150, 150, 150, 150, 150, 150, 150, 150, 150,
      150, 150, 150, 150, 150, 150, 150, 150, 150, 150, 150, 150, 150, 150, 150, 150, 150, 150,
      150, 150, 150, 150, 150, 150, 150, 150, 150, 150, 150, 150, 150, 150, 150, 150, 150, 150,
      150, 150, 150, 150, 150, 150, 150, 150, 150, 150, 150, 150, 150, 150, 150, 150, 150, 150,
      150, 150, 150, 150, 150, 150, 150, 150, 150, 150, 150]"

definition RESERVED_LIST :: "features \<Rightarrow> (string \<times> bool \<times> bool \<times> bool) list" where
  "RESERVED_LIST f =
     [
      rgap, (''?'', True, False, False), (''as'', no_module f, False, False),
      (''use'', True, False, False), (''case'', True, False, False),
      (''async'', True, False, False), (''public'', True, False, False),
      (''package'', True, False, False), rgap, rgap, (''super'', True, False, False),
      (''#'', True, False, False), (''private'', no_function f, False, False),
      (''var'', True, False, False), (''protected'', True, False, False),
      (''spawn'', True, False, False), (''shared'', True, False, False),
      (''is'', True, False, False), (''==='', True, False, False),
      (''sync'', True, False, False), (''curry'', True, True, True),
      (''static'', True, False, False), (''default'', True, False, False),
      (''!=='', True, False, False), (''is_shared'', \<not> no_closure f, True, True),
      (''print'', True, True, False), rgap, (''#!'', True, False, False), rgap,
      (''this'', True, False, False), (''is_def_var'', True, True, False),
      (''thread'', True, False, False), (''?.'', no_object f, False, False), rgap,
      (''is_def_fn'', \<not> no_function f, True, False), (''yield'', True, False, False), rgap,
      (''fn'', no_function f, False, False), (''new'', True, False, False),
      (''call'', True, True, True), (''match'', True, False, False), (''~'', True, False, False),
      (''!.'', True, False, False), rgap, (''eval'', True, True, False),
      (''await'', True, False, False), rgap, ('':='', True, False, False),
      (''...'', True, False, False), (''null'', True, False, False),
      (''debug'', True, True, False), (''@'', True, False, False),
      (''type_of'', True, True, True), rgap, (''with'', True, False, False), rgap, rgap,
      (''<-'', True, False, False), rgap, (''void'', True, False, False), rgap,
      (''import'', no_module f, False, False), (''--'', True, False, False),
      (''nil'', True, False, False), (''exit'', False, False, False), rgap,
      (''export'', no_module f, False, False), (''<|'', True, False, False), rgap, rgap, rgap,
      (''$'', True, False, False), (''->'', True, False, False), rgap, rgap, rgap, rgap,
      (''|>'', True, False, False), rgap, rgap, rgap, (''module'', True, False, False),
      (''?['', no_index f, False, False), rgap, rgap, rgap, rgap, (''Fn'', True, True, False),
      (''::<'', True, False, False), rgap, rgap, rgap, (''++'', True, False, False), rgap, rgap,
      rgap, rgap, ('':;'', True, False, False), rgap, rgap, rgap, rgap,
      (''*)'', True, False, False), rgap, rgap, rgap, rgap, (''(*'', True, False, False), rgap,
      rgap, rgap, rgap, rgap, rgap, rgap, rgap, rgap, rgap, rgap, rgap, rgap, rgap, rgap, rgap,
      rgap, rgap, rgap, rgap, rgap, rgap, rgap, rgap, rgap, rgap, rgap, rgap, rgap, rgap, rgap,
      rgap, rgap, rgap, rgap, rgap, rgap, rgap, rgap, (''go'', True, False, False), rgap,
      (''goto'', True, False, False)]"

definition reserved_hash :: "string \<Rightarrow> nat" where
  "reserved_hash s =
     length s
     + (if length s = 1 then 0 else RESERVED_ASSOC_VALUES ! of_char (s ! 1))
     + RESERVED_ASSOC_VALUES ! of_char (s ! 0)
     + RESERVED_ASSOC_VALUES ! of_char (s ! (length s - 1))"

definition is_reserved_keyword_or_symbol :: "features \<Rightarrow> string \<Rightarrow> bool \<times> bool \<times> bool" where
  "is_reserved_keyword_or_symbol f s =
     (if length s < 1 \<or> 10 < length s then (False, False, False)
      else let h = reserved_hash s in
        if h < 1 \<or> 149 < h then (False, False, False)
        else case RESERVED_LIST f ! h of (k, on, a, b) \<Rightarrow>
          if k = [] then (False, False, False)
          else if on then
            (let is_reserved = (length k = length s \<and> k ! 0 = s ! 0 \<and> k = s)
             in (is_reserved, is_reserved \<and> a, is_reserved \<and> a \<and> b))
          else (False, False, False))"

section \<open>Identifiers\<close>

text \<open>
  Without the feature \<open>unicode-xid-ident\<close> an identifier is ASCII,
      so its characters are its bytes.
\<close>

definition is_id_first_alphabetic :: "char \<Rightarrow> bool" where
  "is_id_first_alphabetic c \<longleftrightarrow>
     (let n = (of_char c :: nat) in 65 \<le> n \<and> n \<le> 90 \<or> 97 \<le> n \<and> n \<le> 122)"

definition is_id_continue :: "char \<Rightarrow> bool" where
  "is_id_continue c \<longleftrightarrow>
     is_id_first_alphabetic c \<or> (let n = (of_char c :: nat) in 48 \<le> n \<and> n \<le> 57) \<or> c = CHR ''_''"

definition is_valid_identifier :: "string \<Rightarrow> bool" where
  "is_valid_identifier name = (case name of
       [] \<Rightarrow> False
     | c # cs \<Rightarrow> is_id_first_alphabetic c \<and> list_all is_id_continue cs)"

definition is_valid_function_name :: "features \<Rightarrow> string \<Rightarrow> bool" where
  "is_valid_function_name f name \<longleftrightarrow>
     is_valid_identifier name \<and> \<not> fst (is_reserved_keyword_or_symbol f name)
     \<and> lookup_symbol_from_syntax f name = None"

section \<open>The tables are perfect hashes\<close>

text \<open>
  Every entry of a table sits at the hash of its syntax, so a lookup that meets its syntax meets
  the only entry that has it.
\<close>

definition keyword_ok :: "nat \<Rightarrow> string \<times> token \<Rightarrow> bool" where
  "keyword_ok i e = (case e of (s, t) \<Rightarrow>
     s = [] \<and> t = TEOF \<or> s \<noteq> [] \<and> t \<noteq> TEOF \<and> length s \<le> 8 \<and> keyword_hash s = i)"

lemma keyword_ok_gap: "keyword_ok i gap"
  by (simp add: keyword_ok_def)

lemma keyword_ok_cfg: "keyword_ok i (cfg on s t) \<longleftrightarrow> (on \<longrightarrow> keyword_ok i (s, t))"
  by (simp add: cfg_def keyword_ok_gap)

lemma keywords_hashed: "list_all (\<lambda>(i, e). keyword_ok i e) (enumerate 0 (KEYWORDS_LIST f))"
  unfolding KEYWORDS_LIST_def
  by (simp add: keyword_ok_gap keyword_ok_cfg,
    simp add: keyword_ok_def keyword_hash_def, simp add: KEYWORD_ASSOC_VALUES_def)

lemma length_KEYWORDS_LIST: "length (KEYWORDS_LIST f) = 153"
  by (simp add: KEYWORDS_LIST_def)

definition symbol_of :: "features \<Rightarrow> string \<Rightarrow> token \<Rightarrow> bool" where
  "symbol_of f s t \<longleftrightarrow> token_exists f t \<and> literal_syntax t = Some s
     \<and> t \<noteq> Opr TUnaryPlus \<and> t \<noteq> Opr TUnaryMinus"

lemma keywords_denote:
  "list_all (\<lambda>(s, t). t = TEOF \<or> symbol_of f s t) (KEYWORDS_LIST f)"
proof -
  have gap: "case gap of (s, t) \<Rightarrow> t = TEOF \<or> symbol_of f s t" by simp
  have c: "(case cfg on s t of (s, t) \<Rightarrow> t = TEOF \<or> symbol_of f s t) \<longleftrightarrow>
      (on \<longrightarrow> t = TEOF \<or> symbol_of f s t)" for on s t
    by (simp add: cfg_def)
  show ?thesis unfolding KEYWORDS_LIST_def
    by (simp only: list.pred_inject c gap)
      (simp add: symbol_of_def token_exists_def literal_syntax_def)
qed

lemma symbols_listed: "symbol_of f s t \<Longrightarrow> (s, t) \<in> set (KEYWORDS_LIST f)"
  unfolding KEYWORDS_LIST_def symbol_of_def
  apply (cases t)
                apply (simp_all add: literal_syntax_def)
     subgoal for x by (cases x) (auto simp: cfg_def token_exists_def)
    subgoal for x by (cases x) (auto simp: cfg_def token_exists_def)
   subgoal for x by (cases x) (auto simp: cfg_def token_exists_def)
  subgoal for x by (cases x) (auto simp: cfg_def token_exists_def)
  done

lemma lookup_symbol: "lookup_symbol_from_syntax f s = Some t \<longleftrightarrow> symbol_of f s t"
proof
  assume "lookup_symbol_from_syntax f s = Some t"
  then have "keyword_hash s < 153" and "KEYWORDS_LIST f ! keyword_hash s = (s, t)" and "t \<noteq> TEOF"
    by (auto simp: lookup_symbol_from_syntax_def Let_def split: if_splits prod.splits)
  then have "(s, t) \<in> set (KEYWORDS_LIST f)" and "t \<noteq> TEOF"
    by (metis length_KEYWORDS_LIST nth_mem)+
  with keywords_denote [of f] show "symbol_of f s t"
    by (auto simp: list_all_iff)
next
  assume s: "symbol_of f s t"
  from symbols_listed [OF s] obtain i where i: "i < 153" "KEYWORDS_LIST f ! i = (s, t)"
    by (auto simp: in_set_conv_nth length_KEYWORDS_LIST)
  then have "(i, (s, t)) \<in> set (enumerate 0 (KEYWORDS_LIST f))"
    by (auto simp: in_set_enumerate_eq length_KEYWORDS_LIST)
  with keywords_hashed [of f] have "keyword_ok i (s, t)"
    by (auto simp: list_all_iff)
  moreover from s have "t \<noteq> TEOF" by (auto simp: symbol_of_def literal_syntax_def)
  ultimately have "s \<noteq> []" "length s \<le> 8" "keyword_hash s = i" by (auto simp: keyword_ok_def)
  moreover from \<open>s \<noteq> []\<close> \<open>keyword_hash s = i\<close> have "1 \<le> i" by (auto simp: keyword_hash_def Suc_le_eq)
  ultimately show "lookup_symbol_from_syntax f s = Some t"
    using i \<open>t \<noteq> TEOF\<close> by (auto simp: lookup_symbol_from_syntax_def Let_def Suc_le_eq)
qed

definition reserved_ok :: "nat \<Rightarrow> string \<times> bool \<times> bool \<times> bool \<Rightarrow> bool" where
  "reserved_ok i e = (case e of (s, _) \<Rightarrow> s = [] \<or> length s \<le> 10 \<and> reserved_hash s = i)"

lemma reserved_ok_fst:
  "reserved_ok i e \<longleftrightarrow> fst e = [] \<or> length (fst e) \<le> 10 \<and> reserved_hash (fst e) = i"
  by (cases e) (simp add: reserved_ok_def)

lemma reserved_hashed: "list_all (\<lambda>(i, e). reserved_ok i e) (enumerate 0 (RESERVED_LIST f))"
  unfolding RESERVED_LIST_def
  by (simp add: reserved_ok_def reserved_hash_def) (simp add: RESERVED_ASSOC_VALUES_def)

lemma length_RESERVED_LIST: "length (RESERVED_LIST f) = 150"
  by (simp add: RESERVED_LIST_def)

definition every_feature :: features where
  "every_feature = \<lparr>no_float = False, no_index = False, no_object = False, no_function = False,
     no_closure = False, no_module = False, no_custom_syntax = False, decimal = True\<rparr>"

lemma reserved_symbols:
  "list_all (\<lambda>s. s \<in> set (map fst (KEYWORDS_LIST every_feature)) \<longrightarrow> s = [] \<or>
     s \<in> {''as'', ''private'', ''?.'', ''fn'', ''import'', ''export'', ''?[''})
     (map fst (RESERVED_LIST f))"
  unfolding RESERVED_LIST_def KEYWORDS_LIST_def
  by (simp add: cfg_def every_feature_def)


lemma symbol_every_feature: "symbol_of f s t \<Longrightarrow> symbol_of every_feature s t"
  unfolding symbol_of_def token_exists_def every_feature_def
  by (cases t) (auto split: symbol.splits keyword.splits)

definition needs :: "bool \<Rightarrow> bool \<Rightarrow> bool \<Rightarrow> bool \<Rightarrow> string \<Rightarrow> bool" where
  "needs modules functions objects indexing s \<longleftrightarrow>
     (s \<in> {''as'', ''import'', ''export''} \<longrightarrow> modules) \<and>
     (s \<in> {''private'', ''fn''} \<longrightarrow> functions) \<and>
     (s = ''?.'' \<longrightarrow> objects) \<and> (s = ''?['' \<longrightarrow> indexing)"

lemma reserved_not_symbol:
  assumes "(s, on, r) \<in> set (RESERVED_LIST f)" and "on" and "symbol_of f s t"
  shows False
proof -
  from assms(3) have "s \<in> set (map fst (KEYWORDS_LIST every_feature))" "s \<noteq> []"
    using symbols_listed [OF symbol_every_feature] keywords_hashed [of f] lookup_symbol [of f s t]
    by (force simp: image_iff lookup_symbol_from_syntax_def split: if_splits)+
  moreover from assms(1) have "s \<in> set (map fst (RESERVED_LIST f))" by force
  ultimately have s: "s \<in> {''as'', ''private'', ''?.'', ''fn'', ''import'', ''export'', ''?[''}"
    using reserved_symbols [of f, unfolded list_all_iff, THEN bspec, of s] by satx
  have "list_all (\<lambda>(s, on, _). on \<longrightarrow> needs (no_module f) (no_function f) (no_object f) (no_index f) s)
      (RESERVED_LIST f)"
    unfolding RESERVED_LIST_def needs_def by simp
  with assms(1,2) have "needs (no_module f) (no_function f) (no_object f) (no_index f) s"
    by (auto simp only: list_all_iff)
  moreover have "list_all (\<lambda>(s, t). symbol_of f s t \<longrightarrow>
      needs (\<not> no_module f) (\<not> no_function f) (\<not> no_object f) (\<not> no_index f) s) (KEYWORDS_LIST f)"
    unfolding KEYWORDS_LIST_def cfg_def needs_def by simp
  with assms(3) symbols_listed [OF assms(3)]
  have "needs (\<not> no_module f) (\<not> no_function f) (\<not> no_object f) (\<not> no_index f) s"
    by (auto simp only: list_all_iff)
  ultimately show False using s by (auto simp: needs_def)
qed

lemma reserved_unique:
  assumes "i < 150" and "fst (RESERVED_LIST f ! i) = s" and "s \<noteq> []"
  shows "i = reserved_hash s" and "length s \<le> 10" and "1 \<le> i"
proof -
  have "(i, RESERVED_LIST f ! i) \<in> set (enumerate 0 (RESERVED_LIST f))"
    using assms(1) by (auto simp: in_set_enumerate_eq length_RESERVED_LIST)
  with reserved_hashed [of f] assms(2,3) have "reserved_hash s = i \<and> length s \<le> 10"
    by (force simp: list_all_iff reserved_ok_fst)
  with assms(3) show "i = reserved_hash s" "length s \<le> 10" "1 \<le> i"
    by (auto simp: reserved_hash_def Suc_le_eq)
qed

lemma reserved_linear:
  "is_reserved_keyword_or_symbol f s =
     (case find (\<lambda>(k, on, _). s \<noteq> [] \<and> k = s \<and> on) (RESERVED_LIST f) of
       None \<Rightarrow> (False, False, False)
     | Some (_, _, a, b) \<Rightarrow> (True, a, a \<and> b))" (is "?l = (case find ?P ?R of None \<Rightarrow> _ | Some _ \<Rightarrow> _)")
proof (cases "find ?P ?R")
  case None
  then have "\<not> ?P e" if "e \<in> set ?R" for e using that by (auto simp: find_None_iff)
  then have "\<not> ?P (?R ! i)" if "i < 150" for i using that by (simp add: length_RESERVED_LIST)
  from this [of "reserved_hash s"] None show ?thesis
    by (auto simp: is_reserved_keyword_or_symbol_def Let_def split: prod.splits)
next
  case (Some e)
  then obtain i where i: "i < 150" "?P (?R ! i)" "e = ?R ! i"
    by (auto simp: find_Some_iff length_RESERVED_LIST)
  then have s: "fst (?R ! i) = s" "s \<noteq> []" by (auto split: prod.splits)
  from reserved_unique [OF i(1) s] i have "?R ! reserved_hash s = e" "length s \<le> 10"
    "1 \<le> reserved_hash s" "reserved_hash s < 150" by simp_all
  with i s Some show ?thesis
    by (auto simp: is_reserved_keyword_or_symbol_def Let_def Suc_le_eq split: prod.splits)
qed

section \<open>Properties\<close>

text \<open>
  C40. The hashed lookup of a symbol is exactly the inverse of \<open>literal_syntax\<close> on the tokens the
  build has, except that the unary signs, which share their syntax with the binary ones, are
  never answered.
\<close>

theorem symbol_lookup:
  "lookup_symbol_from_syntax f s = Some t \<longleftrightarrow>
     token_exists f t \<and> literal_syntax t = Some s \<and> t \<noteq> Opr TUnaryPlus \<and> t \<noteq> Opr TUnaryMinus"
  by (simp only: lookup_symbol symbol_of_def)

text \<open>
  The hashed test for reserved words answers what a scan of the reserved list answers, and
  under every set of features no reserved word is also a symbol of the language.
\<close>

theorem reserved_words:
  "is_reserved_keyword_or_symbol f s =
     (case find (\<lambda>(k, on, _). s \<noteq> [] \<and> k = s \<and> on) (RESERVED_LIST f) of
       None \<Rightarrow> (False, False, False)
     | Some (_, _, a, b) \<Rightarrow> (True, a, a \<and> b))
   \<and> \<not> (fst (is_reserved_keyword_or_symbol f s) \<and> lookup_symbol_from_syntax f s \<noteq> None)"
proof -
  have False if "fst (is_reserved_keyword_or_symbol f s)" and "lookup_symbol_from_syntax f s = Some t" for t
  proof -
    from that(1) obtain r where "(s, True, r) \<in> set (RESERVED_LIST f)"
      by (force simp: reserved_linear find_Some_iff in_set_conv_nth split: option.splits)
    from reserved_not_symbol [OF this] that(2) show False by (simp add: lookup_symbol)
  qed
  then show ?thesis using reserved_linear [of f s] by (metis not_Some_eq)
qed

end
