(* ===== verification/Names.thy ===== *)
theory Names
  imports Prelude
begin

text \<open>
  UTF-8 as the standard library reads it, and the name table of a program
  (\<open>src/grain/bytecode/strings.rs\<close>): one blob of text and the starts of the names in it. Text is
  its bytes; whether the blob is owned or borrowed is not modelled.
\<close>

section \<open>UTF-8\<close>

definition continuation :: "u8 \<Rightarrow> bool" where
  "continuation b \<longleftrightarrow> 0x80 \<le> b \<and> b \<le> 0xbf"

text \<open>
  What a leading byte announces: the width of its scalar value and the range of the second byte
  (narrowed so that there is no overlong form, no surrogate and nothing past U+10FFFF).
\<close>

definition scalar_lead :: "u8 \<Rightarrow> (nat \<times> u8 \<times> u8) option" where
  "scalar_lead b =
     (if b < 0x80 then Some (1, 0x80, 0xbf)
      else if b < 0xc2 then None
      else if b < 0xe0 then Some (2, 0x80, 0xbf)
      else if b = 0xe0 then Some (3, 0xa0, 0xbf)
      else if b = 0xed then Some (3, 0x80, 0x9f)
      else if b < 0xf0 then Some (3, 0x80, 0xbf)
      else if b = 0xf0 then Some (4, 0x90, 0xbf)
      else if b < 0xf4 then Some (4, 0x80, 0xbf)
      else if b = 0xf4 then Some (4, 0x80, 0x8f)
      else None)"

text \<open>The width of the scalar value at the head of a byte string, if there is one.\<close>

definition scalar_width :: "u8 list \<Rightarrow> nat option" where
  "scalar_width bytes = (case bytes of
       [] \<Rightarrow> None
     | b # rest \<Rightarrow> (case scalar_lead b of
         None \<Rightarrow> None
       | Some (n, lo, hi) \<Rightarrow>
           if n \<le> length bytes \<and> (1 < n \<longrightarrow> lo \<le> rest ! 0 \<and> rest ! 0 \<le> hi)
             \<and> list_all continuation (take (n - 1) rest)
           then Some n else None))"

lemma scalar_lead_width: "scalar_lead b = Some (n, lo, hi) \<Longrightarrow> 0 < n \<and> \<not> continuation b"
  by (auto simp: scalar_lead_def continuation_def word_le_nat_alt word_less_nat_alt
      split: if_splits)

lemma scalar_width_bounds: "scalar_width bytes = Some n \<Longrightarrow> 0 < n \<and> n \<le> length bytes"
  by (auto simp: scalar_width_def dest: scalar_lead_width
      split: list.splits option.splits prod.splits if_splits)

text \<open>\<open>Utf8Error::valid_up_to\<close>: the length of the longest valid prefix.\<close>

function valid_up_to :: "u8 list \<Rightarrow> nat" where
  "valid_up_to bytes = (case scalar_width bytes of
       None \<Rightarrow> 0
     | Some n \<Rightarrow> n + valid_up_to (drop n bytes))"
  by pat_completeness auto
termination
  by (relation "measure length") (auto dest: scalar_width_bounds)

declare valid_up_to.simps [simp del]

definition utf8 :: "u8 list \<Rightarrow> bool" where
  "utf8 bytes \<longleftrightarrow> valid_up_to bytes = length bytes"

definition from_utf8 :: "u8 list \<Rightarrow> nat + u8 list" where
  "from_utf8 bytes = (if utf8 bytes then Ok bytes else Err (valid_up_to bytes))"

text \<open>\<open>str::is_char_boundary\<close>.\<close>

definition is_char_boundary :: "u8 list \<Rightarrow> nat \<Rightarrow> bool" where
  "is_char_boundary str i \<longleftrightarrow>
     i = 0 \<or> i = length str \<or> i < length str \<and> \<not> continuation (str ! i)"

text \<open>\<open>str::get(from..to)\<close>.\<close>

definition text_slice :: "u8 list \<Rightarrow> nat \<Rightarrow> nat \<Rightarrow> u8 list option" where
  "text_slice str i j =
     (if i \<le> j \<and> j \<le> length str \<and> is_char_boundary str i \<and> is_char_boundary str j
      then Some (take (j - i) (drop i str)) else None)"

section \<open>The name table\<close>

record strings =
  blob :: "u8 list"
  starts :: "u32 list"

datatype bad_table =
    NoTerminator | SpanOutOfRange nat nat | NotUtf8 nat | BlobTrailingBytes

text \<open>The loop of \<open>new\<close>: the start after each name is the length so far, cut to 32 bits.\<close>

fun starts_after :: "nat \<Rightarrow> u8 list list \<Rightarrow> u32 list" where
  "starts_after n [] = []"
| "starts_after n (name # names) =
     of_nat (n + length name) # starts_after (n + length name) names"

definition new_strings :: "u8 list list \<Rightarrow> strings" where
  "new_strings names = \<lparr>blob = concat names, starts = 0 # starts_after 0 names\<rparr>"

fun check_spans :: "u8 list \<Rightarrow> u32 list \<Rightarrow> bad_table + unit" where
  "check_spans str (i # j # rest) =
     (if unat j < unat i \<or> length str < unat j then Err (SpanOutOfRange (unat i) (unat j))
      else if \<not> is_char_boundary str (unat i) \<or> \<not> is_char_boundary str (unat j)
      then Err (NotUtf8 (unat i))
      else check_spans str (j # rest))"
| "check_spans str ss = Ok ()"

definition borrowed :: "u8 list \<Rightarrow> u32 list \<Rightarrow> bad_table + strings" where
  "borrowed bytes ss =
     (if ss = [] then Err NoTerminator
      else if hd ss \<noteq> 0 then Err NoTerminator
      else
      rbind (map_err NotUtf8 (from_utf8 bytes)) (\<lambda>str.
      rbind (check_spans str ss) (\<lambda>_.
        if unat (last ss) \<noteq> length str then Err BlobTrailingBytes
        else Ok \<lparr>blob = str, starts = ss\<rparr>)))"

definition strings_len :: "strings \<Rightarrow> nat" where
  "strings_len t = length (starts t) - 1"

definition strings_get :: "strings \<Rightarrow> u32 \<Rightarrow> u8 list option" where
  "strings_get t i =
     Option.bind (get_at (starts t) (unat i)) (\<lambda>from.
     Option.bind (get_at (starts t) (unat i + 1)) (\<lambda>to.
       text_slice (blob t) (unat from) (unat to)))"

definition strings_iter :: "strings \<Rightarrow> u8 list list" where
  "strings_iter t = List.map_filter (strings_get t) (map of_nat [0..<strings_len t])"

section \<open>Cutting text at its boundaries\<close>

lemma utf8_Nil [simp]: "utf8 []"
  by (simp add: utf8_def valid_up_to.simps scalar_width_def)

lemma valid_up_to_le: "valid_up_to bytes \<le> length bytes"
proof (induction bytes rule: valid_up_to.induct)
  case (1 bytes)
  show ?case
  proof (cases "scalar_width bytes")
    case (Some n)
    with "1.IH" [OF Some] scalar_width_bounds [OF Some] show ?thesis
      by (simp add: valid_up_to.simps [of bytes] le_diff_conv2)
  qed (simp add: valid_up_to.simps)
qed

lemma utf8_scalar:
  assumes "bytes \<noteq> []"
  shows "utf8 bytes \<longleftrightarrow> (\<exists>n. scalar_width bytes = Some n \<and> utf8 (drop n bytes))"
proof (cases "scalar_width bytes")
  case None
  with assms show ?thesis by (simp add: utf8_def valid_up_to.simps [of bytes])
next
  case (Some n)
  then show ?thesis
    using scalar_width_bounds [OF Some] by (auto simp: utf8_def valid_up_to.simps [of bytes])
qed

lemma scalar_width_take:
  "scalar_width bytes = Some n \<Longrightarrow> n \<le> m \<Longrightarrow> scalar_width (take m bytes) = Some n"
  by (auto simp: scalar_width_def take_Cons take_take min_def dest: scalar_lead_width
      split: list.splits if_splits nat.splits option.splits)

lemma scalar_width_append: "scalar_width a = Some n \<Longrightarrow> scalar_width (a @ b) = Some n"
  by (auto simp: scalar_width_def nth_append split: list.splits if_splits option.splits)

lemma scalar_tail:
  "scalar_width bytes = Some n \<Longrightarrow> 0 < i \<Longrightarrow> i < n \<Longrightarrow> continuation (bytes ! i)"
  by (auto simp: scalar_width_def list_all_length nth_Cons
      split: list.splits if_splits nat.splits option.splits)

lemma scalar_head: "scalar_width bytes = Some n \<Longrightarrow> \<not> continuation (bytes ! 0)"
  by (auto simp: scalar_width_def dest: scalar_lead_width split: list.splits if_splits option.splits)

lemma utf8_append: "utf8 a \<Longrightarrow> utf8 b \<Longrightarrow> utf8 (a @ b)"
proof (induction a rule: valid_up_to.induct)
  case (1 a)
  show ?case
  proof (cases "a = []")
    case True
    with "1.prems" show ?thesis by simp
  next
    case False
    with "1.prems"(1) obtain n where n: "scalar_width a = Some n" "utf8 (drop n a)"
      by (auto simp: utf8_scalar)
    from "1.IH" [OF this "1.prems"(2)] n False scalar_width_bounds [OF n(1)]
    show ?thesis by (auto simp: utf8_scalar intro: exI [of _ n] dest: scalar_width_append)
  qed
qed

lemma utf8_split:
  "utf8 str \<Longrightarrow> is_char_boundary str i \<Longrightarrow> utf8 (take i str) \<and> utf8 (drop i str)"
proof (induction str arbitrary: i rule: valid_up_to.induct)
  case (1 str)
  show ?case
  proof (cases "i = 0 \<or> length str \<le> i")
    case True
    with "1.prems" show ?thesis by auto
  next
    case False
    then have "str \<noteq> []" by auto
    with "1.prems"(1) obtain n where n: "scalar_width str = Some n" "utf8 (drop n str)"
      by (auto simp: utf8_scalar)
    from False "1.prems"(2) have "\<not> continuation (str ! i)"
      by (auto simp: is_char_boundary_def)
    with scalar_tail [OF n(1), of i] False have "n \<le> i" by linarith
    with False "1.prems"(2) have "is_char_boundary (drop n str) (i - n)"
      by (auto simp: is_char_boundary_def)
    from "1.IH" [OF n this] \<open>n \<le> i\<close>
    have "utf8 (drop n (take i str))" "utf8 (drop i str)" by (simp_all add: drop_take)
    moreover from \<open>str \<noteq> []\<close> False have "take i str \<noteq> []" by auto
    ultimately show ?thesis
      using scalar_width_take [OF n(1) \<open>n \<le> i\<close>] by (auto simp: utf8_scalar)
  qed
qed

lemma boundary_between: "utf8 b \<Longrightarrow> is_char_boundary (a @ b) (length a)"
  by (cases b) (auto simp: is_char_boundary_def utf8_scalar nth_append dest: scalar_head)

lemma utf8_slice: "utf8 str \<Longrightarrow> text_slice str i j = Some s \<Longrightarrow> utf8 s"
proof -
  assume utf8: "utf8 str" and s: "text_slice str i j = Some s"
  then have ij: "i \<le> j" "j \<le> length str" and i: "is_char_boundary str i"
    and j: "is_char_boundary str j" and s: "s = take (j - i) (drop i str)"
    by (auto simp: text_slice_def split: if_splits)
  from utf8_split [OF utf8 i] have "utf8 (drop i str)" ..
  moreover have "is_char_boundary (drop i str) (j - i)"
    using ij j by (auto simp: is_char_boundary_def)
  ultimately show "utf8 s" using utf8_split s by blast
qed

section \<open>Tables and lists of names\<close>

lemma unat_of_nat32: "n < 2 ^ 32 \<Longrightarrow> unat (of_nat n :: u32) = n"
  by (simp add: unsigned_of_nat take_bit_nat_eq_self)

lemma unat_of_nat_add32: "m + n < 2 ^ 32 \<Longrightarrow> unat (of_nat m + of_nat n :: u32) = m + n"
  using unat_of_nat32 [of "m + n"] by simp

lemmas unat_small = unat_of_nat32 unat_of_nat_add32

lemma length_starts_after [simp]: "length (starts_after n names) = length names"
  by (induction names arbitrary: n) simp_all

lemma starts_after_nth:
  "i < length names \<Longrightarrow>
   starts_after n names ! i = of_nat (n + length (concat (take (Suc i) names)))"
proof (induction names arbitrary: n i)
  case (Cons name names)
  then show ?case by (cases i) (simp_all add: add.assoc)
qed simp

lemma utf8_concat: "list_all utf8 names \<Longrightarrow> utf8 (concat names)"
  by (induction names) (simp_all add: utf8_append)

lemma check_spans_starts:
  "list_all utf8 names \<Longrightarrow> length (pre @ concat names) < 2 ^ 32 \<Longrightarrow> utf8 pre \<Longrightarrow>
   check_spans (pre @ concat names) (of_nat (length pre) # starts_after (length pre) names) = Ok ()"
proof (induction names arbitrary: pre)
  case (Cons name names)
  let ?str = "pre @ name @ concat names"
  from Cons.prems have u: "unat (of_nat (length pre) :: u32) = length pre"
    "unat (of_nat (length pre + length name) :: u32) = length pre + length name"
    by (simp_all add: unat_small)
  have b: "is_char_boundary ?str (length pre)" "is_char_boundary ?str (length pre + length name)"
    using boundary_between [of "name @ concat names" pre]
      boundary_between [of "concat names" "pre @ name"] Cons.prems
    by (simp_all add: utf8_append utf8_concat)
  from Cons.IH [of "pre @ name"] Cons.prems
  have "check_spans ?str (of_nat (length pre + length name) #
      starts_after (length pre + length name) names) = Ok ()"
    by (simp add: utf8_append)
  with u b Cons.prems(2) show ?case by simp
qed simp

lemma last_starts: "unat (last (0 # starts_after 0 names)) = length (concat names)"
  if "length (concat names) < 2 ^ 32"
proof (cases names rule: rev_cases)
  case (snoc ns name)
  then have "last (starts_after 0 names) = starts_after 0 names ! length ns"
    by (simp add: last_conv_nth flip: length_greater_0_conv)
  moreover from snoc have "starts_after 0 names \<noteq> []" 
    by (metis length_starts_after length_0_conv snoc_eq_iff_butlast)
  ultimately show ?thesis using snoc that by (simp add: starts_after_nth unat_small)
qed simp

lemma borrowed_new:
  "list_all utf8 names \<Longrightarrow> length (concat names) < 2 ^ 32 \<Longrightarrow>
   borrowed (concat names) (0 # starts_after 0 names) = Ok (new_strings names)"
  using check_spans_starts [of names "[]"] last_starts [of names]
  by (simp add: borrowed_def from_utf8_def utf8_concat new_strings_def)

lemma check_spans_names:
  "check_spans str (i # rest) = Ok () \<Longrightarrow> utf8 str \<Longrightarrow>
   \<exists>names. list_all utf8 names \<and> rest = starts_after (unat i) names \<and>
     drop (unat i) str = concat names @ drop (unat (last (i # rest))) str"
proof (induction rest arbitrary: i)
  case (Cons j rest)
  let ?name = "take (unat j - unat i) (drop (unat i) str)"
  from Cons.prems(1) have ij: "unat i \<le> unat j" "unat j \<le> length str"
    and b: "is_char_boundary str (unat i)" "is_char_boundary str (unat j)"
    and rest: "check_spans str (j # rest) = Ok ()"
    by (auto split: if_splits)
  then have "text_slice str (unat i) (unat j) = Some ?name" by (simp add: text_slice_def)
  with Cons.prems(2) have name: "utf8 ?name" by (rule utf8_slice)
  from Cons.IH [OF rest Cons.prems(2)] obtain names where
    names: "list_all utf8 names" "rest = starts_after (unat j) names"
    "drop (unat j) str = concat names @ drop (unat (last (j # rest))) str" by blast
  have "unat i + length ?name = unat j" using ij by simp
  with names(2) have "j # rest = starts_after (unat i) (?name # names)" by simp
  moreover have "drop (unat i) str = ?name @ drop (unat j) str"
    using ij by (metis append_take_drop_id drop_drop le_add_diff_inverse2)
  ultimately show ?case using names(1,3) name
    by (intro exI [of _ "?name # names"]) simp
qed (auto intro: exI [of _ "[]"])

lemma borrowed_names:
  assumes "borrowed bytes ss = Ok t"
  shows "\<exists>names. list_all utf8 names \<and> length (concat names) < 2 ^ 32 \<and> bytes = concat names \<and>
    ss = 0 # starts_after 0 names \<and> t = new_strings names"
proof -
  from assms obtain rest where ss: "ss = 0 # rest" and utf8: "utf8 bytes"
    and spans: "check_spans bytes ss = Ok ()" and last: "unat (last ss) = length bytes"
    and t: "t = \<lparr>blob = bytes, starts = ss\<rparr>"
    by (cases ss) (auto simp: borrowed_def from_utf8_def rbind_eq_Ok split: if_splits)
  from check_spans_names [OF spans [unfolded ss] utf8] obtain names where
    names: "list_all utf8 names" "rest = starts_after 0 names" "bytes = concat names"
    using last ss by auto
  have "length bytes < 2 ^ LENGTH(32)" using last unsigned_less [of "last ss"] by metis
  with names ss t show ?thesis by (auto simp: new_strings_def)
qed

lemma strings_get_new:
  assumes "list_all utf8 names" and "length (concat names) < 2 ^ 32"
  shows "strings_get (new_strings names) i = get_at names (unat i)"
proof (cases "unat i < length names")
  case True
  let ?k = "unat i"
  let ?start = "\<lambda>k. length (concat (take k names))"
  have names: "names = take ?k names @ names ! ?k # drop (Suc ?k) names"
    using True by (rule id_take_nth_drop)
  then have c: "concat names = concat (take ?k names) @ names ! ?k @ concat (drop (Suc ?k) names)"
    by (metis concat.simps(2) concat_append)
  have utf8: "utf8 (names ! ?k)" "utf8 (concat (drop (Suc ?k) names))"
    using assms(1) True by (auto simp: list_all_iff intro!: utf8_concat) (meson in_set_dropD)
  have n: "?start (Suc ?k) = ?start ?k + length (names ! ?k)"
    using True by (simp add: take_Suc_conv_app_nth)
  have le: "?start ?k + length (names ! ?k) \<le> length (concat names)" by (subst c) simp
  have start: "get_at (starts (new_strings names)) k = Some (of_nat (?start k))" if "k \<le> length names" for k
    using that by (cases k) (auto simp: new_strings_def get_at_def starts_after_nth)
  have b: "is_char_boundary (concat names) (?start ?k)"
    "is_char_boundary (concat names) (?start ?k + length (names ! ?k))"
    using boundary_between [of "names ! ?k @ concat (drop (Suc ?k) names)" "concat (take ?k names)"]
      boundary_between [of "concat (drop (Suc ?k) names)" "concat (take ?k names) @ names ! ?k"]
      utf8 c by (simp_all add: utf8_append)
  have "take (length (names ! ?k)) (drop (?start ?k) (concat names)) = names ! ?k"
    by (subst c) simp
  with b le assms(2) True start [of ?k] start [of "Suc ?k"] show ?thesis
    by (simp add: strings_get_def n unat_small text_slice_def get_at_def new_strings_def)
next
  case False
  then show ?thesis
    by (auto simp: strings_get_def get_at_def new_strings_def Option.bind_eq_None_conv)
qed

text \<open>
  The name table a reader admits is the table \<open>Strings::new\<close> builds from some list of names,
  each of them UTF-8, and index \<open>i\<close> reads the \<open>i\<close>-th of them: a table that was accepted never
  answers a name that is not text and never fails to answer one it has.
\<close>

theorem borrowed_is_new:
  "borrowed bytes ss = Ok t \<longleftrightarrow>
     (\<exists>names. list_all utf8 names \<and> length (concat names) < 2 ^ 32 \<and>
       bytes = blob (new_strings names) \<and> ss = starts (new_strings names) \<and>
       t = new_strings names \<and> (\<forall>i. strings_get t i = get_at names (unat i)))"
proof
  assume "borrowed bytes ss = Ok t"
  from borrowed_names [OF this] strings_get_new show "\<exists>names. list_all utf8 names \<and>
      length (concat names) < 2 ^ 32 \<and> bytes = blob (new_strings names) \<and>
      ss = starts (new_strings names) \<and> t = new_strings names \<and>
      (\<forall>i. strings_get t i = get_at names (unat i))"
    by (auto simp: new_strings_def)
qed (auto simp: new_strings_def borrowed_new)

end
