(* ===== verification/Positions.thy ===== *)
theory Positions
  imports Verify Pos_Table
begin

text \<open>
  The diagnostics of a program in memory and on the wire. \<open>src/grain/bytecode/positions.rs\<close>: a
  position for every code byte, or nothing, expanded from the table of \<open>Pos_Table\<close> by a walk over
  the instructions. \<open>src/grain/bytecode/sites.rs\<close>: the stream of the positions that chains carry.
\<close>

section \<open>Positions of instructions\<close>

datatype positions = Stripped | Dense "position list"

definition dense :: "position list \<Rightarrow> positions" where
  "dense ps = (if list_all is_none ps then Stripped else Dense ps)"

definition positions_get :: "positions \<Rightarrow> nat \<Rightarrow> position" where
  "positions_get p pc = (case p of
       Stripped \<Rightarrow> NONE
     | Dense ps \<Rightarrow> (case get_at ps pc of None \<Rightarrow> NONE | Some pos \<Rightarrow> pos))"

definition is_stripped :: "positions \<Rightarrow> bool" where
  "is_stripped p = (case p of Stripped \<Rightarrow> True | Dense _ \<Rightarrow> False)"

definition unwrap_or_0 :: "nat option \<Rightarrow> nat" where
  "unwrap_or_0 n = (case n of None \<Rightarrow> 0 | Some n \<Rightarrow> n)"

text \<open>What \<open>to_table\<close> hands the encoder; \<open>None\<close> of \<open>to_table\<close> is the encoder's panic.\<close>

definition table_sites :: "position list \<Rightarrow> (u32 \<times> site) list" where
  "table_sites ps = List.map_filter
     (\<lambda>(pc, pos). map_option
        (\<lambda>ln. (of_nat pc, \<lparr>line = of_nat ln, column = of_nat (unwrap_or_0 (get_position pos))\<rparr>))
        (get_line pos))
     (enumerate 0 ps)"

definition to_table :: "positions \<Rightarrow> u8 list option" where
  "to_table p = (case p of Stripped \<Rightarrow> encode [] | Dense ps \<Rightarrow> encode (table_sites ps))"

datatype stream_error = StreamTruncated | StreamOverflow | StreamTrailingBytes nat

datatype table_error =
    Malformed pos_error | PastTheEnd nat nat nat | WrongProgram "128 word" "128 word"
  | ChainStream stream_error | ChainCount nat nat

definition site_to_position :: "site \<Rightarrow> position" where
  "site_to_position s =
     (if unat (line s) < 2 ^ 16 \<and> unat (column s) < 2 ^ 16 then
        (if line s = 0 then NONE else \<lparr>pline = ucast (line s), ppos = ucast (column s)\<rparr>)
      else NONE)"

text \<open>The walk of \<open>from_table\<close>, with the positions found and how many there were.\<close>

function walk_sites ::
  "u8 list \<Rightarrow> u8 list \<Rightarrow> nat \<Rightarrow> position list \<Rightarrow> nat \<Rightarrow> position list \<times> nat" where
  "walk_sites table code at ps matched =
     (if at < length code then
        let (ps, matched) = (case resolve table (of_nat at) of
            Some s \<Rightarrow> (ps[at := site_to_position s], matched + 1)
          | None \<Rightarrow> (ps, matched))
        in (case width code at of
            Some w \<Rightarrow> walk_sites table code (at + w) ps matched
          | None \<Rightarrow> (ps, matched))
      else (ps, matched))"
  by pat_completeness auto
termination
  by (relation "measure (\<lambda>(table, code, at, ps, matched). length code - at)")
    (auto dest: width_bounds)

declare walk_sites.simps [simp del]

definition from_table :: "u8 list \<Rightarrow> u8 list \<Rightarrow> table_error + positions" where
  "from_table table code =
     rbind (map_err Malformed (check table)) (\<lambda>_.
     rbind (map_err Malformed (count_entries table)) (\<lambda>count.
       if count = 0 then Ok Stripped
       else let (ps, matched) = walk_sites table code 0 (replicate (length code) NONE) 0 in
         if matched \<noteq> unat count then Err (PastTheEnd (unat count) matched (length code))
         else Ok (dense ps)))"

section \<open>Positions of chains\<close>

text \<open>\<open>n.and_then(|n| u32::try_from(n).ok()).unwrap_or(0)\<close>; a line or a column is 16 bits wide.\<close>

definition try_u32_or_0 :: "nat option \<Rightarrow> u32" where
  "try_u32_or_0 n = (case n of None \<Rightarrow> 0 | Some n \<Rightarrow> if n < 2 ^ 32 then of_nat n else 0)"

definition pos_site :: "position \<Rightarrow> site" where
  "pos_site pos =
     \<lparr>line = try_u32_or_0 (get_line pos), column = try_u32_or_0 (get_position pos)\<rparr>"

definition put_site :: "site \<Rightarrow> u8 list" where
  "put_site s = put_u64 (ucast (line s)) @ put_u64 (ucast (column s))"

definition sites_encode :: "chain list \<Rightarrow> u8 list" where
  "sites_encode cs =
     (let sites = map pos_site (concat (map positions cs)) in
      put_u64 (of_nat (length sites)) @ concat (map put_site sites))"

fun from_stream :: "varint_error \<Rightarrow> stream_error" where
  "from_stream Truncated = StreamTruncated"
| "from_stream Overflow = StreamOverflow"

text \<open>One slot of the stream, as \<open>resolve\<close> and \<open>decode\<close> read it.\<close>

definition get_site :: "u8 list \<Rightarrow> nat \<Rightarrow> varint_error + site \<times> nat" where
  "get_site stream at =
     rbind (get_u32 stream at) (\<lambda>(ln, at).
     rbind (get_u32 stream at) (\<lambda>(col, at). Ok (\<lparr>line = ln, column = col\<rparr>, at)))"

definition line_known :: "site \<Rightarrow> site option" where
  "line_known s = (if line s \<noteq> 0 then Some s else None)"

fun skip_sites :: "nat \<Rightarrow> u8 list \<Rightarrow> nat \<Rightarrow> nat option" where
  "skip_sites 0 stream at = Some at"
| "skip_sites (Suc n) stream at =
     Option.bind (ok (get_u32 stream at)) (\<lambda>(_, at).
     Option.bind (ok (get_u32 stream at)) (\<lambda>(_, at). skip_sites n stream at))"

definition sites_resolve :: "u8 list \<Rightarrow> u32 \<Rightarrow> site option" where
  "sites_resolve stream slot =
     Option.bind (ok (get_u32 stream 0)) (\<lambda>(count, at).
       if count \<le> slot then None
       else
       Option.bind (skip_sites (unat slot) stream at) (\<lambda>at.
       Option.bind (ok (get_site stream at)) (\<lambda>(s, _). line_known s)))"

definition sites_decode :: "u8 list \<Rightarrow> stream_error + site option list" where
  "sites_decode stream =
     rbind (map_err from_stream (get_u32 stream 0)) (\<lambda>(count, at).
     rbind (map_err from_stream (repeat_get (unat count) get_site stream at)) (\<lambda>(sites, at).
       if at \<noteq> length stream then Err (StreamTrailingBytes (length stream - at))
       else Ok (map line_known sites)))"

definition sites_check :: "u8 list \<Rightarrow> stream_error + unit" where
  "sites_check stream = rbind (sites_decode stream) (\<lambda>_. Ok ())"

section \<open>The site stream\<close>

interpretation sitec: codec put_site get_site "\<lambda>_. True"
proof
  fix s pre post
  have "put_site s = put_u64 (ucast (line s)) @ put_u64 (ucast (column s))"
    by (simp add: put_site_def)
  then show "get_site (pre @ put_site s @ post) (length pre) = Ok (s, length pre + length (put_site s))"
    using get_put_u32 [of pre "line s" "put_u64 (ucast (column s)) @ post"]
      get_put_u32 [of "pre @ put_u64 (ucast (line s))" "column s" post]
    by (simp add: get_site_def)
qed

interpretation siter: bounded_reader get_site
  by unfold_locales (auto simp: get_site_def rbind_eq_Ok dest!: get_u32_bounds)

lemma skip_sites_get:
  "repeat_get n get_site stream at = Ok (sites, at') \<Longrightarrow> k < n \<Longrightarrow>
   \<exists>at1 at2. skip_sites k stream at = Some at1 \<and> get_site stream at1 = Ok (sites ! k, at2)"
proof (induction n arbitrary: "at" sites k)
  case (Suc n)
  from Suc.prems(1) obtain s at1 ss where s: "get_site stream at = Ok (s, at1)"
    and ss: "repeat_get n get_site stream at1 = Ok (ss, at')" and sites: "sites = s # ss"
    by (auto simp: rbind_eq_Ok)
  show ?case
  proof (cases k)
    case 0
    with s sites show ?thesis by simp
  next
    case (Suc j)
    with Suc.prems(2) Suc.IH [OF ss, of j] obtain at2 at3 where
      "skip_sites j stream at1 = Some at2" "get_site stream at2 = Ok (ss ! j, at3)" by auto
    with s sites Suc show ?thesis
      by (auto simp: get_site_def rbind_eq_Ok)
  qed
qed simp

lemma sites_decode_resolve:
  assumes "sites_decode stream = Ok sites"
  shows "sites_resolve stream slot = Option.bind (get_at sites (unat slot)) (\<lambda>s. s)"
proof -
  from assms obtain count at1 at2 ss where count: "get_u32 stream 0 = Ok (count, at1)"
    and ss: "repeat_get (unat count) get_site stream at1 = Ok (ss, at2)"
    and sites: "sites = map line_known ss"
    by (auto simp: sites_decode_def rbind_eq_Ok split: if_splits)
  have len: "length ss = unat count"
    using siter.repeat_get_bounds [OF ss] get_u32_bounds [OF count] by simp
  show ?thesis
  proof (cases "unat slot < unat count")
    case True
    with skip_sites_get [OF ss True] count len sites show ?thesis
      by (auto simp: sites_resolve_def get_at_def word_le_nat_alt)
  next
    case False
    with count len sites show ?thesis
      by (auto simp: sites_resolve_def get_at_def word_le_nat_alt)
  qed
qed

lemma decode_encode_sites:
  assumes "length (concat (map positions cs)) < 2 ^ 32"
  shows "sites_decode (sites_encode cs) =
    Ok (map (line_known \<circ> pos_site) (concat (map positions cs)))"
proof -
  let ?sites = "map pos_site (concat (map positions cs))"
  let ?n = "of_nat (length ?sites) :: u32"
  have n: "unat ?n = length ?sites" and u: "(of_nat (length ?sites) :: u64) = ucast ?n"
    using assms by (simp_all add: unsigned_of_nat take_bit_nat_eq_self
        unsigned_ucast_eq word_unat_eq_iff)
  have "get_u32 (sites_encode cs) 0 = Ok (?n, length (put_u64 (of_nat (length ?sites))))"
    using get_put_u32 [of "[]" ?n "concat (map put_site ?sites)"] u
    by (simp add: sites_encode_def Let_def)
  moreover have "repeat_get (length ?sites) get_site (sites_encode cs)
      (length (put_u64 (of_nat (length ?sites)))) = Ok (?sites, length (sites_encode cs))"
    using sitec.repeat_get_put [of ?sites "put_u64 (of_nat (length ?sites))" "[]"]
    by (simp add: sites_encode_def Let_def list_all_iff)
  ultimately show ?thesis
    using n by (simp add: sites_decode_def)
qed

section \<open>The walk over the instructions\<close>

text \<open>The instruction starts from \<open>at\<close> on that a table has a site for.\<close>

definition sited :: "u8 list \<Rightarrow> u8 list \<Rightarrow> nat \<Rightarrow> nat set" where
  "sited table code at = {i. i < length code \<and> boundary code at i \<and> resolve table (of_nat i) \<noteq> None}"

lemma finite_sited [simp]: "finite (sited table code at)"
  by (simp add: sited_def)

lemma sited_end: "length code \<le> at \<Longrightarrow> sited table code at = {}"
  using boundary_le by (fastforce simp: sited_def)

lemma sited_step:
  assumes "at < length code"
  shows "sited table code at =
    (if resolve table (of_nat at) = None then {} else {at}) \<union>
    (case width code at of None \<Rightarrow> {} | Some w \<Rightarrow> sited table code (at + w))"
  using assms by (auto simp: sited_def boundary_simps [of code "at"] split: option.splits)

lemma sited_later: "width code at = Some w \<Longrightarrow> at \<notin> sited table code (at + w)"
  using boundary_le [of code "at + w" "at"] width_bounds [of code "at" w] by (auto simp: sited_def)

definition site_at :: "u8 list \<Rightarrow> nat \<Rightarrow> position" where
  "site_at table i = (case resolve table (of_nat i) of None \<Rightarrow> NONE | Some s \<Rightarrow> site_to_position s)"

lemma walk_sites_spec:
  "walk_sites table code at ps matched = (ps', matched') \<Longrightarrow> length ps = length code \<Longrightarrow>
   matched' = matched + card (sited table code at) \<and> length ps' = length ps \<and>
   (\<forall>i. ps' ! i = (if i \<in> sited table code at then site_at table i else ps ! i))"
proof (induction table code "at" ps matched arbitrary: ps' matched' rule: walk_sites.induct)
  case (1 table code "at" ps matched)
  show ?case
  proof (cases "at < length code")
    case False
    with "1.prems" show ?thesis by (simp add: sited_end walk_sites.simps [of _ _ "at"])
  next
    case True
    define ps1 where "ps1 = (if resolve table (of_nat at) = None then ps
      else ps[at := site_at table at])"
    define m1 where "m1 = (if resolve table (of_nat at) = None then matched else matched + 1)"
    have pm: "(ps1, m1) = (case resolve table (of_nat at) of
        Some s \<Rightarrow> (ps[at := site_to_position s], matched + 1) | None \<Rightarrow> (ps, matched))"
      by (simp add: ps1_def m1_def site_at_def split: option.split)
    have len: "length ps1 = length code" using "1.prems"(2) by (simp add: ps1_def)
    have ps1: "ps1 ! i = (if i = at \<and> resolve table (of_nat at) \<noteq> None then site_at table i else ps ! i)"
      for i using True "1.prems"(2) by (auto simp: ps1_def nth_list_update)
    show ?thesis
    proof (cases "width code at")
      case None
      with True "1.prems"(1) pm [symmetric] have "ps' = ps1" "matched' = m1"
        by (simp_all add: walk_sites.simps [of _ _ "at"])
      with None len ps1 "1.prems"(2) show ?thesis by (simp add: sited_step [OF True] m1_def)
    next
      case (Some w)
      with True "1.prems"(1) pm [symmetric] have "walk_sites table code (at + w) ps1 m1 = (ps', matched')"
        by (simp add: walk_sites.simps [of _ _ "at"])
      from "1.IH" [OF True pm refl Some this len] Some len ps1 sited_later [OF Some, of table] "1.prems"(2)
      show ?thesis by (auto simp: sited_step [OF True] m1_def)
    qed
  qed
qed

lemma positions_get_dense:
  "positions_get (dense ps) i = (if i < length ps then ps ! i else NONE)"
  by (auto simp: dense_def positions_get_def get_at_def list_all_length)

lemma count_entries_check: "check table = Ok () \<Longrightarrow> count_entries table = Ok (of_nat (length (entries table)))"
  by (erule check_entries) (simp add: count_entries_def)

lemma card_sited:
  assumes "check table = Ok ()" and "length code \<le> 2 ^ 32"
  shows "card (sited table code 0) = length (entries table) \<longleftrightarrow>
    (\<forall>(a, s) \<in> set (entries table). line s \<noteq> 0 \<and> unat a < length code \<and> boundary code 0 (unat a))"
proof -
  let ?as = "fst ` set (entries table)"
  let ?on = "{a. resolve table a \<noteq> None \<and> unat a < length code \<and> boundary code 0 (unat a)}"
  have u: "unat (of_nat i :: u32) = i" if "i < length code" for i
    using that assms(2) by (simp add: unsigned_of_nat take_bit_nat_eq_self)
  have inj: "inj_on unat ?on" by (auto intro: inj_onI simp: word_unat_eq_iff)
  have "sited table code 0 = unat ` ?on"
    by (auto simp: sited_def image_iff u intro!: exI [of _ "of_nat _"])
  with inj have card: "card (sited table code 0) = card ?on" by (simp add: card_image)
  have asc: "ascending (entries table)" using assms(1) by (rule check_ascending)
  then have dist: "distinct (map fst (entries table))"
    by (auto simp: ascending_def strict_sorted_iff)
  then have len: "length (entries table) = card ?as"
    by (metis distinct_card length_map set_map)
  have entry: "resolve table a = (if line s \<noteq> 0 then Some s else None)"
    if "(a, s) \<in> set (entries table)" for a s
    using that dist by (simp add: resolve_checked [OF assms(1)] known_def)
  have res: "resolve table a = known (map_of (entries table) a)" for a
    by (rule resolve_checked [OF assms(1)])
  then have sub: "?on \<subseteq> ?as"
    by (auto simp: known_def image_iff split: option.splits dest!: map_of_SomeD) force
  have "card ?on = card ?as \<longleftrightarrow> ?on = ?as"
  proof
    assume "card ?on = card ?as"
    with sub show "?on = ?as" by (intro card_subset_eq) (rule finite_imageI, rule finite_set)
  qed (rule arg_cong)
  also have "\<dots> \<longleftrightarrow> (\<forall>(a, s) \<in> set (entries table). a \<in> ?on)"
    using sub by force
  also have "\<dots> \<longleftrightarrow> (\<forall>(a, s) \<in> set (entries table). line s \<noteq> 0 \<and> unat a < length code \<and> boundary code 0 (unat a))"
  proof (intro ball_cong refl)
    fix e assume "e \<in> set (entries table)"
    with entry [of "fst e" "snd e"] show "(case e of (a, s) \<Rightarrow> a \<in> ?on) \<longleftrightarrow> (case e of (a, s) \<Rightarrow>
        line s \<noteq> 0 \<and> unat a < length code \<and> boundary code 0 (unat a))"
      by (cases e) simp
  qed
  finally show ?thesis by (simp only: card len)
qed

definition table_fits :: "u8 list \<Rightarrow> u8 list \<Rightarrow> bool" where
  "table_fits table code \<longleftrightarrow>
     list_all (\<lambda>(a, s). line s \<noteq> 0 \<and> unat a < length code \<and> boundary code 0 (unat a)) (entries table)"

lemma from_table_spec:
  assumes check: "check table = Ok ()" and len: "length code \<le> 2 ^ 32"
  shows "from_table table code =
    (if table_fits table code then Ok (dense (map (site_at table) [0..<length code]))
     else Err (PastTheEnd (length (entries table)) (card (sited table code 0)) (length code)))"
proof -
  obtain count where count: "count_entries table = Ok count" "length (entries table) = unat count"
    using check by (rule check_entries) (simp add: count_entries_def)
  have res: "resolve table a = known (map_of (entries table) a)" for a
    by (rule resolve_checked [OF check])
  show ?thesis
  proof (cases "count = 0")
    case True
    with count res have "entries table = []" "site_at table i = NONE" for i
      by (simp_all add: site_at_def known_def)
    with check count True show ?thesis
      by (simp add: from_table_def table_fits_def dense_def list_all_length)
  next
    case False
    obtain ps matched where walk:
      "walk_sites table code 0 (replicate (length code) NONE) 0 = (ps, matched)" by fastforce
    from walk_sites_spec [OF walk] have matched: "matched = card (sited table code 0)"
      and ps: "length ps = length code"
      "ps ! i = (if i \<in> sited table code 0 then site_at table i else replicate (length code) NONE ! i)" for i
      by simp_all
    have "ps = map (site_at table) [0..<length code]" if "table_fits table code"
    proof (rule nth_equalityI)
      fix i assume i: "i < length ps"
      have "unat (of_nat i :: u32) = i" using i ps(1) len by (simp add: unsigned_of_nat take_bit_nat_eq_self)
      with that i ps(1) have "i \<in> sited table code 0" if "resolve table (of_nat i) \<noteq> None"
        using that res [of "of_nat i"]
        by (force simp: sited_def table_fits_def list_all_iff known_def split: option.splits dest: map_of_SomeD)
      with i ps show "ps ! i = map (site_at table) [0..<length code] ! i"
        by (auto simp: site_at_def split: option.split)
    qed (simp add: ps)
    moreover have "matched = unat count \<longleftrightarrow> table_fits table code"
      using card_sited [OF check len] by (simp add: matched count(2) table_fits_def list_all_iff)
    ultimately show ?thesis
      using check count walk False matched by (simp add: from_table_def)
  qed
qed

section \<open>The table of a program\<close>

lemma ucast_u16_u32 [simp]: "unat (ucast (w :: u16) :: u32) = unat w"
proof -
  have "unat w < 2 ^ LENGTH(16)" by (rule unsigned_less)
  then show ?thesis by (simp add: unsigned_ucast_eq take_bit_nat_eq_self)
qed

lemma of_nat_unat_u16: "(of_nat (unat (w :: u16)) :: u32) = ucast w"
  by (simp add: word_unat_eq_iff unsigned_of_nat unsigned_ucast_eq)

lemma unwrap_column: "of_nat (unwrap_or_0 (get_position pos)) = (ucast (ppos pos) :: u32)"
  if "pos \<noteq> NONE"
  using that by (auto simp: unwrap_or_0_def get_position_def of_nat_unat_u16)

lemma table_sites_unfold:
  "table_sites ps = map (\<lambda>(i, pos). (of_nat i, \<lparr>line = ucast (pline pos), column = ucast (ppos pos)\<rparr>))
     (filter (\<lambda>(i, pos). pos \<noteq> NONE) (enumerate 0 ps))"
proof -
  have "List.map_filter
     (\<lambda>(pc, pos). map_option (\<lambda>ln. (of_nat pc :: u32, \<lparr>line = of_nat ln,
        column = of_nat (unwrap_or_0 (get_position pos))\<rparr>)) (get_line pos)) xs =
     map (\<lambda>(i, pos). (of_nat i, \<lparr>line = ucast (pline pos), column = ucast (ppos pos)\<rparr>))
       (filter (\<lambda>(i, pos). pos \<noteq> NONE) xs)" for xs :: "(nat \<times> position) list"
    by (induction xs) (auto simp: map_filter_simps get_line_def of_nat_unat_u16 unwrap_column)
  then show ?thesis by (simp add: table_sites_def)
qed

lemma mem_table_sites:
  "(a, s) \<in> set (table_sites ps) \<longleftrightarrow> (\<exists>i<length ps. ps ! i \<noteq> NONE \<and> a = of_nat i \<and>
     s = \<lparr>line = ucast (pline (ps ! i)), column = ucast (ppos (ps ! i))\<rparr>)"
  by (force simp: table_sites_unfold in_set_enumerate_eq)

lemma ascending_enumerate:
  "k + length ps \<le> 2 ^ 32 \<Longrightarrow>
   sorted_wrt (<) (map (\<lambda>(i, _). of_nat i :: u32) (filter P (enumerate k ps)))"
proof (induction ps arbitrary: k)
  case (Cons p ps)
  have "(of_nat k :: u32) < of_nat i" if "(i, q) \<in> set (enumerate (Suc k) ps)" for i q
    using that Cons.prems
    by (auto simp: in_set_enumerate_eq word_less_nat_alt unsigned_of_nat take_bit_nat_eq_self)
  with Cons.IH [of "Suc k"] Cons.prems show ?case by auto
qed simp

lemma table_sites_ascending: "length ps \<le> 2 ^ 32 \<Longrightarrow> ascending (table_sites ps)"
proof -
  assume "length ps \<le> 2 ^ 32"
  moreover have "map fst (table_sites ps) =
      map (\<lambda>(i, _). of_nat i) (filter (\<lambda>(i, pos). pos \<noteq> NONE) (enumerate 0 ps))"
    by (auto simp: table_sites_unfold)
  ultimately show ?thesis
    using ascending_enumerate [of 0 ps] by (simp add: ascending_def)
qed

text \<open>
  What the compiler hands a program: nothing, or a position per code byte, \<open>NONE\<close> wherever no
  instruction starts, and not \<open>NONE\<close> throughout. A line 0 with a column is no position Rhai makes.
\<close>

definition positions_for :: "u8 list \<Rightarrow> positions \<Rightarrow> bool" where
  "positions_for code p = (case p of
       Stripped \<Rightarrow> True
     | Dense ps \<Rightarrow> length ps = length code \<and> \<not> list_all is_none ps \<and>
         (\<forall>i<length ps. ps ! i \<noteq> NONE \<longrightarrow> pline (ps ! i) \<noteq> 0 \<and> boundary code 0 i))"

lemma site_to_position_ucast:
  "pline pos \<noteq> 0 \<Longrightarrow>
   site_to_position \<lparr>line = ucast (pline pos), column = ucast (ppos pos)\<rparr> = pos"
proof -
  assume "pline pos \<noteq> 0"
  moreover have "unat w < 65536" for w :: u16 using unsigned_less [of w] by simp
  moreover have "(ucast (ucast w :: u32) :: u16) = w" for w
    by (rule bit_word_eqI) (auto simp: bit_simps)
  moreover have "(ucast w :: u32) = 0 \<longleftrightarrow> w = 0" for w :: u16 by (simp add: word_unat_eq_iff)
  ultimately show ?thesis by (simp add: site_to_position_def)
qed

lemma to_table_from_table:
  assumes fit: "positions_for code p" and len: "length code < 2 ^ 32"
  shows "\<exists>table. to_table p = Some table \<and> from_table table code = Ok p"
proof (cases p)
  case Stripped
  have "encode [] = Some [0]" by (simp add: encode_def put_u64.simps)
  moreover have "from_table [0] code = Ok Stripped"
    by (simp add: from_table_def check_def count_entries_def get_u32_def get_u64_def
        varint_shifts_def get_at_def try_u32_def)
  ultimately show ?thesis using Stripped by (simp add: to_table_def)
next
  case (Dense ps)
  let ?es = "table_sites ps"
  from fit Dense have ps: "length ps = length code" "\<not> list_all is_none ps"
    "\<And>i. i < length ps \<Longrightarrow> ps ! i \<noteq> NONE \<Longrightarrow> pline (ps ! i) \<noteq> 0 \<and> boundary code 0 i"
    by (auto simp: positions_for_def)
  have u: "unat (of_nat i :: u32) = i" if "i < length code" for i
    using that len by (simp add: unsigned_of_nat take_bit_nat_eq_self)
  have lines: "line s \<noteq> 0 \<and> unat a < length code \<and> boundary code 0 (unat a)"
    if "(a, s) \<in> set ?es" for a s
    using that ps by (auto simp: mem_table_sites u word_unat_eq_iff)
  then have kept: "filter (\<lambda>(_, s). line s \<noteq> 0) ?es = ?es"
    by (intro filter_True) auto
  have asc: "ascending ?es" using table_sites_ascending ps(1) len by simp
  with kept encode_panics [of ?es] obtain table where table: "encode ?es = Some table" by auto
  have "length ?es \<le> length ps"
    by (simp add: table_sites_unfold) (metis length_enumerate length_filter_le)
  with encode_check [OF table] kept ps(1) len
  have check: "check table = Ok ()" and es: "entries table = ?es" by simp_all
  have dist: "distinct (map fst ?es)" using asc by (auto simp: ascending_def strict_sorted_iff)
  have res: "resolve table a = (case map_of ?es a of None \<Rightarrow> None | Some s \<Rightarrow> Some s)" for a
    using lines by (auto simp: resolve_checked [OF check] es known_def split: option.split dest: map_of_SomeD)
  have "site_at table i = ps ! i" if i: "i < length ps" for i
  proof (cases "ps ! i = NONE")
    case True
    have "map_of ?es (of_nat i) = None"
      using True i ps(1) u by (auto simp: map_of_eq_None_iff mem_table_sites) (metis u)
    with True show ?thesis by (simp add: site_at_def res)
  next
    case False
    let ?s = "\<lparr>line = ucast (pline (ps ! i)), column = ucast (ppos (ps ! i))\<rparr>"
    have "(of_nat i, ?s) \<in> set ?es" using False i by (auto simp: mem_table_sites)
    with dist have "map_of ?es (of_nat i) = Some ?s" by simp
    with ps(3) [OF i False] show ?thesis by (simp add: site_at_def res site_to_position_ucast)
  qed
  then have "map (site_at table) [0..<length code] = ps"
    using ps(1) by (intro nth_equalityI) auto
  moreover have "table_fits table code" using lines by (auto simp: table_fits_def es list_all_iff)
  moreover from ps(2) have "dense ps = Dense ps" by (simp add: dense_def)
  ultimately show ?thesis
    using table Dense from_table_spec [OF check, of code] len by (simp add: to_table_def)
qed

section \<open>Properties\<close>

text \<open>
  A table is admitted for a program exactly when it is well formed and every entry it holds
  names a known line at the start of an instruction; the positions it expands to are then, at
  every address, what the lookup in the table answers there.
\<close>

theorem from_table_exact:
  assumes "length code \<le> 2 ^ 32"
  shows "from_table table code = Ok p \<longleftrightarrow>
     check table = Ok () \<and>
     list_all (\<lambda>(a, s). line s \<noteq> 0 \<and> unat a < length code \<and> boundary code 0 (unat a)) (entries table) \<and>
     p = dense (map (\<lambda>pc. case resolve table (of_nat pc) of
         None \<Rightarrow> NONE | Some s \<Rightarrow> site_to_position s) [0..<length code])"
proof (cases "check table = Ok ()")
  case True
  have "site_at table = (\<lambda>pc. case resolve table (of_nat pc) of
      None \<Rightarrow> NONE | Some s \<Rightarrow> site_to_position s)"
    by (rule ext) (simp add: site_at_def)
  with from_table_spec [OF True assms] True show ?thesis by (auto simp: table_fits_def)
next
  case False
  then show ?thesis by (cases "check table") (auto simp: from_table_def)
qed

lemma boundary_return: "boundary [UNIT, RETURN] 0 1"
  by (rule boundary.onwards [where w = 1])
    (simp_all add: width_def get_at_def width_of_def widths_tag boundary.here)

theorem from_table_exact_witness:
  "from_table [1, 1, 3, 4] [UNIT, RETURN] = Ok (Dense [NONE, \<lparr>pline = 3, ppos = 4\<rparr>])"
proof -
  have "check [1, 1, 3, 4] = Ok ()" "entries [1, 1, 3, 4] = [(1, \<lparr>line = 3, column = 4\<rparr>)]"
    "resolve [1, 1, 3, 4] 0 = None" "resolve [1, 1, 3, 4] 1 = Some \<lparr>line = 3, column = 4\<rparr>"
    by (simp_all add: check_def get_u32_def get_u64_def varint_shifts_def get_at_def try_u32_def
        next_address_def entries_def resolve_def)
  then show ?thesis
    using boundary_return
    by (subst from_table_exact) (simp_all add: dense_def site_to_position_def NONE_def)
qed

text \<open>
  Stripping and attaching the position table are inverse: the table written for a program's
  positions is admitted for its code and expands to the same positions; writing it cannot panic.
\<close>

theorem positions_roundtrip:
  assumes "positions_for code p" and "length code < 2 ^ 32"
  shows "\<exists>table. to_table p = Some table \<and> from_table table code = Ok p"
  using assms by (rule to_table_from_table)

theorem positions_roundtrip_witness:
  "\<exists>table. to_table (Dense [NONE, \<lparr>pline = 3, ppos = 4\<rparr>]) = Some table \<and>
     from_table table [UNIT, RETURN] = Ok (Dense [NONE, \<lparr>pline = 3, ppos = 4\<rparr>])"
  by (rule positions_roundtrip)
    (auto simp: positions_for_def NONE_def less_Suc_eq boundary_return [simplified])

text \<open>
  The stream of chain positions decodes to the positions that were written, in slot order,
  and on every stream that decodes, the lookup of one slot answers what the whole decoding has
  at that slot.
\<close>

theorem sites_roundtrip:
  assumes "length (concat (map positions cs)) < 2 ^ 32"
  shows "sites_decode (sites_encode cs) =
      Ok (map (line_known \<circ> pos_site) (concat (map positions cs)))
    \<and> (case sites_decode stream of
        Inl e \<Rightarrow> sites_check stream = Err e
      | Inr sites \<Rightarrow> sites_resolve stream slot = Option.bind (get_at sites (unat slot)) id)"
  using decode_encode_sites [OF assms] sites_decode_resolve [of stream _ slot]
  by (auto simp: sites_check_def id_def split: sum.split)

theorem sites_roundtrip_witness:
  "sites_decode (sites_encode
     [\<lparr>root = ThisRoot \<lparr>pline = 1, ppos = 2\<rparr>, steps = [], tail = Read, operands = 0\<rparr>]) =
   Ok [Some \<lparr>line = 1, column = 2\<rparr>]"
  using sites_roundtrip [of "[\<lparr>root = ThisRoot \<lparr>pline = 1, ppos = 2\<rparr>, steps = [], tail = Read,
      operands = 0\<rparr>]"]
  by (simp add: positions_def pos_site_def line_known_def get_line_def get_position_def NONE_def
      try_u32_or_0_def)

end
