(* ===== verification/Wire.thy ===== *)
theory Wire
  imports Positions Names Tokens
begin

text \<open>
  The bytes of an artifact below its sections (\<open>src/grain/format/mod.rs\<close>): the \<open>Cursor\<close> a
  reader takes values from and the writers of the same values. As in \<open>Varint\<close> a reader takes the
  bytes and the cursor and returns the value with the advanced cursor; the cursor after an error is
  not modelled, because no caller looks at it. \<open>usize\<close> is 64 bits wide.
\<close>

section \<open>Errors\<close>

text \<open>\<open>ReadError\<close> of \<open>src/grain/format/read.rs\<close>.\<close>

datatype read_error =
    BadMagic | UnsupportedVersion u16 u16 | BadAbi abi_mismatch | InputTruncated | MalformedVarint
  | BadUtf8 | UnknownTag string u8 | UnknownToken string | HashSeedMismatch u64 u64
  | ConstantTooDeep | InputTrailingBytes nat | Unverifiable verify_error
  | BadPositions table_error | BadNames bad_table

section \<open>What a build knows of itself\<close>

text \<open>
  The parameters of the reader and the writer that lie outside the artifact: the feature flags,
  the widths of \<open>INT\<close> and \<open>FLOAT\<close>, what the hasher answers (\<open>probe\<close> and the hash of an integer),
  which mantissas and scales the crate \<open>rust_decimal\<close> makes a number of, and the derived \<open>Debug\<close>
  text of a token.
\<close>

record build =
  b_features :: features
  b_int_size :: u8
  b_float_size :: u8
  b_probe :: u64
  b_hash_int :: "int \<Rightarrow> u64"
  b_decimal_ok :: "128 word \<Rightarrow> u32 \<Rightarrow> bool"
  b_token_debug :: "token \<Rightarrow> string"

definition build_host :: "build \<Rightarrow> abi" where
  "build_host b = host (b_features b) (b_int_size b) (b_float_size b)"

text \<open>\<open>INT\<close> is a signed integer of that many bytes.\<close>

definition int_fits :: "build \<Rightarrow> int \<Rightarrow> bool" where
  "int_fits b n \<longleftrightarrow>
     - (2 ^ (8 * unat (b_int_size b) - 1)) \<le> n \<and> n < 2 ^ (8 * unat (b_int_size b) - 1)"

section \<open>The cursor\<close>

text \<open>
  \<open>take\<close>: \<open>checked_add\<close> can only fail past the end of every slice, where the second check answers
  the same error.
\<close>

definition take_bytes :: "nat \<Rightarrow> u8 list \<Rightarrow> nat \<Rightarrow> read_error + u8 list \<times> nat" where
  "take_bytes n bytes at =
     (if at + n \<le> length bytes then Ok (take n (drop at bytes), at + n) else Err InputTruncated)"

definition get_byte :: "u8 list \<Rightarrow> nat \<Rightarrow> read_error + u8 \<times> nat" where
  "get_byte bytes at = rbind (take_bytes 1 bytes at) (\<lambda>(slice, at). Ok (slice ! 0, at))"

fun uvarint_loop :: "nat list \<Rightarrow> u64 \<Rightarrow> u8 list \<Rightarrow> nat \<Rightarrow> read_error + u64 \<times> nat" where
  "uvarint_loop [] value bytes at = Err MalformedVarint"
| "uvarint_loop (shift # shifts) value bytes at =
     rbind (get_byte bytes at) (\<lambda>(byte, at).
       let payload = (ucast (byte AND 0x7f) :: u64) in
       if shift = 63 \<and> payload > 1 then Err MalformedVarint
       else let value = value OR push_bit shift payload in
         if byte AND 0x80 = 0 then Ok (value, at)
         else uvarint_loop shifts value bytes at)"

definition uvarint :: "u8 list \<Rightarrow> nat \<Rightarrow> read_error + u64 \<times> nat" where
  "uvarint bytes at = uvarint_loop varint_shifts 0 bytes at"

definition count :: "u8 list \<Rightarrow> nat \<Rightarrow> read_error + nat \<times> nat" where
  "count bytes at = rbind (uvarint bytes at) (\<lambda>(n, at).
     if length bytes - at < unat n then Err InputTruncated else Ok (unat n, at))"

definition ivarint :: "u8 list \<Rightarrow> nat \<Rightarrow> read_error + u64 \<times> nat" where
  "ivarint bytes at = rbind (uvarint bytes at) (\<lambda>(raw, at). Ok (unzigzag raw, at))"

definition get_index :: "u8 list \<Rightarrow> nat \<Rightarrow> read_error + u32 \<times> nat" where
  "get_index bytes at = rbind (uvarint bytes at) (\<lambda>(v, at).
     rbind (ok_or MalformedVarint (try_u32 v)) (\<lambda>w. Ok (w, at)))"

definition get_small :: "u8 list \<Rightarrow> nat \<Rightarrow> read_error + u16 \<times> nat" where
  "get_small bytes at = rbind (uvarint bytes at) (\<lambda>(v, at).
     if unat v < 2 ^ 16 then Ok (ucast v, at) else Err MalformedVarint)"

definition get_str :: "u8 list \<Rightarrow> nat \<Rightarrow> read_error + u8 list \<times> nat" where
  "get_str bytes at = rbind (uvarint bytes at) (\<lambda>(len, at).
     rbind (take_bytes (unat len) bytes at) (\<lambda>(slice, at).
     rbind (map_err (\<lambda>_. BadUtf8) (from_utf8 slice)) (\<lambda>str. Ok (str, at))))"

definition at_end :: "u8 list \<Rightarrow> nat \<Rightarrow> bool" where
  "at_end bytes at \<longleftrightarrow> at = length bytes"

section \<open>The writers\<close>

function put_uvarint :: "u64 \<Rightarrow> u8 list" where
  "put_uvarint value =
     (let byte = (ucast (value AND 0x7f) :: u8);
          value = drop_bit 7 value
      in if value = 0 then [byte] else (byte OR 0x80) # put_uvarint value)"
  by pat_completeness auto
termination
  by (relation "measure unat") (auto intro: drop_bit7_less)

declare put_uvarint.simps [simp del]

definition put_ivarint :: "u64 \<Rightarrow> u8 list" where
  "put_ivarint value = put_uvarint (zigzag value)"

text \<open>The \<open>as u64\<close> of a length.\<close>

definition put_len :: "nat \<Rightarrow> u8 list" where
  "put_len n = put_uvarint (of_nat n)"

definition put_str :: "u8 list \<Rightarrow> u8 list" where
  "put_str value = put_len (length value) @ value"

text \<open>\<open>put_uvarint(out, u64::from(w))\<close>, the writer of every index and of every small number.\<close>

definition put_num :: "'a::len word \<Rightarrow> u8 list" where
  "put_num w = put_uvarint (ucast w)"

text \<open>\<open>put_ivarint(out, i64::from(n))\<close> of an \<open>INT\<close>, and its way back with \<open>bounded_int\<close>.\<close>

definition put_int :: "int \<Rightarrow> u8 list" where
  "put_int n = put_ivarint (word_of_int n)"

definition bounded_int :: "build \<Rightarrow> u64 \<Rightarrow> read_error + int" where
  "bounded_int b value = (if int_fits b (sint value) then Ok (sint value) else Err MalformedVarint)"

definition get_int :: "build \<Rightarrow> u8 list \<Rightarrow> nat \<Rightarrow> read_error + int \<times> nat" where
  "get_int b bytes at = rbind (ivarint bytes at) (\<lambda>(value, at).
     rbind (bounded_int b value) (\<lambda>n. Ok (n, at)))"

text \<open>\<open>to_le_bytes\<close> and \<open>from_le_bytes\<close> at any width.\<close>

definition le_bytes :: "nat \<Rightarrow> 'a::len word \<Rightarrow> u8 list" where
  "le_bytes n w = map (\<lambda>i. ucast (drop_bit (8 * i) w)) [0..<n]"

definition of_le_bytes :: "u8 list \<Rightarrow> 'a::len word" where
  "of_le_bytes bs = foldr (\<lambda>b acc. ucast b OR push_bit 8 acc) bs 0"

definition get_le :: "nat \<Rightarrow> u8 list \<Rightarrow> nat \<Rightarrow> read_error + 'a::len word \<times> nat" where
  "get_le n bytes at = rbind (take_bytes n bytes at) (\<lambda>(slice, at). Ok (of_le_bytes slice, at))"

section \<open>Bytes in place\<close>

text \<open>
  \<open>written bytes at s\<close>: the bytes from \<open>at\<close> on begin with \<open>s\<close>. It splits along a concatenation,
  so the law of a codec becomes a conditional rewrite rule and a reader of several fields is
  evaluated by the simplifier, field by field.
\<close>

definition written :: "u8 list \<Rightarrow> nat \<Rightarrow> u8 list \<Rightarrow> bool" where
  "written bytes at s \<longleftrightarrow> at + length s \<le> length bytes \<and> take (length s) (drop at bytes) = s"

named_theorems wire_simps

lemma written_append [wire_simps]:
  "written bytes at (s @ t) \<longleftrightarrow> written bytes at s \<and> written bytes (at + length s) t"
  by (auto simp: written_def take_add min_def append_eq_append_conv_if drop_take ac_simps
      split: if_splits)

lemma written_Cons [wire_simps]:
  "t \<noteq> [] \<Longrightarrow> written bytes at (b # t) \<longleftrightarrow> written bytes at [b] \<and> written bytes (at + 1) t"
  using written_append [of bytes "at" "[b]" t] by simp

lemma written_in_place: "written (pre @ s @ post) (length pre) s"
  by (simp add: written_def)

lemma written_self: "written s 0 s"
  by (simp add: written_def)

lemma written_split:
  assumes "written bytes at s"
  obtains pre post where "bytes = pre @ s @ post" "length pre = at"
proof
  show "bytes = take at bytes @ s @ drop (at + length s) bytes"
    using assms by (metis append_take_drop_id drop_drop add.commute written_def)
  show "length (take at bytes) = at" using assms by (simp add: written_def)
qed

context codec
begin

lemma get_written: "written bytes at (put x) \<Longrightarrow> valid x \<Longrightarrow> get bytes at = Inr (x, at + length (put x))"
  by (metis get_put written_split)

lemma repeat_get_written:
  "written bytes at (concat (map put xs)) \<Longrightarrow> list_all valid xs \<Longrightarrow>
   repeat_get (length xs) get bytes at = Inr (xs, at + length (concat (map put xs)))"
  by (metis repeat_get_put written_split)

end

lemma codecI:
  "(\<And>x bytes at. valid x \<Longrightarrow> written bytes at (put x) \<Longrightarrow> get bytes at = Inr (x, at + length (put x))) \<Longrightarrow>
   codec put get valid"
  by (rule codec.intro) (simp add: written_in_place)

section \<open>The two LEB128s are one\<close>

text \<open>
  The artifact's cursor and the position table have a varint each; they write the same bytes and
  read the same values.
\<close>

fun wire_error :: "varint_error \<Rightarrow> read_error" where
  "wire_error Truncated = InputTruncated"
| "wire_error Overflow = MalformedVarint"

lemma get_byte_at: "get_byte bytes at = rbind (ok_or InputTruncated (get_at bytes at)) (\<lambda>b. Ok (b, at + 1))"
  by (auto simp: get_byte_def take_bytes_def get_at_def rbind_def)

lemma uvarint_loop_eq:
  "uvarint_loop shifts acc bytes at = map_err wire_error (u64_loop shifts acc bytes at)"
proof (induction shifts arbitrary: "at" acc)
  case (Cons shift shifts)
  then show ?case
    by (cases "get_at bytes at") (auto simp: get_byte_at Let_def)
qed simp

lemma uvarint_eq: "uvarint bytes at = map_err wire_error (get_u64 bytes at)"
  by (simp add: uvarint_def get_u64_def uvarint_loop_eq)

lemma put_uvarint_eq: "put_uvarint v = put_u64 v"
proof (induction v rule: put_uvarint.induct)
  case (1 v)
  then show ?case by (simp add: put_uvarint.simps [of v] put_u64.simps [of v] Let_def)
qed

section \<open>The codecs of the cursor\<close>

lemma ucast_small: "LENGTH('a::len) \<le> LENGTH('b::len) \<Longrightarrow> unat (ucast (w :: 'a word) :: 'b word) = unat w"
  by (simp add: unsigned_ucast_eq take_bit_nat_eq_self_iff order_less_le_trans [OF unsigned_less])

lemma ucast_back: "LENGTH('a::len) \<le> LENGTH('b::len) \<Longrightarrow> (ucast (ucast (w :: 'a word) :: 'b word) :: 'a word) = w"
  by (rule bit_word_eqI) (auto simp: bit_simps)

interpretation uvc: codec put_uvarint uvarint "\<lambda>_. True"
  by unfold_locales (simp add: uvarint_eq put_uvarint_eq get_put_u64)

interpretation bytec: codec "\<lambda>b. [b]" get_byte "\<lambda>_. True"
  by unfold_locales (simp add: get_byte_at get_at_def)

interpretation idxc: codec "put_num :: u32 \<Rightarrow> _" get_index "\<lambda>_. True"
  by (rule codecI)
    (simp add: put_num_def get_index_def uvc.get_written try_u32_ucast)

interpretation smallc: codec "put_num :: u16 \<Rightarrow> _" get_small "\<lambda>_. True"
proof (rule codecI)
  fix w :: u16 and bytes "at"
  assume "written bytes at (put_num w)"
  moreover have "unat w < 2 ^ 16" using unsigned_less [of w] by simp
  ultimately show "get_small bytes at = Ok (w, at + length (put_num w))"
    by (simp add: put_num_def get_small_def uvc.get_written ucast_small ucast_back)
qed

lemma take_written: "written bytes at s \<Longrightarrow> n = length s \<Longrightarrow> take_bytes n bytes at = Ok (s, at + n)"
  by (simp add: take_bytes_def written_def)

definition str_ok :: "u8 list \<Rightarrow> bool" where
  "str_ok s \<longleftrightarrow> utf8 s \<and> length s < 2 ^ 64"

lemma unat_of_nat64: "n < 2 ^ 64 \<Longrightarrow> unat (of_nat n :: u64) = n"
  by (simp add: unsigned_of_nat take_bit_nat_eq_self)

interpretation strc: codec put_str get_str str_ok
proof (rule codecI)
  fix s bytes "at"
  assume s: "str_ok s" and "written bytes at (put_str s)"
  then have "written bytes at (put_len (length s))"
    "written bytes (at + length (put_len (length s))) s"
    by (simp_all add: put_str_def written_append)
  then show "get_str bytes at = Ok (s, at + length (put_str s))"
    using s by (simp add: get_str_def put_str_def put_len_def uvc.get_written str_ok_def unat_of_nat64
        take_written [of _ _ s] from_utf8_def)
qed

lemma sint_of_int64: "- (2 ^ 63) \<le> n \<Longrightarrow> n < 2 ^ 63 \<Longrightarrow> sint (word_of_int n :: u64) = n"
  by (simp add: signed_of_int signed_take_bit_int_eq_self)

definition int_ok :: "build \<Rightarrow> int \<Rightarrow> bool" where
  "int_ok b n \<longleftrightarrow> int_fits b n \<and> - (2 ^ 63) \<le> n \<and> n < 2 ^ 63"

lemma int_ok_fits: "unat (b_int_size b) \<le> 8 \<Longrightarrow> int_fits b n \<Longrightarrow> int_ok b n"
proof -
  assume le: "unat (b_int_size b) \<le> 8" and fits: "int_fits b n"
  have "(2 :: int) ^ (8 * unat (b_int_size b) - 1) \<le> 2 ^ 63"
    using le by (intro power_increasing) auto
  with fits show ?thesis by (auto simp: int_ok_def int_fits_def)
qed

interpretation intc: codec put_int "get_int b" "int_ok b" for b
proof (rule codecI)
  fix n bytes "at"
  assume "int_ok b n" and "written bytes at (put_int n)"
  then show "get_int b bytes at = Ok (n, at + length (put_int n))"
    by (simp add: get_int_def put_int_def put_ivarint_def ivarint_def uvc.get_written
        unzigzag_zigzag bounded_int_def int_ok_def sint_of_int64)
qed

lemma of_le_bytes_le_bytes:
  "of_le_bytes (map (\<lambda>i. ucast (drop_bit (8 * i) (w :: 'a::len word))) [k..<k + n]) =
   take_bit (8 * n) (drop_bit (8 * k) w)"
proof (induction n arbitrary: k)
  case 0
  then show ?case by (simp add: of_le_bytes_def)
next
  case (Suc n)
  have "[k..<k + Suc n] = k # [Suc k..<Suc k + n]" by (simp add: upt_conv_Cons)
  with Suc.IH [of "Suc k"] have "of_le_bytes (map (\<lambda>i. ucast (drop_bit (8 * i) w)) [k..<k + Suc n]) =
      ucast (ucast (drop_bit (8 * k) w) :: u8) OR push_bit 8 (take_bit (8 * n) (drop_bit (8 * Suc k) w))"
    by (simp add: of_le_bytes_def)
  also have "\<dots> = take_bit (8 * Suc n) (drop_bit (8 * k) w)"
  proof (rule bit_word_eqI)
    fix i assume "i < LENGTH('a)"
    then show "bit (ucast (ucast (drop_bit (8 * k) w) :: u8) OR
        push_bit 8 (take_bit (8 * n) (drop_bit (8 * Suc k) w))) i =
      bit (take_bit (8 * Suc n) (drop_bit (8 * k) w)) i"
      by (cases "i < 8") (auto simp: bit_simps)
  qed
  finally show ?case .
qed

lemma of_le_bytes: "LENGTH('a) \<le> 8 * n \<Longrightarrow> of_le_bytes (le_bytes n (w :: 'a::len word)) = w"
  using of_le_bytes_le_bytes [of w 0 n] by (simp add: le_bytes_def take_bit_word_eq_self)

lemma length_le_bytes [simp]: "length (le_bytes n w) = n"
  by (simp add: le_bytes_def)

lemma le_codec: "LENGTH('a) \<le> 8 * n \<Longrightarrow> codec (le_bytes n :: 'a::len word \<Rightarrow> _) (get_le n) (\<lambda>_. True)"
  by (rule codecI) (simp add: get_le_def take_written of_le_bytes)

interpretation le16c: codec "le_bytes 2 :: u16 \<Rightarrow> _" "get_le 2" "\<lambda>_. True"
  by (rule le_codec) simp

interpretation le32c: codec "le_bytes 4 :: u32 \<Rightarrow> _" "get_le 4" "\<lambda>_. True"
  by (rule le_codec) simp

interpretation le64c: codec "le_bytes 8 :: u64 \<Rightarrow> _" "get_le 8" "\<lambda>_. True"
  by (rule le_codec) simp

interpretation le128c: codec "le_bytes 16 :: 128 word \<Rightarrow> _" "get_le 16" "\<lambda>_. True"
  by (rule le_codec) simp

text \<open>
  The laws with the written bytes first, so that the simplifier finds the value in the
  assumptions; \<open>wire_simps\<close> with \<open>rbind\<close> and associativity runs a reader.
\<close>

lemmas read_written [wire_simps] =
  uvc.get_written bytec.get_written idxc.get_written smallc.get_written strc.get_written
  intc.get_written le16c.get_written le32c.get_written le64c.get_written le128c.get_written
  take_written

declare add.assoc [wire_simps]

end
