(* ===== verification/Constants.thy ===== *)
theory Constants
  imports Wire "HOL-Library.List_Lexorder"
begin

text \<open>
  The constant pool on the wire (\<open>put_constant\<close> of \<open>src/grain/format/write.rs\<close>, \<open>get_constant\<close>
  of \<open>src/grain/format/read.rs\<close>): the script values that mean the same in another process, and the
  refusal of all others. A constant nests, so both are recursive; the reader stops at a depth.
\<close>

section \<open>Values\<close>

text \<open>
  The variants of \<open>Dynamic\<close> that a constant can have. A float is its IEEE bits in little-endian
  order, a decimal the mantissa and scale that \<open>rust_decimal\<close> answers for it, a map its entries in
  the order of its keys. \<open>DOther\<close> is any other value, under its type name.
\<close>

datatype dynamic =
    DUnit | DBool bool | DInt int | DFloat "u8 list" | DDecimal "128 word" u32 | DChar u32
  | DString "u8 list" | DArray "dynamic list" | DMap "(u8 list \<times> dynamic) list" | DBlob "u8 list"
  | DRange int int | DRangeInclusive int int | DOther string

definition UNIT_TAG :: u8 where "UNIT_TAG = 0x00"
definition FALSE_TAG :: u8 where "FALSE_TAG = 0x01"
definition TRUE_TAG :: u8 where "TRUE_TAG = 0x02"
definition INT_TAG :: u8 where "INT_TAG = 0x03"
definition FLOAT_TAG :: u8 where "FLOAT_TAG = 0x04"
definition CHAR_TAG :: u8 where "CHAR_TAG = 0x05"
definition STRING_TAG :: u8 where "STRING_TAG = 0x06"
definition ARRAY_TAG :: u8 where "ARRAY_TAG = 0x07"
definition MAP_TAG :: u8 where "MAP_TAG = 0x08"
definition BLOB_TAG :: u8 where "BLOB_TAG = 0x09"
definition RANGE_TAG :: u8 where "RANGE_TAG = 0x0a"
definition RANGE_INCLUSIVE_TAG :: u8 where "RANGE_INCLUSIVE_TAG = 0x0b"
definition DECIMAL_TAG :: u8 where "DECIMAL_TAG = 0x0c"

lemmas constant_tags =
  UNIT_TAG_def FALSE_TAG_def TRUE_TAG_def INT_TAG_def FLOAT_TAG_def CHAR_TAG_def STRING_TAG_def
  ARRAY_TAG_def MAP_TAG_def BLOB_TAG_def RANGE_TAG_def RANGE_INCLUSIVE_TAG_def DECIMAL_TAG_def

section \<open>Writing\<close>

definition put_range :: "int \<Rightarrow> int \<Rightarrow> u8 list" where
  "put_range start stop = put_int start @ put_int stop"

text \<open>
  \<open>put_constant\<close>, with the loops over the items of an array and the entries of a map; the error is
  the type name of the first value that cannot be written. A value of a type the build does not
  have cannot occur.
\<close>

fun put_constant :: "dynamic \<Rightarrow> string + u8 list"
  and put_items :: "dynamic list \<Rightarrow> string + u8 list"
  and put_entries :: "(u8 list \<times> dynamic) list \<Rightarrow> string + u8 list" where
  "put_constant DUnit = Ok [UNIT_TAG]"
| "put_constant (DBool flag) = Ok [if flag then TRUE_TAG else FALSE_TAG]"
| "put_constant (DInt number) = Ok ([INT_TAG] @ put_int number)"
| "put_constant (DFloat bits) = Ok ([FLOAT_TAG] @ bits)"
| "put_constant (DDecimal mantissa scale) =
     Ok ([DECIMAL_TAG] @ le_bytes 16 mantissa @ le_bytes 4 scale)"
| "put_constant (DChar code) = Ok ([CHAR_TAG] @ put_num code)"
| "put_constant (DString str) = Ok ([STRING_TAG] @ put_str str)"
| "put_constant (DArray items) =
     rbind (put_items items) (\<lambda>out. Ok ([ARRAY_TAG] @ put_len (length items) @ out))"
| "put_constant (DMap m) =
     rbind (put_entries m) (\<lambda>out. Ok ([MAP_TAG] @ put_len (length m) @ out))"
| "put_constant (DBlob b) = Ok ([BLOB_TAG] @ put_len (length b) @ b)"
| "put_constant (DRange start stop) = Ok ([RANGE_TAG] @ put_range start stop)"
| "put_constant (DRangeInclusive start stop) = Ok ([RANGE_INCLUSIVE_TAG] @ put_range start stop)"
| "put_constant (DOther type_name) = Err type_name"
| "put_items [] = Ok []"
| "put_items (item # items) =
     rbind (put_constant item) (\<lambda>out. rbind (put_items items) (\<lambda>rest. Ok (out @ rest)))"
| "put_entries [] = Ok []"
| "put_entries ((key, item) # pairs) =
     rbind (put_constant item) (\<lambda>out.
     rbind (put_entries pairs) (\<lambda>rest. Ok (put_str key @ out @ rest)))"

section \<open>Reading\<close>

definition MAX_CONSTANT_DEPTH :: nat where
  "MAX_CONSTANT_DEPTH = 64"

text \<open>\<open>char::from_u32\<close>: no surrogate and nothing past U+10FFFF.\<close>

definition char_ok :: "u32 \<Rightarrow> bool" where
  "char_ok code \<longleftrightarrow> code < 0xd800 \<or> 0xdfff < code \<and> code < 0x110000"

text \<open>\<open>BTreeMap::insert\<close> on the entries in key order; keys are compared as byte strings.\<close>

fun map_insert :: "u8 list \<Rightarrow> dynamic \<Rightarrow> (u8 list \<times> dynamic) list \<Rightarrow> (u8 list \<times> dynamic) list" where
  "map_insert key item [] = [(key, item)]"
| "map_insert key item ((k, v) # m) =
     (if key < k then (key, item) # (k, v) # m
      else if key = k then (k, item) # m
      else (k, v) # map_insert key item m)"

text \<open>
  The arm of each tag but the recursive ones: what \<open>get_constant\<close> does with the bytes after it.
  \<open>None\<close> stands for a tag with no arm.
\<close>

definition get_leaf :: "build \<Rightarrow> u8 \<Rightarrow> u8 list \<Rightarrow> nat \<Rightarrow> read_error + dynamic \<times> nat" where
  "get_leaf b tag bytes at =
     (if tag = UNIT_TAG then Ok (DUnit, at)
      else if tag = FALSE_TAG then Ok (DBool False, at)
      else if tag = TRUE_TAG then Ok (DBool True, at)
      else if tag = INT_TAG then rbind (get_int b bytes at) (\<lambda>(n, at). Ok (DInt n, at))
      else if tag = FLOAT_TAG \<and> \<not> no_float (b_features b) then
        rbind (take_bytes (unat (b_float_size b)) bytes at) (\<lambda>(bits, at). Ok (DFloat bits, at))
      else if tag = DECIMAL_TAG \<and> decimal (b_features b) then
        rbind (take_bytes 20 bytes at) (\<lambda>(bits, at).
          let mantissa = of_le_bytes (take 16 bits); scale = of_le_bytes (drop 16 bits) in
          if b_decimal_ok b mantissa scale then Ok (DDecimal mantissa scale, at)
          else Err MalformedVarint)
      else if tag = CHAR_TAG then
        rbind (get_index bytes at) (\<lambda>(code, at).
          if char_ok code then Ok (DChar code, at) else Err MalformedVarint)
      else if tag = STRING_TAG then rbind (get_str bytes at) (\<lambda>(str, at). Ok (DString str, at))
      else if tag = RANGE_TAG then
        rbind (get_int b bytes at) (\<lambda>(start, at).
        rbind (get_int b bytes at) (\<lambda>(stop, at). Ok (DRange start stop, at)))
      else if tag = RANGE_INCLUSIVE_TAG then
        rbind (get_int b bytes at) (\<lambda>(start, at).
        rbind (get_int b bytes at) (\<lambda>(stop, at). Ok (DRangeInclusive start stop, at)))
      else if tag = BLOB_TAG \<and> \<not> no_index (b_features b) then
        rbind (uvarint bytes at) (\<lambda>(len, at).
        rbind (take_bytes (unat len) bytes at) (\<lambda>(slice, at). Ok (DBlob slice, at)))
      else Err (UnknownTag ''constant'' tag))"

text \<open>
  \<open>get_constant\<close> counts the depth up and stops past \<open>MAX_CONSTANT_DEPTH\<close>; here the argument is
  what is left of it, so depth \<open>d\<close> is \<open>MAX_CONSTANT_DEPTH + 1 - d\<close>.
\<close>

fun get_constant :: "build \<Rightarrow> nat \<Rightarrow> u8 list \<Rightarrow> nat \<Rightarrow> read_error + dynamic \<times> nat" where
  "get_constant b 0 bytes at = Err ConstantTooDeep"
| "get_constant b (Suc left) bytes at =
     rbind (get_byte bytes at) (\<lambda>(tag, at).
       if tag = ARRAY_TAG \<and> \<not> no_index (b_features b) then
         rbind (uvarint bytes at) (\<lambda>(n, at).
         rbind (repeat_get (unat n) (get_constant b left) bytes at) (\<lambda>(items, at).
           Ok (DArray items, at)))
       else if tag = MAP_TAG \<and> \<not> no_object (b_features b) then
         rbind (uvarint bytes at) (\<lambda>(n, at).
         rbind (repeat_get (unat n) (\<lambda>bytes at.
             rbind (get_str bytes at) (\<lambda>(key, at).
             rbind (get_constant b left bytes at) (\<lambda>(item, at). Ok ((key, item), at)))) bytes at)
           (\<lambda>(pairs, at).
             Ok (DMap (fold (\<lambda>(key, item) m. map_insert key item m) pairs []), at)))
       else get_leaf b tag bytes at)"

definition get_constant_at_0 :: "build \<Rightarrow> u8 list \<Rightarrow> nat \<Rightarrow> read_error + dynamic \<times> nat" where
  "get_constant_at_0 b bytes at = get_constant b (MAX_CONSTANT_DEPTH + 1) bytes at"

section \<open>What a constant is\<close>

text \<open>How deep a constant nests; a value with no items nests 0 deep.\<close>

fun nesting :: "dynamic \<Rightarrow> nat" where
  "nesting (DArray items) = (if items = [] then 0 else Suc (Max (nesting ` set items)))"
| "nesting (DMap m) = (if m = [] then 0 else Suc (Max ((\<lambda>e. nesting (snd e)) ` set m)))"
| "nesting _ = 0"

text \<open>
  The values a build can hold: integers of its \<open>INT\<close>, floats of its \<open>FLOAT\<close>, text that is UTF-8,
  maps in key order, lengths below \<open>2 ^ 64\<close>.
\<close>

fun constant_ok :: "build \<Rightarrow> dynamic \<Rightarrow> bool" where
  "constant_ok b (DInt n) = int_ok b n"
| "constant_ok b (DFloat bits) = (\<not> no_float (b_features b) \<and> length bits = unat (b_float_size b))"
| "constant_ok b (DDecimal mantissa scale) =
     (decimal (b_features b) \<and> b_decimal_ok b mantissa scale)"
| "constant_ok b (DChar code) = char_ok code"
| "constant_ok b (DString str) = str_ok str"
| "constant_ok b (DArray items) =
     (\<not> no_index (b_features b) \<and> length items < 2 ^ 64 \<and> (\<forall>item \<in> set items. constant_ok b item))"
| "constant_ok b (DMap m) =
     (\<not> no_object (b_features b) \<and> length m < 2 ^ 64 \<and> sorted_wrt (<) (map fst m) \<and>
      (\<forall>e \<in> set m. str_ok (fst e) \<and> constant_ok b (snd e)))"
| "constant_ok b (DBlob bs) = (\<not> no_index (b_features b) \<and> length bs < 2 ^ 64)"
| "constant_ok b (DRange start stop) = (int_ok b start \<and> int_ok b stop)"
| "constant_ok b (DRangeInclusive start stop) = (int_ok b start \<and> int_ok b stop)"
| "constant_ok b (DOther _) = True"
| "constant_ok b DUnit = True"
| "constant_ok b (DBool _) = True"

section \<open>Reading what was written\<close>

lemma map_insert_last:
  "sorted_wrt (<) (map fst m @ [key]) \<Longrightarrow> map_insert key item m = m @ [(key, item)]"
  by (induction m) (auto simp: not_less_iff_gr_or_eq dest: order.asym)

lemma fold_map_insert:
  "sorted_wrt (<) (map fst (m @ m')) \<Longrightarrow> fold (\<lambda>(key, item) m. map_insert key item m) m' m = m @ m'"
proof (induction m' arbitrary: m)
  case (Cons e m')
  obtain key item where e: "e = (key, item)" by (cases e)
  from Cons.prems e have "map_insert key item m = m @ [(key, item)]"
    by (intro map_insert_last) (auto simp: sorted_wrt_append)
  with Cons.IH [of "m @ [(key, item)]"] Cons.prems e show ?case by simp
qed simp

lemma put_leaf_head:
  "put_constant c = Ok out \<Longrightarrow> (case c of DArray _ \<Rightarrow> False | DMap _ \<Rightarrow> False | _ \<Rightarrow> True) \<Longrightarrow>
   \<exists>tag rest. out = tag # rest \<and> tag \<noteq> ARRAY_TAG \<and> tag \<noteq> MAP_TAG"
  by (cases c) (auto simp: constant_tags)

lemma get_leaf_put:
  assumes "put_constant c = Ok out" and "constant_ok b c" and "written bytes at out"
    and "case c of DArray _ \<Rightarrow> False | DMap _ \<Rightarrow> False | _ \<Rightarrow> True"
  shows "rbind (get_byte bytes at) (\<lambda>(tag, at). get_leaf b tag bytes at) = Ok (c, at + length out)"
proof (cases c)
  case (DFloat bits)
  with assms have "written bytes at [FLOAT_TAG]" "written bytes (at + 1) bits"
    by (auto simp: wire_simps simp del: append_Cons)
  then show ?thesis
    using assms DFloat take_written [of bytes "at + 1" bits]
    by (auto simp: bytec.get_written get_leaf_def constant_tags simp del: append_Cons)
next
  case (DDecimal mantissa scale)
  let ?out = "le_bytes 16 mantissa @ le_bytes 4 scale"
  from assms DDecimal have "written bytes at [DECIMAL_TAG]" "written bytes (at + 1) ?out"
    by (auto simp: wire_simps simp del: append_Cons)
  moreover have "of_le_bytes (take 16 ?out) = mantissa" "of_le_bytes (drop 16 ?out) = scale"
    by (simp_all add: of_le_bytes)
  ultimately show ?thesis
    using assms DDecimal take_written [of bytes "at + 1" ?out 20]
    by (auto simp: bytec.get_written get_leaf_def constant_tags Let_def simp del: append_Cons)
next
  case (DArray items)
  with assms(4) show ?thesis by simp
next
  case (DMap m)
  with assms(4) show ?thesis by simp
next
  case (DOther type_name)
  with assms(1) show ?thesis by simp
qed (use assms(1-3) in \<open>auto simp: wire_simps get_leaf_def constant_tags put_range_def put_len_def
      unat_of_nat64 simp del: append_Cons\<close>)

text \<open>
  The loops over items and entries, as one loop over a writer that can fail; and a counted reader
  over what it wrote, when the reader of an item either returns it or stops with the error \<open>e\<close>.
\<close>

fun put_all :: "('a \<Rightarrow> 'f + u8 list) \<Rightarrow> 'a list \<Rightarrow> 'f + u8 list" where
  "put_all put [] = Ok []"
| "put_all put (x # xs) = rbind (put x) (\<lambda>out. rbind (put_all put xs) (\<lambda>rest. Ok (out @ rest)))"

definition put_entry :: "u8 list \<times> dynamic \<Rightarrow> string + u8 list" where
  "put_entry e = rbind (put_constant (snd e)) (\<lambda>out. Ok (put_str (fst e) @ out))"

lemma put_items_all: "put_items items = put_all put_constant items"
  by (induction items) simp_all

lemma put_entries_all: "put_entries m = put_all put_entry m"
  by (induction m) (auto simp: put_entry_def rbind_assoc)

lemma repeat_get_all:
  assumes "\<And>x out bytes at. x \<in> set xs \<Longrightarrow> put x = Inr out \<Longrightarrow> written bytes at out \<Longrightarrow>
      get bytes at = (if good x then Ok (x, at + length out) else Err e)"
    and "put_all put xs = Inr out" and "written bytes at out"
  shows "repeat_get (length xs) get bytes at =
    (if \<forall>x\<in>set xs. good x then Ok (xs, at + length out) else Err e)"
  using assms
proof (induction xs arbitrary: out "at")
  case (Cons x xs)
  from Cons.prems(2) obtain o1 o2 where o: "put x = Inr o1" "put_all put xs = Inr o2" "out = o1 @ o2"
    by (auto simp: rbind_eq_Ok)
  with Cons.prems(3) have w: "written bytes at o1" "written bytes (at + length o1) o2"
    by (simp_all add: written_append)
  have "get bytes at = (if good x then Ok (x, at + length o1) else Err e)"
    using o(1) w(1) by (intro Cons.prems(1)) simp_all
  moreover have "repeat_get (length xs) get bytes (at + length o1) =
      (if \<forall>x\<in>set xs. good x then Ok (xs, at + length o1 + length o2) else Err e)"
    using o(2) w(2) Cons.prems(1) by (intro Cons.IH) simp_all
  ultimately show ?case using o(3) by simp
qed simp

text \<open>The reader of an entry of a map, as \<open>get_constant\<close> has it.\<close>

definition get_entry :: "build \<Rightarrow> nat \<Rightarrow> u8 list \<Rightarrow> nat \<Rightarrow> read_error + (u8 list \<times> dynamic) \<times> nat" where
  "get_entry b left bytes at =
     rbind (get_str bytes at) (\<lambda>(key, at).
     rbind (get_constant b left bytes at) (\<lambda>(item, at). Ok ((key, item), at)))"

lemma get_constant_Suc:
  "get_constant b (Suc left) bytes at =
     rbind (get_byte bytes at) (\<lambda>(tag, at).
       if tag = ARRAY_TAG \<and> \<not> no_index (b_features b) then
         rbind (uvarint bytes at) (\<lambda>(n, at).
         rbind (repeat_get (unat n) (get_constant b left) bytes at) (\<lambda>(items, at).
           Ok (DArray items, at)))
       else if tag = MAP_TAG \<and> \<not> no_object (b_features b) then
         rbind (uvarint bytes at) (\<lambda>(n, at).
         rbind (repeat_get (unat n) (get_entry b left) bytes at) (\<lambda>(pairs, at).
             Ok (DMap (fold (\<lambda>(key, item) m. map_insert key item m) pairs []), at)))
       else get_leaf b tag bytes at)"
  by (simp only: get_constant.simps(2) get_entry_def [abs_def])

declare get_constant.simps(2) [simp del]

lemma nesting_array: "nesting (DArray items) < Suc left \<longleftrightarrow> (\<forall>c\<in>set items. nesting c < left)"
  by (cases items) auto

lemma nesting_map: "nesting (DMap m) < Suc left \<longleftrightarrow> (\<forall>e\<in>set m. nesting (snd e) < left)"
  by (cases m) auto

lemma counted_section:
  assumes "written bytes at ([tag] @ put_len n @ out)" and "n < 2 ^ 64"
  obtains at' where "get_byte bytes at = Ok (tag, at + 1)"
    "uvarint bytes (at + 1) = Ok (of_nat n, at')" "written bytes at' out"
    "at' + length out = at + length ([tag] @ put_len n @ out)" "unat (of_nat n :: u64) = n"
proof -
  from assms(1) have w: "written bytes at [tag]" "written bytes (at + 1) (put_len n)"
    "written bytes (at + 1 + length (put_len n)) out"
    by (simp_all only: written_append length_Cons list.size(3)) simp_all
  from w(1) have "get_byte bytes at = Ok (tag, at + 1)" using bytec.get_written by fastforce
  moreover from w(2) have "uvarint bytes (at + 1) = Ok (of_nat n, at + 1 + length (put_len n))"
    by (simp add: put_len_def uvc.get_written)
  ultimately show thesis using w(3) assms(2) by (intro that) (simp_all add: unat_of_nat64)
qed

lemma get_byte_written: "written bytes at (tag # rest) \<Longrightarrow> get_byte bytes at = Ok (tag, at + 1)"
  using written_append [of bytes "at" "[tag]" rest] bytec.get_written [of bytes "at" tag]
  by simp

lemma get_constant_leaf:
  assumes "put_constant c = Ok out" and "constant_ok b c" and "written bytes at out"
    and leaf: "case c of DArray _ \<Rightarrow> False | DMap _ \<Rightarrow> False | _ \<Rightarrow> True"
  shows "get_constant b (Suc left) bytes at = Ok (c, at + length out) \<and> nesting c = 0"
proof
  from put_leaf_head [OF assms(1) leaf] obtain tag rest where
    tag: "out = tag # rest" "tag \<noteq> ARRAY_TAG" "tag \<noteq> MAP_TAG" by blast
  with assms(3) have byte: "get_byte bytes at = Ok (tag, at + 1)" by (simp add: get_byte_written)
  with get_leaf_put [OF assms] have "get_leaf b tag bytes (at + 1) = Ok (c, at + length out)" by simp
  with byte tag show "get_constant b (Suc left) bytes at = Ok (c, at + length out)"
    by (simp add: get_constant_Suc)
  from leaf show "nesting c = 0" by (cases c) simp_all
qed

lemma get_constant_put:
  "put_constant c = Ok out \<Longrightarrow> constant_ok b c \<Longrightarrow> written bytes at out \<Longrightarrow>
   get_constant b left bytes at =
     (if nesting c < left then Ok (c, at + length out) else Err ConstantTooDeep)"
proof (induction left arbitrary: c out bytes "at")
  case (Suc left)
  show ?case
  proof (cases c)
    case (DArray items)
    from Suc.prems(1) DArray obtain rest where rest: "put_all put_constant items = Ok rest"
      and out: "out = [ARRAY_TAG] @ put_len (length items) @ rest"
      by (auto simp: put_items_all rbind_eq_Ok)
    from Suc.prems(2) DArray have ok: "length items < 2 ^ 64" "\<not> no_index (b_features b)"
      "\<forall>c\<in>set items. constant_ok b c" by simp_all
    from Suc.prems(3) [unfolded out] ok(1) obtain at' where
      at': "get_byte bytes at = Ok (ARRAY_TAG, at + 1)"
      "uvarint bytes (at + 1) = Ok (of_nat (length items), at')" "written bytes at' rest"
      "at' + length rest = at + length out" "unat (of_nat (length items) :: u64) = length items"
      unfolding out by (rule counted_section)
    have "repeat_get (length items) (get_constant b left) bytes at' =
        (if \<forall>c\<in>set items. nesting c < left then Ok (items, at' + length rest) else Err ConstantTooDeep)"
      by (intro repeat_get_all [OF _ rest at'(3)] Suc.IH; use ok(3) in simp)
    with at' ok(2) DArray show ?thesis
      unfolding get_constant_Suc DArray nesting_array by simp
  next
    case (DMap m)
    from Suc.prems(1) DMap obtain rest where rest: "put_all put_entry m = Ok rest"
      and out: "out = [MAP_TAG] @ put_len (length m) @ rest"
      by (auto simp: put_entries_all rbind_eq_Ok)
    from Suc.prems(2) DMap have ok: "length m < 2 ^ 64" "\<not> no_object (b_features b)"
      "sorted_wrt (<) (map fst m)" "\<forall>e\<in>set m. str_ok (fst e) \<and> constant_ok b (snd e)" by simp_all
    from Suc.prems(3) [unfolded out] ok(1) obtain at' where
      at': "get_byte bytes at = Ok (MAP_TAG, at + 1)"
      "uvarint bytes (at + 1) = Ok (of_nat (length m), at')" "written bytes at' rest"
      "at' + length rest = at + length out" "unat (of_nat (length m) :: u64) = length m"
      unfolding out by (rule counted_section)
    have "repeat_get (length m) (get_entry b left) bytes at' =
        (if \<forall>e\<in>set m. nesting (snd e) < left then Ok (m, at' + length rest) else Err ConstantTooDeep)"
    proof (rule repeat_get_all [OF _ rest at'(3)])
      fix e o1 bytes "at"
      assume e: "e \<in> set m" "put_entry e = Ok o1" "written bytes at o1"
      then obtain o2 where o2: "put_constant (snd e) = Ok o2" "o1 = put_str (fst e) @ o2"
        by (auto simp: put_entry_def rbind_eq_Ok)
      with e(3) have w: "written bytes at (put_str (fst e))"
        "written bytes (at + length (put_str (fst e))) o2" by (simp_all add: written_append)
      with e(1) ok(4) Suc.IH [OF o2(1) _ w(2)] strc.get_written [OF w(1)] o2(2)
      show "get_entry b left bytes at =
          (if nesting (snd e) < left then Ok (e, at + length o1) else Err ConstantTooDeep)"
        by (cases e) (auto simp: get_entry_def)
    qed
    moreover have "fold (\<lambda>(key, item) m. map_insert key item m) m [] = m"
      using fold_map_insert [of "[]" m] ok(3) by simp
    moreover have "MAP_TAG \<noteq> ARRAY_TAG" by (simp add: constant_tags)
    ultimately show ?thesis using at' ok(2)
      unfolding get_constant_Suc DMap nesting_map by simp
  qed (use get_constant_leaf [OF Suc.prems] in simp_all)
qed simp

section \<open>Properties\<close>

text \<open>
  C39. Reading a constant where it was written gives the constant back and leaves the cursor behind
  it, up to the nesting the reader admits; a constant that nests deeper is written all the same
  and refused with \<open>ConstantTooDeep\<close> wherever it is read.
\<close>

theorem constant_roundtrip:
  assumes "put_constant c = Ok out" and "constant_ok b c"
  shows "get_constant_at_0 b (pre @ out @ post) (length pre) =
    (if nesting c \<le> MAX_CONSTANT_DEPTH then Ok (c, length pre + length out) else Err ConstantTooDeep)"
  using get_constant_put [OF assms written_in_place, of "MAX_CONSTANT_DEPTH + 1" pre post]
  by (simp add: get_constant_at_0_def less_Suc_eq_le)

theorem constant_roundtrip_witness:
  "get_constant_at_0 \<lparr>b_features = full_features, b_int_size = 8, b_float_size = 8, b_probe = 0,
      b_hash_int = (\<lambda>_. 0), b_decimal_ok = (\<lambda>_ _. False), b_token_debug = (\<lambda>_. [])\<rparr>
     ([9] @ [ARRAY_TAG, 2, TRUE_TAG, UNIT_TAG] @ [7]) (length [9 :: u8]) =
   Ok (DArray [DBool True, DUnit], 5)"
proof -
  have "put_constant (DArray [DBool True, DUnit]) = Ok [ARRAY_TAG, 2, TRUE_TAG, UNIT_TAG]"
    by (simp add: put_len_def put_uvarint.simps)
  from constant_roundtrip [OF this, of "\<lparr>b_features = full_features, b_int_size = 8,
      b_float_size = 8, b_probe = 0, b_hash_int = (\<lambda>_. 0), b_decimal_ok = (\<lambda>_ _. False), b_token_debug = (\<lambda>_. [])\<rparr>" "[9]" "[7]"]
  show ?thesis by (simp add: full_features_def MAX_CONSTANT_DEPTH_def)
qed

end
