(* ===== verification/Sections.thy ===== *)
theory Sections
  imports Constants
begin

text \<open>
  The sections of an artifact (\<open>src/grain/format/write.rs\<close>, \<open>src/grain/format/read.rs\<close>): operator
  tokens, op-assignments, chains, switch tables, chunks and functions, each with its writer and
  its reader in the order of the fields on the wire.
\<close>

section \<open>Sections\<close>

text \<open>\<open>put_uvarint(out, xs.len()); for x in xs { put(out, x) }\<close> and its reader.\<close>

definition put_section :: "('a \<Rightarrow> u8 list) \<Rightarrow> 'a list \<Rightarrow> u8 list" where
  "put_section put xs = put_len (length xs) @ concat (map put xs)"

definition get_section ::
  "(u8 list \<Rightarrow> nat \<Rightarrow> read_error + 'a \<times> nat) \<Rightarrow> u8 list \<Rightarrow> nat \<Rightarrow> read_error + 'a list \<times> nat" where
  "get_section get bytes at =
     rbind (uvarint bytes at) (\<lambda>(n, at). repeat_get (unat n) get bytes at)"

lemma section_codec:
  assumes "codec put get valid"
  shows "codec (put_section put) (get_section get) (\<lambda>xs. length xs < 2 ^ 64 \<and> list_all valid xs)"
proof (rule codecI)
  fix xs bytes "at"
  assume xs: "length xs < 2 ^ 64 \<and> list_all valid xs" and "written bytes at (put_section put xs)"
  then have "written bytes at (put_uvarint (of_nat (length xs)))"
    "written bytes (at + length (put_len (length xs))) (concat (map put xs))"
    by (simp_all add: put_section_def put_len_def written_append)
  with xs codec.repeat_get_written [OF assms, where xs = xs]
  show "get_section get bytes at = Ok (xs, at + length (put_section put xs))"
    by (simp add: get_section_def put_section_def put_len_def uvc.get_written unat_of_nat64)
qed

section \<open>Operator tokens\<close>

text \<open>\<open>WriteError\<close>; \<open>WritePanic\<close> is the panic of \<open>literal_syntax\<close>.\<close>

datatype write_error =
    HasResiduals nat string position | HasScriptFunctions | UnserializableConstant nat string
  | AmbiguousToken string | WritePanic

text \<open>A piece of syntax as the bytes it is written in, and back.\<close>

definition bytes_of :: "string \<Rightarrow> u8 list" where
  "bytes_of s = map (\<lambda>c. word_of_nat (of_char c)) s"

definition text_of :: "u8 list \<Rightarrow> string" where
  "text_of bs = map (\<lambda>b. char_of (unat b)) bs"

definition put_token :: "build \<Rightarrow> token \<Rightarrow> write_error + u8 list" where
  "put_token b t =
     (if \<not> is_literal t then Err (AmbiguousToken (b_token_debug b t))
      else rbind (ok_or WritePanic (literal_syntax t)) (\<lambda>syntax.
        if lookup_symbol_from_syntax (b_features b) syntax \<noteq> Some t then Err (AmbiguousToken syntax)
        else Ok (put_str (bytes_of syntax))))"

definition get_token :: "build \<Rightarrow> u8 list \<Rightarrow> nat \<Rightarrow> read_error + token \<times> nat" where
  "get_token b bytes at =
     rbind (get_str bytes at) (\<lambda>(syntax, at).
     rbind (ok_or (UnknownToken (text_of syntax))
         (lookup_symbol_from_syntax (b_features b) (text_of syntax))) (\<lambda>t. Ok (t, at)))"

text \<open>\<open>AssignOp\<close> of \<open>src/grain/bytecode/op.rs\<close> and its constructor.\<close>

record assign_op =
  op_assign :: token
  op_assign_name :: u32
  op_token :: token
  op_name :: u32
  assign_kind :: "bin_op_kind option"

definition new_assign_op :: "token \<Rightarrow> u32 \<Rightarrow> token \<Rightarrow> u32 \<Rightarrow> assign_op" where
  "new_assign_op t tn p pn =
     \<lparr>op_assign = t, op_assign_name = tn, op_token = p, op_name = pn, assign_kind = kind_of_assign t\<rparr>"

definition put_assign_op :: "build \<Rightarrow> assign_op \<Rightarrow> write_error + u8 list" where
  "put_assign_op b e =
     rbind (put_token b (op_assign e)) (\<lambda>assign.
     rbind (put_token b (op_token e)) (\<lambda>plain.
       Ok (assign @ put_num (op_assign_name e) @ plain @ put_num (op_name e))))"

definition get_assign_op :: "build \<Rightarrow> u8 list \<Rightarrow> nat \<Rightarrow> read_error + assign_op \<times> nat" where
  "get_assign_op b bytes at =
     rbind (get_token b bytes at) (\<lambda>(t, at).
     rbind (get_index bytes at) (\<lambda>(tn, at).
     rbind (get_token b bytes at) (\<lambda>(p, at).
     rbind (get_index bytes at) (\<lambda>(pn, at). Ok (new_assign_op t tn p pn, at)))))"

section \<open>Chains\<close>

definition put_position :: "bool \<Rightarrow> position \<Rightarrow> u8 list" where
  "put_position keep pos =
     (let (ln, col) =
        (if keep then (unwrap_or_0 (get_line pos), unwrap_or_0 (get_position pos)) else (0, 0))
      in put_len ln @ put_len col)"

definition get_pos :: "u8 list \<Rightarrow> nat \<Rightarrow> read_error + position \<times> nat" where
  "get_pos bytes at =
     rbind (get_small bytes at) (\<lambda>(ln, at).
     rbind (get_small bytes at) (\<lambda>(col, at).
       Ok (if ln = 0 then NONE else \<lparr>pline = ln, ppos = col\<rparr>, at)))"

definition ROOT_LOCAL :: u8 where "ROOT_LOCAL = 0x01"
definition ROOT_TEMPORARY :: u8 where "ROOT_TEMPORARY = 0x02"
definition ROOT_NAMED :: u8 where "ROOT_NAMED = 0x03"
definition ROOT_THIS :: u8 where "ROOT_THIS = 0x04"
definition STEP_INDEX :: u8 where "STEP_INDEX = 0x01"
definition STEP_PROPERTY :: u8 where "STEP_PROPERTY = 0x02"
definition STEP_METHOD :: u8 where "STEP_METHOD = 0x03"
definition TAIL_READ :: u8 where "TAIL_READ = 0x01"
definition TAIL_ASSIGN :: u8 where "TAIL_ASSIGN = 0x02"
definition TAIL_ASSIGN_OP :: u8 where "TAIL_ASSIGN_OP = 0x03"

lemmas chain_tags =
  ROOT_LOCAL_def ROOT_TEMPORARY_def ROOT_NAMED_def ROOT_THIS_def STEP_INDEX_def STEP_PROPERTY_def
  STEP_METHOD_def TAIL_READ_def TAIL_ASSIGN_def TAIL_ASSIGN_OP_def

definition put_root :: "bool \<Rightarrow> root \<Rightarrow> u8 list" where
  "put_root keep r = (case r of
       LocalRoot slot name \<Rightarrow> [ROOT_LOCAL] @ put_num slot @ put_num name
     | NamedRoot name pos \<Rightarrow> [ROOT_NAMED] @ put_num name @ put_position keep pos
     | ThisRoot pos \<Rightarrow> [ROOT_THIS] @ put_position keep pos
     | Temporary \<Rightarrow> [ROOT_TEMPORARY])"

definition put_step :: "bool \<Rightarrow> step \<Rightarrow> u8 list" where
  "put_step keep s = (case s of
       Index operand flags pos bracket \<Rightarrow>
         [STEP_INDEX] @ [flags] @ put_num operand @ put_position keep pos @ put_position keep bracket
     | Property name getter setter flags pos \<Rightarrow>
         [STEP_PROPERTY] @ [flags] @ put_num name @ put_num getter @ put_num setter
           @ put_position keep pos
     | Method name argc operand flags pos \<Rightarrow>
         [STEP_METHOD] @ [flags] @ put_num name @ [argc] @ put_num operand @ put_position keep pos)"

definition put_tail :: "tail \<Rightarrow> u8 list" where
  "put_tail t = (case t of
       Read \<Rightarrow> [TAIL_READ]
     | Assign None \<Rightarrow> [TAIL_ASSIGN]
     | Assign (Some operator) \<Rightarrow> [TAIL_ASSIGN_OP] @ put_num operator)"

definition put_chain_spec :: "bool \<Rightarrow> chain \<Rightarrow> u8 list" where
  "put_chain_spec keep c =
     put_root keep (root c) @ put_num (operands c) @ put_section (put_step keep) (steps c)
     @ put_tail (tail c)"

definition get_root :: "u8 list \<Rightarrow> nat \<Rightarrow> read_error + root \<times> nat" where
  "get_root bytes at =
     rbind (get_byte bytes at) (\<lambda>(tag, at).
       if tag = ROOT_LOCAL then
         rbind (get_small bytes at) (\<lambda>(slot, at).
         rbind (get_index bytes at) (\<lambda>(name, at). Ok (LocalRoot slot name, at)))
       else if tag = ROOT_NAMED then
         rbind (get_index bytes at) (\<lambda>(name, at).
         rbind (get_pos bytes at) (\<lambda>(pos, at). Ok (NamedRoot name pos, at)))
       else if tag = ROOT_THIS then
         rbind (get_pos bytes at) (\<lambda>(pos, at). Ok (ThisRoot pos, at))
       else if tag = ROOT_TEMPORARY then Ok (Temporary, at)
       else Err (UnknownTag ''chain root'' tag))"

text \<open>\<open>StepFlags::from_bits\<close>: no bit but \<open>SKIP_IF_UNIT\<close>.\<close>

definition flags_from_bits :: "u8 \<Rightarrow> step_flags option" where
  "flags_from_bits bits = (if bits AND NOT SKIP_IF_UNIT = 0 then Some bits else None)"

definition get_step :: "u8 list \<Rightarrow> nat \<Rightarrow> read_error + step \<times> nat" where
  "get_step bytes at =
     rbind (get_byte bytes at) (\<lambda>(tag, at).
     rbind (get_byte bytes at) (\<lambda>(bits, at).
     rbind (ok_or (UnknownTag ''chain step flags'' bits) (flags_from_bits bits)) (\<lambda>flags.
       if tag = STEP_INDEX then
         rbind (get_small bytes at) (\<lambda>(operand, at).
         rbind (get_pos bytes at) (\<lambda>(pos, at).
         rbind (get_pos bytes at) (\<lambda>(bracket, at). Ok (Index operand flags pos bracket, at))))
       else if tag = STEP_PROPERTY then
         rbind (get_index bytes at) (\<lambda>(name, at).
         rbind (get_index bytes at) (\<lambda>(getter, at).
         rbind (get_index bytes at) (\<lambda>(setter, at).
         rbind (get_pos bytes at) (\<lambda>(pos, at). Ok (Property name getter setter flags pos, at)))))
       else if tag = STEP_METHOD then
         rbind (get_index bytes at) (\<lambda>(name, at).
         rbind (get_byte bytes at) (\<lambda>(argc, at).
         rbind (get_small bytes at) (\<lambda>(operand, at).
         rbind (get_pos bytes at) (\<lambda>(pos, at). Ok (Method name argc operand flags pos, at)))))
       else Err (UnknownTag ''chain step'' tag))))"

definition get_tail :: "u8 list \<Rightarrow> nat \<Rightarrow> read_error + tail \<times> nat" where
  "get_tail bytes at =
     rbind (get_byte bytes at) (\<lambda>(tag, at).
       if tag = TAIL_READ then Ok (Read, at)
       else if tag = TAIL_ASSIGN then Ok (Assign None, at)
       else if tag = TAIL_ASSIGN_OP then
         rbind (get_index bytes at) (\<lambda>(operator, at). Ok (Assign (Some operator), at))
       else Err (UnknownTag ''chain tail'' tag))"

definition get_chain :: "u8 list \<Rightarrow> nat \<Rightarrow> read_error + chain \<times> nat" where
  "get_chain bytes at =
     rbind (get_root bytes at) (\<lambda>(r, at).
     rbind (get_small bytes at) (\<lambda>(n, at).
     rbind (get_section get_step bytes at) (\<lambda>(ss, at).
     rbind (get_tail bytes at) (\<lambda>(t, at).
       Ok (\<lparr>root = r, steps = ss, tail = t, operands = n\<rparr>, at)))))"

section \<open>Switch tables\<close>

definition put_case :: "switch_case \<Rightarrow> u8 list" where
  "put_case c = le_bytes 8 (case_hash c) @ put_num (case_goto c)"

definition put_switch_range :: "switch_range \<Rightarrow> u8 list" where
  "put_switch_range r = put_int (range_from r) @ put_int (range_to r)
     @ [if inclusive r then 1 else 0] @ put_num (range_goto r)"

definition put_switch :: "switch \<Rightarrow> u8 list" where
  "put_switch s = put_section put_case (switch_cases s)
     @ put_section put_switch_range (switch_ranges s) @ put_num (switch_default s)"

definition put_switches :: "build \<Rightarrow> switch list \<Rightarrow> u8 list" where
  "put_switches b ss =
     put_len (length ss)
     @ (if ss = [] then [] else le_bytes 8 (b_probe b) @ concat (map put_switch ss))"

definition get_case :: "u8 list \<Rightarrow> nat \<Rightarrow> read_error + switch_case \<times> nat" where
  "get_case bytes at =
     rbind (get_le 8 bytes at) (\<lambda>(hash, at).
     rbind (get_index bytes at) (\<lambda>(t, at). Ok (\<lparr>case_hash = hash, case_goto = t\<rparr>, at)))"

definition get_range :: "build \<Rightarrow> u8 list \<Rightarrow> nat \<Rightarrow> read_error + switch_range \<times> nat" where
  "get_range b bytes at =
     rbind (get_int b bytes at) (\<lambda>(from, at).
     rbind (get_int b bytes at) (\<lambda>(to, at).
     rbind (get_byte bytes at) (\<lambda>(incl, at).
     rbind (get_index bytes at) (\<lambda>(t, at).
       Ok (\<lparr>range_from = from, range_to = to, inclusive = (incl \<noteq> 0), range_goto = t\<rparr>, at)))))"

text \<open>
  One table. \<open>Switch::new\<close> always answers (\<open>new_switch_total\<close> below), and \<open>sort_by_key\<close> is stable,
  as \<open>sort_key\<close> is.
\<close>

definition get_switch :: "build \<Rightarrow> u8 list \<Rightarrow> nat \<Rightarrow> read_error + switch \<times> nat" where
  "get_switch b bytes at =
     rbind (get_section get_case bytes at) (\<lambda>(cs, at).
     rbind (get_section (get_range b) bytes at) (\<lambda>(rs, at).
     rbind (get_index bytes at) (\<lambda>(d, at).
       Ok (the (new_switch (b_hash_int b) (sort_key case_hash cs) rs d), at))))"

definition get_switches :: "build \<Rightarrow> u8 list \<Rightarrow> nat \<Rightarrow> read_error + switch list \<times> nat" where
  "get_switches b bytes at =
     rbind (uvarint bytes at) (\<lambda>(n, at).
       if n = 0 then Ok ([], at)
       else
       rbind (get_le 8 bytes at) (\<lambda>(artifact, at).
         if artifact \<noteq> b_probe b then Err (HashSeedMismatch artifact (b_probe b))
         else repeat_get (unat n) (get_switch b) bytes at))"

lemma new_switch_total: "new_switch h cs rs d \<noteq> None"
  using new_switch_indexed [of h cs rs d] by auto

section \<open>Chunks and functions\<close>

definition put_chunk :: "chunk \<Rightarrow> u8 list" where
  "put_chunk c = put_num (entry c) @ put_num (chunk_end c) @ put_num (max_stack c)"

definition get_chunk :: "u8 list \<Rightarrow> nat \<Rightarrow> read_error + chunk \<times> nat" where
  "get_chunk bytes at =
     rbind (get_index bytes at) (\<lambda>(e, at).
     rbind (get_index bytes at) (\<lambda>(stop, at).
     rbind (get_small bytes at) (\<lambda>(n, at).
       Ok (\<lparr>entry = e, chunk_end = stop, max_stack = n\<rparr>, at))))"

definition put_function :: "func \<Rightarrow> u8 list" where
  "put_function f =
     put_num (func_name f)
     @ put_uvarint (case this_type f of None \<Rightarrow> 0 | Some t \<Rightarrow> ucast t + 1)
     @ put_section put_num (params f) @ put_chunk (func_chunk f)"

definition get_function :: "u8 list \<Rightarrow> nat \<Rightarrow> read_error + func \<times> nat" where
  "get_function bytes at =
     rbind (get_index bytes at) (\<lambda>(name, at).
     rbind (uvarint bytes at) (\<lambda>(raw, at).
     rbind (if raw = 0 then Ok None
       else rbind (ok_or InputTruncated (try_u32 (raw - 1))) (\<lambda>t. Ok (Some t))) (\<lambda>ty.
     rbind (get_section get_index bytes at) (\<lambda>(ps, at).
     rbind (get_chunk bytes at) (\<lambda>(c, at).
       Ok (\<lparr>func_name = name, params = ps, this_type = ty, takes_this = False,
         func_chunk = c\<rparr>, at))))))"

section \<open>Every section reads back\<close>

lemma char_of_byte: "char_of (unat (word_of_nat (of_char c) :: u8)) = c"
proof -
  have "of_char c < (256 :: nat)" by simp
  then show ?thesis by (simp add: unsigned_of_nat take_bit_nat_eq_self)
qed

lemma text_of_bytes_of: "text_of (bytes_of s) = s"
  by (simp add: text_of_def bytes_of_def comp_def char_of_byte)

definition ascii :: "string \<Rightarrow> bool" where
  "ascii s \<longleftrightarrow> list_all (\<lambda>c. of_char c < (128 :: nat)) s"

lemma length_bytes_of [simp]: "length (bytes_of s) = length s"
  by (simp add: bytes_of_def)

lemma utf8_ascii: "ascii s \<Longrightarrow> utf8 (bytes_of s)"
proof (induction s)
  case (Cons c s)
  then have "(word_of_nat (of_char c) :: u8) < 0x80"
    by (simp add: ascii_def word_less_nat_alt unsigned_of_nat take_bit_nat_eq_self)
  then have "scalar_width (bytes_of (c # s)) = Some 1"
    by (simp add: bytes_of_def scalar_width_def scalar_lead_def)
  with Cons show ?case by (simp add: utf8_scalar bytes_of_def ascii_def)
qed (simp add: bytes_of_def)

lemma literal_ascii: "literal_syntax t = Some s \<Longrightarrow> ascii s \<and> length s \<le> 8"
  unfolding literal_syntax_def
  by (simp add: ascii_def split: token.splits symbol.splits operator.splits assignment.splits
      keyword.splits) (auto simp: ascii_def)

text \<open>The tokens the wire carries: symbols of the build other than the unary signs.\<close>

definition token_ok :: "build \<Rightarrow> token \<Rightarrow> bool" where
  "token_ok b t \<longleftrightarrow> (\<exists>s. symbol_of (b_features b) s t)"

lemma put_token_Ok:
  assumes "put_token b t = Ok out"
  obtains s where "symbol_of (b_features b) s t" "out = put_str (bytes_of s)" "str_ok (bytes_of s)"
proof -
  from assms obtain s where s: "literal_syntax t = Some s" "out = put_str (bytes_of s)"
    "lookup_symbol_from_syntax (b_features b) s = Some t"
    by (auto simp: put_token_def rbind_eq_Ok split: if_splits)
  with literal_ascii [OF s(1)] show ?thesis
    by (intro that [of s]) (auto simp: lookup_symbol str_ok_def utf8_ascii)
qed

lemma symbol_is_literal: "symbol_of f s t \<Longrightarrow> is_literal t"
  by (cases t) (auto simp: symbol_of_def is_literal_def literal_syntax_def)

lemma put_token_iff: "(\<exists>out. put_token b t = Ok out) \<longleftrightarrow> token_ok b t"
proof
  assume "token_ok b t"
  then obtain s where s: "symbol_of (b_features b) s t" by (auto simp: token_ok_def)
  then have "literal_syntax t = Some s" by (simp add: symbol_of_def)
  with s show "\<exists>out. put_token b t = Ok out"
    by (auto simp: put_token_def symbol_is_literal [OF s] lookup_symbol)
qed (auto simp: token_ok_def elim: put_token_Ok)

lemma get_token_put:
  assumes "written bytes at out" and "put_token b t = Ok out"
  shows "get_token b bytes at = Ok (t, at + length out)"
  using assms(2)
proof (rule put_token_Ok)
  fix s assume s: "symbol_of (b_features b) s t" "out = put_str (bytes_of s)" "str_ok (bytes_of s)"
  with assms(1) have "get_str bytes at = Ok (bytes_of s, at + length out)"
    by (simp add: strc.get_written)
  moreover from s(1) have "lookup_symbol_from_syntax (b_features b) s = Some t"
    by (simp add: lookup_symbol)
  ultimately show ?thesis by (simp add: get_token_def text_of_bytes_of)
qed

definition assign_op_ok :: "assign_op \<Rightarrow> bool" where
  "assign_op_ok e \<longleftrightarrow> assign_kind e = kind_of_assign (op_assign e)"

lemma get_assign_op_put:
  assumes "put_assign_op b e = Ok out" and "assign_op_ok e" and "written bytes at out"
  shows "get_assign_op b bytes at = Ok (e, at + length out)"
proof -
  from assms(1) obtain o1 o2 where o: "put_token b (op_assign e) = Ok o1"
    "put_token b (op_token e) = Ok o2" "out = o1 @ put_num (op_assign_name e) @ o2 @ put_num (op_name e)"
    by (auto simp: put_assign_op_def rbind_eq_Ok)
  with assms(3) show ?thesis
    by (auto simp: get_assign_op_def written_append get_token_put [OF _ o(1)] get_token_put [OF _ o(2)]
        idxc.get_written new_assign_op_def add.assoc assms(2) [unfolded assign_op_ok_def, symmetric])
qed

definition pos_ok :: "position \<Rightarrow> bool" where
  "pos_ok pos \<longleftrightarrow> pos = NONE \<or> pline pos \<noteq> 0"

lemma put_len_num: "put_len (unat w) = put_num w"
  by (simp add: put_len_def put_num_def)

lemma put_position_True:
  "pos_ok pos \<Longrightarrow> put_position True pos = put_num (pline pos) @ put_num (ppos pos)"
  by (auto simp: put_position_def pos_ok_def get_line_def get_position_def unwrap_or_0_def
      put_len_num NONE_def put_len_def put_num_def)

lemma put_position_False: "put_position False pos = put_position True NONE"
  by (simp add: put_position_def get_line_def get_position_def unwrap_or_0_def)

interpretation posc: codec "put_position True" get_pos pos_ok
proof (rule codecI)
  fix pos bytes "at"
  assume "pos_ok pos" and "written bytes at (put_position True pos)"
  then show "get_pos bytes at = Ok (pos, at + length (put_position True pos))"
    by (auto simp: put_position_True get_pos_def wire_simps pos_ok_def NONE_def)
qed

fun root_ok :: "root \<Rightarrow> bool" where
  "root_ok (NamedRoot _ pos) = pos_ok pos"
| "root_ok (ThisRoot pos) = pos_ok pos"
| "root_ok _ = True"

fun step_ok :: "step \<Rightarrow> bool" where
  "step_ok (Index _ flags pos bracket) = (flags_from_bits flags = Some flags \<and> pos_ok pos \<and> pos_ok bracket)"
| "step_ok (Property _ _ _ flags pos) = (flags_from_bits flags = Some flags \<and> pos_ok pos)"
| "step_ok (Method _ _ _ flags pos) = (flags_from_bits flags = Some flags \<and> pos_ok pos)"

interpretation rootc: codec "put_root True" get_root root_ok
proof (rule codecI)
  fix r bytes "at"
  assume "root_ok r" and "written bytes at (put_root True r)"
  then show "get_root bytes at = Ok (r, at + length (put_root True r))"
    by (cases r; auto simp: put_root_def get_root_def wire_simps posc.get_written chain_tags
        simp del: append_Cons)
qed

interpretation stepc: codec "put_step True" get_step step_ok
proof (rule codecI)
  fix s bytes "at"
  assume "step_ok s" and "written bytes at (put_step True s)"
  then show "get_step bytes at = Ok (s, at + length (put_step True s))"
    by (cases s; auto simp: put_step_def get_step_def wire_simps posc.get_written chain_tags
        simp del: append_Cons)
qed

interpretation tailc: codec put_tail get_tail "\<lambda>_. True"
proof (rule codecI)
  fix t bytes "at"
  assume w: "written bytes at (put_tail t)"
  show "get_tail bytes at = Ok (t, at + length (put_tail t))"
  proof (cases t)
    case Read
    with w show ?thesis by (simp add: put_tail_def get_tail_def get_byte_written)
  next
    case (Assign operator)
    with w show ?thesis
      by (cases operator)
        (auto simp: put_tail_def get_tail_def wire_simps chain_tags simp del: append_Cons)
  qed
qed

interpretation stepsc: codec "put_section (put_step True)" "get_section get_step"
  "\<lambda>ss. length ss < 2 ^ 64 \<and> list_all step_ok ss"
  by (rule section_codec [OF stepc.codec_axioms])

definition chain_ok :: "chain \<Rightarrow> bool" where
  "chain_ok c \<longleftrightarrow> root_ok (root c) \<and> length (steps c) < 2 ^ 64 \<and> list_all step_ok (steps c)"

interpretation chainc: codec "put_chain_spec True" get_chain chain_ok
proof (rule codecI)
  fix c :: chain and bytes "at"
  assume c: "chain_ok c" and "written bytes at (put_chain_spec True c)"
  then have "written bytes at (put_root True (root c) @ put_num (operands c) @
      put_section (put_step True) (steps c) @ put_tail (tail c))"
    by (simp add: put_chain_spec_def)
  with c show "get_chain bytes at = Ok (c, at + length (put_chain_spec True c))"
    by (auto simp: get_chain_def put_chain_spec_def chain_ok_def written_append rootc.get_written
        smallc.get_written stepsc.get_written tailc.get_written add.assoc)
qed

interpretation casec: codec put_case get_case "\<lambda>_. True"
  by (rule codecI) (auto simp: put_case_def get_case_def wire_simps)

definition range_ok :: "build \<Rightarrow> switch_range \<Rightarrow> bool" where
  "range_ok b r \<longleftrightarrow> int_ok b (range_from r) \<and> int_ok b (range_to r)"

interpretation rangec: codec put_switch_range "get_range b" "range_ok b" for b
proof (rule codecI)
  fix r :: switch_range and bytes "at"
  assume r: "range_ok b r" and "written bytes at (put_switch_range r)"
  then have w: "written bytes at (put_int (range_from r))"
    "written bytes (at + length (put_int (range_from r))) (put_int (range_to r))"
    "written bytes (at + length (put_int (range_from r)) + length (put_int (range_to r)))
       ((if inclusive r then 1 else 0) # put_num (range_goto r))"
    by (simp_all add: put_switch_range_def written_append add.assoc)
  then have "written bytes (at + length (put_int (range_from r)) + length (put_int (range_to r)) + 1)
      (put_num (range_goto r))"
    using written_append [of bytes _ "[if inclusive r then 1 else 0]" "put_num (range_goto r)"] by simp
  with w r get_byte_written [OF w(3)]
  show "get_range b bytes at = Ok (r, at + length (put_switch_range r))"
    by (auto simp: get_range_def put_switch_range_def range_ok_def intc.get_written idxc.get_written)
qed

interpretation casesc: codec "put_section put_case" "get_section get_case"
  "\<lambda>cs. length cs < 2 ^ 64 \<and> list_all (\<lambda>_. True) cs"
  by (rule section_codec [OF casec.codec_axioms])

interpretation rangesc: codec "put_section put_switch_range" "get_section (get_range b)"
  "\<lambda>rs. length rs < 2 ^ 64 \<and> list_all (range_ok b) rs" for b
  by (rule section_codec [OF rangec.codec_axioms])

text \<open>
  A table as the compiler makes it: its cases in the order of their hashes, its index and keys
  those that \<open>Switch::new\<close> derives.
\<close>

definition switch_ok :: "build \<Rightarrow> switch \<Rightarrow> bool" where
  "switch_ok b s \<longleftrightarrow> sorted (map case_hash (switch_cases s)) \<and> length (switch_cases s) < 2 ^ 64
     \<and> length (switch_ranges s) < 2 ^ 64 \<and> list_all (range_ok b) (switch_ranges s)
     \<and> new_switch (b_hash_int b) (switch_cases s) (switch_ranges s) (switch_default s) = Some s"

lemma sort_key_sorted: "sorted (map f xs) \<Longrightarrow> sort_key f xs = xs"
  by (induction xs) (simp_all add: insort_is_Cons)

interpretation switchc: codec put_switch "get_switch b" "switch_ok b" for b
proof (rule codecI)
  fix s bytes "at"
  assume s: "switch_ok b s" and "written bytes at (put_switch s)"
  then have w: "written bytes at (put_section put_case (switch_cases s))"
    "written bytes (at + length (put_section put_case (switch_cases s)))
       (put_section put_switch_range (switch_ranges s))"
    "written bytes (at + length (put_section put_case (switch_cases s)) +
       length (put_section put_switch_range (switch_ranges s))) (put_num (switch_default s))"
    by (simp_all add: put_switch_def written_append add.assoc)
  from s have "list_all (\<lambda>_. True) (switch_cases s)" by (simp add: list_all_iff)
  with w s show "get_switch b bytes at = Ok (s, at + length (put_switch s))"
    by (simp add: get_switch_def put_switch_def switch_ok_def casesc.get_written
        rangesc.get_written idxc.get_written sort_key_sorted)
qed

interpretation switchesc: codec "put_switches b" "get_switches b"
  "\<lambda>ss. length ss < 2 ^ 64 \<and> list_all (switch_ok b) ss" for b
proof (rule codecI)
  fix ss bytes "at"
  assume ss: "length ss < 2 ^ 64 \<and> list_all (switch_ok b) ss" and w: "written bytes at (put_switches b ss)"
  show "get_switches b bytes at = Ok (ss, at + length (put_switches b ss))"
  proof (cases "ss = []")
    case True
    with w have "written bytes at (put_uvarint 0)" by (simp add: put_switches_def put_len_def)
    with True show ?thesis
      by (simp add: get_switches_def put_switches_def put_len_def uvc.get_written)
  next
    case False
    with w have "written bytes at (put_uvarint (of_nat (length ss)))"
      "written bytes (at + length (put_len (length ss))) (le_bytes 8 (b_probe b))"
      "written bytes (at + length (put_len (length ss)) + 8) (concat (map put_switch ss))"
      by (simp_all add: put_switches_def put_len_def written_append)
    moreover have "(of_nat (length ss) :: u64) \<noteq> 0"
      using False ss unat_of_nat64 [of "length ss"] by (metis length_0_conv unat_0)
    ultimately show ?thesis
      using False ss switchc.repeat_get_written [of bytes _ ss b]
      by (simp add: get_switches_def put_switches_def put_len_def uvc.get_written
          le64c.get_written unat_of_nat64)
  qed
qed

interpretation chunkc: codec put_chunk get_chunk "\<lambda>_. True"
  by (rule codecI) (auto simp: put_chunk_def get_chunk_def wire_simps)

interpretation indexesc: codec "put_section (put_num :: u32 \<Rightarrow> _)" "get_section get_index"
  "\<lambda>xs. length xs < 2 ^ 64 \<and> list_all (\<lambda>_. True) xs"
  by (rule section_codec [OF idxc.codec_axioms])

text \<open>\<open>takes_this\<close> is not on the wire: the reader leaves it false and \<open>Program::new\<close> derives it.\<close>

definition func_ok :: "func \<Rightarrow> bool" where
  "func_ok f \<longleftrightarrow> length (params f) < 2 ^ 64 \<and> \<not> takes_this f"

lemma type_index:
  "(ucast (t :: u32) + 1 :: u64) \<noteq> 0 \<and> try_u32 ((ucast t + 1 :: u64) - 1) = Some t"
proof -
  have "unat t < 2 ^ LENGTH(32)" by (rule unsigned_less)
  then have "unat (ucast t :: u64) + 1 < 2 ^ LENGTH(64)" by (simp add: ucast_small)
  then have "unat (ucast t + 1 :: u64) = unat t + 1"
    by (simp add: unat_add_lem [THEN iffD1] ucast_small)
  then have "(ucast t + 1 :: u64) \<noteq> 0" by (metis add_is_0 unat_0 zero_neq_one)
  then show ?thesis by (simp add: try_u32_ucast)
qed

interpretation funcc: codec put_function get_function func_ok
proof (rule codecI)
  fix f :: func and bytes "at"
  let ?ty = "put_uvarint (case this_type f of None \<Rightarrow> 0 | Some t \<Rightarrow> ucast t + 1)"
  assume f: "func_ok f" and "written bytes at (put_function f)"
  then have w: "written bytes at (put_num (func_name f))"
    "written bytes (at + length (put_num (func_name f))) ?ty"
    "written bytes (at + length (put_num (func_name f)) + length ?ty) (put_section put_num (params f))"
    "written bytes (at + length (put_num (func_name f)) + length ?ty +
       length (put_section put_num (params f))) (put_chunk (func_chunk f))"
    by (simp_all add: put_function_def written_append add.assoc)
  have "list_all (\<lambda>_. True) (params f)" by (simp add: list_all_iff)
  with w f show "get_function bytes at = Ok (f, at + length (put_function f))"
    by (cases "this_type f")
      (simp_all add: get_function_def put_function_def func_ok_def idxc.get_written
        uvc.get_written indexesc.get_written chunkc.get_written type_index try_u32_ucast)
qed

end
