(* ===== verification/Program.thy ===== *)
theory Program
  imports Sections Soundness
begin

text \<open>
  A compiled program (\<open>src/grain/program.rs\<close>), its diagnostics taken out of it and put back, and
  the sidecar that keeps them (\<open>Sidecar\<close>, \<open>debug_id\<close> of \<open>src/grain/format/mod.rs\<close>, \<open>Fault\<close> of
  \<open>src/grain/vm/mod.rs\<close>).
\<close>

section \<open>The program\<close>

text \<open>\<open>Function\<close>: the record the verifier reads, with the parameter names of the scope.\<close>

record script_function = func +
  param_names :: "u8 list list"

text \<open>
  A fragment left to the walker, as the nodes its walk visits in order (what each is called if the
  compiler cannot lower it, and where it is) and where it starts.
\<close>

record fragment =
  nodes :: "(string option \<times> position) list"
  start_position :: position

text \<open>
  \<open>Program\<close>; \<open>'m\<close> is the type of a module, \<open>'r\<close> that of a module resolver. Owned and borrowed
  code, and the identity the JIT compiles under, make no difference here.
\<close>

record ('m, 'r) program =
  p_caps :: caps
  p_code :: "u8 list"
  p_main :: chunk
  p_functions :: "script_function list"
  p_max_stack :: u16
  has_typed_methods :: bool
  p_positions :: Positions.positions
  p_debug_id :: "128 word"
  p_residuals :: "fragment list"
  p_consts :: "dynamic list"
  p_names :: strings
  p_tokens :: "token list"
  p_assign_ops :: "assign_op list"
  p_chains :: "chain list"
  p_switches :: "switch list"
  p_lib :: "'m option"
  p_resolver :: "'r option"
  p_source :: "u8 list option"

record ('m, 'r) parts =
  positions_part :: Positions.positions
  debug_id_part :: "128 word option"
  residuals_part :: "fragment list"
  consts_part :: "dynamic list"
  names_part :: strings
  tokens_part :: "token list"
  assign_ops_part :: "assign_op list"
  chains_part :: "chain list"
  switches_part :: "switch list"
  lib_part :: "'m option"
  resolver_part :: "'r option"
  source_part :: "u8 list option"

text \<open>Whether a chunk touches the receiver, by the opcodes at its instructions.\<close>

definition takes_this_op :: "chain list \<Rightarrow> u8 \<Rightarrow> op \<Rightarrow> bool" where
  "takes_this_op cs tag op =
     (if tag \<in> {LOAD_THIS, LOAD_THIS_SHARED, REQUIRE_THIS, ASSIGN_THIS, ASSIGN_THIS_OP,
         CALL_THIS_REF, CALL_FN_PTR_ON_THIS} then True
      else if tag = CHAIN \<or> tag = CHAIN_DISCARD then
        (case op of
           Chain i _ \<Rightarrow> (case get_at cs (unat i) of
               None \<Rightarrow> False
             | Some c \<Rightarrow> (case root c of ThisRoot _ \<Rightarrow> True | _ \<Rightarrow> False))
         | _ \<Rightarrow> False)
      else False)"

definition chunk_takes_this :: "u8 list \<Rightarrow> chunk \<Rightarrow> chain list \<Rightarrow> bool" where
  "chunk_takes_this code c cs =
     list_ex (\<lambda>(at, op). takes_this_op cs (code ! (unat (entry c) + at)) op)
       (disassemble (chunk_body c code) 0)"

definition derive_function :: "u8 list \<Rightarrow> chain list \<Rightarrow> strings \<Rightarrow> script_function \<Rightarrow> script_function" where
  "derive_function code cs names f =
     f\<lparr>takes_this := chunk_takes_this code (func_chunk f) cs,
       param_names := map (\<lambda>p. case strings_get names p of None \<Rightarrow> [] | Some s \<Rightarrow> s) (params f)\<rparr>"

text \<open>FNV-1a over both tables.\<close>

definition debug_id_of :: "u8 list \<Rightarrow> u8 list \<Rightarrow> 128 word" where
  "debug_id_of table stream =
     fold (\<lambda>byte hash. (hash XOR ucast byte) * 0x0000000001000000000000000000013b)
       (table @ stream) 0x6c62272e07bb014262b821756295c58d"

definition recompute_max_stack :: "('m, 'r) program \<Rightarrow> ('m, 'r) program" where
  "recompute_max_stack p =
     p\<lparr>p_max_stack := fold (\<lambda>f m. max m (max_stack (func_chunk f))) (p_functions p)
         (max_stack (p_main p))\<rparr>"

definition build_program ::
  "caps \<Rightarrow> u8 list \<Rightarrow> chunk \<Rightarrow> script_function list \<Rightarrow> ('m, 'r) parts \<Rightarrow> 128 word \<Rightarrow> ('m, 'r) program" where
  "build_program caps code main functions parts ident = recompute_max_stack
     \<lparr>p_caps = caps, p_code = code, p_main = main,
      p_functions = map (derive_function code (chains_part parts) (names_part parts)) functions,
      p_max_stack = 0, has_typed_methods = list_ex (\<lambda>f. this_type f \<noteq> None) functions,
      p_positions = positions_part parts, p_debug_id = ident,
      p_residuals = residuals_part parts, p_consts = consts_part parts, p_names = names_part parts,
      p_tokens = tokens_part parts, p_assign_ops = assign_ops_part parts,
      p_chains = chains_part parts, p_switches = switches_part parts, p_lib = lib_part parts,
      p_resolver = resolver_part parts, p_source = source_part parts\<rparr>"

text \<open>\<open>Program::new\<close>; \<open>None\<close> is the panic of the table encoder.\<close>

definition new_program ::
  "caps \<Rightarrow> u8 list \<Rightarrow> chunk \<Rightarrow> script_function list \<Rightarrow> ('m, 'r) parts \<Rightarrow> ('m, 'r) program option" where
  "new_program caps code main functions parts =
     map_option (build_program caps code main functions parts)
       (case debug_id_part parts of
          Some ident \<Rightarrow> Some ident
        | None \<Rightarrow> map_option (\<lambda>table. debug_id_of table (sites_encode (chains_part parts)))
            (to_table (positions_part parts)))"

section \<open>Verification and stack\<close>

definition program_chunks :: "('m, 'r) program \<Rightarrow> chunk list" where
  "program_chunks p = p_main p # map func_chunk (p_functions p)"

definition program_pools :: "('m, 'r) program \<Rightarrow> pools" where
  "program_pools p =
     \<lparr>consts_len = length (p_consts p), names_len = strings_len (p_names p),
      tokens_len = length (p_tokens p), assign_ops_len = length (p_assign_ops p),
      residuals_len = length (p_residuals p), chains = p_chains p, switches = p_switches p\<rparr>"

definition verify_program :: "features \<Rightarrow> ('m, 'r) program \<Rightarrow> verify_error + u16 list" where
  "verify_program fs p =
     verify fs (p_caps p) (p_code p) (map func.truncate (p_functions p)) (program_chunks p)
       (program_pools p)"

text \<open>The loop over \<open>iter_mut().zip(measured)\<close>.\<close>

fun set_measured :: "script_function list \<Rightarrow> u16 list \<Rightarrow> script_function list" where
  "set_measured (f # fs) (high # highs) =
     f\<lparr>func_chunk := (func_chunk f)\<lparr>max_stack := high\<rparr>\<rparr> # set_measured fs highs"
| "set_measured fs highs = fs"

definition tighten_stack :: "features \<Rightarrow> ('m, 'r) program \<Rightarrow> ('m, 'r) program" where
  "tighten_stack fs p = (case verify_program fs p of
       Inl e \<Rightarrow> p
     | Inr measured \<Rightarrow> recompute_max_stack
         (case measured of
            [] \<Rightarrow> p
          | main # rest \<Rightarrow> p\<lparr>p_main := (p_main p)\<lparr>max_stack := main\<rparr>,
              p_functions := set_measured (p_functions p) rest\<rparr>))"

section \<open>Lookups\<close>

definition program_name :: "('m, 'r) program \<Rightarrow> u32 \<Rightarrow> u8 list option" where
  "program_name p i = strings_get (p_names p) i"

definition matching :: "u32 \<Rightarrow> nat \<Rightarrow> script_function \<Rightarrow> bool" where
  "matching name argc f \<longleftrightarrow> func_name f = name \<and> length (params f) = argc"

definition function_plain :: "('m, 'r) program \<Rightarrow> u32 \<Rightarrow> nat \<Rightarrow> script_function option" where
  "function_plain p name argc = find (\<lambda>f. matching name argc f \<and> this_type f = None) (p_functions p)"

definition program_method :: "('m, 'r) program \<Rightarrow> u32 \<Rightarrow> nat \<Rightarrow> u8 list \<Rightarrow> script_function option" where
  "program_method p name argc typed =
     (case (if has_typed_methods p then
         find (\<lambda>f. matching name argc f \<and> Option.bind (this_type f) (program_name p) = Some typed)
           (p_functions p) else None) of
        Some f \<Rightarrow> Some f
      | None \<Rightarrow> find (\<lambda>f. matching name argc f \<and> this_type f = None) (p_functions p))"

definition function_named :: "('m, 'r) program \<Rightarrow> u8 list \<Rightarrow> nat \<Rightarrow> script_function option" where
  "function_named p name argc =
     find (\<lambda>f. length (params f) = argc \<and> this_type f = None \<and>
         program_name p (func_name f) = Some name) (p_functions p)"

definition makes_fn_pointers :: "('m, 'r) program \<Rightarrow> bool" where
  "makes_fn_pointers p = caps_contains (p_caps p) FN_PTR"

definition program_constant :: "('m, 'r) program \<Rightarrow> u32 \<Rightarrow> dynamic option" where
  "program_constant p i = get_at (p_consts p) (unat i)"

definition program_token :: "('m, 'r) program \<Rightarrow> u32 \<Rightarrow> token option" where
  "program_token p i = get_at (p_tokens p) (unat i)"

definition program_assign_op :: "('m, 'r) program \<Rightarrow> u32 \<Rightarrow> assign_op option" where
  "program_assign_op p i = get_at (p_assign_ops p) (unat i)"

definition program_chain :: "('m, 'r) program \<Rightarrow> u32 \<Rightarrow> chain option" where
  "program_chain p i = get_at (p_chains p) (unat i)"

definition program_switch :: "('m, 'r) program \<Rightarrow> u32 \<Rightarrow> switch option" where
  "program_switch p i = get_at (p_switches p) (unat i)"

definition program_residual :: "('m, 'r) program \<Rightarrow> u32 \<Rightarrow> fragment option" where
  "program_residual p i = get_at (p_residuals p) (unat i)"

definition program_position :: "('m, 'r) program \<Rightarrow> nat \<Rightarrow> position" where
  "program_position p pc = positions_get (p_positions p) pc"

definition residual_nodes :: "('m, 'r) program \<Rightarrow> nat" where
  "residual_nodes p = sum_list (map (length \<circ> nodes) (p_residuals p))"

text \<open>The first construct the walk can name, fragment by fragment, else where the first one starts.\<close>

definition first_unsupported :: "('m, 'r) program \<Rightarrow> (string \<times> position) option" where
  "first_unsupported p =
     (case List.map_filter (\<lambda>(kind, pos). map_option (\<lambda>name. (name, pos)) kind)
         (concat (map nodes (p_residuals p))) of
        found # _ \<Rightarrow> Some found
      | [] \<Rightarrow> (case p_residuals p of
            [] \<Rightarrow> None
          | r # _ \<Rightarrow> Some (''an unlowered expression'', start_position r)))"

section \<open>Diagnostics\<close>

record sidecar =
  s_positions :: "u8 list"
  s_chains :: "u8 list"
  s_debug_id :: "128 word"

record fault =
  address :: nat
  slot :: "u32 option"

definition sidecar_site :: "sidecar \<Rightarrow> fault \<Rightarrow> site option" where
  "sidecar_site s f =
     (case Option.bind (slot f) (sites_resolve (s_chains s)) of
        Some found \<Rightarrow> Some found
      | None \<Rightarrow> if address f < 2 ^ 32 then resolve (s_positions s) (of_nat (address f)) else None)"

definition sidecar_resolve :: "sidecar \<Rightarrow> fault list \<Rightarrow> site option list" where
  "sidecar_resolve s trace = map (sidecar_site s) trace"

text \<open>\<open>Program::sidecar\<close>; \<open>None\<close> is the panic of the table encoder.\<close>

definition sidecar_of :: "('m, 'r) program \<Rightarrow> sidecar option" where
  "sidecar_of p = map_option
     (\<lambda>table. \<lparr>s_positions = table, s_chains = sites_encode (p_chains p), s_debug_id = p_debug_id p\<rparr>)
     (to_table (p_positions p))"

definition strip_chain :: "chain \<Rightarrow> chain" where
  "strip_chain c = fst (set_positions c (replicate (position_slots c) NONE))"

definition strip_positions :: "('m, 'r) program \<Rightarrow> (('m, 'r) program \<times> sidecar) option" where
  "strip_positions p = map_option
     (\<lambda>s. (p\<lparr>p_positions := Stripped, p_chains := map strip_chain (p_chains p)\<rparr>, s))
     (sidecar_of p)"

text \<open>\<open>sites.next().flatten()\<close> past the last site is no position.\<close>

fun attach_chains :: "chain list \<Rightarrow> position list \<Rightarrow> chain list" where
  "attach_chains [] ps = []"
| "attach_chains (c # cs) ps = (let (c', ps) = set_positions c ps in c' # attach_chains cs ps)"

definition attached :: "site option \<Rightarrow> position" where
  "attached s = (case s of None \<Rightarrow> NONE | Some s \<Rightarrow> site_to_position s)"

definition attach_positions ::
  "('m, 'r) program \<Rightarrow> sidecar \<Rightarrow> table_error + ('m, 'r) program" where
  "attach_positions p s =
     (if s_debug_id s \<noteq> p_debug_id p then Err (WrongProgram (s_debug_id s) (p_debug_id p))
      else
      rbind (from_table (s_positions s) (p_code p)) (\<lambda>found.
      rbind (map_err ChainStream (sites_decode (s_chains s))) (\<lambda>sites.
      let slots = unat (of_nat (sum_list (map position_slots (p_chains p))) :: u32) in
      if length sites \<noteq> slots then Err (ChainCount (length sites) slots)
      else Ok (p\<lparr>p_chains := attach_chains (p_chains p) (map attached sites @
            replicate (sum_list (map position_slots (p_chains p))) NONE),
          p_positions := found\<rparr>))))"

section \<open>Taking the diagnostics out and putting them back\<close>

definition strip_step :: "step \<Rightarrow> step" where
  "strip_step s = fst (set_step_positions s (replicate (step_position_slots s) NONE))"

lemma set_step_strip:
  "set_step_positions s (replicate (step_position_slots s) NONE @ ps) = (strip_step s, ps)"
  "set_step_positions (strip_step s) (step_positions s @ ps) = (s, ps)"
  by (cases s; simp add: strip_step_def numeral_2_eq_2)+

definition strip_root :: "root \<Rightarrow> root" where
  "strip_root r = fst (set_root_positions r (replicate (root_position_slots r) NONE))"

lemma set_root_strip:
  "set_root_positions r (replicate (root_position_slots r) NONE @ ps) = (strip_root r, ps)"
  "set_root_positions (strip_root r) (root_positions r @ ps) = (r, ps)"
  by (cases r; simp add: strip_root_def)+

lemma set_steps_strip:
  "set_steps_positions ss (replicate (sum_list (map step_position_slots ss)) NONE @ ps) =
     (map strip_step ss, ps)"
  "set_steps_positions (map strip_step ss) (concat (map step_positions ss) @ ps) = (ss, ps)"
  by (induction ss) (simp_all add: replicate_add set_step_strip)

lemma strip_chain: "strip_chain c = c\<lparr>root := strip_root (root c), steps := map strip_step (steps c)\<rparr>"
  using set_root_strip(1) [of "root c" "replicate (sum_list (map step_position_slots (steps c))) NONE"]
    set_steps_strip(1) [of "steps c" "[]"]
  by (simp add: strip_chain_def set_positions_def position_slots_def replicate_add)

lemma set_positions_own: "set_positions (strip_chain c) (positions c @ ps) = (c, ps)"
  by (simp add: strip_chain set_positions_def positions_def set_root_strip set_steps_strip)

lemma attach_chains_own:
  "attach_chains (map strip_chain cs) (concat (map positions cs) @ ps) = cs"
  by (induction cs) (simp_all add: set_positions_own)

lemma position_slots_strip [simp]: "position_slots (strip_chain c) = position_slots c"
proof -
  have "step_position_slots (strip_step s) = step_position_slots s" for s
    by (cases s) (simp_all add: strip_step_def numeral_2_eq_2)
  moreover have "root_position_slots (strip_root r) = root_position_slots r" for r
    by (cases r) (simp_all add: strip_root_def)
  ultimately show ?thesis by (simp add: strip_chain position_slots_def comp_def)
qed

lemma positions_strip: "positions (strip_chain c) = replicate (position_slots c) NONE"
  using set_positions [of c "replicate (position_slots c) NONE"] by (simp add: strip_chain_def)

lemma attached_line_known: "pos_ok pos \<Longrightarrow> attached (line_known (pos_site pos)) = pos"
proof -
  assume pos: "pos_ok pos"
  show ?thesis
  proof (cases "pos = NONE")
    case True
    then show ?thesis by (simp add: attached_def line_known_def pos_site_def get_line_def
        get_position_def try_u32_or_0_def)
  next
    case False
    have "unat w < 2 ^ LENGTH(16)" for w :: u16 by (rule unsigned_less)
    then have "unat w < 2 ^ 32" for w :: u16 by (rule less_trans) simp
    with False have "pos_site pos = \<lparr>line = ucast (pline pos), column = ucast (ppos pos)\<rparr>"
      by (simp add: pos_site_def try_u32_or_0_def get_line_def get_position_def of_nat_unat_u16)
    moreover from False pos have "pline pos \<noteq> 0" by (simp add: pos_ok_def)
    moreover from this have "(ucast (pline pos) :: u32) \<noteq> 0" by (simp add: word_unat_eq_iff)
    ultimately show ?thesis by (simp add: attached_def line_known_def site_to_position_ucast)
  qed
qed

text \<open>A program whose diagnostics the formats have room for.\<close>

definition program_sites :: "('m, 'r) program \<Rightarrow> position list" where
  "program_sites p = concat (map positions (p_chains p))"

definition diagnosed :: "('m, 'r) program \<Rightarrow> bool" where
  "diagnosed p \<longleftrightarrow> positions_for (p_code p) (p_positions p) \<and> length (p_code p) < 2 ^ 32 \<and>
     length (program_sites p) < 2 ^ 32 \<and> list_all pos_ok (program_sites p)"

lemma sidecar_of_diagnosed:
  assumes "diagnosed p"
  obtains s where "sidecar_of p = Some s" "s_debug_id s = p_debug_id p"
    "from_table (s_positions s) (p_code p) = Ok (p_positions p)"
    "sites_decode (s_chains s) = Ok (map (line_known \<circ> pos_site) (program_sites p))"
proof -
  from assms to_table_from_table [of "p_code p" "p_positions p"] obtain table where
    table: "to_table (p_positions p) = Some table" "from_table table (p_code p) = Ok (p_positions p)"
    by (auto simp: diagnosed_def)
  moreover from assms decode_encode_sites [of "p_chains p"] have
    "sites_decode (sites_encode (p_chains p)) = Ok (map (line_known \<circ> pos_site) (program_sites p))"
    by (simp add: diagnosed_def program_sites_def)
  ultimately show thesis by (intro that) (auto simp: sidecar_of_def)
qed

lemma length_program_sites: "length (program_sites p) = sum_list (map position_slots (p_chains p))"
  by (simp add: program_sites_def length_concat length_positions comp_def)

section \<open>Looking a fault up\<close>

lemma table_lookup:
  assumes ok: "from_table table code = Ok p" and len: "length code \<le> 2 ^ 32" and a: "a < 2 ^ 32"
  shows "attached (resolve table (of_nat a)) = positions_get p a"
proof -
  from ok have check: "check table = Ok ()" by (auto simp: from_table_def rbind_eq_Ok)
  have at: "attached (resolve table (of_nat a)) = site_at table a" for a
    by (simp add: attached_def site_at_def)
  from ok from_table_spec [OF check len] have fits: "table_fits table code"
    and p: "p = dense (map (site_at table) [0..<length code])"
    by (auto split: if_splits)
  show ?thesis
  proof (cases "a < length code")
    case True
    then show ?thesis by (simp add: at p positions_get_dense get_at_Some)
  next
    case False
    have "map_of (entries table) (of_nat a) = None"
    proof (rule ccontr)
      assume "map_of (entries table) (of_nat a) \<noteq> None"
      then obtain s where "(of_nat a, s) \<in> set (entries table)" by (auto dest: map_of_SomeD)
      with fits have "unat (of_nat a :: u32) < length code" by (auto simp: table_fits_def list_all_iff)
      with a False show False by (simp add: unsigned_of_nat take_bit_nat_eq_self)
    qed
    with resolve_checked [OF check] have "resolve table (of_nat a) = None" by (simp add: known_def)
    with False show ?thesis by (simp add: attached_def p positions_get_dense get_at_None)
  qed
qed

lemma site_lookup:
  assumes ok: "sites_decode stream = Ok (map (line_known \<circ> pos_site) ps)" and "list_all pos_ok ps"
  shows "map_option site_to_position (sites_resolve stream i) =
    (case get_at ps (unat i) of None \<Rightarrow> None | Some pos \<Rightarrow> if pos = NONE then None else Some pos)"
proof -
  have r: "sites_resolve stream i = Option.bind (get_at (map (line_known \<circ> pos_site) ps) (unat i)) id"
    using sites_decode_resolve [OF ok, of i] by (simp add: id_def)
  show ?thesis
  proof (cases "get_at ps (unat i)")
    case None
    with r show ?thesis by (simp add: get_at_def split: if_splits)
  next
    case (Some pos)
    with assms(2) have "pos_ok pos" by (auto simp: get_at_Some list_all_length)
    moreover have "line_known (pos_site NONE) = None"
      by (simp add: line_known_def pos_site_def get_line_def try_u32_or_0_def)
    moreover from Some r have "sites_resolve stream i = line_known (pos_site pos)"
      by (auto simp: get_at_def id_def split: if_splits)
    ultimately show ?thesis
      using attached_line_known [of pos]
      by (cases "line_known (pos_site pos)"; cases "pos = NONE") (auto simp: Some attached_def)
  qed
qed

section \<open>Tightening\<close>

lemma verify_chunk_tightened:
  assumes "verify_chunk cx c = Ok high"
  shows "verify_chunk cx (c\<lparr>max_stack := high\<rparr>) = Ok high"
proof -
  have go: "go cx (c\<lparr>max_stack := high\<rparr>) = go cx c" by (intro ext) (simp add: go_def)
  have edges: "edges cx (c\<lparr>max_stack := high\<rparr>) = edges cx c"
    by (intro ext) (simp add: edges_def go cong: op.case_cong option.case_cong)
  have "verify_step cx (c\<lparr>max_stack := high\<rparr>) = verify_step cx c"
    by (intro ext) (simp only: verify_step_def edges)
  moreover from assms obtain D h where
    "verify_loop (verify_step cx c) (unat (chunk_end c)) (\<lambda>_. None) [(unat (entry c), vstate0)] 0 = Ok (D, h)"
    "\<not> 2 ^ 16 \<le> h" "high = of_nat h" "unat (chunk_end c) \<le> length (v_code cx)"
    "unat (entry c) \<le> unat (chunk_end c)"
    by (auto simp: verify_chunk_def Let_def rbind_eq_Ok simp del: verify_loop.simps split: if_splits)
  moreover from this have "unat high = h" by (simp add: unsigned_of_nat take_bit_nat_eq_self)
  ultimately show ?thesis by (simp add: verify_chunk_def Let_def del: verify_loop.simps)
qed

lemma seq_ok_map_Ok: "seq_ok (map g xs) = Ok ys \<longleftrightarrow> list_all2 (\<lambda>x y. g x = Ok y) xs ys"
  by (induction xs arbitrary: ys) (auto simp: rbind_eq_Ok list_all2_Cons1)

lemma set_measured_max:
  "length highs = length fs \<Longrightarrow> map (max_stack \<circ> func_chunk) (set_measured fs highs) = highs"
  by (induction fs highs rule: set_measured.induct) auto

lemma set_measured_idem:
  "length highs = length fs \<Longrightarrow> set_measured (set_measured fs highs) highs = set_measured fs highs"
  by (induction fs highs rule: set_measured.induct) auto

lemma set_measured_chunks:
  "list_all2 (\<lambda>f high. verify_chunk cx (func_chunk f) = Ok high) fs highs \<Longrightarrow>
   list_all2 (\<lambda>f high. verify_chunk cx (func_chunk f) = Ok high) (set_measured fs highs) highs"
  by (induction rule: list_all2_induct) (auto intro: verify_chunk_tightened)

lemma check_params_measured:
  "map (check_params pools \<circ> func.truncate) (set_measured fs highs) =
   map (check_params pools \<circ> func.truncate) fs"
  by (induction fs highs rule: set_measured.induct) (auto simp: check_params_def func.truncate_def)

lemma set_measured_Nil [simp]: "set_measured fs highs = [] \<longleftrightarrow> fs = []"
  by (cases "(fs, highs)" rule: set_measured.cases) auto

lemma program_pools_update [simp]:
  "program_pools (p\<lparr>p_main := m\<rparr>) = program_pools p"
  "program_pools (p\<lparr>p_functions := fs\<rparr>) = program_pools p"
  "program_pools (p\<lparr>p_max_stack := n\<rparr>) = program_pools p"
  by (simp_all add: program_pools_def)

lemma verify_program_measured:
  assumes "verify_program fs p = Ok (high # highs)"
  defines "q \<equiv> p\<lparr>p_main := (p_main p)\<lparr>max_stack := high\<rparr>, p_functions := set_measured (p_functions p) highs\<rparr>"
  shows "length highs = length (p_functions p)" and "verify_program fs q = Ok (high # highs)"
proof -
  from assms(1) obtain starts where scan: "scan (p_code p) (program_pools p) 0
      (replicate (length (p_code p) + 1) False) = Ok (length (p_code p), starts)"
    and caps: "p_functions p = [] \<or> caps_contains (p_caps p) FUNCTION"
    and params: "all_ok (map (check_params (program_pools p) \<circ> func.truncate) (p_functions p)) = Ok ()"
    and chunks: "list_all2 (\<lambda>c high. verify_chunk \<lparr>v_features = fs, v_caps = p_caps p, v_code = p_code p,
       v_starts = starts, v_pools = program_pools p\<rparr> c = Ok high) (program_chunks p) (high # highs)"
    by (auto simp: verify_program_def verify_def rbind_eq_Ok seq_ok_map_Ok split: if_splits)
  from chunks have len: "length highs = length (p_functions p)"
    by (auto simp: program_chunks_def dest: list_all2_lengthD)
  then show "length highs = length (p_functions p)" .
  from chunks have "list_all2 (\<lambda>c high. verify_chunk \<lparr>v_features = fs, v_caps = p_caps p,
       v_code = p_code p, v_starts = starts, v_pools = program_pools p\<rparr> c = Ok high)
      (program_chunks q) (high # highs)"
    by (auto simp: program_chunks_def q_def list_all2_map1 set_measured_chunks verify_chunk_tightened)
  with scan caps params show "verify_program fs q = Ok (high # highs)"
    by (simp add: verify_program_def verify_def seq_ok_map_Ok q_def check_params_measured
        del: replicate_Suc)
qed

lemma tighten_stack_Ok:
  "verify_program fs p = Ok (high # highs) \<Longrightarrow> tighten_stack fs p = recompute_max_stack
     (p\<lparr>p_main := (p_main p)\<lparr>max_stack := high\<rparr>, p_functions := set_measured (p_functions p) highs\<rparr>)"
  by (simp add: tighten_stack_def)

lemma verify_program_recompute [simp]: "verify_program fs (recompute_max_stack p) = verify_program fs p"
  by (simp add: verify_program_def recompute_max_stack_def program_chunks_def)

lemma program_chunks_recompute [simp]: "program_chunks (recompute_max_stack p) = program_chunks p"
  by (simp add: program_chunks_def recompute_max_stack_def)

lemma verify_program_Cons: "verify_program fs p = Ok measured \<Longrightarrow> \<exists>high highs. measured = high # highs"
  by (auto simp: verify_program_def verify_def rbind_eq_Ok seq_ok_map_Ok program_chunks_def
      list_all2_Cons1 split: if_splits)

lemma fold_max_stack:
  "fold (\<lambda>f m. max m (max_stack (func_chunk f))) fs n = Max (set (n # map (max_stack \<circ> func_chunk) fs))"
proof (induction fs arbitrary: n)
  case (Cons f fs)
  have "insert n (insert a A) = insert n ({a} \<union> A)" for a :: u16 and A by auto
  with Cons show ?case
    by (cases "fs = []") (simp_all add: max.assoc max.left_commute max.commute)
qed simp

section \<open>The receiver\<close>

text \<open>The instructions that \<open>takes_this\<close> finds, by what the compiler emitted.\<close>

definition takes_receiver :: "chain list \<Rightarrow> op \<Rightarrow> bool" where
  "takes_receiver cs op = (case op of
       LoadThis \<Rightarrow> True
     | LoadThisShared \<Rightarrow> True
     | RequireThis \<Rightarrow> True
     | AssignThis _ \<Rightarrow> True
     | CallRef _ _ RThis captures \<Rightarrow> \<not> captures
     | CallFnPtr _ _ (Some RThis) \<Rightarrow> True
     | Chain i _ \<Rightarrow> (case get_at cs (unat i) of
           None \<Rightarrow> False
         | Some c \<Rightarrow> (case root c of ThisRoot _ \<Rightarrow> True | _ \<Rightarrow> False))
     | _ \<Rightarrow> False)"

lemma put_op_takes:
  "put_op tgt op = Inr bytes \<Longrightarrow>
   takes_this_op cs (hd bytes) (wire (map_target g op)) \<longleftrightarrow> takes_receiver cs op"
  by (induct op; auto simp: put_defs put_simps takes_this_op_def takes_receiver_def wire_def
      map_target_def tag_defs split: assembler_splits)

lemma put_ops_takes:
  "put_ops offsets index ops = Inr bytes \<Longrightarrow> layout ops (length pre) = Some offs \<Longrightarrow>
   list_ex (\<lambda>(a, op). takes_this_op cs ((pre @ bytes @ post) ! a) op)
     (zip offs (map (relocated offsets) ops)) \<longleftrightarrow> list_ex (takes_receiver cs) ops"
proof (induction ops arbitrary: index bytes pre offs)
  case Nil
  then show ?case by simp
next
  case (Cons op ops)
  from Cons.prems(1) obtain b rest where b: "put_op (target offsets index) op = Inr b"
    and rest: "put_ops offsets (index + 1) ops = Inr rest" and bytes: "bytes = b @ rest"
    by (auto simp: rbind_eq_Ok)
  note here = put_op_target [OF b, of pre "rest @ post"]
  from Cons.prems(2) obtain offs' where offs': "layout ops (length (pre @ b)) = Some offs'"
    and offs: "offs = length pre # offs'"
    using here by (auto simp: Let_def split: if_splits)
  have "(pre @ bytes @ post) ! length pre = hd b"
    using put_op_nonempty [OF b] by (simp add: bytes nth_append hd_conv_nth)
  then show ?case
    using Cons.IH [OF rest offs'] put_op_takes [OF b]
    by (simp add: offs bytes relocated_def)
qed

lemma assembled_takes_this:
  assumes "assemble ops = Ok (code, offsets)" and "entry c = 0" and "unat (chunk_end c) = length code"
  shows "chunk_takes_this code c cs \<longleftrightarrow> list_ex (takes_receiver cs) ops"
proof -
  from assms(1) obtain offs where offs: "layout ops 0 = Some offs"
    and offsets: "offsets = map of_nat offs" and code: "put_ops offsets 0 ops = Inr code"
    by (auto simp: assemble_def rbind_eq_Ok Let_def)
  from layout_Some [OF offs] have "map unat offsets = offs"
    by (auto simp: offsets unat_of_nat take_bit_nat_eq_self intro!: map_idI)
  with put_ops_takes [OF code, of "[]" offs cs "[]"] offs assemble_Ok(4) [OF assms(1)] assms(2,3)
  show ?thesis by (simp add: chunk_takes_this_def chunk_body_def)
qed

lemma attach_stripped:
  assumes "diagnosed p" and "sidecar_of p = Some s"
  shows "attach_positions (p\<lparr>p_positions := Stripped, p_chains := map strip_chain (p_chains p)\<rparr>) s = Ok p"
proof -
  obtain s' where "sidecar_of p = Some s'" "s_debug_id s' = p_debug_id p"
    "from_table (s_positions s') (p_code p) = Ok (p_positions p)"
    "sites_decode (s_chains s') = Ok (map (line_known \<circ> pos_site) (program_sites p))"
    by (rule sidecar_of_diagnosed [OF assms(1)])
  with assms(2) have s: "s_debug_id s = p_debug_id p"
    "from_table (s_positions s) (p_code p) = Ok (p_positions p)"
    "sites_decode (s_chains s) = Ok (map (line_known \<circ> pos_site) (program_sites p))" by simp_all
  have sites: "map (attached \<circ> (line_known \<circ> pos_site)) (program_sites p) = program_sites p"
    using assms(1) by (intro map_idI) (auto simp: diagnosed_def list_all_iff attached_line_known)
  have "length (program_sites p) < 2 ^ 32" using assms(1) by (simp add: diagnosed_def)
  then have "unat (of_nat (length (program_sites p)) :: u32) = length (program_sites p)"
    by (simp add: unsigned_of_nat take_bit_nat_eq_self)
  then show ?thesis
    using s sites
    by (simp add: attach_positions_def comp_def length_program_sites)
      (simp add: program_sites_def attach_chains_own)
qed

section \<open>Properties\<close>

text \<open>
  C37. Taking the diagnostics out of a program and putting them back is the identity: stripping
  cannot panic, leaves no position anywhere, and attaching the sidecar it returned gives the program
  back exactly; a sidecar of another program is refused.
\<close>

theorem strip_attach:
  assumes "diagnosed p"
  shows "\<exists>q s. strip_positions p = Some (q, s) \<and> attach_positions q s = Ok p \<and>
     is_stripped (p_positions q) \<and> list_all is_none (program_sites q) \<and>
     (\<forall>s'. s_debug_id s' \<noteq> p_debug_id p \<longrightarrow>
        attach_positions q s' = Err (WrongProgram (s_debug_id s') (p_debug_id p)))"
proof -
  let ?q = "p\<lparr>p_positions := Stripped, p_chains := map strip_chain (p_chains p)\<rparr>"
  obtain s where s: "sidecar_of p = Some s" by (rule sidecar_of_diagnosed [OF assms])
  moreover have "list_all is_none (program_sites ?q)"
    by (auto simp: program_sites_def list_all_iff positions_strip is_none_def)
  ultimately show ?thesis
    using attach_stripped [OF assms s]
    by (auto simp: strip_positions_def is_stripped_def attach_positions_def)
qed

text \<open>
  C38. A fault reported by a stripped program resolves to the position the program with its
  diagnostics would have reported: that of the chain slot that raised if it has one, else that of
  the instruction.
\<close>

theorem sidecar_resolves:
  assumes "diagnosed p" and "sidecar_of p = Some s"
  shows "map attached (sidecar_resolve s trace) = map (\<lambda>f.
     case Option.bind (slot f) (\<lambda>i. get_at (program_sites p) (unat i)) of
       Some pos \<Rightarrow> if pos = NONE then program_position p (address f) else pos
     | None \<Rightarrow> program_position p (address f)) trace"
proof -
  obtain s' where "sidecar_of p = Some s'" and
    t: "from_table (s_positions s') (p_code p) = Ok (p_positions p)"
    "sites_decode (s_chains s') = Ok (map (line_known \<circ> pos_site) (program_sites p))"
    by (rule sidecar_of_diagnosed [OF assms(1)])
  with assms(2) have s: "s' = s" by simp
  have ok: "list_all pos_ok (program_sites p)" and len: "length (p_code p) < 2 ^ 32"
    and fit: "positions_for (p_code p) (p_positions p)"
    using assms(1) by (auto simp: diagnosed_def)
  have far: "program_position p a = NONE" if "\<not> a < 2 ^ 32" for a
    using that len fit
    by (auto simp: program_position_def positions_get_def positions_for_def get_at_def
        split: Positions.positions.splits option.splits)
  have at: "attached (if a < 2 ^ 32 then resolve (s_positions s) (of_nat a) else None) =
      program_position p a" for a
    using table_lookup [OF t(1), of a] len far [of a] by (auto simp: s program_position_def attached_def)
  note slots = site_lookup [OF t(2) ok, unfolded s]
  have "attached (sidecar_site s f) =
     (case Option.bind (slot f) (\<lambda>i. get_at (program_sites p) (unat i)) of
       Some pos \<Rightarrow> if pos = NONE then program_position p (address f) else pos
     | None \<Rightarrow> program_position p (address f))" for f
  proof (cases "slot f")
    case None
    with at [of "address f"] show ?thesis by (simp add: sidecar_site_def)
  next
    case (Some i)
    with slots [of i] at [of "address f"] show ?thesis
      by (cases "sites_resolve (s_chains s) i"; cases "get_at (program_sites p) (unat i)")
        (auto simp: sidecar_site_def attached_def split: if_splits)
  qed
  then show ?thesis by (simp add: sidecar_resolve_def)
qed

text \<open>
  Tightening a program that verifies sets the reservation of every chunk to the height the
  verifier measured and the program's to the greatest of them; the result verifies with the same
  measure, and tightening it again changes nothing.
\<close>

theorem tighten_stack_exact:
  assumes "verify_program fs p = Ok measured"
  shows "map max_stack (program_chunks (tighten_stack fs p)) = measured \<and>
     p_max_stack (tighten_stack fs p) = Max (set measured) \<and>
     verify_program fs (tighten_stack fs p) = Ok measured \<and>
     tighten_stack fs (tighten_stack fs p) = tighten_stack fs p"
proof -
  obtain high highs where m: "measured = high # highs" using verify_program_Cons [OF assms] by blast
  let ?q = "p\<lparr>p_main := (p_main p)\<lparr>max_stack := high\<rparr>, p_functions := set_measured (p_functions p) highs\<rparr>"
  note v = verify_program_measured [OF assms [unfolded m]]
  have q: "tighten_stack fs p = recompute_max_stack ?q" using assms m by (simp add: tighten_stack_Ok)
  have "verify_program fs (recompute_max_stack ?q) = Ok (high # highs)" using v(2) by simp
  from tighten_stack_Ok [OF this] have "tighten_stack fs (recompute_max_stack ?q) = recompute_max_stack ?q"
    using v(1) by (simp add: recompute_max_stack_def set_measured_idem)
  moreover have "map max_stack (program_chunks ?q) = measured"
    using set_measured_max [OF v(1)] by (simp add: m program_chunks_def)
  moreover have "p_max_stack (recompute_max_stack ?q) = Max (set measured)"
    using set_measured_max [OF v(1)] by (simp add: m recompute_max_stack_def fold_max_stack)
  ultimately show ?thesis using v(2) by (simp add: q m)
qed

text \<open>
  A method call resolves to the first function of that name and arity declared for the
  receiver's type, and only if there is none to the first declared for no type; a call or a pointer
  never reaches a typed function. The flag that skips the first search never loses an answer.
\<close>

theorem method_lookup:
  assumes "new_program caps code main functions parts = Some p"
  shows "program_method p name argc typed =
      (case find (\<lambda>f. func_name f = name \<and> length (params f) = argc \<and>
           (\<exists>t. this_type f = Some t \<and> strings_get (p_names p) t = Some typed)) (p_functions p) of
         Some f \<Rightarrow> Some f
       | None \<Rightarrow> function_plain p name argc)
    \<and> pred_option (\<lambda>f. f \<in> set (p_functions p) \<and> func_name f = name \<and> length (params f) = argc \<and>
        this_type f = None) (function_plain p name argc)
    \<and> pred_option (\<lambda>f. f \<in> set (p_functions p) \<and> this_type f = None) (function_named p text argc)"
proof -
  have typed: "has_typed_methods p \<longleftrightarrow> list_ex (\<lambda>f. this_type f \<noteq> None) (p_functions p)"
  proof -
    from assms obtain ident where "p = build_program caps code main functions parts ident"
      by (auto simp: new_program_def)
    then show ?thesis
      by (simp add: build_program_def recompute_max_stack_def list_ex_iff derive_function_def)
  qed
  have names: "Option.bind (this_type f) (program_name p) = Some typed \<longleftrightarrow>
      (\<exists>t. this_type f = Some t \<and> strings_get (p_names p) t = Some typed)" for f
    by (cases "this_type f") (simp_all add: program_name_def)
  have find: "find P xs = Some f \<Longrightarrow> f \<in> set xs \<and> P f" for P xs and f :: script_function
    by (induction xs) (auto split: if_splits)
  have none: "find P xs = None \<longleftrightarrow> (\<forall>f\<in>set xs. \<not> P f)" for P and xs :: "script_function list"
    by (auto simp: find_None_iff)
  show ?thesis
    by (intro conjI)
      (auto simp: program_method_def function_plain_def function_named_def matching_def names
        pred_option_def typed list_ex_iff none split: option.split dest: find)
qed

text \<open>
  What the program knows of the receiver: a chunk assembled from some instructions is taken to
  touch \<open>this\<close> exactly if one of them loads, requires or assigns it, calls on it without capturing
  the scope, calls a function pointer on it, or walks a chain rooted at it.
\<close>

theorem takes_this_finds:
  assumes "assemble ops = Ok (code, offsets)" and "entry c = 0" and "unat (chunk_end c) = length code"
  shows "chunk_takes_this code c cs \<longleftrightarrow> list_ex (\<lambda>op. case op of
       LoadThis \<Rightarrow> True | LoadThisShared \<Rightarrow> True | RequireThis \<Rightarrow> True | AssignThis _ \<Rightarrow> True
     | CallRef _ _ RThis captures \<Rightarrow> \<not> captures
     | CallFnPtr _ _ (Some RThis) \<Rightarrow> True
     | Chain i _ \<Rightarrow> (\<exists>chain pos. get_at cs (unat i) = Some chain \<and> root chain = ThisRoot pos)
     | _ \<Rightarrow> False) ops"
proof -
  have "takes_receiver cs op = (case op of
       LoadThis \<Rightarrow> True | LoadThisShared \<Rightarrow> True | RequireThis \<Rightarrow> True | AssignThis _ \<Rightarrow> True
     | CallRef _ _ RThis captures \<Rightarrow> \<not> captures
     | CallFnPtr _ _ (Some RThis) \<Rightarrow> True
     | Chain i _ \<Rightarrow> (\<exists>chain pos. get_at cs (unat i) = Some chain \<and> root chain = ThisRoot pos)
     | _ \<Rightarrow> False)" for op
    unfolding takes_receiver_def by (cases op; simp split: option.split root.split)
  with assembled_takes_this [OF assms] show ?thesis by (simp cong: list_ex_cong)
qed

section \<open>Witnesses\<close>

text \<open>\<open>(); return\<close> with a position at its second instruction, and some chains.\<close>

definition tiny :: "chain list \<Rightarrow> (unit, unit) program" where
  "tiny cs =
     \<lparr>p_caps = 0, p_code = [2, 19], p_main = unit_return_chunk, p_functions = [], p_max_stack = 4,
      has_typed_methods = False, p_positions = Dense [NONE, \<lparr>pline = 3, ppos = 4\<rparr>], p_debug_id = 7,
      p_residuals = [], p_consts = [], p_names = new_strings [], p_tokens = [], p_assign_ops = [],
      p_chains = cs, p_switches = [], p_lib = None, p_resolver = None, p_source = None\<rparr>"

definition this_chain :: chain where
  "this_chain = \<lparr>root = ThisRoot \<lparr>pline = 1, ppos = 2\<rparr>, steps = [], tail = Read, operands = 0\<rparr>"

lemma tiny_diagnosed: "diagnosed (tiny [this_chain])"
  using boundary_return
  by (auto simp: diagnosed_def tiny_def program_sites_def positions_def this_chain_def pos_ok_def
      positions_for_def NONE_def less_Suc_eq tag_defs)

theorem strip_attach_witness:
  "\<exists>q s. strip_positions (tiny [this_chain]) = Some (q, s) \<and> attach_positions q s = Ok (tiny [this_chain])"
  using strip_attach [OF tiny_diagnosed] by blast

theorem sidecar_resolves_witness:
  "\<exists>s. sidecar_of (tiny [this_chain]) = Some s \<and> map attached (sidecar_resolve s
     [\<lparr>address = 0, slot = Some 0\<rparr>, \<lparr>address = 1, slot = None\<rparr>]) =
     [\<lparr>pline = 1, ppos = 2\<rparr>, \<lparr>pline = 3, ppos = 4\<rparr>]"
proof -
  obtain s where s: "sidecar_of (tiny [this_chain]) = Some s"
    by (rule sidecar_of_diagnosed [OF tiny_diagnosed])
  then show ?thesis
    using sidecar_resolves [OF tiny_diagnosed s, of "[\<lparr>address = 0, slot = Some 0\<rparr>, \<lparr>address = 1, slot = None\<rparr>]"]
    by (simp add: tiny_def program_sites_def positions_def this_chain_def NONE_def program_position_def
        positions_get_def get_at_def)
qed

lemma tiny_verifies: "verify_program full_features (tiny cs) = Ok [1]"
  using verify_unit_return by (simp add: verify_program_def program_chunks_def tiny_def)

theorem tighten_stack_exact_witness:
  "p_max_stack (tighten_stack full_features (tiny [])) = 1"
  using tighten_stack_exact [OF tiny_verifies, of "[]"] by simp

definition typed_functions :: "script_function list" where
  "typed_functions =
     [\<lparr>func_name = 0, params = [], this_type = None, takes_this = False,
       func_chunk = unit_return_chunk, param_names = []\<rparr>,
      \<lparr>func_name = 0, params = [], this_type = Some 1, takes_this = False,
       func_chunk = unit_return_chunk, param_names = []\<rparr>]"

definition typed_parts :: "(unit, unit) parts" where
  "typed_parts =
     \<lparr>positions_part = Stripped, debug_id_part = Some 0, residuals_part = [], consts_part = [],
      names_part = \<lparr>blob = [102, 105], starts = [0, 1, 2]\<rparr>, tokens_part = [], assign_ops_part = [],
      chains_part = [], switches_part = [], lib_part = None, resolver_part = None, source_part = None\<rparr>"

theorem method_lookup_witness:
  "map_option this_type (program_method
     (build_program FUNCTION [2, 19] unit_return_chunk typed_functions typed_parts 0) 0 0 [105]) =
   Some (Some 1)"
proof -
  let ?p = "build_program FUNCTION [2, 19] unit_return_chunk typed_functions typed_parts 0"
  have "new_program FUNCTION [2, 19] unit_return_chunk typed_functions typed_parts = Some ?p"
    by (simp add: new_program_def typed_parts_def)
  note m = method_lookup [OF this, THEN conjunct1]
  show ?thesis
    unfolding m
    by (simp add: build_program_def recompute_max_stack_def typed_functions_def typed_parts_def
        derive_function_def strings_get_def get_at_def text_slice_def is_char_boundary_def
        continuation_def)
qed

theorem takes_this_finds_witness:
  "\<not> chunk_takes_this [0x46, 0, 0, 0, 0x13] \<lparr>entry = 0, chunk_end = 5, max_stack = 1\<rparr> []"
proof -
  have "assemble [CallRef 0 0 RThis True, Return] = Ok ([0x46, 0, 0, 0, 0x13], [0, 4, 5])"
    by (simp add: assemble_def encoded_width_def put_defs p16_def p32_def le16_def le32_def
        target_def get_at_def tag_defs small_def)
  from takes_this_finds [OF this, of "\<lparr>entry = 0, chunk_end = 5, max_stack = 1\<rparr>" "[]"]
  show ?thesis by simp
qed

end
