(* ===== verification/Stripping.thy ===== *)
theory Stripping
  imports Program
begin

text \<open>
  Stripping a program takes its positions and nothing else: the verifier, the loader's derivation
  and the writer read a stripped chain like the chain.
\<close>

section \<open>What the verifier reads of a chain\<close>

definition stripped_pools :: "pools \<Rightarrow> pools" where
  "stripped_pools pools = pools\<lparr>chains := map strip_chain (chains pools)\<rparr>"

lemma get_at_map: "get_at (map f xs) i = map_option f (get_at xs i)"
  by (simp add: get_at_def)

lemma strip_step_simps [simp]:
  "step_caps (strip_step s) = step_caps s"
  "step_argc (strip_step s) = step_argc s"
  "check_step_indices at pools (strip_step s) = check_step_indices at pools s"
  by (cases s; simp add: strip_step_def numeral_2_eq_2 step_caps_def step_argc_def
      check_step_indices_def)+

lemma strip_root_simps [simp]:
  "root_caps (strip_root r) = root_caps r"
  "check_root_indices at (strip_root r) pools = check_root_indices at r pools"
  "root_ok r \<Longrightarrow> root_ok (strip_root r)"
  by (cases r; simp add: strip_root_def root_caps_def check_root_indices_def pos_ok_def)+

lemma strip_chain_simps [simp]:
  "root (strip_chain c) = strip_root (root c)"
  "steps (strip_chain c) = map strip_step (steps c)"
  "tail (strip_chain c) = tail c"
  "operands (strip_chain c) = operands c"
  by (simp_all add: strip_chain)

lemma consumes_strip [simp]: "consumes (strip_chain c) = consumes c"
proof -
  have "roots_on_stack (strip_chain c) = roots_on_stack c"
    by (cases "root c") (simp_all add: roots_on_stack_def strip_root_def)
  then show ?thesis by (simp add: consumes_def assigns_def)
qed

lemma stripped_pools_sizes [simp]:
  "consts_len (stripped_pools p) = consts_len p" "names_len (stripped_pools p) = names_len p"
  "tokens_len (stripped_pools p) = tokens_len p" "assign_ops_len (stripped_pools p) = assign_ops_len p"
  "residuals_len (stripped_pools p) = residuals_len p" "switches (stripped_pools p) = switches p"
  "chains (stripped_pools p) = map strip_chain (chains p)"
  by (simp_all add: stripped_pools_def)

lemma check_step_stripped [simp]: "check_step_indices at (stripped_pools p) = check_step_indices at p"
  by (rule ext) (unfold check_step_indices_def stripped_pools_sizes, rule refl)

lemma check_chain_stripped [simp]:
  "check_chain_indices at (strip_chain c) (stripped_pools p) = check_chain_indices at c p"
proof -
  have "check_root_indices at r (stripped_pools p) = check_root_indices at r p" for r
    unfolding check_root_indices_def stripped_pools_sizes by (rule refl)
  then show ?thesis
    unfolding check_chain_indices_def stripped_pools_sizes by (simp add: comp_def)
qed

lemma check_index_family_stripped [simp]:
  "check_index_family at code (stripped_pools p) = check_index_family at code p"
proof (cases "unat (index_at code at 1) < length (chains p)")
  case True
  then show ?thesis by (simp add: check_index_family_def Let_def)
qed (simp add: check_index_family_def Let_def bounded_def)

lemma check_indices_stripped [simp]: "check_indices at code (stripped_pools p) = check_indices at code p"
  unfolding check_indices_def Let_def check_operator_def check_index_family_stripped
    stripped_pools_sizes by (rule refl)

lemma chain_stripped [simp]:
  "chain_caps (stripped_pools p) i = chain_caps p i"
  "chain_effect op (stripped_pools p) i = chain_effect op p i"
  "chain_method_repush op (stripped_pools p) = chain_method_repush op p"
proof -
  note at = get_at_map [of strip_chain "chains p"]
  show "chain_caps (stripped_pools p) i = chain_caps p i"
    by (cases "get_at (chains p) (unat i)") (simp_all add: chain_caps_def at fold_map comp_def)
  show "chain_effect op (stripped_pools p) i = chain_effect op p i"
    by (cases "get_at (chains p) (unat i)") (simp_all add: chain_effect_def at)
  show "chain_method_repush op (stripped_pools p) = chain_method_repush op p"
  proof (cases "op_chain op")
    case (Some k)
    then show ?thesis
      by (cases "get_at (chains p) (unat k)") (simp_all add: chain_method_repush_def at fold_map comp_def)
  qed (simp add: chain_method_repush_def)
qed

lemma op_stripped [simp]:
  "required_caps op (stripped_pools p) = required_caps op p"
  "effect op (stripped_pools p) = effect op p"
  "stack_peak op (stripped_pools p) d = stack_peak op p d"
  unfolding required_caps_def effect_def stack_peak_def chain_stripped by (rule refl)+

section \<open>The verifier\<close>

definition stripped_context :: "vcontext \<Rightarrow> vcontext" where
  "stripped_context cx = cx\<lparr>v_pools := stripped_pools (v_pools cx)\<rparr>"

lemma stripped_context_fields [simp]:
  "v_features (stripped_context cx) = v_features cx" "v_caps (stripped_context cx) = v_caps cx"
  "v_code (stripped_context cx) = v_code cx" "v_starts (stripped_context cx) = v_starts cx"
  "v_pools (stripped_context cx) = stripped_pools (v_pools cx)"
  by (simp_all add: stripped_context_def)

lemma verify_step_stripped: "verify_step (stripped_context cx) = verify_step cx"
proof -
  have "go (stripped_context cx) = go cx" by (intro ext) (simp add: go_def)
  then have edges: "edges (stripped_context cx) = edges cx"
    by (intro ext) (simp only: edges_def stripped_context_fields stripped_pools_sizes
        cong: op.case_cong option.case_cong)
  show ?thesis
    by (intro ext) (unfold verify_step_def stripped_context_fields op_stripped edges, rule refl)
qed

lemma verify_chunk_stripped: "verify_chunk (stripped_context cx) = verify_chunk cx"
  by (intro ext) (unfold verify_chunk_def stripped_context_fields verify_step_stripped, rule refl)

lemma scan_stripped: "scan code (stripped_pools pools) at flags = scan code pools at flags"
proof (induction code pools "at" flags rule: scan.induct)
  case (1 code pools "at" flags)
  show ?case
  proof (cases "width code at")
    case (Some w)
    show ?thesis
      using "1.IH" [OF _ Some]
      by (simp add: scan.simps [of code _ "at"] Some rbind_def split: sum.split)
  qed (simp add: scan.simps [of code _ "at"])
qed

lemma verify_stripped:
  "verify fs caps code functions cs (stripped_pools pools) = verify fs caps code functions cs pools"
proof -
  have "check_params (stripped_pools pools) = check_params pools"
    by (intro ext) (simp add: check_params_def)
  moreover have "verify_chunk \<lparr>v_features = fs, v_caps = caps, v_code = code, v_starts = flags,
      v_pools = stripped_pools pools\<rparr> = verify_chunk \<lparr>v_features = fs, v_caps = caps,
      v_code = code, v_starts = flags, v_pools = pools\<rparr>" for flags
    using verify_chunk_stripped [of "\<lparr>v_features = fs, v_caps = caps, v_code = code,
      v_starts = flags, v_pools = pools\<rparr>"] by (simp add: stripped_context_def)
  ultimately show ?thesis unfolding verify_def scan_stripped by (simp only:)
qed

section \<open>The program\<close>

definition strip_program :: "('m, 'r) program \<Rightarrow> ('m, 'r) program" where
  "strip_program p = p\<lparr>p_positions := Stripped, p_chains := map strip_chain (p_chains p)\<rparr>"

lemma verify_program_stripped: "verify_program fs (strip_program p) = verify_program fs p"
proof -
  have "program_pools (strip_program p) = stripped_pools (program_pools p)"
    by (simp add: program_pools_def strip_program_def stripped_pools_def)
  then show ?thesis
    by (simp add: verify_program_def verify_stripped program_chunks_def) (simp add: strip_program_def)
qed

lemma takes_this_stripped: "chunk_takes_this code c (map strip_chain cs) = chunk_takes_this code c cs"
proof -
  have "(case strip_root r of ThisRoot _ \<Rightarrow> True | _ \<Rightarrow> False) = (case r of ThisRoot _ \<Rightarrow> True | _ \<Rightarrow> False)" for r
    by (cases r) (simp_all add: strip_root_def)
  then have "takes_this_op (map strip_chain cs) = takes_this_op cs"
    by (intro ext) (auto simp: takes_this_op_def get_at_map split: op.split option.split)
  then show ?thesis by (simp add: chunk_takes_this_def)
qed

end
