(* ===== verification/Artifact.thy ===== *)
theory Artifact
  imports Stripping
begin

text \<open>
  A whole artifact (\<open>src/grain/format/write.rs\<close>, \<open>src/grain/format/read.rs\<close>, and the entry points of
  \<open>src/grain/format/mod.rs\<close>): the header, every section in the order of the wire, and the checks a
  loader makes before it hands the program on.
\<close>

section \<open>Writing\<close>

definition MAGIC :: "u8 list" where
  "MAGIC = bytes_of ''RGRN''"

definition VERSION :: u16 where
  "VERSION = 12"

text \<open>The loop over the constants, which names the index of the one that stopped it.\<close>

fun put_consts :: "nat \<Rightarrow> dynamic list \<Rightarrow> write_error + u8 list" where
  "put_consts index [] = Ok []"
| "put_consts index (c # cs) =
     rbind (map_err (UnserializableConstant index) (put_constant c)) (\<lambda>out.
     rbind (put_consts (index + 1) cs) (\<lambda>rest. Ok (out @ rest)))"

definition put_header :: "build \<Rightarrow> caps \<Rightarrow> 128 word \<Rightarrow> u8 list" where
  "put_header b caps ident =
     MAGIC @ le_bytes 2 VERSION @ [int_bytes (build_host b)] @ [float_bytes (build_host b)]
     @ le_bytes 4 caps @ le_bytes 16 ident"

definition put_names :: "strings \<Rightarrow> u8 list" where
  "put_names names =
     put_len (strings_len names) @ concat (map put_num (tl (starts names)))
     @ put_len (length (blob names)) @ blob names"

text \<open>\<open>put_uvarint(out, bytes.len()); out.extend_from_slice(bytes)\<close>, for the code and the table.\<close>

definition put_bytes :: "u8 list \<Rightarrow> u8 list" where
  "put_bytes bytes = put_len (length bytes) @ bytes"

definition write_artifact :: "build \<Rightarrow> ('m, 'r) program \<Rightarrow> bool \<Rightarrow> write_error + u8 list" where
  "write_artifact b p keep =
     (if 0 < length (p_residuals p) then
        (let (construct, pos) = (case first_unsupported p of
             None \<Rightarrow> (''an unlowered expression'', NONE) | Some found \<Rightarrow> found)
         in Err (HasResiduals (length (p_residuals p)) construct pos))
      else if p_lib p \<noteq> None then Err HasScriptFunctions
      else
      rbind (put_consts 0 (p_consts p)) (\<lambda>consts.
      rbind (put_all (put_token b) (p_tokens p)) (\<lambda>tokens.
      rbind (put_all (put_assign_op b) (p_assign_ops p)) (\<lambda>assigns.
      rbind (if keep then ok_or WritePanic (to_table (p_positions p)) else Ok []) (\<lambda>table.
        Ok (put_header b (p_caps p) (p_debug_id p)
          @ put_str (case p_source p of None \<Rightarrow> [] | Some s \<Rightarrow> s)
          @ put_names (p_names p)
          @ put_len (length (p_consts p)) @ consts
          @ put_len (length (p_tokens p)) @ tokens
          @ put_len (length (p_assign_ops p)) @ assigns
          @ put_section (put_chain_spec keep) (p_chains p)
          @ put_switches b (p_switches p)
          @ put_chunk (p_main p)
          @ put_section put_function (map func.truncate (p_functions p))
          @ put_bytes (p_code p)
          @ put_bytes table))))))"

record stripped =
  artifact :: "u8 list"
  artifact_sidecar :: sidecar

definition write_stripped :: "build \<Rightarrow> ('m, 'r) program \<Rightarrow> write_error + stripped" where
  "write_stripped b p =
     rbind (write_artifact b p False) (\<lambda>bytes.
     rbind (ok_or WritePanic (sidecar_of p)) (\<lambda>s.
       Ok \<lparr>artifact = bytes, artifact_sidecar = s\<rparr>))"

section \<open>Reading\<close>

text \<open>The header: nothing past it is decoded before the fingerprint is found to fit.\<close>

definition get_header :: "build \<Rightarrow> u8 list \<Rightarrow> nat \<Rightarrow> read_error + (caps \<times> 128 word) \<times> nat" where
  "get_header b bytes at =
     rbind (take_bytes (length MAGIC) bytes at) (\<lambda>(magic, at).
     if magic \<noteq> MAGIC then Err BadMagic
     else
     rbind (get_le 2 bytes at) (\<lambda>(version, at).
     if version \<noteq> VERSION then Err (UnsupportedVersion version VERSION)
     else
     rbind (get_byte bytes at) (\<lambda>(ints, at).
     rbind (get_byte bytes at) (\<lambda>(floats, at).
     rbind (get_le 4 bytes at) (\<lambda>(caps, at).
     case is_incompatible_with (b_features b)
         \<lparr>int_bytes = ints, float_bytes = floats, abi_caps = caps\<rparr> (build_host b) of
       Some mismatch \<Rightarrow> Err (BadAbi mismatch)
     | None \<Rightarrow> rbind (get_le 16 bytes at) (\<lambda>(ident, at). Ok ((caps, ident), at)))))))"

definition get_source :: "u8 list \<Rightarrow> nat \<Rightarrow> read_error + u8 list option \<times> nat" where
  "get_source bytes at =
     rbind (get_str bytes at) (\<lambda>(s, at). Ok (if s \<noteq> [] then Some s else None, at))"

definition get_bytes :: "u8 list \<Rightarrow> nat \<Rightarrow> read_error + u8 list \<times> nat" where
  "get_bytes bytes at = rbind (uvarint bytes at) (\<lambda>(n, at). take_bytes (unat n) bytes at)"

definition get_names :: "u8 list \<Rightarrow> nat \<Rightarrow> read_error + strings \<times> nat" where
  "get_names bytes at =
     rbind (count bytes at) (\<lambda>(n, at).
     rbind (repeat_get n get_index bytes at) (\<lambda>(rest, at).
     rbind (get_bytes bytes at) (\<lambda>(blob, at).
     rbind (map_err BadNames (borrowed blob (0 # rest))) (\<lambda>names. Ok (names, at)))))"

definition get_positions :: "u8 list \<Rightarrow> u8 list \<Rightarrow> nat \<Rightarrow> read_error + Positions.positions \<times> nat" where
  "get_positions code bytes at =
     rbind (uvarint bytes at) (\<lambda>(n, at).
     if n = 0 then Ok (Stripped, at)
     else
     rbind (take_bytes (unat n) bytes at) (\<lambda>(table, at).
     rbind (map_err BadPositions (from_table table code)) (\<lambda>found. Ok (found, at))))"

text \<open>The pools of the program, from the source name to the switch tables.\<close>

definition get_parts :: "build \<Rightarrow> 128 word \<Rightarrow> u8 list \<Rightarrow> nat \<Rightarrow> read_error + ('m, 'r) parts \<times> nat" where
  "get_parts b ident bytes at =
     rbind (get_source bytes at) (\<lambda>(source, at).
     rbind (get_names bytes at) (\<lambda>(names, at).
     rbind (get_section (get_constant_at_0 b) bytes at) (\<lambda>(consts, at).
     rbind (get_section (get_token b) bytes at) (\<lambda>(tokens, at).
     rbind (get_section (get_assign_op b) bytes at) (\<lambda>(assigns, at).
     rbind (get_section get_chain bytes at) (\<lambda>(chains, at).
     rbind (get_switches b bytes at) (\<lambda>(switches, at).
       Ok (\<lparr>positions_part = Stripped, debug_id_part = Some ident, residuals_part = [],
         consts_part = consts, names_part = names, tokens_part = tokens,
         assign_ops_part = assigns, chains_part = chains, switches_part = switches,
         lib_part = None, resolver_part = None, source_part = source\<rparr>, at))))))))"

text \<open>A function of the wire as the program's record, before \<open>Program::new\<close> derives the rest.\<close>

definition unnamed :: "func \<Rightarrow> script_function" where
  "unnamed f = func.extend f \<lparr>param_names = []\<rparr>"

text \<open>
  \<open>read\<close>. \<open>Program::new\<close> answers, since the fingerprint of the diagnostics is given
  (\<open>new_program_total\<close> below).
\<close>

definition read_artifact :: "build \<Rightarrow> u8 list \<Rightarrow> read_error + ('m, 'r) program" where
  "read_artifact b bytes =
     rbind (get_header b bytes 0) (\<lambda>((caps, ident), at).
     rbind (get_parts b ident bytes at) (\<lambda>(parts, at).
     rbind (get_chunk bytes at) (\<lambda>(main, at).
     rbind (get_section get_function bytes at) (\<lambda>(functions, at).
     rbind (get_bytes bytes at) (\<lambda>(code, at).
     rbind (get_positions code bytes at) (\<lambda>(found, at).
     if \<not> at_end bytes at then Err (InputTrailingBytes (length bytes - at))
     else
     let p = the (new_program caps code main (map unnamed functions) (parts\<lparr>positions_part := found\<rparr>))
     in rbind (map_err Unverifiable (verify_program (b_features b) p)) (\<lambda>_. Ok p)))))))"

section \<open>The sections of an artifact read back\<close>

interpretation bytesc: codec put_bytes get_bytes "\<lambda>s. length s < 2 ^ 64"
  by (rule codecI)
    (auto simp: put_bytes_def get_bytes_def put_len_def written_append uvc.get_written take_written
      unat_of_nat64)

definition source_ok :: "u8 list option \<Rightarrow> bool" where
  "source_ok source \<longleftrightarrow> source \<noteq> Some [] \<and> pred_option str_ok source"

lemma str_ok_Nil [simp]: "str_ok []"
  by (simp add: str_ok_def)

interpretation sourcec: codec "\<lambda>source. put_str (case source of None \<Rightarrow> [] | Some s \<Rightarrow> s)"
  get_source source_ok
  by (rule codecI) (auto simp: get_source_def source_ok_def strc.get_written split: option.splits)

definition caps_ok :: "build \<Rightarrow> caps \<Rightarrow> bool" where
  "caps_ok b caps \<longleftrightarrow> caps_minus caps (abi_caps (build_host b)) = 0"

lemma length_MAGIC: "length MAGIC = 4"
  by (simp add: MAGIC_def)

interpretation headerc: codec "\<lambda>(caps, ident). put_header b caps ident" "get_header b"
  "\<lambda>(caps, ident). caps_ok b caps" for b
proof (rule codecI)
  fix x :: "caps \<times> 128 word" and bytes "at"
  obtain caps ident where x: "x = (caps, ident)" by (cases x)
  assume "(\<lambda>(caps, ident). caps_ok b caps) x"
    and "written bytes at ((\<lambda>(caps, ident). put_header b caps ident) x)"
  then have ok: "caps_ok b caps" and w: "written bytes at (put_header b caps ident)" by (simp_all add: x)
  note w' = w [unfolded put_header_def written_append]
  have fits: "is_incompatible_with (b_features b) \<lparr>int_bytes = int_bytes (build_host b),
      float_bytes = float_bytes (build_host b), abi_caps = caps\<rparr> (build_host b) = None"
    using ok by (simp add: is_incompatible_with_def caps_ok_def)
  show "get_header b bytes at = Ok (x, at + length ((\<lambda>(caps, ident). put_header b caps ident) x))"
    using w' by (auto simp: get_header_def x put_header_def take_written [of _ _ MAGIC] le16c.get_written
        bytec.get_written le32c.get_written le128c.get_written fits length_MAGIC)
qed

definition names_ok :: "strings \<Rightarrow> bool" where
  "names_ok t \<longleftrightarrow> borrowed (blob t) (starts t) = Ok t \<and> length (starts t) \<le> 2 ^ 64"

lemma put_num_nonempty: "put_num w \<noteq> []"
  by (simp add: put_num_def put_uvarint.simps Let_def)

lemma length_concat_le: "(\<And>x. f x \<noteq> []) \<Longrightarrow> length xs \<le> length (concat (map f xs))"
proof (induction xs)
  case (Cons x xs)
  from Cons.prems [of x] Cons.IH [OF Cons.prems] show ?case by (cases "f x") simp_all
qed simp

interpretation namesc: codec put_names get_names names_ok
proof (rule codecI)
  fix t bytes "at"
  assume ok: "names_ok t" and w: "written bytes at (put_names t)"
  let ?rest = "tl (starts t)"
  from ok have b: "borrowed (blob t) (starts t) = Ok t" by (simp add: names_ok_def)
  from borrowed_names [OF this] obtain names where
    n: "t = new_strings names" "length (concat names) < 2 ^ 32" by blast
  then have starts: "starts t = 0 # ?rest" and blob: "length (blob t) < 2 ^ 64"
    by (simp_all add: new_strings_def)
  have len: "length ?rest < 2 ^ 64" using ok starts by (cases "starts t") (auto simp: names_ok_def)
  have "written bytes at (put_len (length ?rest))"
    and ws: "written bytes (at + length (put_len (length ?rest))) (concat (map put_num ?rest))"
    and wb: "written bytes (at + length (put_len (length ?rest)) + length (concat (map put_num ?rest)))
      (put_bytes (blob t))"
    using w by (simp_all add: put_names_def put_bytes_def strings_len_def written_append add.assoc)
  moreover have "length ?rest \<le> length (concat (map put_num ?rest))"
    by (intro length_concat_le) (simp add: put_num_nonempty)
  with ws have "length ?rest \<le> length bytes - (at + length (put_len (length ?rest)))"
    by (auto simp: written_def)
  ultimately have "count bytes at = Ok (length ?rest, at + length (put_len (length ?rest)))"
    using len by (simp add: count_def put_len_def uvc.get_written unat_of_nat64)
  moreover have "list_all (\<lambda>_. True) ?rest" by (simp add: list_all_iff)
  ultimately show "get_names bytes at = Ok (t, at + length (put_names t))"
    using idxc.repeat_get_written [OF ws] bytesc.get_written [OF wb blob] b starts [symmetric]
    by (simp add: get_names_def put_names_def put_bytes_def strings_len_def)
qed

text \<open>A counted section whose writer can fail.\<close>

lemma section_all:
  assumes "\<And>x out bytes at. x \<in> set xs \<Longrightarrow> put x = Inr out \<Longrightarrow> written bytes at out \<Longrightarrow>
      get bytes at = Ok (x, at + length out)"
    and "put_all put xs = Inr out" and "length xs < 2 ^ 64"
    and "written bytes at (put_len (length xs) @ out)"
  shows "get_section get bytes at = Ok (xs, at + length (put_len (length xs) @ out))"
proof -
  from assms(4) have "written bytes at (put_uvarint (of_nat (length xs)))"
    and "written bytes (at + length (put_len (length xs))) out"
    by (simp_all add: written_append put_len_def)
  moreover from this(2) assms(2) have
    "repeat_get (length xs) get bytes (at + length (put_len (length xs))) =
      Ok (xs, at + length (put_len (length xs)) + length out)"
    using repeat_get_all [of xs put get "\<lambda>_. True"] assms(1) by simp
  ultimately show ?thesis
    using assms(3) by (simp add: get_section_def put_len_def uvc.get_written unat_of_nat64)
qed

lemma put_consts_all: "put_consts i cs = Ok out \<Longrightarrow> put_all put_constant cs = Ok out"
  by (induction cs arbitrary: i out) (auto simp: rbind_eq_Ok)

section \<open>Programs that cross\<close>

text \<open>The parts of a program, and the programs \<open>Program::new\<close> makes of their parts.\<close>

definition parts_of :: "('m, 'r) program \<Rightarrow> ('m, 'r) parts" where
  "parts_of p =
     \<lparr>positions_part = p_positions p, debug_id_part = Some (p_debug_id p),
      residuals_part = p_residuals p, consts_part = p_consts p, names_part = p_names p,
      tokens_part = p_tokens p, assign_ops_part = p_assign_ops p, chains_part = p_chains p,
      switches_part = p_switches p, lib_part = p_lib p, resolver_part = p_resolver p,
      source_part = p_source p\<rparr>"

definition derived :: "('m, 'r) program \<Rightarrow> bool" where
  "derived p \<longleftrightarrow>
     build_program (p_caps p) (p_code p) (p_main p) (p_functions p) (parts_of p) (p_debug_id p) = p"

text \<open>
  What the writer needs beyond what it checks: the values are values of the build, the derived
  fields are derived, and no length exceeds the format.
\<close>

definition artifact_ok :: "build \<Rightarrow> ('m, 'r) program \<Rightarrow> bool" where
  "artifact_ok b p \<longleftrightarrow>
     p_resolver p = None \<and> source_ok (p_source p) \<and> caps_ok b (p_caps p) \<and> names_ok (p_names p) \<and>
     list_all (\<lambda>c. constant_ok b c \<and> nesting c \<le> MAX_CONSTANT_DEPTH) (p_consts p) \<and>
     list_all assign_op_ok (p_assign_ops p) \<and> list_all chain_ok (p_chains p) \<and>
     list_all (switch_ok b) (p_switches p) \<and>
     list_all (\<lambda>f. length (params f) < 2 ^ 64) (p_functions p) \<and>
     length (p_consts p) < 2 ^ 64 \<and> length (p_tokens p) < 2 ^ 64 \<and>
     length (p_assign_ops p) < 2 ^ 64 \<and> length (p_chains p) < 2 ^ 64 \<and>
     length (p_switches p) < 2 ^ 64 \<and> length (p_functions p) < 2 ^ 64 \<and>
     length (p_code p) < 2 ^ 32 \<and> positions_for (p_code p) (p_positions p) \<and> derived p"

lemma new_program_total: "debug_id_part parts = Some ident \<Longrightarrow> new_program caps code main fs parts \<noteq> None"
  by (simp add: new_program_def)

definition on_wire :: "script_function \<Rightarrow> func" where
  "on_wire f = (func.truncate f)\<lparr>takes_this := False\<rparr>"

lemma put_function_on_wire: "put_function (func.truncate f) = put_function (on_wire f)"
  by (simp add: put_function_def on_wire_def func.truncate_def)

lemma derive_on_wire: "derive_function code cs names (unnamed (on_wire f)) = derive_function code cs names f"
  by (simp add: derive_function_def unnamed_def on_wire_def func.truncate_def func.extend_def)

lemma this_type_on_wire [simp]: "this_type (unnamed (on_wire f)) = this_type f"
  by (simp add: unnamed_def on_wire_def func.truncate_def func.extend_def)

lemma build_on_wire:
  "build_program caps code main (map (unnamed \<circ> on_wire) fs) parts ident =
   build_program caps code main fs parts ident"
  by (simp add: build_program_def derive_on_wire comp_def list_ex_iff)

interpretation chainsc: codec "put_section (put_chain_spec True)" "get_section get_chain"
  "\<lambda>xs. length xs < 2 ^ 64 \<and> list_all chain_ok xs"
  by (rule section_codec [OF chainc.codec_axioms])

interpretation funcsc: codec "put_section put_function" "get_section get_function"
  "\<lambda>xs. length xs < 2 ^ 64 \<and> list_all func_ok xs"
  by (rule section_codec [OF funcc.codec_axioms])

definition sections :: "build \<Rightarrow> ('m, 'r) program \<Rightarrow> u8 list \<Rightarrow> u8 list \<Rightarrow> u8 list \<Rightarrow> u8 list \<Rightarrow> u8 list" where
  "sections b p vals_out toks_out ops_out table =
     put_header b (p_caps p) (p_debug_id p)
     @ put_str (case p_source p of None \<Rightarrow> [] | Some s \<Rightarrow> s)
     @ put_names (p_names p)
     @ put_len (length (p_consts p)) @ vals_out
     @ put_len (length (p_tokens p)) @ toks_out
     @ put_len (length (p_assign_ops p)) @ ops_out
     @ put_section (put_chain_spec True) (p_chains p)
     @ put_switches b (p_switches p)
     @ put_chunk (p_main p)
     @ put_section put_function (map func.truncate (p_functions p))
     @ put_bytes (p_code p)
     @ put_bytes table"

lemma get_parts_written:
  assumes ok: "artifact_ok b p"
    and vals_out: "put_all put_constant (p_consts p) = Ok vals_out"
    and toks_out: "put_all (put_token b) (p_tokens p) = Ok toks_out"
    and ops_out: "put_all (put_assign_op b) (p_assign_ops p) = Ok ops_out"
  defines "out \<equiv> put_str (case p_source p of None \<Rightarrow> [] | Some s \<Rightarrow> s) @ put_names (p_names p)
     @ (put_len (length (p_consts p)) @ vals_out) @ (put_len (length (p_tokens p)) @ toks_out)
     @ (put_len (length (p_assign_ops p)) @ ops_out)
     @ put_section (put_chain_spec True) (p_chains p) @ put_switches b (p_switches p)"
  assumes w: "written bytes at out"
  shows "get_parts b ident bytes at = Ok
     ((parts_of p)\<lparr>positions_part := Stripped, debug_id_part := Some ident, residuals_part := [],
       lib_part := None, resolver_part := None\<rparr>, at + length out)"
proof -
  note w' = w [unfolded out_def, unfolded written_append [of _ _ "put_str _"]
    written_append [of _ _ "put_names _"] written_append [of _ _ "put_len _ @ _"]
    written_append [of _ _ "put_section _ _"]]
  have c: "written bytes k (put_len (length (p_consts p)) @ vals_out) \<Longrightarrow>
      get_section (get_constant_at_0 b) bytes k =
        Ok (p_consts p, k + length (put_len (length (p_consts p)) @ vals_out))" for k
    using ok vals_out
    by (intro section_all)
      (auto simp: artifact_ok_def get_constant_at_0_def get_constant_put list_all_iff less_Suc_eq_le)
  have t: "written bytes k (put_len (length (p_tokens p)) @ toks_out) \<Longrightarrow>
      get_section (get_token b) bytes k =
        Ok (p_tokens p, k + length (put_len (length (p_tokens p)) @ toks_out))" for k
    using ok toks_out by (intro section_all) (auto simp: artifact_ok_def get_token_put)
  have a: "written bytes k (put_len (length (p_assign_ops p)) @ ops_out) \<Longrightarrow>
      get_section (get_assign_op b) bytes k =
        Ok (p_assign_ops p, k + length (put_len (length (p_assign_ops p)) @ ops_out))" for k
    using ok ops_out
    by (intro section_all) (auto simp: artifact_ok_def list_all_iff get_assign_op_put)
  from ok have v: "source_ok (p_source p)" "names_ok (p_names p)"
    "length (p_chains p) < 2 ^ 64 \<and> list_all chain_ok (p_chains p)"
    "length (p_switches p) < 2 ^ 64 \<and> list_all (switch_ok b) (p_switches p)"
    by (simp_all add: artifact_ok_def)
  show ?thesis
    using w' unfolding get_parts_def out_def parts_of_def
    by (elim conjE) (simp add: sourcec.get_written [OF _ v(1)] namesc.get_written [OF _ v(2)] c t a
      chainsc.get_written [OF _ v(3)] switchesc.get_written [OF _ v(4)] del: append_assoc)
qed

lemma get_positions_written:
  assumes "written bytes at (put_bytes table)" and "length table < 2 ^ 64"
    and "if table = [] then found = Stripped else from_table table code = Ok found"
  shows "get_positions code bytes at = Ok (found, at + length (put_bytes table))"
proof -
  let ?n = "of_nat (length table) :: u64"
  from assms(1) have n: "uvarint bytes at = Ok (?n, at + length (put_len (length table)))"
    and w: "written bytes (at + length (put_len (length table))) table"
    by (simp_all add: put_bytes_def written_append put_len_def uvc.get_written)
  have u: "unat ?n = length table" using assms(2) by (rule unat_of_nat64)
  show ?thesis
  proof (cases "table = []")
    case True
    with assms(3) n show ?thesis by (simp add: get_positions_def put_bytes_def)
  next
    case False
    with u have "?n \<noteq> 0" by (metis length_0_conv unat_0)
    with False n u assms(3) take_written [OF w refl] show ?thesis
      by (simp add: get_positions_def put_bytes_def)
  qed
qed

lemma read_sections:
  fixes p :: "('m, 'r) program"
  assumes ok: "artifact_ok b p" "p_residuals p = []" "p_lib p = None"
    and outs: "put_all put_constant (p_consts p) = Ok vals_out"
      "put_all (put_token b) (p_tokens p) = Ok toks_out"
      "put_all (put_assign_op b) (p_assign_ops p) = Ok ops_out"
    and table: "length table < 2 ^ 64"
      "if table = [] then p_positions p = Stripped else from_table table (p_code p) = Ok (p_positions p)"
  shows "read_artifact b (sections b p vals_out toks_out ops_out table) =
    rbind (map_err Unverifiable (verify_program (b_features b) p)) (\<lambda>_. Ok p)"
proof -
  define bytes where "bytes = sections b p vals_out toks_out ops_out table"
  define header where "header = put_header b (p_caps p) (p_debug_id p)"
  define parts where "parts = put_str (case p_source p of None \<Rightarrow> [] | Some s \<Rightarrow> s) @ put_names (p_names p)
     @ (put_len (length (p_consts p)) @ vals_out) @ (put_len (length (p_tokens p)) @ toks_out)
     @ (put_len (length (p_assign_ops p)) @ ops_out)
     @ put_section (put_chain_spec True) (p_chains p) @ put_switches b (p_switches p)"
  define fns where "fns = put_section put_function (map on_wire (p_functions p))"
  have bytes: "bytes = header @ parts @ put_chunk (p_main p) @ fns @ put_bytes (p_code p) @ put_bytes table"
    by (simp add: bytes_def sections_def header_def parts_def fns_def put_section_def comp_def
        put_function_on_wire)
  have w: "written bytes 0 header" "written bytes (length header) parts"
    "written bytes (length header + length parts) (put_chunk (p_main p))"
    "written bytes (length header + length parts + length (put_chunk (p_main p))) fns"
    "written bytes (length header + length parts + length (put_chunk (p_main p)) + length fns)
      (put_bytes (p_code p))"
    "written bytes (length header + length parts + length (put_chunk (p_main p)) + length fns
      + length (put_bytes (p_code p))) (put_bytes table)"
    using written_self [of bytes] by (simp_all add: bytes written_append add.assoc)
  have h: "get_header b bytes 0 = Ok ((p_caps p, p_debug_id p), length header)"
    using headerc.get_written [where b = b and bytes = bytes and at = 0 and x = "(p_caps p, p_debug_id p)"]
      w(1) ok(1)
    by (simp add: header_def artifact_ok_def)
  note ps = get_parts_written [OF ok(1) outs w(2) [unfolded parts_def], of "p_debug_id p", folded parts_def]
  have fs: "get_section get_function bytes (length header + length parts + length (put_chunk (p_main p))) =
      Ok (map on_wire (p_functions p), length header + length parts + length (put_chunk (p_main p)) + length fns)"
    unfolding fns_def
    using ok(1) by (intro funcsc.get_written w(4) [unfolded fns_def])
      (auto simp: artifact_ok_def list_all_iff func_ok_def on_wire_def func.truncate_def)
  have code: "length (p_code p) < 2 ^ 64" using ok(1) by (simp add: artifact_ok_def)
  have ends: "at_end bytes (length header + length parts + length (put_chunk (p_main p)) + length fns
      + length (put_bytes (p_code p)) + length (put_bytes table))"
    by (simp add: at_end_def bytes)
  have p: "build_program (p_caps p) (p_code p) (p_main p) (map (unnamed \<circ> on_wire) (p_functions p))
      (parts_of p) (p_debug_id p) = p"
    using ok(1) by (simp add: build_on_wire artifact_ok_def derived_def)
  have parts_eq: "(parts_of p)\<lparr>debug_id_part := Some (p_debug_id p), residuals_part := [],
      lib_part := None, resolver_part := None, positions_part := p_positions p\<rparr> = parts_of p"
    using ok by (simp add: parts_of_def artifact_ok_def)
  have debug_part: "debug_id_part (parts_of p) = Some (p_debug_id p)" by (simp add: parts_of_def)
  show ?thesis
    unfolding read_artifact_def bytes_def [symmetric]
    using p parts_eq
    by (simp add: debug_part h ps chunkc.get_written [OF w(3)] fs bytesc.get_written [OF w(5) code]
        get_positions_written [OF w(6) table] ends new_program_def Let_def)
qed

lemma write_sections:
  assumes "write_artifact b p True = Ok bytes"
  obtains vals_out toks_out ops_out table where
    "p_residuals p = []" "p_lib p = None" "put_all put_constant (p_consts p) = Ok vals_out"
    "put_all (put_token b) (p_tokens p) = Ok toks_out"
    "put_all (put_assign_op b) (p_assign_ops p) = Ok ops_out"
    "to_table (p_positions p) = Some table" "bytes = sections b p vals_out toks_out ops_out table"
proof -
  from assms have "p_residuals p = []" "p_lib p = None"
    by (auto simp: write_artifact_def Let_def split: if_splits prod.splits)
  with assms show thesis
    by (auto simp: write_artifact_def rbind_eq_Ok sections_def dest: put_consts_all intro: that)
qed

section \<open>Stripped artifacts\<close>

lemma put_chain_spec_stripped: "put_chain_spec False = (\<lambda>c. put_chain_spec True (strip_chain c))"
proof -
  have "put_root False r = put_root True (strip_root r)" for r
    by (cases r) (simp_all add: put_root_def strip_root_def put_position_False)
  moreover have "put_step False = (\<lambda>s. put_step True (strip_step s))"
  proof (rule ext)
    fix s show "put_step False s = put_step True (strip_step s)"
      by (cases s) (simp_all add: put_step_def strip_step_def put_position_False numeral_2_eq_2)
  qed
  ultimately show ?thesis by (intro ext) (simp add: put_chain_spec_def put_section_def comp_def)
qed

lemma strip_program_fields [simp]:
  "p_caps (strip_program p) = p_caps p" "p_code (strip_program p) = p_code p"
  "p_main (strip_program p) = p_main p" "p_functions (strip_program p) = p_functions p"
  "p_positions (strip_program p) = Stripped" "p_debug_id (strip_program p) = p_debug_id p"
  "p_residuals (strip_program p) = p_residuals p" "p_consts (strip_program p) = p_consts p"
  "p_names (strip_program p) = p_names p" "p_tokens (strip_program p) = p_tokens p"
  "p_assign_ops (strip_program p) = p_assign_ops p"
  "p_chains (strip_program p) = map strip_chain (p_chains p)"
  "p_switches (strip_program p) = p_switches p" "p_lib (strip_program p) = p_lib p"
  "p_resolver (strip_program p) = p_resolver p" "p_source (strip_program p) = p_source p"
  by (simp_all add: strip_program_def)

lemma chain_ok_strip: "chain_ok c \<Longrightarrow> chain_ok (strip_chain c)"
proof -
  have "step_ok s \<Longrightarrow> step_ok (strip_step s)" for s
    by (cases s) (simp_all add: strip_step_def numeral_2_eq_2 pos_ok_def)
  then show "chain_ok c \<Longrightarrow> chain_ok (strip_chain c)"
    by (auto simp: chain_ok_def list_all_iff)
qed

lemma derived_strip: "derived p \<Longrightarrow> derived (strip_program p)"
proof -
  have derive: "derive_function code (map strip_chain cs) names = derive_function code cs names"
    for code cs names by (intro ext) (simp add: derive_function_def takes_this_stripped)
  assume "derived p"
  then have p: "build_program (p_caps p) (p_code p) (p_main p) (p_functions p) (parts_of p) (p_debug_id p) = p"
    by (simp add: derived_def)
  have "build_program (p_caps p) (p_code p) (p_main p) (p_functions p) (parts_of (strip_program p))
      (p_debug_id p) = strip_program (build_program (p_caps p) (p_code p) (p_main p) (p_functions p)
      (parts_of p) (p_debug_id p))"
    by (simp add: build_program_def derive parts_of_def recompute_max_stack_def strip_program_def)
  then show "derived (strip_program p)" by (simp add: derived_def p)
qed

lemma artifact_ok_strip: "artifact_ok b p \<Longrightarrow> artifact_ok b (strip_program p)"
  using derived_strip [of p] chain_ok_strip
  by (auto simp: artifact_ok_def positions_for_def list_all_iff)

lemma write_stripped_sections:
  assumes "write_artifact b p False = Ok bytes"
  obtains vals_out toks_out ops_out where
    "p_residuals p = []" "p_lib p = None" "put_all put_constant (p_consts p) = Ok vals_out"
    "put_all (put_token b) (p_tokens p) = Ok toks_out"
    "put_all (put_assign_op b) (p_assign_ops p) = Ok ops_out"
    "bytes = sections b (strip_program p) vals_out toks_out ops_out []"
proof -
  from assms have "p_residuals p = []" "p_lib p = None"
    by (auto simp: write_artifact_def Let_def split: if_splits prod.splits)
  with assms show thesis
    by (auto simp: write_artifact_def rbind_eq_Ok sections_def put_section_def comp_def
        put_chain_spec_stripped dest: put_consts_all intro: that)
qed

section \<open>When writing succeeds\<close>

text \<open>A value that means something in another process.\<close>

fun serializable :: "dynamic \<Rightarrow> bool" where
  "serializable (DArray items) = list_all serializable items"
| "serializable (DMap m) = list_all (\<lambda>e. serializable (snd e)) m"
| "serializable (DOther _) = False"
| "serializable _ = True"

lemma succeeds_put_all: "(\<exists>out. put_all put xs = Ok out) \<longleftrightarrow> list_all (\<lambda>x. \<exists>out. put x = Ok out) xs"
  by (induction xs) (auto simp: rbind_eq_Ok)

lemma succeeds_put_constant: "(\<exists>out. put_constant c = Ok out) \<longleftrightarrow> serializable c"
proof (induction c)
  case (DArray items)
  then show ?case
    using succeeds_put_all [of put_constant items]
    by (auto simp: put_items_all rbind_eq_Ok list_all_iff)
next
  case (DMap m)
  have "(\<exists>out. put_entry e = Ok out) \<longleftrightarrow> (\<exists>out. put_constant (snd e) = Ok out)" for e
    by (auto simp: put_entry_def rbind_eq_Ok)
  with DMap show ?case
    using succeeds_put_all [of put_entry m]
    by (auto simp: put_entries_all rbind_eq_Ok list_all_iff snds.simps)
qed simp_all

lemma succeeds_put_consts: "(\<exists>out. put_consts i cs = Ok out) \<longleftrightarrow> list_all serializable cs"
  by (induction cs arbitrary: i) (auto simp: rbind_eq_Ok succeeds_put_constant [symmetric])

lemma succeeds_put_assign_op:
  "(\<exists>out. put_assign_op b e = Ok out) \<longleftrightarrow> token_ok b (op_assign e) \<and> token_ok b (op_token e)"
  by (auto simp: put_assign_op_def rbind_eq_Ok put_token_iff [symmetric])

section \<open>Writing and reading back\<close>

lemma from_table_Nil: "from_table [] code \<noteq> Ok found"
  by (simp add: from_table_def check_def get_u32_def get_u64_def varint_shifts_def get_at_def)

lemma read_written:
  assumes "write_artifact b p True = Ok bytes" and "artifact_ok b p" and "length bytes < 2 ^ 64"
  shows "read_artifact b bytes = rbind (map_err Unverifiable (verify_program (b_features b) p)) (\<lambda>_. Ok p)"
  using assms(1)
proof (rule write_sections)
  fix vals_out toks_out ops_out table
  assume outs: "p_residuals p = []" "p_lib p = None" "put_all put_constant (p_consts p) = Ok vals_out"
    "put_all (put_token b) (p_tokens p) = Ok toks_out"
    "put_all (put_assign_op b) (p_assign_ops p) = Ok ops_out"
    and table: "to_table (p_positions p) = Some table"
    and bytes: "bytes = sections b p vals_out toks_out ops_out table"
  from assms(2) have "positions_for (p_code p) (p_positions p)" "length (p_code p) < 2 ^ 32"
    by (simp_all add: artifact_ok_def)
  with to_table_from_table table have "from_table table (p_code p) = Ok (p_positions p)" by fastforce
  moreover have "length table < 2 ^ 64"
    using assms(3) by (simp add: bytes sections_def put_bytes_def)
  ultimately show ?thesis
    using read_sections [OF assms(2) outs, of table] from_table_Nil [of "p_code p" "p_positions p"]
    by (cases "table = []") (simp_all add: bytes)
qed

lemma read_stripped:
  assumes "write_artifact b p False = Ok bytes" and "artifact_ok b p"
  shows "read_artifact b bytes = rbind (map_err Unverifiable (verify_program (b_features b) p))
    (\<lambda>_. Ok (strip_program p))"
  using assms(1)
proof (rule write_stripped_sections)
  fix vals_out toks_out ops_out
  assume outs: "p_residuals p = []" "p_lib p = None" "put_all put_constant (p_consts p) = Ok vals_out"
    "put_all (put_token b) (p_tokens p) = Ok toks_out"
    "put_all (put_assign_op b) (p_assign_ops p) = Ok ops_out"
    and bytes: "bytes = sections b (strip_program p) vals_out toks_out ops_out []"
  then show ?thesis
    using read_sections [OF artifact_ok_strip [OF assms(2)], of vals_out toks_out ops_out "[]"]
    by (simp add: verify_program_stripped)
qed

lemma strip_positions_eq: "strip_positions p = map_option (\<lambda>s. (strip_program p, s)) (sidecar_of p)"
  by (simp add: strip_positions_def strip_program_def)

lemma write_header:
  assumes "write_artifact b p keep = Ok bytes"
  obtains rest where "bytes = put_header b (p_caps p) (p_debug_id p) @ rest"
proof -
  from assms have "p_residuals p = []" "p_lib p = None"
    by (auto simp: write_artifact_def Let_def split: if_splits prod.splits)
  with assms show thesis by (auto simp: write_artifact_def rbind_eq_Ok intro: that)
qed

lemma read_artifact_header:
  "get_header b bytes 0 = Err e \<Longrightarrow> read_artifact b bytes = Err e"
  by (simp add: read_artifact_def)

section \<open>Properties\<close>

text \<open>
  C3. What is written is what is read: for a program that verifies and whose values are values of
  the build, reading the artifact gives the program back, diagnostics and derived fields included.
\<close>

theorem read_write:
  assumes "write_artifact b p True = Ok bytes" and "artifact_ok b p"
    and "verify_program (b_features b) p = Ok measured" and "length bytes < 2 ^ 64"
  shows "read_artifact b bytes = Ok p"
  using read_written [OF assms(1,2,4)] assms(3) by simp

text \<open>
  C4. Shipping without diagnostics commutes with stripping: the artifact written without them is
  read as the program stripped in memory, the sidecar is the one stripping returns, and attaching
  it to what was read restores the program.
\<close>

theorem write_stripped_restores:
  assumes "write_stripped b p = Ok s" and "artifact_ok b p"
    and "verify_program (b_features b) p = Ok measured" and "length (program_sites p) < 2 ^ 32"
  shows "\<exists>q. read_artifact b (artifact s) = Ok q \<and>
     strip_positions p = Some (q, artifact_sidecar s) \<and>
     attach_positions q (artifact_sidecar s) = Ok p"
proof -
  from assms(1) have w: "write_artifact b p False = Ok (artifact s)"
    and s: "sidecar_of p = Some (artifact_sidecar s)"
    by (auto simp: write_stripped_def rbind_eq_Ok)
  have "list_all pos_ok (positions c)" if "chain_ok c" for c
  proof -
    have "root_ok r \<Longrightarrow> list_all pos_ok (root_positions r)" for r by (cases r) simp_all
    moreover have "step_ok t \<Longrightarrow> list_all pos_ok (step_positions t)" for t by (cases t) simp_all
    ultimately show ?thesis
      using that by (auto simp: chain_ok_def positions_def list_all_iff)
  qed
  with assms(2,4) have "diagnosed p"
    by (auto simp: diagnosed_def artifact_ok_def program_sites_def list_all_iff)
  from attach_stripped [OF this s] have "attach_positions (strip_program p) (artifact_sidecar s) = Ok p"
    by (simp add: strip_program_def)
  with read_stripped [OF w assms(2)] s assms(3) show ?thesis by (simp add: strip_positions_eq)
qed

text \<open>
  C2. The plain chunks of a loaded program run safely: if some bytes load, whatever they are, then the reader has verified
  their program, so the dispatch loop stays safe on each of its chunks that meets the conditions of
  \<open>verified_runs_safely\<close>: entered at an instruction and of plain instructions only (no iterator, no
  \<open>PushHandler\<close>, no \<open>Rotate 0\<close>, indexing by chains of the compiler's form, all in \<open>plain_chunk\<close>), with
  function pointers of at most one curried argument (\<open>bound \<le> 1\<close>). Safe means: at an instruction
  of the chunk, with references in range and operands within a height the loader measured and the
  chunk declares; in a frame above another one (\<open>0 < floor\<close>) reading the empty slot under the floor
  remains possible, and no other fault is. Chunks outside of these conditions do load and can crash.
\<close>

theorem loaded_runs_safely:
  fixes cfg :: "'v config" and p :: "('m, 'r) program"
  assumes "read_artifact b bytes = Ok p" and "i < length (program_chunks p)"
    and "c = program_chunks p ! i" "plain_chunk (p_code p) (program_pools p) c" "bound \<le> 1"
    and "(vm_step (p_code p) (program_pools p) bound u)\<^sup>*\<^sup>*
      (Running (unat (entry c)) (new_frame floor (unat (max_stack c)))) cfg"
  shows "\<exists>high \<le> max_stack c. safe_config (p_code p) (program_pools p) c high floor cfg"
proof -
  from assms(1) obtain measured where m: "verify_program (b_features b) p = Ok measured"
    by (auto simp: read_artifact_def rbind_eq_Ok Let_def split: if_splits)
  then have "verify (b_features b) (p_caps p) (p_code p) (map func.truncate (p_functions p))
      (program_chunks p) (program_pools p) = Ok measured" by (simp add: verify_program_def)
  note v = verify_Ok [OF this assms(2)] runs_safely [OF this assms(2-6)]
  from v(1) obtain cx where "verify_chunk cx c = Ok (measured ! i)" using assms(3) by metis
  then have "measured ! i \<le> max_stack c" by (rule verify_chunk_sound(1))
  with v(2) show ?thesis by blast
qed

text \<open>
  C36. When writing succeeds: if and only if the program has no fragment and no script library, every
  constant it pools is a plain value down to its items, every operator token is one that its syntax is
  looked up as, and, if the diagnostics are kept, the table encoder answers. These are all of the checks: what is
  written does not depend on a module resolver, so a program that has one is written without it, and no depth is
  looked at, so constants nested deeper than the reader admits are written too
  (\<open>Constants.constant_roundtrip\<close> gives its refusal).
\<close>

theorem write_succeeds:
  "((\<exists>bytes. write_artifact b p keep = Ok bytes) \<longleftrightarrow>
     p_residuals p = [] \<and> p_lib p = None \<and> list_all serializable (p_consts p) \<and>
     list_all (\<lambda>t. \<exists>s. lookup_symbol_from_syntax (b_features b) s = Some t)
       (p_tokens p @ map op_assign (p_assign_ops p) @ map op_token (p_assign_ops p)) \<and>
     (if keep then to_table (p_positions p) \<noteq> None else True)) \<and>
   write_artifact b (p\<lparr>p_resolver := resolver\<rparr>) keep = write_artifact b p keep"
proof -
  have tok: "(\<exists>s. lookup_symbol_from_syntax (b_features b) s = Some t) \<longleftrightarrow> token_ok b t" for t
    by (simp add: lookup_symbol token_ok_def)
  have "(\<exists>bytes. write_artifact b p keep = Ok bytes) \<longleftrightarrow>
     p_residuals p = [] \<and> p_lib p = None \<and> list_all serializable (p_consts p) \<and>
     list_all (\<lambda>t. \<exists>s. lookup_symbol_from_syntax (b_features b) s = Some t)
       (p_tokens p @ map op_assign (p_assign_ops p) @ map op_token (p_assign_ops p)) \<and>
     (if keep then to_table (p_positions p) \<noteq> None else True)"
    unfolding tok succeeds_put_consts [of 0, symmetric]
    using succeeds_put_all [of "put_token b" "p_tokens p"]
      succeeds_put_all [of "put_assign_op b" "p_assign_ops p"]
    by (auto simp: write_artifact_def rbind_eq_Ok put_token_iff succeeds_put_assign_op list_all_iff
        Let_def split: prod.split)
  moreover have "first_unsupported (p\<lparr>p_resolver := resolver\<rparr>) = first_unsupported p"
    by (simp add: first_unsupported_def cong: list.case_cong)
  then have "write_artifact b (p\<lparr>p_resolver := resolver\<rparr>) keep = write_artifact b p keep"
    by (simp add: write_artifact_def Let_def)
  ultimately show ?thesis by blast
qed

text \<open>
  An artifact for another build or another format is refused before anything of it is decoded:
  with the mismatch of the fingerprint, or with the version it names.
\<close>

theorem foreign_artifact_refused:
  assumes "write_artifact b p keep = Ok bytes"
  shows "\<exists>rest. bytes = put_header b (p_caps p) (p_debug_id p) @ rest \<and>
     (case is_incompatible_with (b_features b')
         \<lparr>int_bytes = int_bytes (build_host b), float_bytes = float_bytes (build_host b),
          abi_caps = p_caps p\<rparr> (build_host b') of
        Some mismatch \<Rightarrow> read_artifact b' bytes = Err (BadAbi mismatch)
      | None \<Rightarrow> get_header b' bytes 0 = Ok ((p_caps p, p_debug_id p), 28)) \<and>
     (if v \<noteq> VERSION then read_artifact b' (MAGIC @ le_bytes 2 v @ rest) = Err (UnsupportedVersion v VERSION)
      else True)"
proof -
  from assms obtain rest where bytes: "bytes = put_header b (p_caps p) (p_debug_id p) @ rest"
    by (rule write_header)
  then have "written bytes 0 (put_header b (p_caps p) (p_debug_id p))"
    using written_in_place [of "[]" _ rest] by simp
  note w = this [unfolded put_header_def written_append]
  have h: "get_header b' bytes 0 = (case is_incompatible_with (b_features b')
      \<lparr>int_bytes = int_bytes (build_host b), float_bytes = float_bytes (build_host b),
       abi_caps = p_caps p\<rparr> (build_host b') of
       Some mismatch \<Rightarrow> Err (BadAbi mismatch)
     | None \<Rightarrow> Ok ((p_caps p, p_debug_id p), 28))"
    using w by (auto simp: get_header_def take_written [of _ _ MAGIC] le16c.get_written
        bytec.get_written le32c.get_written le128c.get_written length_MAGIC split: option.split)
  have "written (MAGIC @ le_bytes 2 v @ rest) 0 (MAGIC @ le_bytes 2 v)"
    using written_in_place [of "[]" "MAGIC @ le_bytes 2 v" rest] by simp
  note w2 = this [unfolded written_append]
  have "get_header b' (MAGIC @ le_bytes 2 v @ rest) 0 = Err (UnsupportedVersion v VERSION)"
    if "v \<noteq> VERSION"
    using that w2 by (auto simp: get_header_def take_written [of _ _ MAGIC] le16c.get_written length_MAGIC)
  with h show ?thesis
    using read_artifact_header [of b' bytes] read_artifact_header [of b' "MAGIC @ le_bytes 2 v @ rest"]
    by (intro exI [of _ rest] conjI) (auto simp: bytes split: option.split)
qed

section \<open>Witnesses\<close>

definition wire_build :: build where
  "wire_build = \<lparr>b_features = full_features, b_int_size = 8, b_float_size = 8, b_probe = 0,
     b_hash_int = (\<lambda>_. 0), b_decimal_ok = (\<lambda>_ _. False), b_token_debug = (\<lambda>_. [])\<rparr>"

lemma tiny_fits: "artifact_ok wire_build (tiny [this_chain])"
proof -
  have "borrowed [] [0] = Ok (new_strings [])"
    by (simp add: borrowed_def from_utf8_def new_strings_def utf8_def valid_up_to.simps scalar_width_def)
  moreover have "derived (tiny [this_chain])"
    by (simp add: derived_def build_program_def parts_of_def tiny_def recompute_max_stack_def
        unit_return_chunk_def)
  moreover note tiny_diagnosed
  ultimately show ?thesis
    by (simp add: artifact_ok_def diagnosed_def)
      (simp add: tiny_def source_ok_def caps_ok_def caps_minus_def names_ok_def new_strings_def chain_ok_def
        this_chain_def pos_ok_def)
qed

lemma tiny_writes: "\<exists>bytes. write_artifact wire_build (tiny [this_chain]) keep = Ok bytes \<and> length bytes < 2 ^ 64"
proof -
  have table: "to_table (p_positions (tiny [this_chain])) = Some [1, 1, 3, 4]"
    by (simp add: tiny_def to_table_def table_sites_def map_filter_simps get_line_def NONE_def
        get_position_def unwrap_or_0_def encode_def put_u64.simps put_u32_def Let_def)
  show ?thesis
    using table
    by (auto simp: write_artifact_def tiny_def put_header_def MAGIC_def bytes_of_def le_bytes_def
        put_str_def put_names_def put_len_def put_uvarint.simps put_section_def put_switches_def
        put_chunk_def put_bytes_def put_num_def new_strings_def strings_len_def unit_return_chunk_def
        put_chain_spec_def put_root_def put_position_def put_tail_def this_chain_def get_line_def
        get_position_def NONE_def unwrap_or_0_def)
qed

theorem read_write_witness:
  "\<exists>bytes. write_artifact wire_build (tiny [this_chain]) True = Ok bytes \<and>
     (read_artifact wire_build bytes :: read_error + (unit, unit) program) = Ok (tiny [this_chain])"
proof -
  obtain bytes where w: "write_artifact wire_build (tiny [this_chain]) True = Ok bytes" "length bytes < 2 ^ 64"
    using tiny_writes by blast
  have "verify_program (b_features wire_build) (tiny [this_chain]) = Ok [1]"
    by (simp add: wire_build_def tiny_verifies)
  from read_write [OF w(1) tiny_fits this w(2)] w(1) show ?thesis by blast
qed

theorem write_stripped_restores_witness:
  "\<exists>s q. write_stripped wire_build (tiny [this_chain]) = Ok s \<and>
     read_artifact wire_build (artifact s) = Ok q \<and>
     attach_positions q (artifact_sidecar s) = Ok (tiny [this_chain])"
proof -
  obtain bytes where "write_artifact wire_build (tiny [this_chain]) False = Ok bytes"
    using tiny_writes by blast
  moreover obtain sc where "sidecar_of (tiny [this_chain]) = Some sc"
    by (rule sidecar_of_diagnosed [OF tiny_diagnosed])
  ultimately have w: "write_stripped wire_build (tiny [this_chain]) =
      Ok \<lparr>artifact = bytes, artifact_sidecar = sc\<rparr>" by (simp add: write_stripped_def)
  have "verify_program (b_features wire_build) (tiny [this_chain]) = Ok [1]"
    by (simp add: wire_build_def tiny_verifies)
  moreover have "length (program_sites (tiny [this_chain])) < 2 ^ 32"
    using tiny_diagnosed by (simp add: diagnosed_def)
  ultimately show ?thesis using write_stripped_restores [OF w tiny_fits] w by blast
qed

theorem loaded_runs_safely_witness:
  "\<exists>bytes p. read_artifact wire_build bytes = Ok (p :: (unit, unit) program) \<and>
     (\<exists>high \<le> 4. safe_config (p_code p) (program_pools p) (p_main p) high 3
        (Running 1 (stack_frame 3 4 [True])))"
proof -
  let ?p = "tiny [this_chain]"
  obtain bytes where w: "write_artifact wire_build ?p True = Ok bytes" "length bytes < 2 ^ 64"
    using tiny_writes by blast
  have "verify_program (b_features wire_build) ?p = Ok [1]" by (simp add: wire_build_def tiny_verifies)
  with read_written [OF w(1) tiny_fits w(2)] have r: "read_artifact wire_build bytes = Ok ?p" by simp
  have p: "p_code ?p = [2, 19]" "program_chunks ?p = [unit_return_chunk]" "p_main ?p = unit_return_chunk"
    by (simp_all add: tiny_def program_chunks_def)
  have "\<exists>high \<le> max_stack unit_return_chunk. safe_config (p_code ?p) (program_pools ?p) unit_return_chunk
      high 3 (Running 1 (stack_frame 3 4 [True]))"
    using loaded_runs_safely [OF r, of 0 unit_return_chunk 1 True 3 "Running 1 (stack_frame 3 4 [True])"]
      unit_return_plain unit_return_steps by (simp add: p)
  with r have "read_artifact wire_build bytes = Ok ?p \<and>
     (\<exists>high \<le> 4. safe_config (p_code ?p) (program_pools ?p) (p_main ?p) high 3
        (Running 1 (stack_frame 3 4 [True])))"
    by (simp add: p unit_return_chunk_def)
  then show ?thesis by blast
qed

theorem foreign_artifact_refused_witness:
  "\<exists>bytes. write_artifact wire_build (tiny [this_chain]) True = Ok bytes \<and>
     (read_artifact (wire_build\<lparr>b_int_size := 4\<rparr>) bytes :: read_error + (unit, unit) program) =
       Err (BadAbi (DataWidth ''integer'' 8 4))"
proof -
  obtain bytes where w: "write_artifact wire_build (tiny [this_chain]) True = Ok bytes"
    using tiny_writes by blast
  show ?thesis
    using foreign_artifact_refused [OF w, of "wire_build\<lparr>b_int_size := 4\<rparr>" VERSION] w
    by (auto simp: is_incompatible_with_def wire_build_def build_host_def host_def)
qed

end
