(* ===== verification/Int_Ops.thy ===== *)
theory Int_Ops
  imports Prelude
begin

unbundle bit_operations_syntax

text \<open>
  The integer functions of \<open>src/packages/arithmetic.rs\<close>: what \<open>gen_arithmetic_functions\<close> and
  \<open>gen_signed_functions\<close> generate for every integer type of Rust, in the checked build (without
  the feature \<open>unchecked\<close>). A value of a Rust integer type is an \<open>int\<close> inside the bounds of the
  type (\<open>fits\<close>), and the checked, wrapping and shifting methods of the standard library are
  written out over those bounds. \<open>INT\<close> is one of the types, a parameter \<open>sys\<close> of the functions
  that take a shift or an exponent: \<open>I64\<close>, or \<open>I32\<close> with the feature \<open>only_i32\<close>.
\<close>

section \<open>Integer types\<close>

datatype int_type = I8 | I16 | I32 | I64 | I128 | U8 | U16 | U32 | U64 | U128

fun type_bits :: "int_type \<Rightarrow> nat" where
  "type_bits I8 = 8" | "type_bits I16 = 16" | "type_bits I32 = 32" | "type_bits I64 = 64"
| "type_bits I128 = 128" | "type_bits U8 = 8" | "type_bits U16 = 16" | "type_bits U32 = 32"
| "type_bits U64 = 64" | "type_bits U128 = 128"

fun is_signed :: "int_type \<Rightarrow> bool" where
  "is_signed I8 = True" | "is_signed I16 = True" | "is_signed I32 = True" | "is_signed I64 = True"
| "is_signed I128 = True" | "is_signed U8 = False" | "is_signed U16 = False"
| "is_signed U32 = False" | "is_signed U64 = False" | "is_signed U128 = False"

definition type_min :: "int_type \<Rightarrow> int" where
  "type_min t = (if is_signed t then - (2 ^ (type_bits t - 1)) else 0)"

definition type_max :: "int_type \<Rightarrow> int" where
  "type_max t = (if is_signed t then 2 ^ (type_bits t - 1) - 1 else 2 ^ type_bits t - 1)"

definition fits :: "int_type \<Rightarrow> int \<Rightarrow> bool" where
  "fits t x \<longleftrightarrow> type_min t \<le> x \<and> x \<le> type_max t"

text \<open>What \<open>as\<close> and a shift keep of a value: its low bits, read back in the type.\<close>

definition wrap :: "int_type \<Rightarrow> int \<Rightarrow> int" where
  "wrap t x = (if is_signed t then signed_take_bit (type_bits t - 1) x else take_bit (type_bits t) x)"

text \<open>The standard library: \<open>checked_\<dots>\<close> answers \<open>None\<close> where the exact result is not of the type.\<close>

definition checked :: "int_type \<Rightarrow> int \<Rightarrow> int option" where
  "checked t x = (if fits t x then Some x else None)"

text \<open>Division towards zero, and the remainder with the sign of the dividend.\<close>

definition quot :: "int \<Rightarrow> int \<Rightarrow> int" where
  "quot x y = sgn x * sgn y * (\<bar>x\<bar> div \<bar>y\<bar>)"

definition rem :: "int \<Rightarrow> int \<Rightarrow> int" where
  "rem x y = x - quot x y * y"

definition checked_div :: "int_type \<Rightarrow> int \<Rightarrow> int \<Rightarrow> int option" where
  "checked_div t x y = (if y = 0 then None else checked t (quot x y))"

definition checked_rem :: "int_type \<Rightarrow> int \<Rightarrow> int \<Rightarrow> int option" where
  "checked_rem t x y = (if y = 0 \<or> \<not> fits t (quot x y) then None else Some (rem x y))"

definition checked_abs :: "int_type \<Rightarrow> int \<Rightarrow> int option" where
  "checked_abs t x = checked t \<bar>x\<bar>"

definition checked_shl :: "int_type \<Rightarrow> int \<Rightarrow> nat \<Rightarrow> int option" where
  "checked_shl t x n = (if n < type_bits t then Some (wrap t (x * 2 ^ n)) else None)"

definition checked_shr :: "int_type \<Rightarrow> int \<Rightarrow> nat \<Rightarrow> int option" where
  "checked_shr t x n = (if n < type_bits t then Some (x div 2 ^ n) else None)"

definition wrapping_shr :: "int_type \<Rightarrow> int \<Rightarrow> nat \<Rightarrow> int" where
  "wrapping_shr t x n = x div 2 ^ (n mod type_bits t)"

definition u32_max :: int where
  "u32_max = 2 ^ 32 - 1"

section \<open>The functions of the package\<close>

text \<open>The messages of \<open>make_err\<close>, with the operands each one prints.\<close>

datatype arith_error =
    Addition_overflow int int | Subtraction_overflow int int | Multiplication_overflow int int
  | Division_by_zero int int | Division_overflow int int | Modulo_zero_or_overflow int int
  | Exponential_overflow int int | Negative_power int int | Negation_overflow int

definition add_fn :: "int_type \<Rightarrow> int \<Rightarrow> int \<Rightarrow> arith_error + int" where
  "add_fn t x y = ok_or (Addition_overflow x y) (checked t (x + y))"

definition subtract_fn :: "int_type \<Rightarrow> int \<Rightarrow> int \<Rightarrow> arith_error + int" where
  "subtract_fn t x y = ok_or (Subtraction_overflow x y) (checked t (x - y))"

definition multiply_fn :: "int_type \<Rightarrow> int \<Rightarrow> int \<Rightarrow> arith_error + int" where
  "multiply_fn t x y = ok_or (Multiplication_overflow x y) (checked t (x * y))"

definition divide_fn :: "int_type \<Rightarrow> int \<Rightarrow> int \<Rightarrow> arith_error + int" where
  "divide_fn t x y =
     (if y = 0 then Err (Division_by_zero x y)
      else ok_or (Division_overflow x y) (checked_div t x y))"

definition modulo_fn :: "int_type \<Rightarrow> int \<Rightarrow> int \<Rightarrow> arith_error + int" where
  "modulo_fn t x y = ok_or (Modulo_zero_or_overflow x y) (checked_rem t x y)"

definition power_fn :: "int_type \<Rightarrow> int_type \<Rightarrow> int \<Rightarrow> int \<Rightarrow> arith_error + int" where
  "power_fn sys t x y =
     (if sys \<noteq> I32 \<and> y > u32_max then Err (Exponential_overflow x y)
      else if y < 0 then Err (Negative_power x y)
      else ok_or (Exponential_overflow x y) (checked t (x ^ nat y)))"

text \<open>
  \<open>shift_left\<close> and \<open>shift_right\<close> call each other on the opposite of a negative shift, which is
  not negative: the smallest \<open>INT\<close> has no opposite and gives \<open>INT::MAX\<close>.
\<close>

definition opposite :: "int_type \<Rightarrow> int \<Rightarrow> int" where
  "opposite sys y = (case checked_abs sys y of Some a \<Rightarrow> a | None \<Rightarrow> type_max sys)"

lemma type_max_nonneg [simp]: "0 \<le> type_max t"
  by (cases t) (simp_all add: type_max_def)

lemma opposite_nonneg [simp]: "0 \<le> opposite sys y"
  by (simp add: opposite_def checked_abs_def checked_def)

function shift_left :: "int_type \<Rightarrow> int_type \<Rightarrow> int \<Rightarrow> int \<Rightarrow> int"
  and shift_right :: "int_type \<Rightarrow> int_type \<Rightarrow> int \<Rightarrow> int \<Rightarrow> int" where
  "shift_left sys t x y =
     (if sys \<noteq> I32 \<and> y > u32_max then 0
      else if y < 0 then shift_right sys t x (opposite sys y)
      else case checked_shl t x (nat y) of Some z \<Rightarrow> z | None \<Rightarrow> 0)"
| "shift_right sys t x y =
     (if sys \<noteq> I32 \<and> y > u32_max then wrapping_shr t x (nat u32_max)
      else if y < 0 then shift_left sys t x (opposite sys y)
      else case checked_shr t x (nat y) of Some z \<Rightarrow> z | None \<Rightarrow> wrapping_shr t x (nat u32_max))"
  by pat_completeness auto
termination
  by (relation "measure (case_sum (\<lambda>(sys, t, x, y). if y < 0 then 1 else 0)
       (\<lambda>(sys, t, x, y). if y < 0 then 1 else 0))") (auto simp: not_less)

declare shift_left.simps [simp del] shift_right.simps [simp del]

definition binary_and :: "int \<Rightarrow> int \<Rightarrow> int" where
  "binary_and x y = x AND y"

definition binary_or :: "int \<Rightarrow> int \<Rightarrow> int" where
  "binary_or x y = x OR y"

definition binary_xor :: "int \<Rightarrow> int \<Rightarrow> int" where
  "binary_xor x y = x XOR y"

definition is_zero :: "int \<Rightarrow> bool" where
  "is_zero x \<longleftrightarrow> x = 0"

definition is_odd :: "int \<Rightarrow> bool" where
  "is_odd x \<longleftrightarrow> rem x 2 \<noteq> 0"

definition is_even :: "int \<Rightarrow> bool" where
  "is_even x \<longleftrightarrow> rem x 2 = 0"

definition neg_fn :: "int_type \<Rightarrow> int \<Rightarrow> arith_error + int" where
  "neg_fn t x = ok_or (Negation_overflow x) (checked t (- x))"

definition plus_fn :: "int \<Rightarrow> int" where
  "plus_fn x = x"

definition abs_fn :: "int_type \<Rightarrow> int \<Rightarrow> arith_error + int" where
  "abs_fn t x = ok_or (Negation_overflow x) (checked_abs t x)"

definition sign_fn :: "int \<Rightarrow> int" where
  "sign_fn x = sgn x"

section \<open>Bounds of the types\<close>

lemma checked_Some [simp]: "checked t x = Some y \<longleftrightarrow> y = x \<and> fits t x"
  by (auto simp: checked_def)

lemma checked_None [simp]: "checked t x = None \<longleftrightarrow> \<not> fits t x"
  by (simp add: checked_def)

lemma type_bits_pos [simp]: "0 < type_bits t"
  by (cases t) simp_all

lemma fits_wrap_iff: "fits t x \<longleftrightarrow> wrap t x = x"
  by (auto simp: fits_def wrap_def type_min_def type_max_def signed_take_bit_int_eq_self_iff
      take_bit_int_eq_self_iff)

lemma fits_wrap [simp]: "fits t (wrap t x)"
  by (simp add: fits_wrap_iff) (simp add: wrap_def)

lemma fits_0 [simp]: "fits t 0"
  by (simp add: fits_wrap_iff wrap_def)

lemma signed_take_bit_bitwise:
  fixes x y :: int
  shows "signed_take_bit n (x AND y) = signed_take_bit n x AND signed_take_bit n y"
    and "signed_take_bit n (x OR y) = signed_take_bit n x OR signed_take_bit n y"
    and "signed_take_bit n (x XOR y) = signed_take_bit n x XOR signed_take_bit n y"
  by (rule bit_eqI, simp add: bit_simps)+

lemma fits_and: "fits t x \<Longrightarrow> fits t y \<Longrightarrow> fits t (x AND y)"
  by (simp add: fits_wrap_iff wrap_def signed_take_bit_bitwise split: if_splits)

lemma fits_or: "fits t x \<Longrightarrow> fits t y \<Longrightarrow> fits t (x OR y)"
  by (simp add: fits_wrap_iff wrap_def signed_take_bit_bitwise split: if_splits)

lemma fits_xor: "fits t x \<Longrightarrow> fits t y \<Longrightarrow> fits t (x XOR y)"
  by (simp add: fits_wrap_iff wrap_def signed_take_bit_bitwise split: if_splits)

lemmas fits_bits = fits_and fits_or fits_xor

lemma div_power_bounds:
  fixes x :: int
  shows "(0 \<le> x \<longrightarrow> 0 \<le> x div 2 ^ n \<and> x div 2 ^ n \<le> x) \<and> (x < 0 \<longrightarrow> x \<le> x div 2 ^ n \<and> x div 2 ^ n < 0)"
proof (cases "0 \<le> x")
  case True
  then show ?thesis using zdiv_mono2 [of x 1 "2 ^ n"] by (simp add: pos_imp_zdiv_nonneg_iff)
next
  case False
  have "x * 2 ^ n \<le> x" using False mult_left_mono_neg [of 1 "2 ^ n" x] by simp
  then have "x \<le> x div 2 ^ n"
    by (metis zdiv_mono1 nonzero_mult_div_cancel_right zero_less_numeral zero_less_power
        power_not_zero zero_neq_numeral)
  with False show ?thesis by (simp add: pos_imp_zdiv_neg_iff)
qed

lemma fits_between: "fits t x \<Longrightarrow> (0 \<le> x \<and> 0 \<le> y \<and> y \<le> x) \<or> (x < 0 \<and> x \<le> y \<and> y < 0) \<Longrightarrow> fits t y"
proof -
  assume x: "fits t x" and y: "(0 \<le> x \<and> 0 \<le> y \<and> y \<le> x) \<or> (x < 0 \<and> x \<le> y \<and> y < 0)"
  have "type_min t \<le> 0" by (simp add: type_min_def)
  with x y type_max_nonneg [of t] show "fits t y" unfolding fits_def by linarith
qed

lemma fits_div_power: "fits t x \<Longrightarrow> fits t (x div 2 ^ n)"
  using div_power_bounds [of x n] by (auto intro: fits_between)

section \<open>Division\<close>

lemma quot_rem: "x = quot x y * y + rem x y"
  by (simp add: rem_def)

lemma abs_quot: "\<bar>quot x y\<bar> = \<bar>x\<bar> div \<bar>y\<bar>"
  by (auto simp: quot_def abs_mult abs_sgn_eq sgn_if pos_imp_zdiv_nonneg_iff)

lemma rem_sgn: "rem x y = sgn x * (\<bar>x\<bar> mod \<bar>y\<bar>)"
proof -
  have "\<bar>x\<bar> = \<bar>x\<bar> div \<bar>y\<bar> * \<bar>y\<bar> + \<bar>x\<bar> mod \<bar>y\<bar>" by simp
  then have "sgn x * \<bar>x\<bar> = sgn x * (\<bar>x\<bar> div \<bar>y\<bar> * \<bar>y\<bar>) + sgn x * (\<bar>x\<bar> mod \<bar>y\<bar>)"
    by (metis distrib_left)
  moreover have "sgn x * (\<bar>x\<bar> div \<bar>y\<bar> * \<bar>y\<bar>) = quot x y * y"
    by (simp add: quot_def sgn_if)
  ultimately show ?thesis by (simp add: rem_def sgn_mult_abs)
qed

lemma rem_bounds: "y \<noteq> 0 \<Longrightarrow> \<bar>rem x y\<bar> < \<bar>y\<bar>"
  by (auto simp: rem_sgn abs_mult abs_sgn_eq)

lemma abs_mod_bounds: "y \<noteq> 0 \<Longrightarrow> 0 \<le> \<bar>x\<bar> mod \<bar>y\<bar>" "\<bar>x\<bar> mod \<bar>y\<bar> \<le> \<bar>x\<bar>" for x y :: int
  by (simp_all add: zmod_le_nonneg_dividend)

lemma rem_sign: "y \<noteq> 0 \<Longrightarrow> rem x y = 0 \<or> sgn (rem x y) = sgn x"
proof -
  assume "y \<noteq> 0"
  then have "\<bar>x\<bar> mod \<bar>y\<bar> = 0 \<or> sgn (\<bar>x\<bar> mod \<bar>y\<bar>) = 1"
    using abs_mod_bounds(1) [OF \<open>y \<noteq> 0\<close>, of x] unfolding sgn_1_pos by linarith
  then show ?thesis unfolding rem_sgn sgn_mult by auto
qed

text \<open>The one quotient of two values of a type that leaves it: \<open>MIN / -1\<close> of a signed type.\<close>

lemma type_max_pos: "1 \<le> type_max t"
  by (cases t) (simp_all add: type_max_def)

lemma type_min_signed: "is_signed t \<Longrightarrow> type_min t = - type_max t - 1"
  by (simp add: type_min_def type_max_def)

lemma type_min_unsigned: "\<not> is_signed t \<Longrightarrow> type_min t = 0"
  by (simp add: type_min_def)

lemma fits_quot:
  assumes x: "fits t x" and y: "y \<noteq> 0" "fits t y"
  shows "fits t (quot x y) \<longleftrightarrow> \<not> (is_signed t \<and> x = type_min t \<and> y = - 1)"
proof (cases "is_signed t")
  case False
  with x y have "0 \<le> x" "0 < y" by (simp_all add: fits_def type_min_unsigned)
  then have "0 \<le> quot x y \<and> quot x y \<le> x"
    using zdiv_mono2 [of x 1 y] by (auto simp: quot_def sgn_if pos_imp_zdiv_nonneg_iff)
  with x \<open>0 \<le> x\<close> False show ?thesis by (auto intro: fits_between)
next
  case True
  consider "y = 1" | "y = - 1" | "2 \<le> \<bar>y\<bar>" using y by linarith
  then show ?thesis
  proof cases
    case 1
    with x show ?thesis by (simp add: quot_def sgn_mult_abs)
  next
    case 2
    then have "quot x y = - x" by (simp add: quot_def sgn_mult_abs)
    with x 2 True show ?thesis by (auto simp: fits_def type_min_signed)
  next
    case 3
    then have "\<bar>x\<bar> div \<bar>y\<bar> \<le> \<bar>x\<bar> div 2" by (intro zdiv_mono2) auto
    then have "2 * \<bar>quot x y\<bar> \<le> \<bar>x\<bar>" unfolding abs_quot by linarith
    moreover have "\<bar>x\<bar> \<le> type_max t + 1" using x True by (auto simp: fits_def type_min_signed)
    ultimately have "fits t (quot x y)"
      using type_max_pos [of t] True by (auto simp: fits_def type_min_signed)
    with 3 show ?thesis by auto
  qed
qed

text \<open>
  \<open>/\<close> and \<open>%\<close> fail together, on a zero divisor and on the one quotient outside the type; together
  they answer the quotient towards zero and its remainder.
\<close>

lemma division_exact:
  assumes "fits t x" and "fits t y"
  shows "(case (divide_fn t x y, modulo_fn t x y) of
      (Inr q, Inr r) \<Rightarrow> x = q * y + r \<and> \<bar>r\<bar> < \<bar>y\<bar> \<and> (r = 0 \<or> sgn r = sgn x)
    | (Inl e, Inl f) \<Rightarrow> f = Modulo_zero_or_overflow x y \<and>
        (y = 0 \<and> e = Division_by_zero x y \<or>
         is_signed t \<and> x = type_min t \<and> y = - 1 \<and> e = Division_overflow x y)
    | _ \<Rightarrow> False)"
  using fits_quot [OF assms(1) _ assms(2)] quot_rem [of x y] rem_bounds [of y x] rem_sign [of y x]
  by (cases "y = 0"; cases "fits t (quot x y)")
     (auto simp: divide_fn_def modulo_fn_def checked_div_def checked_rem_def checked_def)

section \<open>Properties\<close>

lemma u32_max_ge: "type_bits t \<le> nat u32_max"
  by (cases t) (simp_all add: u32_max_def)

lemma wrap_high: "type_bits t \<le> n \<Longrightarrow> wrap t (x * 2 ^ n) = 0"
  using type_bits_pos [of t] unfolding wrap_def push_bit_eq_mult [symmetric]
  by (auto intro!: bit_eqI simp: bit_simps simp del: type_bits_pos)

lemma div_sign:
  assumes t: "is_signed t" and x: "fits t x" and n: "type_bits t - 1 \<le> n"
  shows "x div 2 ^ n = (if x < 0 then - 1 else 0)"
proof -
  have "(2 :: int) ^ (type_bits t - 1) \<le> 2 ^ n" using n by simp
  moreover have "- (2 ^ (type_bits t - 1)) \<le> x" "x < 2 ^ (type_bits t - 1)"
    using t x by (simp_all add: fits_def type_min_def type_max_def)
  ultimately have "- (2 ^ n) \<le> x" "x < 2 ^ n" by linarith+
  then show ?thesis
    using int_div_pos_eq [of x "2 ^ n" "- 1" "x + 2 ^ n"] by (auto simp: div_pos_pos_trivial)
qed

lemma wrapping_shr_max:
  assumes "is_signed t" "fits t x" "type_bits t - 1 \<le> n"
  shows "wrapping_shr t x (nat u32_max) = x div 2 ^ n"
proof -
  have "nat u32_max mod type_bits t = type_bits t - 1" by (cases t) (simp_all add: u32_max_def)
  with assms show ?thesis by (simp add: wrapping_shr_def div_sign)
qed

text \<open>What a shift by any amount, of either sign, comes to in exact arithmetic.\<close>

definition shifted :: "int_type \<Rightarrow> int \<Rightarrow> int \<Rightarrow> int" where
  "shifted t x k = wrap t (if 0 \<le> k then x * 2 ^ nat k else x div 2 ^ nat (- k))"

lemma shift_left_nonneg:
  assumes "0 \<le> y"
  shows "shift_left sys t x y = shifted t x y"
proof (cases "type_bits t \<le> nat y")
  case True
  with assms show ?thesis
    by (subst shift_left.simps) (simp add: checked_shl_def shifted_def wrap_high)
next
  case False
  then have "y \<le> u32_max" using u32_max_ge [of t] assms by linarith
  with False assms show ?thesis
    by (subst shift_left.simps) (simp add: checked_shl_def shifted_def)
qed

lemma shift_right_nonneg:
  assumes "0 \<le> y" "is_signed t" "fits t x"
  shows "shift_right sys t x y = shifted t x (- y)"
proof -
  have in_type: "wrap t (x div 2 ^ n) = x div 2 ^ n" for n
    using fits_div_power [OF assms(3)] by (simp add: fits_wrap_iff)
  have zero: "wrap t x = x" using assms(3) by (simp add: fits_wrap_iff)
  show ?thesis
  proof (cases "type_bits t \<le> nat y")
    case True
    with assms in_type zero wrapping_shr_max [OF assms(2,3), of "nat y"] show ?thesis
      by (subst shift_right.simps) (auto simp: checked_shr_def shifted_def)
  next
    case False
    then have "y \<le> u32_max" using u32_max_ge [of t] assms(1) by linarith
    with False assms in_type zero show ?thesis
      by (subst shift_right.simps) (auto simp: checked_shr_def shifted_def)
  qed
qed

lemma shifts_exact_nat:
  "0 \<le> y \<Longrightarrow> is_signed t \<Longrightarrow> fits t x \<Longrightarrow>
     shift_left sys t x y = shifted t x y \<and> shift_right sys t x y = shifted t x (- y)"
  using shift_left_nonneg shift_right_nonneg by blast

lemma fits_min: "fits sys y \<Longrightarrow> \<not> fits sys (- y) \<Longrightarrow> y < 0 \<Longrightarrow> is_signed sys \<and> y = - type_max sys - 1"
  using type_min_signed [of sys] type_min_unsigned [of sys]
  by (cases "is_signed sys") (auto simp: fits_def)

text \<open>
  The smallest \<open>INT\<close> shifts by \<open>INT::MAX\<close>, one less than its opposite: past every width either
  way.
\<close>

lemma shifted_far:
  assumes "is_signed t" "fits t x" "type_bits t \<le> nat m" "type_bits t \<le> nat n" "0 \<le> m" "0 \<le> n"
  shows "shifted t x m = shifted t x n" "shifted t x (- m) = shifted t x (- n)"
proof -
  show "shifted t x m = shifted t x n" using assms by (simp add: shifted_def wrap_high)
  have "0 < nat m" "0 < nat n" using assms(3,4) type_bits_pos [of t] by linarith+
  then show "shifted t x (- m) = shifted t x (- n)"
    using assms div_sign [OF assms(1,2), of "nat m"] div_sign [OF assms(1,2), of "nat n"]
    by (simp add: shifted_def)
qed

lemma type_max_wide: "is_signed sys \<Longrightarrow> sys \<noteq> I8 \<Longrightarrow> type_bits t \<le> nat (type_max sys)"
  by (cases sys; cases t) (simp_all add: type_max_def)

lemma opposite_shift:
  assumes "fits sys y" "y < 0" "is_signed t" "fits t x" "sys \<noteq> I8"
  shows "shifted t x (opposite sys y) = shifted t x (- y)"
    and "shifted t x (- opposite sys y) = shifted t x y"
proof -
  have "opposite sys y = - y \<or> is_signed sys \<and> opposite sys y = type_max sys \<and> y = - (type_max sys + 1)"
    using assms fits_min [of sys y] by (auto simp: opposite_def checked_abs_def checked_def)
  moreover have "type_bits t \<le> nat (type_max sys)" "type_bits t \<le> nat (type_max sys + 1)"
    if "is_signed sys" using type_max_wide [OF that assms(5), of t] by linarith+
  ultimately show "shifted t x (opposite sys y) = shifted t x (- y)"
    "shifted t x (- opposite sys y) = shifted t x y"
    using shifted_far [OF assms(3,4), of "type_max sys" "type_max sys + 1"]
      type_max_nonneg [of sys]
    by (auto simp: add.commute)
qed

text \<open>
  C17. The shifts by any \<open>INT\<close>: on a signed type, \<open>x << y\<close> is the low bits of \<open>x\<close> times two to
  the \<open>y\<close>, where a negative \<open>y\<close> divides instead, rounding down; \<open>x >> y\<close> is the shift by \<open>-y\<close>.
  Amounts past the width, past \<open>u32::MAX\<close> and the smallest \<open>INT\<close> included.
\<close>

theorem shift_exact:
  assumes "is_signed t" and "fits t x" and "fits sys y" and "sys = I64 \<or> sys = I32"
  shows "shift_left sys t x y = shifted t x y \<and> shift_right sys t x y = shifted t x (- y)"
proof (cases "0 \<le> y")
  case True
  with assms shifts_exact_nat show ?thesis by blast
next
  case False
  with assms have y: "y < 0" "y \<le> u32_max" "sys \<noteq> I8" by (auto simp: u32_max_def)
  with shifts_exact_nat [OF opposite_nonneg assms(1,2)] opposite_shift [OF assms(3) y(1) assms(1,2) y(3)]
  show ?thesis by (simp add: shift_left.simps [of sys t x y] shift_right.simps [of sys t x y])
qed

theorem shift_exact_witness:
  "shift_left I64 I64 (- 5) (- 1) = - 3 \<and> shift_right I64 I64 3 (- 62) = - (2 ^ 62)"
  using shift_exact [of I64 "- 5" I64 "- 1"] shift_exact [of I64 3 I64 "- 62"]
  by (simp add: fits_def type_min_def type_max_def shifted_def wrap_def signed_take_bit_eq_take_bit_minus
      take_bit_eq_mod bit_iff_odd)

text \<open>
  An unsigned value shifted right past its width keeps its top bit, where a shift by the width
  less one gives the same: \<open>wrapping_shr(u32::MAX)\<close> fills with the sign of a signed type only.
\<close>

lemma unsigned_shift_right: "shift_right I64 U8 255 8 = 1" "shift_right I64 U8 255 100 = 1"
  by (simp_all add: shift_right.simps u32_max_def checked_shr_def wrapping_shr_def)

text \<open>Shifts of every type: a right shift fills up to the width less one, a left shift keeps the low bits.\<close>

lemma shift_right_any:
  assumes "0 \<le> y"
  shows "shift_right sys t x y = x div 2 ^ min (nat y) (type_bits t - 1)"
proof (cases "type_bits t \<le> nat y")
  case True
  have "nat u32_max mod type_bits t = type_bits t - 1" by (cases t) (simp_all add: u32_max_def)
  with True assms show ?thesis
    by (subst shift_right.simps) (simp add: checked_shr_def wrapping_shr_def min_def)
next
  case False
  then have "y \<le> u32_max" using u32_max_ge [of t] assms by linarith
  with False assms show ?thesis by (subst shift_right.simps) (simp add: checked_shr_def min_def)
qed

lemma shifts_any:
  assumes "fits sys y" "sys = I64 \<or> sys = I32"
  shows "shift_left sys t x y = (if 0 \<le> y then wrap t (x * 2 ^ nat y)
      else x div 2 ^ min (nat (- y)) (type_bits t - 1))"
    and "shift_right sys t x y = (if 0 \<le> y then x div 2 ^ min (nat y) (type_bits t - 1)
      else wrap t (x * 2 ^ nat (- y)))"
proof -
  let ?a = "opposite sys y"
  have a: "y < 0 \<Longrightarrow> ?a = - y \<or> type_bits t \<le> nat ?a \<and> type_bits t \<le> nat (- y)"
    using assms fits_min [of sys y] type_max_wide [of sys t]
    by (auto simp: opposite_def checked_abs_def checked_def)
  have small: "y < 0 \<Longrightarrow> \<not> y > u32_max" by (simp add: u32_max_def)
  have neg: "y < 0 \<Longrightarrow> shift_left sys t x y = shift_right sys t x ?a"
    "y < 0 \<Longrightarrow> shift_right sys t x y = shift_left sys t x ?a"
    using small by (simp_all add: shift_left.simps [of sys t x y] shift_right.simps [of sys t x y])
  have "y < 0 \<Longrightarrow> min (nat ?a) (type_bits t - 1) = min (nat (- y)) (type_bits t - 1)"
    using a by auto
  then show "shift_left sys t x y = (if 0 \<le> y then wrap t (x * 2 ^ nat y)
      else x div 2 ^ min (nat (- y)) (type_bits t - 1))"
    using neg(1) shift_right_any [OF opposite_nonneg, of sys t x sys y]
    by (auto simp: shift_left_nonneg shifted_def)
  have "y < 0 \<Longrightarrow> wrap t (x * 2 ^ nat ?a) = wrap t (x * 2 ^ nat (- y))"
    using a by (auto simp: wrap_high)
  then show "shift_right sys t x y = (if 0 \<le> y then x div 2 ^ min (nat y) (type_bits t - 1)
      else wrap t (x * 2 ^ nat (- y)))"
    using neg(2) by (auto simp: shift_left_nonneg shifted_def shift_right_any)
qed

lemma power_fn_exact:
  assumes "fits sys k" "sys = I64 \<or> sys = I32"
  shows "power_fn sys t x k =
     (if k < 0 then Err (Negative_power x k)
      else if k < 2 ^ 32 \<and> fits t (x ^ nat k) then Ok (x ^ nat k) else Err (Exponential_overflow x k))"
  using assms
  by (auto simp: power_fn_def checked_def ok_or_def u32_max_def fits_def type_max_def)

lemma negation_exact:
  assumes "fits t x" "is_signed t"
  shows "neg_fn t x = (if x = type_min t then Err (Negation_overflow x) else Ok (- x))"
    and "abs_fn t x = (if x = type_min t then Err (Negation_overflow x) else Ok \<bar>x\<bar>)"
  using assms type_max_pos [of t]
  by (auto simp: neg_fn_def abs_fn_def checked_abs_def checked_def ok_or_def fits_def type_min_signed)

lemma rem_two: "rem x 2 = 0 \<longleftrightarrow> even x"
  by (auto simp: rem_sgn sgn_if abs_if even_iff_mod_2_eq_zero)

text \<open>
  C16. What the integer functions of the package answer, in exact arithmetic, on operands of their
  type. \<open>+\<close>, \<open>-\<close> and \<open>*\<close> answer the exact result if it is within the bounds of the type and their overflow
  error otherwise. Division fails exactly on a zero divisor and, with another error, on \<open>MIN / -1\<close>;
  modulo fails on both; otherwise they answer the quotient towards zero and the remainder with the
  sign of the dividend. A power fails exactly for a negative exponent, an exponent past 32 bits
  and a result outside of the type. Negation and \<open>abs\<close> of a signed type fail exactly on its minimum. The
  bitwise functions combine the bits and stay in the type; a left shift keeps the low bits of the product with
  the power of two, a right shift divides by it, by at most the width less one, and a negative
  amount shifts the other way.
\<close>

theorem int_functions_exact:
  assumes "fits t x" and "fits t y" and "fits sys k" and "sys = I64 \<or> sys = I32"
  shows
    "add_fn t x y = (if x + y \<in> {type_min t..type_max t} then Ok (x + y) else Err (Addition_overflow x y)) \<and>
     subtract_fn t x y =
       (if x - y \<in> {type_min t..type_max t} then Ok (x - y) else Err (Subtraction_overflow x y)) \<and>
     multiply_fn t x y =
       (if x * y \<in> {type_min t..type_max t} then Ok (x * y) else Err (Multiplication_overflow x y)) \<and>
     (case (divide_fn t x y, modulo_fn t x y) of
        (Inr q, Inr r) \<Rightarrow> x = q * y + r \<and> \<bar>r\<bar> < \<bar>y\<bar> \<and> (r = 0 \<or> sgn r = sgn x)
      | (Inl e, Inl f) \<Rightarrow> f = Modulo_zero_or_overflow x y \<and>
          (y = 0 \<and> e = Division_by_zero x y \<or>
           is_signed t \<and> x = type_min t \<and> y = - 1 \<and> e = Division_overflow x y)
      | _ \<Rightarrow> False) \<and>
     power_fn sys t x k =
       (if k < 0 then Err (Negative_power x k)
        else if k < 2 ^ 32 \<and> x ^ nat k \<in> {type_min t..type_max t} then Ok (x ^ nat k)
        else Err (Exponential_overflow x k)) \<and>
     (is_signed t \<longrightarrow>
        neg_fn t x = (if x = type_min t then Err (Negation_overflow x) else Ok (- x)) \<and>
        abs_fn t x = (if x = type_min t then Err (Negation_overflow x) else Ok \<bar>x\<bar>)) \<and>
     (\<forall>n. (bit (binary_and x y) n \<longleftrightarrow> bit x n \<and> bit y n) \<and> (bit (binary_or x y) n \<longleftrightarrow> bit x n \<or> bit y n) \<and>
        (bit (binary_xor x y) n \<longleftrightarrow> bit x n \<noteq> bit y n)) \<and>
     {binary_and x y, binary_or x y, binary_xor x y} \<subseteq> {type_min t..type_max t} \<and>
     shift_left sys t x k = (if 0 \<le> k then wrap t (x * 2 ^ nat k)
        else x div 2 ^ min (nat (- k)) (type_bits t - 1)) \<and>
     shift_right sys t x k = (if 0 \<le> k then x div 2 ^ min (nat k) (type_bits t - 1)
        else wrap t (x * 2 ^ nat (- k))) \<and>
     (is_zero x \<longleftrightarrow> x = 0) \<and> (is_odd x \<longleftrightarrow> odd x) \<and> (is_even x \<longleftrightarrow> even x) \<and>
     sign_fn x = (if x < 0 then - 1 else if x = 0 then 0 else 1)"
proof (intro conjI impI)
  have within: "z \<in> {type_min t..type_max t} \<longleftrightarrow> fits t z" for z by (simp add: fits_def)
  show "add_fn t x y = (if x + y \<in> {type_min t..type_max t} then Ok (x + y) else Err (Addition_overflow x y))"
    "subtract_fn t x y =
       (if x - y \<in> {type_min t..type_max t} then Ok (x - y) else Err (Subtraction_overflow x y))"
    "multiply_fn t x y =
       (if x * y \<in> {type_min t..type_max t} then Ok (x * y) else Err (Multiplication_overflow x y))"
    unfolding within by (simp_all add: add_fn_def subtract_fn_def multiply_fn_def checked_def ok_or_def)
  show "case (divide_fn t x y, modulo_fn t x y) of
      (Inr q, Inr r) \<Rightarrow> x = q * y + r \<and> \<bar>r\<bar> < \<bar>y\<bar> \<and> (r = 0 \<or> sgn r = sgn x)
    | (Inl e, Inl f) \<Rightarrow> f = Modulo_zero_or_overflow x y \<and>
        (y = 0 \<and> e = Division_by_zero x y \<or>
         is_signed t \<and> x = type_min t \<and> y = - 1 \<and> e = Division_overflow x y)
    | _ \<Rightarrow> False" by (rule division_exact [OF assms(1,2)])
  show "power_fn sys t x k =
      (if k < 0 then Err (Negative_power x k)
       else if k < 2 ^ 32 \<and> x ^ nat k \<in> {type_min t..type_max t} then Ok (x ^ nat k)
       else Err (Exponential_overflow x k))"
    unfolding within by (rule power_fn_exact [OF assms(3,4)])
  show "{binary_and x y, binary_or x y, binary_xor x y} \<subseteq> {type_min t..type_max t}"
    unfolding insert_subset within
    using fits_bits [OF assms(1,2)] by (simp add: binary_and_def binary_or_def binary_xor_def)
qed (simp_all add: assms negation_exact shifts_any binary_and_def binary_or_def binary_xor_def bit_simps
  is_zero_def is_odd_def is_even_def sign_fn_def sgn_if rem_two)

theorem int_functions_exact_witness:
  "multiply_fn U8 16 17 = Err (Multiplication_overflow 16 17) \<and> shift_left I64 U8 16 5 = 0 \<and>
   shift_right I64 U8 16 (- 2) = 64"
proof -
  have "fits U8 16" "fits U8 17" "fits I64 5" "fits I64 (- 2)"
    by (simp_all add: fits_def type_min_def type_max_def)
  with int_functions_exact [of U8 16 17 I64 5] int_functions_exact [of U8 16 17 I64 "- 2"] show ?thesis
    by (simp add: type_min_def type_max_def wrap_def take_bit_eq_mod)
qed

end
