(* ===== verification/Limits.thy ===== *)
theory Limits
  imports Constants
begin

text \<open>
  The limits of an engine (\<open>src/api/limits.rs\<close>) and the checks against them during a run
  (\<open>src/eval/data_check.rs\<close>): the sizes of a value, and the count of operations, a \<open>u64\<close>. Values
  are those of \<open>Constants\<close>, which hold no shared cell; the field of a limit a build lacks
  (\<open>no_index\<close>, \<open>no_object\<close>) is never read.
\<close>

section \<open>Limits\<close>

text \<open>\<open>Option<NonZero\<dots>>\<close> is \<open>None\<close> at zero.\<close>

record limits =
  call_stack_depth :: nat
  expr_depth :: "nat option"
  function_expr_depth :: "nat option"
  num_operations :: "u64 option"
  num_variables :: nat
  num_functions :: nat
  num_modules :: nat
  string_len :: "nat option"
  array_size :: "nat option"
  map_size :: "nat option"

definition non_zero :: "'a::zero \<Rightarrow> 'a option" where
  "non_zero n = (if n = 0 then None else Some n)"

definition or_zero :: "'a::zero option \<Rightarrow> 'a" where
  "or_zero l = (case l of Some n \<Rightarrow> n | None \<Rightarrow> 0)"

text \<open>\<open>Limits::new\<close> with the depths of a release build.\<close>

definition default_limits :: limits where
  "default_limits =
     \<lparr>call_stack_depth = 64, expr_depth = non_zero 64, function_expr_depth = non_zero 32,
      num_operations = None, num_variables = 2 ^ 64 - 1, num_functions = 2 ^ 64 - 1,
      num_modules = 2 ^ 64 - 1, string_len = None, array_size = None, map_size = None\<rparr>"

definition set_max_operations :: "u64 \<Rightarrow> limits \<Rightarrow> limits" where
  "set_max_operations n l = l\<lparr>num_operations := non_zero n\<rparr>"

definition max_operations :: "limits \<Rightarrow> u64" where
  "max_operations l = or_zero (num_operations l)"

definition set_max_string_size :: "nat \<Rightarrow> limits \<Rightarrow> limits" where
  "set_max_string_size n l = l\<lparr>string_len := non_zero n\<rparr>"

definition set_max_array_size :: "nat \<Rightarrow> limits \<Rightarrow> limits" where
  "set_max_array_size n l = l\<lparr>array_size := non_zero n\<rparr>"

definition set_max_map_size :: "nat \<Rightarrow> limits \<Rightarrow> limits" where
  "set_max_map_size n l = l\<lparr>map_size := non_zero n\<rparr>"

definition set_max_expr_depths :: "nat \<Rightarrow> nat \<Rightarrow> limits \<Rightarrow> limits" where
  "set_max_expr_depths n m l = l\<lparr>expr_depth := non_zero n, function_expr_depth := non_zero m\<rparr>"

definition has_data_size_limit :: "features \<Rightarrow> limits \<Rightarrow> bool" where
  "has_data_size_limit f l \<longleftrightarrow> string_len l \<noteq> None \<or>
     (\<not> no_index f \<and> array_size l \<noteq> None) \<or> (\<not> no_object f \<and> map_size l \<noteq> None)"

section \<open>Sizes of values\<close>

text \<open>
  \<open>calc_array_sizes\<close> and \<open>calc_map_sizes\<close>: the sums over the items, each item one more in its
  container. A BLOB inside counts itself once more.
\<close>

type_synonym sizes = "nat \<times> nat \<times> nat"

definition add_sizes :: "sizes \<Rightarrow> sizes \<Rightarrow> sizes" where
  "add_sizes x y = (case (x, y) of ((a, m, s), (a', m', s')) \<Rightarrow> (a + a', m + m', s + s'))"

fun calc_array_sizes :: "dynamic list \<Rightarrow> sizes"
  and calc_map_sizes :: "(u8 list \<times> dynamic) list \<Rightarrow> sizes"
  and item_sizes :: "dynamic \<Rightarrow> sizes" where
  "calc_array_sizes [] = (0, 0, 0)"
| "calc_array_sizes (v # vs) = add_sizes (add_sizes (1, 0, 0) (item_sizes v)) (calc_array_sizes vs)"
| "calc_map_sizes [] = (0, 0, 0)"
| "calc_map_sizes ((k, v) # vs) =
     add_sizes (add_sizes (0, 1, 0) (item_sizes v)) (calc_map_sizes vs)"
| "item_sizes (DArray vs) = calc_array_sizes vs"
| "item_sizes (DBlob bytes) = (1 + length bytes, 0, 0)"
| "item_sizes (DMap kvs) = calc_map_sizes kvs"
| "item_sizes (DString str) = (0, 0, length str)"
| "item_sizes v = (0, 0, 0)"

definition calc_data_sizes :: "dynamic \<Rightarrow> sizes" where
  "calc_data_sizes v = (case v of
       DArray vs \<Rightarrow> calc_array_sizes vs
     | DBlob bytes \<Rightarrow> (length bytes, 0, 0)
     | DMap kvs \<Rightarrow> calc_map_sizes kvs
     | DString str \<Rightarrow> (0, 0, length str)
     | _ \<Rightarrow> (0, 0, 0))"

datatype too_large = Length_of_string | Size_of_array | Size_of_map

definition throw_on_size :: "features \<Rightarrow> limits \<Rightarrow> sizes \<Rightarrow> too_large + unit" where
  "throw_on_size f l sizes = (case sizes of (a, m, s) \<Rightarrow>
     if (case string_len l of None \<Rightarrow> False | Some n \<Rightarrow> s > n) then Err Length_of_string
     else if \<not> no_index f \<and> (case array_size l of None \<Rightarrow> False | Some n \<Rightarrow> a > n) then Err Size_of_array
     else if \<not> no_object f \<and> (case map_size l of None \<Rightarrow> False | Some n \<Rightarrow> m > n) then Err Size_of_map
     else Ok ())"

definition check_data_size :: "features \<Rightarrow> limits \<Rightarrow> dynamic \<Rightarrow> too_large + dynamic" where
  "check_data_size f l v =
     (if \<not> has_data_size_limit f l then Ok v
      else rbind (throw_on_size f l (calc_data_sizes v)) (\<lambda>_. Ok v))"

text \<open>The early return of \<open>check_data_size\<close> skips no check: without a limit every size passes.\<close>

lemma no_limit_no_error: "\<not> has_data_size_limit f l \<Longrightarrow> throw_on_size f l sizes = Ok ()"
  by (auto simp: has_data_size_limit_def throw_on_size_def split: prod.splits)

lemma check_data_size_exact:
  "check_data_size f l v = rbind (throw_on_size f l (calc_data_sizes v)) (\<lambda>_. Ok v)"
  by (simp add: check_data_size_def no_limit_no_error)

section \<open>Operations\<close>

text \<open>
  \<open>track_operation_at\<close>: the count goes up, then it is held against the limit, then the host's
  \<open>progress\<close> callback may ask to stop. The count is the state; both errors end a run.
\<close>

datatype stopped = TooManyOperations | Terminated dynamic

definition track_operation ::
  "limits \<Rightarrow> (u64 \<Rightarrow> dynamic option) option \<Rightarrow> u64 \<Rightarrow> stopped + u64" where
  "track_operation l progress n =
     (let n = n + 1; limit = max_operations l in
      if limit > 0 \<and> n > limit then Err TooManyOperations
      else case progress of
        Some callback \<Rightarrow> (case callback n of Some token \<Rightarrow> Err (Terminated token) | None \<Rightarrow> Ok n)
      | None \<Rightarrow> Ok n)"

lemma max_operations_set [simp]: "max_operations (set_max_operations n l) = n"
  by (simp add: max_operations_def set_max_operations_def or_zero_def non_zero_def)

text \<open>Below a limit that is not the last \<open>u64\<close>, the count goes up by one and stays within it.\<close>

lemma track_operation_Ok:
  assumes "track_operation l progress n = Ok n'" "0 < max_operations l"
    "max_operations l \<noteq> - 1" "n \<le> max_operations l"
  shows "unat n' = unat n + 1 \<and> n' \<le> max_operations l"
proof -
  have n': "n' = n + 1" and le: "n' \<le> max_operations l"
    using assms(1,2) by (auto simp: track_operation_def Let_def split: if_splits option.splits)
  have "n \<noteq> - 1" using assms(3,4) word_order.extremum_uniqueI by metis
  then have "unat n \<noteq> unat (- 1 :: u64)" by (metis word_unat_eq_iff)
  moreover have "unat n < 2 ^ LENGTH(64)" by (rule unsigned_less)
  moreover have "unat (- 1 :: u64) = 2 ^ 64 - 1"
    by (simp add: unsigned_minus_1_eq_mask mask_eq_exp_minus_1)
  ultimately have "unat n < 2 ^ 64 - 1" by simp
  then have "unat (n + 1) = unat n + 1" by (simp add: unat_word_ariths)
  with n' le show ?thesis by simp
qed

end
