(* ===== verification/Handlers.thy ===== *)
theory Handlers
  imports Verifier_Gaps Limits
begin

text \<open>
  A frame as \<open>execute\<close> of \<open>src/grain/vm/mod.rs\<close> runs it: the dispatch loop of \<open>Machine\<close>, the
  handlers its \<open>try\<close> regions arm (\<open>Handler\<close>, \<open>catch\<close>), and the count of operations, which every
  backward \<open>transfer!\<close>, every \<open>Tick\<close> and every caught error raises (\<open>track_operation\<close>). The length
  of the scope a handler keeps, the value a catch block binds and the error it holds are not
  modelled; whether an error is one a script may catch is left open.
\<close>

section \<open>Handlers\<close>

text \<open>\<open>EvalAltResult::is_catchable\<close>, over the kinds of error.\<close>

datatype error_kind =
    ErrorSystem | ErrorParsing | ErrorFunctionNotFound | ErrorInFunctionCall | ErrorInModule
  | ErrorUnboundThis | ErrorMismatchDataType | ErrorArrayBounds | ErrorStringBounds
  | ErrorBitFieldBounds | ErrorIndexingType | ErrorFor | ErrorVariableExists
  | ErrorForbiddenVariable | ErrorVariableNotFound | ErrorPropertyNotFound | ErrorIndexNotFound
  | ErrorModuleNotFound | ErrorDataRace | ErrorNonPureMethodCallOnConstant
  | ErrorAssignmentToConstant | ErrorMismatchOutputType | ErrorDotExpr | ErrorArithmetic
  | ErrorRuntime | ErrorCustomSyntax | ErrorTooManyOperations | ErrorTooManyVariables
  | ErrorTooManyModules | ErrorStackOverflow | ErrorDataTooLarge | ErrorTerminated
  | LoopBreak | ReturnError | ExitError

definition is_catchable :: "error_kind \<Rightarrow> bool" where
  "is_catchable e = (case e of
       ErrorSystem \<Rightarrow> False | ErrorParsing \<Rightarrow> False
     | ErrorCustomSyntax \<Rightarrow> False
     | ErrorTooManyOperations \<Rightarrow> False | ErrorTooManyVariables \<Rightarrow> False
     | ErrorTooManyModules \<Rightarrow> False | ErrorStackOverflow \<Rightarrow> False
     | ErrorDataTooLarge \<Rightarrow> False | ErrorTerminated \<Rightarrow> False
     | LoopBreak \<Rightarrow> False | ReturnError \<Rightarrow> False | ExitError \<Rightarrow> False
     | _ \<Rightarrow> True)"

record handler =
  h_target :: nat
  h_catch_var :: "u32 option"
  h_operands :: nat
  h_caught :: bool

text \<open>
  The handlers of the frame, the innermost first. \<open>PUSH_HANDLER\<close> keeps the depth of the operand
  array; \<open>POP_HANDLER\<close> is \<open>Vec::pop\<close>.
\<close>

definition arm_handlers :: "op \<Rightarrow> nat \<Rightarrow> handler list \<Rightarrow> handler list" where
  "arm_handlers op at_depth hs = (case op of
       PushHandler t var \<Rightarrow>
         \<lparr>h_target = unat t, h_catch_var = var, h_operands = at_depth, h_caught = False\<rparr> # hs
     | PopHandler \<Rightarrow> tl hs
     | _ \<Rightarrow> hs)"

text \<open>
  \<open>catch\<close>: the handlers whose catch block raised the error are dropped on the way out (re-raising
  the error they hold changes no kind: it was catchable, and so is the \<open>throw\<close> that asks for it);
  the first one still waiting takes the error, if a script may catch it, cuts the operand array
  back to where its \<open>try\<close> began and gives the address of its catch block.
\<close>

definition catch_error ::
  "error_kind \<Rightarrow> handler list \<Rightarrow> 'v frame \<Rightarrow> (nat \<times> handler list \<times> 'v frame) option" where
  "catch_error err hs f = (case dropWhile h_caught hs of
       [] \<Rightarrow> None
     | h # rest \<Rightarrow>
         if \<not> is_catchable err then None
         else Some (h_target h, h\<lparr>h_caught := True\<rparr> # rest, truncate_cells (h_operands h) f))"

section \<open>The frame at work\<close>

text \<open>
  An error may leave an arm after any of its moves, \<open>RETURN\<close> before them only; an address that
  does not decode is one.
\<close>

inductive raises ::
  "u8 list \<Rightarrow> pools \<Rightarrow> nat \<Rightarrow> 'v \<Rightarrow> nat \<Rightarrow> 'v frame \<Rightarrow> 'v frame \<Rightarrow> bool"
  for code :: "u8 list" and pools :: pools and bound :: nat and unit_value :: 'v
where
  in_arm: "decode code pc = Some op \<Longrightarrow> (shape ms @ rest, e) \<in> set (arms pools bound op) \<Longrightarrow>
    e \<noteq> Finish \<or> ms = [] \<Longrightarrow> moves unit_value ms f = Ok f' \<Longrightarrow>
    raises code pools bound unit_value pc f f'"
| no_instruction: "decode code pc = None \<Longrightarrow> raises code pools bound unit_value pc f f"

text \<open>
  The operations an arm counts itself: one for a \<open>transfer!\<close> to its own address or an earlier one,
  one for \<open>Tick\<close>. What it runs may count any number more.
\<close>

definition metered :: "nat \<Rightarrow> op \<Rightarrow> ending \<Rightarrow> nat" where
  "metered pc op e =
     (case e of Goto t \<Rightarrow> if unat t \<le> pc then 1 else 0 | _ \<Rightarrow> 0) + (if op = Tick then 1 else 0)"

type_synonym meter = "limits \<times> (u64 \<Rightarrow> dynamic option) option"

fun track_times :: "meter \<Rightarrow> nat \<Rightarrow> u64 \<Rightarrow> stopped + u64" where
  "track_times m 0 n = Ok n"
| "track_times m (Suc k) n = rbind (track_operation (fst m) (snd m) n) (track_times m k)"

text \<open>
  \<open>Exec\<close> is a frame at work: the operations so far, its handlers, the address and the operand
  array. \<open>Done\<close> and \<open>Failed\<close> leave the frame, \<open>Broken\<close> is an underflow or a panic on the array.
\<close>

datatype 'v exec = Exec u64 "handler list" nat "'v frame" | Done | Failed | Broken fault

inductive exec_step ::
  "u8 list \<Rightarrow> pools \<Rightarrow> nat \<Rightarrow> 'v \<Rightarrow> meter \<Rightarrow> 'v exec \<Rightarrow> 'v exec \<Rightarrow> bool"
  for code :: "u8 list" and pools :: pools and bound :: nat and unit_value :: 'v and m :: meter
where
  go_on: "decode code pc = Some op \<Longrightarrow> width code pc = Some w \<Longrightarrow>
    (shape ms, e) \<in> set (arms pools bound op) \<Longrightarrow> moves unit_value ms f = Ok f' \<Longrightarrow>
    edge_of (pc + w) e = Some a \<Longrightarrow> track_times m (metered pc op e + k) n = Ok n' \<Longrightarrow>
    exec_step code pools bound unit_value m
      (Exec n hs pc f) (Exec n' (arm_handlers op (depth f) hs) a f')"
| metered_out: "decode code pc = Some op \<Longrightarrow>
    (shape ms, e) \<in> set (arms pools bound op) \<Longrightarrow> moves unit_value ms f = Ok f' \<Longrightarrow>
    track_times m (metered pc op e + k) n = Err x \<Longrightarrow>
    exec_step code pools bound unit_value m (Exec n hs pc f) Failed"
| returns: "decode code pc = Some op \<Longrightarrow> (shape ms, Finish) \<in> set (arms pools bound op) \<Longrightarrow>
    moves unit_value ms f = Ok f' \<Longrightarrow>
    exec_step code pools bound unit_value m (Exec n hs pc f) Done"
| caught: "raises code pools bound unit_value pc f f' \<Longrightarrow>
    catch_error err hs f' = Some (a, hs', f'') \<Longrightarrow>
    track_operation (fst m) (snd m) n = Ok n' \<Longrightarrow>
    exec_step code pools bound unit_value m (Exec n hs pc f) (Exec n' hs' a f'')"
| uncaught: "raises code pools bound unit_value pc f f' \<Longrightarrow>
    exec_step code pools bound unit_value m (Exec n hs pc f) Failed"
| breaks: "decode code pc = Some op \<Longrightarrow> (shape ms, e) \<in> set (arms pools bound op) \<Longrightarrow>
    moves unit_value ms f = Err x \<Longrightarrow> x \<noteq> Refused \<Longrightarrow>
    exec_step code pools bound unit_value m (Exec n hs pc f) (Broken x)"

inductive_cases exec_stepE: "exec_step code pools bound u m (Exec n hs pc f) c"
inductive_simps exec_step_left [simp]:
  "exec_step code pools bound u m Done c" "exec_step code pools bound u m Failed c"
  "exec_step code pools bound u m (Broken x) c"

section \<open>Every metered run ends\<close>

lemma track_times_Ok:
  assumes "track_times m k n = Ok n'" "0 < max_operations (fst m)"
    "max_operations (fst m) \<noteq> - 1" "n \<le> max_operations (fst m)"
  shows "unat n' = unat n + k \<and> n' \<le> max_operations (fst m)"
  using assms
proof (induction k arbitrary: n)
  case (Suc k)
  then obtain n1 where n1: "track_operation (fst m) (snd m) n = Ok n1" "track_times m k n1 = Ok n'"
    by (auto simp: rbind_eq_Ok)
  from track_operation_Ok [OF n1(1) Suc.prems(2,3,4)] Suc.IH [OF n1(2) Suc.prems(2,3)]
  show ?case by simp
qed simp

text \<open>
  What is left of a run: the operations the limit still allows, each worth a pass over the code,
  and the way to the end of the code.
\<close>

definition budget :: "u8 list \<Rightarrow> meter \<Rightarrow> 'v exec \<Rightarrow> nat" where
  "budget code m c = (case c of
       Exec n hs pc f \<Rightarrow>
         (unat (max_operations (fst m)) - unat n) * (length code + 1) + (length code - pc) + 1
     | _ \<Rightarrow> 0)"

definition within :: "meter \<Rightarrow> 'v exec \<Rightarrow> bool" where
  "within m c = (case c of Exec n hs pc f \<Rightarrow> n \<le> max_operations (fst m) | _ \<Rightarrow> True)"

lemma spend:
  fixes N n n' L :: nat
  assumes "n < n'" "n' \<le> N"
  shows "(N - n') * (L + 1) + (L - p') + 1 < (N - n) * (L + 1) + (L - p) + 1"
proof -
  have "(N - n') * (L + 1) + (L + 1) = (N - n' + 1) * (L + 1)" by simp
  also have "\<dots> \<le> (N - n) * (L + 1)" using assms by (intro mult_le_mono1) linarith
  finally show ?thesis by linarith
qed

lemma exec_step_budget:
  assumes "exec_step code pools bound u m c c'" "within m c"
    and L: "0 < max_operations (fst m)" "max_operations (fst m) \<noteq> - 1"
  shows "budget code m c' < budget code m c \<and> within m c'"
  using assms(1)
proof cases
  case (go_on pc op w ms e f f' a k n n' hs)
  from go_on(1,2) assms(2) track_times_Ok [OF go_on(8) L] have
    n': "unat n' = unat n + (metered pc op e + k)" "n' \<le> max_operations (fst m)"
    by (auto simp: within_def)
  from width_bounds [OF go_on(4)] have w: "0 < w" "pc + w \<le> length code" by simp_all
  show ?thesis
  proof (cases "a \<le> pc")
    case True
    with go_on(7) w have "metered pc op e > 0"
      by (auto simp: edge_of_def metered_def split: ending.splits)
    with n' go_on(1,2) show ?thesis
      using spend [of "unat n" "unat n'" "unat (max_operations (fst m))"]
      by (simp add: budget_def within_def word_le_nat_alt)
  next
    case False
    have "(unat (max_operations (fst m)) - unat n') * (length code + 1) \<le>
        (unat (max_operations (fst m)) - unat n) * (length code + 1)"
      using n' by (intro mult_le_mono1) linarith
    moreover have "length code - a < length code - pc" using False w by linarith
    ultimately show ?thesis
      using n'(2) unfolding go_on(1,2) budget_def within_def exec.case by linarith
  qed
next
  case (caught pc f f' err hs a hs' f'' n n')
  with assms(2) track_operation_Ok [OF caught(5) L] show ?thesis
    using spend [of "unat n" "unat n'" "unat (max_operations (fst m))"]
    by (simp add: budget_def within_def word_le_nat_alt)
qed (auto simp: budget_def within_def)

lemma exec_steps_budget:
  assumes "(exec_step code pools bound u m ^^ k) c c'" "within m c"
    and "0 < max_operations (fst m)" "max_operations (fst m) \<noteq> - 1"
  shows "k + budget code m c' \<le> budget code m c \<and> within m c'"
  using assms(1)
proof (induction k arbitrary: c')
  case (Suc k)
  then obtain c1 where "(exec_step code pools bound u m ^^ k) c c1" "exec_step code pools bound u m c1 c'"
    by auto
  with Suc.IH exec_step_budget [OF _ _ assms(3,4)] show ?case by fastforce
qed (use assms(2) in simp)

definition execute :: "nat \<Rightarrow> nat \<Rightarrow> chunk \<Rightarrow> 'v exec" where
  "execute n floor c = Exec (of_nat n) [] (unat (entry c)) (new_frame floor (unat (max_stack c)))"

text \<open>
  C14. An engine with a limit on operations ends every run. Of any code whatever, verified or not,
  a frame that starts with the count at zero takes at most \<open>(limit + 1) * (length code + 1)\<close>
  steps before it has returned, failed or stopped: a loop is a backward jump or an error caught,
  and both are counted. The one limit that does not hold is the largest \<open>u64\<close>, which the count
  never exceeds.
\<close>

theorem metered_run_ends:
  assumes "0 < max_operations l" and "max_operations l \<noteq> - 1"
    and "(exec_step code pools bound u (l, progress) ^^ k) (execute 0 floor c) c'"
  shows "k \<le> (unat (max_operations l) + 1) * (length code + 1)"
proof -
  from exec_steps_budget [OF assms(3)] assms(1,2)
  have "k \<le> budget code (l, progress) (execute 0 floor c :: 'a exec)"
    by (simp add: execute_def within_def)
  also have "\<dots> \<le> (unat (max_operations l) + 1) * (length code + 1)"
    by (simp add: budget_def execute_def)
  finally show ?thesis .
qed

definition spin :: "u8 list" where
  "spin = [JUMP, 0, 0, 0, 0]"

definition spin_chunk :: chunk where
  "spin_chunk = \<lparr>entry = 0, chunk_end = 5, max_stack = 0\<rparr>"

lemma decode_spin: "decode spin 0 = Some (Jump 0)" "width spin 0 = Some 5"
  by (simp_all add: decode_def width_def width_of_def Let_def spin_def get_at_def widths_num
      decode_defs tag_defs reader_def u32_at_def of_le32_def)

definition once :: limits where
  "once = set_max_operations 1 default_limits"

lemma track_once: "track_operation once None 0 = Ok 1" "track_operation once None 1 = Err TooManyOperations"
  by (simp_all add: track_operation_def once_def Let_def)

lemma spin_steps:
  fixes u :: 'v
  shows "exec_step spin no_pools bound u (once, None) (execute 0 0 spin_chunk)
     (Exec 1 [] 0 (new_frame 0 0))"
    and "exec_step spin no_pools bound u (once, None) (Exec 1 [] 0 (new_frame 0 0)) Failed"
proof -
  have "exec_step spin no_pools bound u (once, None) (Exec 0 [] 0 (new_frame 0 0))
     (Exec 1 (arm_handlers (Jump 0) (depth (new_frame 0 0 :: 'v frame)) []) 0 (new_frame 0 0))"
    by (rule exec_step.go_on [where ms = "[]" and e = "Goto 0" and k = 0])
      (auto simp: decode_spin arms_def edge_of_def metered_def track_once)
  then show "exec_step spin no_pools bound u (once, None) (execute 0 0 spin_chunk)
     (Exec 1 [] 0 (new_frame 0 0))"
    by (simp add: execute_def spin_chunk_def arm_handlers_def)
  show "exec_step spin no_pools bound u (once, None) (Exec 1 [] 0 (new_frame 0 0)) Failed"
    by (rule exec_step.metered_out [where ms = "[]" and e = "Goto 0" and k = 0])
      (auto simp: decode_spin arms_def edge_of_def metered_def track_once)
qed

theorem metered_run_ends_witness:
  "(exec_step spin no_pools 0 () (once, None) ^^ 2) (execute 0 0 spin_chunk) Failed \<and>
   (2 :: nat) \<le> (unat (max_operations once) + 1) * (length spin + 1)"
proof -
  have "(exec_step spin no_pools 0 () (once, None) ^^ 2) (execute 0 0 spin_chunk) Failed"
    using spin_steps [of 0 "()"] by (auto simp: numeral_2_eq_2)
  with metered_run_ends [OF _ _ this] show ?thesis by (simp add: once_def)
qed

section \<open>A \<open>try\<close> region below its floor\<close>

definition dipping_try :: "u8 list" where
  "dipping_try = [UNIT, PUSH_HANDLER, 9, 0, 0, 0, POP, UNIT, THROW, POP, POP_HANDLER, UNIT, RETURN]"

definition dipping_try_chunk :: chunk where
  "dipping_try_chunk = \<lparr>entry = 0, chunk_end = 13, max_stack = 1\<rparr>"

lemma length_dipping_try: "length dipping_try = 13"
  by (simp add: dipping_try_def)

lemma dipping_try_width:
  "width dipping_try 0 = Some 1" "width dipping_try (Suc 0) = Some 5"
  "width dipping_try 6 = Some 1" "width dipping_try 7 = Some 1" "width dipping_try 8 = Some 1"
  "width dipping_try 9 = Some 1" "width dipping_try 10 = Some 1" "width dipping_try 11 = Some 1"
  "width dipping_try 12 = Some 1"
  by (simp_all add: dipping_try_def width_def width_of_def get_at_def Let_def widths_num tag_defs)

lemma decode_dipping_try:
  "decode dipping_try 0 = Some Unit" "decode dipping_try (Suc 0) = Some (PushHandler 9 None)"
  "decode dipping_try 6 = Some Pop" "decode dipping_try 7 = Some Unit"
  "decode dipping_try 8 = Some Throw" "decode dipping_try 9 = Some Pop"
  "decode dipping_try 10 = Some PopHandler" "decode dipping_try 11 = Some Unit"
  "decode dipping_try 12 = Some Return"
  by (simp_all add: decode_def dipping_try_width)
    (simp_all add: dipping_try_def decode_defs tag_defs reader_def u32_at_def of_le32_def)

lemma dipping_try_indices:
  "check_indices 0 dipping_try no_pools = Ok ()" "check_indices (Suc 0) dipping_try no_pools = Ok ()"
  "check_indices 6 dipping_try no_pools = Ok ()" "check_indices 7 dipping_try no_pools = Ok ()"
  "check_indices 8 dipping_try no_pools = Ok ()" "check_indices 9 dipping_try no_pools = Ok ()"
  "check_indices 10 dipping_try no_pools = Ok ()" "check_indices 11 dipping_try no_pools = Ok ()"
  "check_indices 12 dipping_try no_pools = Ok ()"
  by (simp_all add: check_indices_def tag_defs Let_def dipping_try_def)

lemma replicate_numeral: "replicate (numeral k) x = x # replicate (pred_numeral k) x"
  by (simp add: numeral_eq_Suc)

lemma list_update_numeral: "(x # xs)[numeral k := y] = x # xs[pred_numeral k := y]"
  by (simp add: numeral_eq_Suc)

lemma scan_dipping_try:
  "scan dipping_try no_pools 0 (replicate (length dipping_try + 1) False) =
     Ok (13, [True, True, False, False, False, False, True, True, True, True, True, True, True, False])"
proof -
  have len: "length dipping_try = 13" by (simp add: dipping_try_def)
  show ?thesis
    by (simp add: scan_step scan_end [where code = dipping_try, unfolded len] dipping_try_width
        dipping_try_indices len list_update_numeral replicate_numeral)
qed

definition dipping_try_context :: vcontext where
  "dipping_try_context = \<lparr>v_features = full_features, v_caps = 0, v_code = dipping_try,
     v_starts = [True, True, False, False, False, False, True, True, True, True, True, True, True, False],
     v_pools = no_pools\<rparr>"

definition vs :: "nat \<Rightarrow> nat \<Rightarrow> vstate" where
  "vs n k = \<lparr>v_operands = n, v_iters = 0, v_handlers = k\<rparr>"

lemma dipping_try_context_sel: "v_code dipping_try_context = dipping_try"
  by (simp add: dipping_try_context_def)

lemma dipping_try_chunk_sel: "entry dipping_try_chunk = 0" "chunk_end dipping_try_chunk = 13"
    "max_stack dipping_try_chunk = 1"
  by (simp_all add: dipping_try_chunk_def)

lemma vs_sel: "v_operands (vs n k) = n" "vs n k = vs n' k' \<longleftrightarrow> n = n' \<and> k = k'" "vstate0 = vs 0 0"
  by (simp_all add: vs_def vstate0_def)

lemma dipping_try_steps:
  "verify_step dipping_try_context dipping_try_chunk 0 (vs 0 0) = Ok ([(Suc 0, (vs 1 0))], 1)"
  "verify_step dipping_try_context dipping_try_chunk (Suc 0) (vs 1 0) = Ok ([(9, (vs 1 1)), (6, (vs 1 1))], 1)"
  "verify_step dipping_try_context dipping_try_chunk 6 (vs 1 1) = Ok ([(7, (vs 0 1))], 1)"
  "verify_step dipping_try_context dipping_try_chunk 7 (vs 0 1) = Ok ([(8, (vs 1 1))], 1)"
  "verify_step dipping_try_context dipping_try_chunk 8 (vs 1 1) = Ok ([], 1)"
  "verify_step dipping_try_context dipping_try_chunk 9 (vs 1 1) = Ok ([(10, (vs 0 1))], 1)"
  "verify_step dipping_try_context dipping_try_chunk 10 (vs 0 1) = Ok ([(11, (vs 0 0))], 0)"
  "verify_step dipping_try_context dipping_try_chunk 11 (vs 0 0) = Ok ([(12, (vs 1 0))], 1)"
  "verify_step dipping_try_context dipping_try_chunk 12 (vs 1 0) = Ok ([], 1)"
  by (simp_all add: dipping_try_context_def dipping_try_chunk_def vs_def step_eval decode_dipping_try
      dipping_try_width go_def checked_sub_def)

lemma verify_loop_visit:
  "at < end_at \<Longrightarrow> D at = None \<Longrightarrow> step at s = Ok (succs, peak) \<Longrightarrow>
   verify_loop step end_at D ((at, s) # work) high =
     verify_loop step end_at (D(at \<mapsto> s)) (rev succs @ work) (max (max high (v_operands s)) peak)"
  by simp

lemma verify_dipping_try:
  "verify full_features 0 dipping_try [] [dipping_try_chunk] no_pools = Ok [1]"
proof -
  have "verify_loop (verify_step dipping_try_context dipping_try_chunk) 13 (\<lambda>_. None) [(0, vs 0 0)] 0 =
      verify_loop (verify_step dipping_try_context dipping_try_chunk) 13
      [0 \<mapsto> vs 0 0, Suc 0 \<mapsto> vs 1 0, 6 \<mapsto> vs 1 1, 7 \<mapsto> vs 0 1, 8 \<mapsto> vs 1 1, 9 \<mapsto> vs 1 1, 10 \<mapsto> vs 0 1,
       11 \<mapsto> vs 0 0, 12 \<mapsto> vs 1 0] [] 1"
    by (simp add: verify_loop_visit dipping_try_steps [unfolded One_nat_def] vs_sel
        del: verify_loop.simps(2))
  then have "verify_chunk dipping_try_context dipping_try_chunk = Ok 1"
    by (simp add: verify_chunk_def vs_sel dipping_try_context_sel dipping_try_chunk_sel length_dipping_try)
  then show ?thesis
    unfolding verify_def scan_dipping_try
    by (simp add: dipping_try_context_def length_dipping_try)
qed

abbreviation unmetered :: meter where
  "unmetered \<equiv> (default_limits, None)"

lemma unmetered_track:
  "track_operation default_limits None n = Ok (n + 1)"
  by (simp add: track_operation_def default_limits_def max_operations_def or_zero_def Let_def)

lemma unmetered_step:
  assumes "decode code pc = Some op" "width code pc = Some w" "op \<noteq> Tick"
    and "(shape ms, Next) \<in> set (arms pools bound op)" "moves u ms f = Ok f'"
  shows "(exec_step code pools bound u unmetered)\<^sup>*\<^sup>*
    (Exec n hs pc f) (Exec n (arm_handlers op (depth f) hs) (pc + w) f')"
  by (rule r_into_rtranclp, rule exec_step.go_on [OF assms(1,2,4,5), where k = 0])
    (auto simp: edge_of_def metered_def assms(3))

lemma dipping_try_run:
  "(exec_step dipping_try no_pools bound u unmetered)\<^sup>*\<^sup>*
     (execute 0 0 dipping_try_chunk) (Broken Underflow)"
proof -
  let ?f = "\<lambda>xs. stack_frame 0 1 (xs :: 'a list)"
  let ?h = "\<lambda>c. \<lparr>h_target = 9, h_catch_var = None, h_operands = 1, h_caught = c\<rparr>"
  let ?go = "exec_step dipping_try no_pools bound u unmetered"
  note d = decode_dipping_try and w = dipping_try_width
  note step = unmetered_step [where pools = no_pools and bound = bound and u = u]
  note arm = arms_def straight_def arm_handlers_def push_cell_stack
    pop_stack [of "[]" 1 0, simplified]
  have "?go\<^sup>*\<^sup>* (Exec 0 [] 0 (?f [])) (Exec 0 [] 1 (?f [u]))"
    using step [OF d(1) w(1), of "[MPush u]" "?f []" "?f [u]"] by (simp add: arm)
  also have "?go\<^sup>*\<^sup>* \<dots> (Exec 0 [?h False] 6 (?f [u]))"
    using step [OF d(2) w(2), of "[]" "?f [u]" "?f [u]"] by (simp add: arm)
  also have "?go\<^sup>*\<^sup>* \<dots> (Exec 0 [?h False] 7 (?f []))"
    using step [OF d(3) w(3), of "[MPop]" "?f [u]" "?f []"] by (simp add: arm)
  also have "?go\<^sup>*\<^sup>* \<dots> (Exec 0 [?h False] 8 (?f [u]))"
    using step [OF d(4) w(4), of "[MPush u]" "?f []" "?f [u]"] by (simp add: arm)
  also have "?go\<^sup>*\<^sup>* \<dots> (Exec 1 [?h True] 9 (?f []))"
  proof (rule r_into_rtranclp)
    have "raises dipping_try no_pools bound u 8 (?f [u]) (?f [])"
      by (rule raises.in_arm [OF d(5), where ms = "[MPop]" and rest = "[]" and e = Fail])
        (simp_all add: arm)
    moreover have "catch_error ErrorRuntime [?h False] (?f []) = Some (9, [?h True], ?f [])"
      by (simp add: catch_error_def is_catchable_def truncate_cells_def)
    ultimately show "?go (Exec 0 [?h False] 8 (?f [u])) (Exec 1 [?h True] 9 (?f []))"
      by (rule exec_step.caught) (simp add: unmetered_track)
  qed
  also have "?go\<^sup>*\<^sup>* \<dots> (Broken Underflow)"
    by (rule r_into_rtranclp, rule exec_step.breaks [OF d(6), where ms = "[MPop]" and e = Next])
      (simp_all add: arm pop_empty)
  finally show ?thesis
    by (simp add: execute_def new_frame_stack dipping_try_chunk_sel)
qed

text \<open>
  C15. The verifier does not keep a \<open>try\<close> region from going below the operands it began with.
  The region below takes the one operand under it and raises; the catch block, which verifies
  with that operand there, underflows: \<open>truncate_stack\<close> cuts the array back to a depth, it does
  not bring one back.
\<close>

theorem try_underflows:
  "verify full_features 0 dipping_try [] [dipping_try_chunk] no_pools = Ok [1] \<and>
   (exec_step dipping_try no_pools bound u unmetered)\<^sup>*\<^sup>*
     (execute 0 0 dipping_try_chunk) (Broken Underflow)"
  by (intro conjI verify_dipping_try dipping_try_run)

end
