(* ===== verification/Try_Soundness.thy ===== *)
theory Try_Soundness
  imports Handlers
begin

text \<open>
  What it takes for a \<open>try\<close> region to be safe: \<open>Soundness\<close> extended from the dispatch loop to the
  frame that catches (\<open>Handlers\<close>). The verifier does not check that a region leaves the operands
  under it alone; with a table of the handlers armed at each address that does, no verified frame
  underflows or runs out of slots, on the error path either.
\<close>

section \<open>How low an arm reaches\<close>

text \<open>Moves that work out from the height \<open>r\<close> take nothing deeper than \<open>r\<close>.\<close>

lemma climb_shift:
  "climb cap m r = Some a \<Longrightarrow> climb cap' m (r + k) = Some b \<Longrightarrow> b = a + k"
  by (cases m) auto

lemma climbs_shift:
  "climbs cap ms r = Some a \<Longrightarrow> climbs cap' ms (r + k) = Some b \<Longrightarrow> b = a + k"
proof (induction ms arbitrary: r)
  case (Cons m ms)
  then show ?case by (auto simp: bind_eq_Some_conv dest: climb_shift)
qed simp

lemma climbs_arm:
  assumes "plain pools op" "effect op pools = (r, p, q)" "bound \<le> 1"
    and "(ms @ rest, e) \<in> set (arms pools bound op)" "e \<noteq> Finish \<or> ms = []" "r \<le> h"
    and "max (h - p + q) (stack_peak op pools h) \<le> cap"
  shows "(\<exists>a. climbs cap ms h = Some a \<and> h - r \<le> a) \<or>
    op = InterpolateAppend \<and> ms = [MPop, MBuffer]"
proof -
  have reach: "\<exists>a. climbs c' ms x = Some a"
    if "r \<le> x" "max (x - p + q) (stack_peak op pools x) \<le> c'" "op \<noteq> InterpolateAppend" "op \<noteq> Return"
    for x c'
    using arms_agree [OF assms(1,2) that(1,2) assms(4,3) that(3,4)]
    by (auto simp: arm_agrees_def dest: climbs_prefix split: option.splits)
  consider "op = InterpolateAppend" | "op = Return" | "op \<noteq> InterpolateAppend" "op \<noteq> Return"
    by blast
  then show ?thesis
  proof cases
    case 1
    with assms show ?thesis
      by (cases ms; cases "tl ms") (auto simp: arms_def straight_def effect_def)
  next
    case 2
    with assms show ?thesis by (auto simp: arms_def)
  next
    case 3
    from reach [OF assms(6,7) 3] obtain a where a: "climbs cap ms h = Some a" ..
    from reach [OF order_refl order_refl 3] obtain a0 where "climbs (max (r - p + q) (stack_peak op pools r)) ms r = Some a0" ..
    from climbs_shift [OF this, of cap "h - r" a] a assms(6) have "a = a0 + (h - r)" by simp
    with a show ?thesis by auto
  qed
qed

text \<open>The frame an error leaves an arm with.\<close>

lemma raised_frame:
  assumes "raises code pools bound u pc (stack_frame floor cap xs) f'" "decode code pc = Some op"
    and "plain pools op" "effect op pools = (r, p, q)" "bound \<le> 1" "r \<le> length xs"
    and "max (length xs - p + q) (stack_peak op pools (length xs)) \<le> cap" "length xs \<le> cap"
  obtains ys where "f' = stack_frame floor cap ys" "length xs - r \<le> length ys" "length ys \<le> cap"
proof -
  obtain ms rest e where
    way: "(shape ms @ rest, e) \<in> set (arms pools bound op)" "e \<noteq> Finish \<or> shape ms = []"
    and f': "moves u ms (stack_frame floor cap xs) = Ok f'"
    using assms(1)
  proof (cases rule: raises.cases)
    case (in_arm op' ms rest e)
    with assms(2) that show thesis by auto
  next
    case no_instruction
    with assms(2) show thesis by simp
  qed
  from climbs_arm [OF assms(3,4,5) way assms(6,7)] show thesis
  proof
    assume "\<exists>a. climbs cap (shape ms) (length xs) = Some a \<and> length xs - r \<le> a"
    then obtain a where a: "climbs cap ms (length xs) = Some a" "length xs - r \<le> a"
      by (auto simp: climbs_shape)
    from moves_climb [OF a(1) assms(8), of u floor] f' a(2) that show thesis by auto
  next
    assume special: "op = InterpolateAppend \<and> shape ms = [MPop, MBuffer]"
    then have ms: "ms = [MPop, MBuffer]" by (auto simp: map_eq_Cons_conv)
    from special assms(4,6) have r: "r = 1" "0 < length xs" by (auto simp: effect_def)
    from append_moves [OF r(2) assms(8), of u floor] f' ms have "f' = stack_frame floor cap (butlast xs)"
      by (auto split: if_splits)
    with that [of "butlast xs"] r assms(8) show thesis by simp
  qed
qed

section \<open>Handlers the code respects\<close>

text \<open>
  What is armed at an address, the innermost first: the catch block, the operands under the
  \<open>try\<close> and whether the catch block is already running.
\<close>

type_synonym armed = "(nat \<times> nat \<times> bool) list"

definition arm_table :: "op \<Rightarrow> nat \<Rightarrow> armed \<Rightarrow> armed" where
  "arm_table op d hs = (case op of
       PushHandler t _ \<Rightarrow> (unat t, d, False) # hs
     | PopHandler \<Rightarrow> tl hs
     | _ \<Rightarrow> hs)"

text \<open>The instructions this run is about: \<open>PushHandler\<close> and the plain ones.\<close>

definition allowed :: "pools \<Rightarrow> op \<Rightarrow> bool" where
  "allowed pools op = (case op of PushHandler _ _ \<Rightarrow> True | _ \<Rightarrow> plain pools op)"

text \<open>
  \<open>H\<close> is kept at an address: every way on carries it as the instruction changes it, and the first
  handler still waiting has its operands under everything the instruction touches, and a catch
  block the verifier entered at that height.
\<close>

definition kept_at ::
  "vcontext \<Rightarrow> (nat \<Rightarrow> vstate option) \<Rightarrow> (nat \<Rightarrow> armed) \<Rightarrow> nat \<Rightarrow> vstate \<Rightarrow> op \<Rightarrow> nat \<Rightarrow> bool" where
  "kept_at cx D H at s op next \<longleftrightarrow>
     (\<forall>e a. end_ok (v_pools cx) op e \<longrightarrow> edge_of next e = Some a \<longrightarrow>
        H a = arm_table op (v_operands s) (H at)) \<and>
     (case dropWhile (snd \<circ> snd) (H at) of
        [] \<Rightarrow> True
      | (t, d, _) # rest \<Rightarrow> d \<le> v_operands s - fst (effect op (v_pools cx)) \<and>
          map_option v_operands (D t) = Some d \<and> H t = (t, d, True) # rest)"

definition allowed_throughout :: "vcontext \<Rightarrow> (nat \<Rightarrow> vstate option) \<Rightarrow> bool" where
  "allowed_throughout cx D \<longleftrightarrow>
     (\<forall>at s op. D at = Some s \<longrightarrow> decode (v_code cx) at = Some op \<longrightarrow> allowed (v_pools cx) op)"

definition handlers_kept :: "vcontext \<Rightarrow> chunk \<Rightarrow> (nat \<Rightarrow> vstate option) \<Rightarrow> (nat \<Rightarrow> armed) \<Rightarrow> bool" where
  "handlers_kept cx c D H \<longleftrightarrow> H (unat (entry c)) = [] \<and>
     (\<forall>at s op w. D at = Some s \<longrightarrow> decode (v_code cx) at = Some op \<longrightarrow>
        width (v_code cx) at = Some w \<longrightarrow> kept_at cx D H at s op (at + w))"

definition entry_of :: "nat \<Rightarrow> handler \<Rightarrow> nat \<times> nat \<times> bool" where
  "entry_of floor h = (h_target h, h_operands h - floor, h_caught h)"

text \<open>The invariant: the operands the verifier counted, and the handlers of the table.\<close>

definition exec_in_step ::
  "chunk \<Rightarrow> (nat \<Rightarrow> vstate option) \<Rightarrow> (nat \<Rightarrow> armed) \<Rightarrow> nat \<Rightarrow> 'v exec \<Rightarrow> bool" where
  "exec_in_step c D H floor st = (case st of
       Exec n hs pc f \<Rightarrow> (\<exists>s xs. D pc = Some s \<and> length xs = v_operands s \<and>
         f = stack_frame floor (unat (max_stack c)) xs) \<and>
         map (entry_of floor) hs = H pc \<and> (\<forall>h\<in>set hs. floor \<le> h_operands h)
     | Broken x \<Rightarrow> x = EmptySlot \<and> 0 < floor
     | _ \<Rightarrow> True)"

lemma map_dropWhile_caught:
  "dropWhile (snd \<circ> snd) (map (entry_of floor) hs) = map (entry_of floor) (dropWhile h_caught hs)"
  by (induction hs) (auto simp: entry_of_def)

lemma set_tl: "x \<in> set (tl xs) \<Longrightarrow> x \<in> set xs"
  by (cases xs) auto

lemma arm_handlers_entries:
  assumes "\<forall>h\<in>set hs. floor \<le> h_operands h"
  shows "map (entry_of floor) (arm_handlers op (floor + d) hs) =
      arm_table op d (map (entry_of floor) hs) \<and>
    (\<forall>h\<in>set (arm_handlers op (floor + d) hs). floor \<le> h_operands h)"
  using assms by (cases op; auto simp: arm_handlers_def arm_table_def entry_of_def map_tl dest: set_tl)

lemma catch_in_table:
  assumes "catch_error err hs (stack_frame floor cap ys) = Some (a, hs', f'')"
    and "map (entry_of floor) hs = H pc" "\<forall>h\<in>set hs. floor \<le> h_operands h"
    and "kept_at cx D H pc s op next" "fst (effect op (v_pools cx)) \<le> v_operands s"
    and "v_operands s - fst (effect op (v_pools cx)) \<le> length ys" "length ys \<le> cap"
  shows "(\<exists>s' zs. D a = Some s' \<and> length zs = v_operands s' \<and> f'' = stack_frame floor cap zs) \<and>
    map (entry_of floor) hs' = H a \<and> (\<forall>h\<in>set hs'. floor \<le> h_operands h)"
proof -
  from assms(1) obtain h rest where h: "dropWhile h_caught hs = h # rest" "a = h_target h"
    "hs' = h\<lparr>h_caught := True\<rparr> # rest" "f'' = truncate_cells (h_operands h) (stack_frame floor cap ys)"
    by (auto simp: catch_error_def split: list.splits if_splits)
  from h(1) have mem: "h \<in> set hs" "\<And>h'. h' \<in> set rest \<Longrightarrow> h' \<in> set hs"
    by (metis list.set_intros set_dropWhileD)+
  with assms(3) have floor: "floor \<le> h_operands h" by blast
  define d where "d = h_operands h - floor"
  have "dropWhile (snd \<circ> snd) (H pc) = (a, d, h_caught h) # map (entry_of floor) rest"
    using assms(2) h map_dropWhile_caught [of floor hs] by (simp add: entry_of_def d_def)
  with assms(4) have d: "d \<le> v_operands s - fst (effect op (v_pools cx))"
    "map_option v_operands (D a) = Some d" "H a = (a, d, True) # map (entry_of floor) rest"
    by (auto simp: kept_at_def)
  from d(2) obtain s' where s': "D a = Some s'" "v_operands s' = d" by auto
  have "f'' = stack_frame floor cap (take d ys)"
    using h(4) truncate_stack [of ys cap d floor] assms(6,7) d(1) floor by (simp add: d_def)
  moreover have "length (take d ys) = d" using assms(6) d(1) by simp
  ultimately show ?thesis
    using s' d(3) h(2,3) mem assms(3) by (fastforce simp: entry_of_def d_def)
qed

lemma sound_requires:
  assumes "sound_at cx c high D" "D pc = Some s"
  obtains op w r p q it ha succs where
    "decode (v_code cx) pc = Some op" "width (v_code cx) pc = Some w"
    "effect op (v_pools cx) = (r, p, q)" "r \<le> v_operands s"
    "max (v_operands s - p + q) (stack_peak op (v_pools cx) (v_operands s)) \<le> high"
    "edges cx c pc op (pc + w) s
       \<lparr>v_operands = v_operands s - p + q, v_iters = it, v_handlers = ha\<rparr> = Ok succs"
    "\<forall>(a, s') \<in> set succs. D a = Some s'"
proof -
  from assms have "admits (verify_step cx c) (unat (chunk_end c)) high D pc s"
    by (simp add: sound_at_def stable_def)
  then obtain succs peak where v: "verify_step cx c pc s = Ok (succs, peak)"
    unfolding admits_def by blast
  then obtain op where op: "decode (v_code cx) pc = Some op" by (auto simp: verify_step_def rbind_eq_Ok)
  from decode_width [OF op] obtain w where w: "width (v_code cx) pc = Some w" ..
  show thesis by (rule sound_atD [OF assms op w]) (rule that [OF op w]; assumption)
qed

lemma push_handler_arm: "(shape ms, e) \<in> set (arms pools bound (PushHandler t var)) \<Longrightarrow> ms = [] \<and> e = Next"
  by (simp add: arms_def straight_def)

lemma not_plain_allowed: "allowed pools op \<Longrightarrow> \<not> plain pools op \<Longrightarrow> \<exists>t var. op = PushHandler t var"
  by (auto simp: allowed_def split: op.splits)

lemma allowed_end:
  assumes "allowed pools op" "(shape ms, e) \<in> set (arms pools bound op)"
  shows "end_ok pools op e"
proof (cases "plain pools op")
  case True
  with assms(2) show ?thesis by (intro arms_end_ok)
next
  case False
  with assms not_plain_allowed [of pools op] show ?thesis
    by (auto simp: arms_def straight_def end_ok_def branch_of_def)
qed

lemma raised_allowed:
  assumes "raises code pools bound u pc (stack_frame floor cap xs) f'" "decode code pc = Some op"
    and "allowed pools op" "effect op pools = (r, p, q)" "bound \<le> 1" "r \<le> length xs"
    and "max (length xs - p + q) (stack_peak op pools (length xs)) \<le> cap" "length xs \<le> cap"
  obtains ys where "f' = stack_frame floor cap ys" "length xs - r \<le> length ys" "length ys \<le> cap"
proof (cases "plain pools op")
  case True
  show thesis by (rule raised_frame [OF assms(1,2) True assms(4-8)]) (rule that)
next
  case False
  with assms(3) obtain t var where op: "op = PushHandler t var" using not_plain_allowed by blast
  have "f' = stack_frame floor cap xs"
    using assms(1)
  proof (cases rule: raises.cases)
    case (in_arm op' ms rest e)
    with assms(2) op show ?thesis by (auto simp: arms_def straight_def)
  next
    case no_instruction
    then show ?thesis by simp
  qed
  with assms(8) that show thesis by simp
qed

lemma exec_in_step_step:
  fixes u :: 'v
  assumes sound: "sound_at cx c (unat (max_stack c)) D" and kept: "handlers_kept cx c D H"
    and "bound \<le> 1" and only: "allowed_throughout cx D" and inv: "exec_in_step c D H floor st"
    and step: "exec_step (v_code cx) (v_pools cx) bound u m st st'"
  shows "exec_in_step c D H floor st'"
proof -
  let ?cap = "unat (max_stack c)"
  from step obtain n hs pc f where st: "st = Exec n hs pc f" by (cases st) auto
  with inv obtain s xs where D: "D pc = Some s" and len: "length xs = v_operands s"
    and f: "f = stack_frame floor ?cap xs" and hs: "map (entry_of floor) hs = H pc"
    and above: "\<forall>h\<in>set hs. floor \<le> h_operands h"
    by (auto simp: exec_in_step_def)
  obtain op w r p q it ha succs where
    op: "decode (v_code cx) pc = Some op" and w: "width (v_code cx) pc = Some w"
    and e: "effect op (v_pools cx) = (r, p, q)" "r \<le> v_operands s"
    and peak: "max (v_operands s - p + q) (stack_peak op (v_pools cx) (v_operands s)) \<le> ?cap"
    and edges: "edges cx c pc op (pc + w) s
       \<lparr>v_operands = v_operands s - p + q, v_iters = it, v_handlers = ha\<rparr> = Ok succs"
    and succs: "\<forall>(a, s') \<in> set succs. D a = Some s'"
    by (rule sound_requires [OF sound D])
  from kept D op w have k: "kept_at cx D H pc s op (pc + w)" by (simp add: handlers_kept_def)
  from only D op have allowed: "allowed (v_pools cx) op" unfolding allowed_throughout_def by blast
  have cap: "length xs \<le> ?cap" using peak len by (simp add: stack_peak_def)
  have in_step: "in_step c D floor cfg"
    if "vm_step (v_code cx) (v_pools cx) bound u (Running pc f) cfg" for cfg
  proof (cases "plain (v_pools cx) op")
    case True
    from in_step_at [OF sound op True assms(3) D len that [unfolded f]] show ?thesis .
  next
    case False
    with allowed obtain t var where push: "op = PushHandler t var" using not_plain_allowed by blast
    with edges have "(pc + w, \<lparr>v_operands = v_operands s, v_iters = it, v_handlers = ha\<rparr>) \<in> set succs"
      using e(1) by (auto simp: edges_def branch_of_def rbind_eq_Ok effect_def)
    with succs have "D (pc + w) = Some \<lparr>v_operands = v_operands s, v_iters = it, v_handlers = ha\<rparr>"
      by blast
    then have "in_step c D floor (Running (pc + w) f)" using f len by (auto simp: in_step_def)
    moreover from that op w have "cfg = Running (pc + w) f \<or> cfg = Raised"
      by (auto simp: push land_def elim!: vm_step.cases dest!: push_handler_arm)
    moreover have "in_step c D floor Raised" by (simp add: in_step_def)
    ultimately show ?thesis by blast
  qed
  show ?thesis
    using step unfolding st
  proof (cases rule: exec_step.cases)
    case (go_on op' w' ms e f' a k n')
    with op w have way: "(shape ms, e) \<in> set (arms (v_pools cx) bound op)" "op' = op" "w' = w"
      by auto
    have "in_step c D floor (land (pc + w) e f')"
      using in_step [OF vm_step.run [OF op w way(1) go_on(5)]] .
    with go_on(6) way have D': "\<exists>s xs. D a = Some s \<and> length xs = v_operands s \<and> f' = stack_frame floor ?cap xs"
      by (auto simp: in_step_def land_def edge_of_def split: ending.splits)
    have "end_ok (v_pools cx) op e" by (rule allowed_end [OF allowed way(1)])
    with k go_on(6) way have "H a = arm_table op (v_operands s) (H pc)" by (auto simp: kept_at_def)
    with D' arm_handlers_entries [OF above, of op "v_operands s"] show ?thesis
      using go_on(1) way len f hs by (simp add: exec_in_step_def)
  next
    case (caught f' err a hs' f'' n')
    obtain ys where "f' = stack_frame floor ?cap ys" "length xs - r \<le> length ys" "length ys \<le> ?cap"
      using caught(2) peak e(2) len cap unfolding f
      by (metis raised_allowed [OF _ op allowed e(1) assms(3)])
    with caught catch_in_table [of err hs floor ?cap ys a hs' f'' H pc cx D s op "pc + w"] hs above k e len
    show ?thesis by (auto simp: exec_in_step_def)
  next
    case (breaks op' ms e x)
    with op have "vm_step (v_code cx) (v_pools cx) bound u (Running pc f) (faulted x)"
      by (intro vm_step.fault) auto
    from in_step [OF this] breaks show ?thesis
      by (auto simp: in_step_def exec_in_step_def faulted_def)
  qed (auto simp: exec_in_step_def)
qed

section \<open>Verified frames that catch\<close>

text \<open>The table of stack states the verifier leaves with.\<close>

definition depths :: "vcontext \<Rightarrow> chunk \<Rightarrow> (nat \<Rightarrow> vstate option) option" where
  "depths cx c = map_option fst (ok (verify_loop (verify_step cx c) (unat (chunk_end c)) (\<lambda>_. None)
     [(unat (entry c), vstate0)] 0))"

lemma depths_sound:
  assumes "verify_chunk cx c = Ok high" "depths cx c = Some D"
  shows "sound_at cx c (unat high) D \<and> high \<le> max_stack c"
proof -
  from assms(2) obtain h where l: "verify_loop (verify_step cx c) (unat (chunk_end c)) (\<lambda>_. None)
     [(unat (entry c), vstate0)] 0 = Ok (D, h)"
    by (auto simp: depths_def)
  with assms(1) have h: "h < 2 ^ 16" "h \<le> unat (max_stack c)" "high = of_nat h"
    by (auto simp: verify_chunk_def Let_def split: if_splits)
  then have "unat high = h" by (simp add: unat_of_nat)
  with verify_loop_sound [OF l] h show ?thesis
    by (auto simp: sound_at_def stable_def word_le_nat_alt)
qed

interpretation frame_run: step_invariant
  "\<lambda>st. \<exists>n. st = execute n floor c" "exec_step (v_code cx) (v_pools cx) bound u m"
  "\<lambda>st. sound_at cx c (unat (max_stack c)) D \<longrightarrow> handlers_kept cx c D H \<longrightarrow> allowed_throughout cx D \<longrightarrow> bound \<le> 1 \<longrightarrow>
     exec_in_step c D H floor st"
  for floor c cx bound u m D H
proof unfold_locales
  fix st :: "'a exec"
  assume "\<exists>n. st = execute n floor c"
  then show "sound_at cx c (unat (max_stack c)) D \<longrightarrow> handlers_kept cx c D H \<longrightarrow> allowed_throughout cx D \<longrightarrow> bound \<le> 1 \<longrightarrow>
     exec_in_step c D H floor st"
    by (auto simp: execute_def exec_in_step_def sound_at_def handlers_kept_def vstate0_def
        new_frame_stack)
qed (blast intro: exec_in_step_step)

text \<open>
  C13. A verified chunk with \<open>try\<close> runs safely, errors included, under three conditions, all of them
  premises. Every instruction the verifier reaches is \<open>PushHandler\<close> or \<open>plain\<close> (\<open>allowed_throughout\<close>: no
  iterator, no \<open>Rotate 0\<close>, indexing by chains of the compiler's form); a function pointer brings at most one
  curried argument (\<open>bound \<le> 1\<close>); and there is a table of the handlers armed at each address under
  which every \<open>try\<close> region leaves the operands under it alone (\<open>handlers_kept\<close>). Then every frame that
  runs the chunk, whatever it catches, is within the chunk, holds exactly the operands the
  verifier counted at its address and no more than it measured, and keeps the handlers of the
  table; the only fault left is the read of the empty slot under the floor of a frame above another
  one (\<open>EmptySlot\<close> with \<open>0 < floor\<close>), so on the bottom frame there is none.
\<close>

theorem tries_run_safely:
  assumes "verify_chunk cx c = Ok high" and "depths cx c = Some D" and "handlers_kept cx c D H"
    and "allowed_throughout cx D" and "bound \<le> 1" and "(exec_step (v_code cx) (v_pools cx) bound u m)\<^sup>*\<^sup>* (execute n floor c) st"
  shows "case st of
      Exec n hs pc f \<Rightarrow> pc < unat (chunk_end c) \<and> length hs = length (H pc) \<and>
        (\<exists>s xs. D pc = Some s \<and> length xs = v_operands s \<and> v_operands s \<le> unat high \<and>
           f = stack_frame floor (unat (max_stack c)) xs)
    | Broken x \<Rightarrow> x = EmptySlot \<and> 0 < floor
    | Done \<Rightarrow> True | Failed \<Rightarrow> True"
proof -
  from depths_sound [OF assms(1,2)] have sound: "sound_at cx c (unat high) D"
    and "sound_at cx c (unat (max_stack c)) D"
    by (auto simp: word_le_nat_alt intro: sound_at_mono)
  then have inv: "exec_in_step c D H floor st"
    using frame_run.reachable [OF assms(6)] assms(3,4,5) by blast
  show ?thesis
  proof (cases st)
    case (Exec n hs pc f)
    with inv obtain s xs where D: "D pc = Some s" "length xs = v_operands s"
      "f = stack_frame floor (unat (max_stack c)) xs" "map (entry_of floor) hs = H pc"
      by (auto simp: exec_in_step_def)
    from sound D(1) have "admits (verify_step cx c) (unat (chunk_end c)) (unat high) D pc s"
      by (simp add: sound_at_def stable_def)
    with D Exec show ?thesis by (auto simp: admits_def dest: arg_cong [where f = length])
  qed (use inv in \<open>auto simp: exec_in_step_def\<close>)
qed

text \<open>A concrete chunk: \<open>PushHandler 7; Unit; Throw; 7: PopHandler; Unit; Return\<close>.\<close>

definition kept_try :: "u8 list" where
  "kept_try = [PUSH_HANDLER, 7, 0, 0, 0, UNIT, THROW, POP_HANDLER, UNIT, RETURN]"

definition kept_try_chunk :: chunk where
  "kept_try_chunk = \<lparr>entry = 0, chunk_end = 10, max_stack = 1\<rparr>"

definition kept_try_context :: vcontext where
  "kept_try_context = context_of kept_try
     [True, False, False, False, False, True, True, True, True, True, False]"

definition kept_try_depths :: "nat \<Rightarrow> vstate option" where
  "kept_try_depths = [0 \<mapsto> vs 0 0, 5 \<mapsto> vs 0 1, 6 \<mapsto> vs 1 1, 7 \<mapsto> vs 0 1, 8 \<mapsto> vs 0 0, 9 \<mapsto> vs 1 0]"

definition kept_try_handlers :: "nat \<Rightarrow> armed" where
  "kept_try_handlers a = (if a = 5 \<or> a = 6 then [(7, 0, False)] else if a = 7 then [(7, 0, True)] else [])"

lemma kept_try_width:
  "width kept_try 0 = Some 5" "width kept_try 5 = Some 1" "width kept_try 6 = Some 1"
  "width kept_try 7 = Some 1" "width kept_try 8 = Some 1" "width kept_try 9 = Some 1"
  by (simp_all add: kept_try_def width_def width_of_def get_at_def Let_def widths_num tag_defs)

lemma decode_kept_try:
  "decode kept_try 0 = Some (PushHandler 7 None)" "decode kept_try 5 = Some Unit"
  "decode kept_try 6 = Some Throw" "decode kept_try 7 = Some PopHandler"
  "decode kept_try 8 = Some Unit" "decode kept_try 9 = Some Return"
  by (simp_all add: decode_def kept_try_width)
    (simp_all add: kept_try_def decode_defs tag_defs reader_def u32_at_def of_le32_def)

lemma kept_try_steps:
  "verify_step kept_try_context kept_try_chunk 0 (vs 0 0) = Ok ([(7, vs 0 1), (5, vs 0 1)], 0)"
  "verify_step kept_try_context kept_try_chunk 5 (vs 0 1) = Ok ([(6, vs 1 1)], 1)"
  "verify_step kept_try_context kept_try_chunk 6 (vs 1 1) = Ok ([], 1)"
  "verify_step kept_try_context kept_try_chunk 7 (vs 0 1) = Ok ([(8, vs 0 0)], 0)"
  "verify_step kept_try_context kept_try_chunk 8 (vs 0 0) = Ok ([(9, vs 1 0)], 1)"
  "verify_step kept_try_context kept_try_chunk 9 (vs 1 0) = Ok ([], 1)"
  by (simp_all add: kept_try_context_def context_of_def kept_try_chunk_def vs_def step_eval
      decode_kept_try kept_try_width go_def checked_sub_def)

lemma kept_try_sel:
  "v_code kept_try_context = kept_try" "v_pools kept_try_context = no_pools" "length kept_try = 10"
  "entry kept_try_chunk = 0" "chunk_end kept_try_chunk = 10" "max_stack kept_try_chunk = 1"
  by (simp_all add: kept_try_context_def context_of_def kept_try_def kept_try_chunk_def)

lemma kept_try_loop:
  "verify_loop (verify_step kept_try_context kept_try_chunk) 10 (\<lambda>_. None) [(0, vs 0 0)] 0 =
     Ok (kept_try_depths, 1)"
proof -
  have "verify_loop (verify_step kept_try_context kept_try_chunk) 10 (\<lambda>_. None) [(0, vs 0 0)] 0 =
      verify_loop (verify_step kept_try_context kept_try_chunk) 10
        [0 \<mapsto> vs 0 0, 5 \<mapsto> vs 0 1, 6 \<mapsto> vs 1 1, 7 \<mapsto> vs 0 1, 8 \<mapsto> vs 0 0, 9 \<mapsto> vs 1 0] [] 1"
    by (simp add: verify_loop_visit kept_try_steps [unfolded One_nat_def] vs_sel
        del: verify_loop.simps(2))
  then show ?thesis by (simp add: kept_try_depths_def)
qed

lemma kept_try_verifies: "verify_chunk kept_try_context kept_try_chunk = Ok 1"
  "depths kept_try_context kept_try_chunk = Some kept_try_depths"
  using kept_try_loop by (simp_all add: verify_chunk_def depths_def kept_try_sel vs_sel Let_def)

lemma kept_try_kept: "handlers_kept kept_try_context kept_try_chunk kept_try_depths kept_try_handlers"
  by (auto simp: handlers_kept_def kept_try_sel kept_try_depths_def decode_kept_try kept_try_width
      kept_at_def allowed_def plain_def end_ok_def branch_of_def edge_of_def arm_table_def effect_def
      kept_try_handlers_def vs_sel split: if_splits)

lemma kept_try_allowed: "allowed_throughout kept_try_context kept_try_depths"
  by (auto simp: allowed_throughout_def kept_try_sel kept_try_depths_def decode_kept_try allowed_def
      plain_def split: if_splits)

lemma kept_try_run:
  "(exec_step kept_try no_pools bound u unmetered)\<^sup>*\<^sup>* (execute 0 0 kept_try_chunk)
     (Exec 1 [\<lparr>h_target = 7, h_catch_var = None, h_operands = 0, h_caught = True\<rparr>] 7
        (stack_frame 0 1 []))"
proof -
  let ?f = "\<lambda>xs. stack_frame 0 1 (xs :: 'a list)"
  let ?h = "\<lambda>c. \<lparr>h_target = 7, h_catch_var = None, h_operands = 0, h_caught = c\<rparr>"
  let ?go = "exec_step kept_try no_pools bound u unmetered"
  note d = decode_kept_try and w = kept_try_width
  note step = unmetered_step [where pools = no_pools and bound = bound and u = u]
  note arm = arms_def straight_def arm_handlers_def push_cell_stack
    pop_stack [of "[]" 1 0, simplified]
  have "?go\<^sup>*\<^sup>* (Exec 0 [] 0 (?f [])) (Exec 0 [?h False] 5 (?f []))"
    using step [OF d(1) w(1), of "[]" "?f []" "?f []"] by (simp add: arm)
  also have "?go\<^sup>*\<^sup>* \<dots> (Exec 0 [?h False] 6 (?f [u]))"
    using step [OF d(2) w(2), of "[MPush u]" "?f []" "?f [u]"] by (simp add: arm)
  also have "?go\<^sup>*\<^sup>* \<dots> (Exec 1 [?h True] 7 (?f []))"
  proof (rule r_into_rtranclp)
    have "raises kept_try no_pools bound u 6 (?f [u]) (?f [])"
      by (rule raises.in_arm [OF d(3), where ms = "[MPop]" and rest = "[]" and e = Fail])
        (simp_all add: arm)
    moreover have "catch_error ErrorRuntime [?h False] (?f []) = Some (7, [?h True], ?f [])"
      by (simp add: catch_error_def is_catchable_def truncate_cells_def)
    ultimately show "?go (Exec 0 [?h False] 6 (?f [u])) (Exec 1 [?h True] 7 (?f []))"
      by (rule exec_step.caught) (simp add: unmetered_track)
  qed
  finally show ?thesis by (simp add: execute_def new_frame_stack kept_try_sel)
qed

theorem tries_run_safely_witness:
  "\<exists>s xs. kept_try_depths 7 = Some s \<and> length xs = v_operands s \<and> v_operands s \<le> 1 \<and>
     (stack_frame 0 1 [] :: unit frame) = stack_frame 0 1 xs"
  using tries_run_safely [OF kept_try_verifies kept_try_kept kept_try_allowed,
      where bound = 0 and u = "()" and m = unmetered and n = 0 and floor = 0]
    kept_try_run [of 0 "()"]
  by (fastforce simp: kept_try_sel)

end
