(* ===== verification/Immutable_Strings.thy ===== *)
theory Immutable_Strings
  imports Constants "HOL-Library.Sublist"
begin

text \<open>
  Strings of scripts (\<open>src/types/immutable_string.rs\<close>): the sums, differences and comparisons of
  \<open>ImmutableString\<close>, over the UTF-8 bytes of the text, with what the standard library provides
  for them (\<open>char::encode_utf8\<close>, \<open>str::chars\<close>, \<open>str::replace\<close> by nothing). Whether a string is
  shared or owned is not modelled: a clone has the bytes it was cloned from.
\<close>

section \<open>The standard library on text\<close>

text \<open>\<open>char::encode_utf8\<close>.\<close>

definition encode_utf8 :: "u32 \<Rightarrow> u8 list" where
  "encode_utf8 c =
     (let n = unat c in
      if n < 0x80 then [of_nat n]
      else if n < 0x800 then [of_nat (0xc0 + n div 64), of_nat (0x80 + n mod 64)]
      else if n < 0x10000 then
        [of_nat (0xe0 + n div 4096), of_nat (0x80 + n div 64 mod 64), of_nat (0x80 + n mod 64)]
      else [of_nat (0xf0 + n div 262144), of_nat (0x80 + n div 4096 mod 64),
        of_nat (0x80 + n div 64 mod 64), of_nat (0x80 + n mod 64)])"

text \<open>The scalar value of the bytes of one character, and \<open>str::chars\<close>.\<close>

definition decode_scalar :: "u8 list \<Rightarrow> u32" where
  "decode_scalar bytes = (case map unat bytes of
       [a] \<Rightarrow> of_nat a
     | [a, b] \<Rightarrow> of_nat (a mod 32 * 64 + b mod 64)
     | [a, b, c] \<Rightarrow> of_nat (a mod 16 * 4096 + b mod 64 * 64 + c mod 64)
     | [a, b, c, d] \<Rightarrow> of_nat (a mod 8 * 262144 + b mod 64 * 4096 + c mod 64 * 64 + d mod 64)
     | _ \<Rightarrow> 0)"

function chars :: "u8 list \<Rightarrow> u32 list" where
  "chars bytes = (case scalar_width bytes of
       None \<Rightarrow> []
     | Some n \<Rightarrow> decode_scalar (take n bytes) # chars (drop n bytes))"
  by pat_completeness auto
termination
  by (relation "measure length") (auto dest: scalar_width_bounds)

declare chars.simps [simp del]

text \<open>\<open>str::replace(pat, "")\<close>: the matches from the left, none of which overlap.\<close>

function remove_all :: "u8 list \<Rightarrow> u8 list \<Rightarrow> u8 list" where
  "remove_all pat [] = []"
| "remove_all pat (b # str) =
     (if pat \<noteq> [] \<and> prefix pat (b # str) then remove_all pat (drop (length pat) (b # str))
      else b # remove_all pat str)"
  by pat_completeness auto
termination
  by (relation "measure (length \<circ> snd)") auto

declare remove_all.simps(2) [simp del]

section \<open>Sums and differences\<close>

text \<open>\<open>Add\<close> and \<open>AddAssign\<close>, of a string and of a character.\<close>

definition add_string :: "u8 list \<Rightarrow> u8 list \<Rightarrow> u8 list" where
  "add_string s rhs = (if rhs = [] then s else if s = [] then rhs else s @ rhs)"

definition add_str :: "u8 list \<Rightarrow> u8 list \<Rightarrow> u8 list" where
  "add_str s rhs = (if rhs = [] then s else s @ rhs)"

definition add_char :: "u8 list \<Rightarrow> u32 \<Rightarrow> u8 list" where
  "add_char s c = s @ encode_utf8 c"

text \<open>\<open>Sub\<close> and \<open>SubAssign\<close>: of a string, a slice and a character. An empty left operand gives the
  right one, but not where a slice or a \<open>String\<close> is subtracted in place.\<close>

definition sub_string :: "u8 list \<Rightarrow> u8 list \<Rightarrow> u8 list" where
  "sub_string s rhs = (if rhs = [] then s else if s = [] then rhs else remove_all rhs s)"

definition sub_assign_str :: "u8 list \<Rightarrow> u8 list \<Rightarrow> u8 list" where
  "sub_assign_str s rhs = (if rhs = [] then s else remove_all rhs s)"

definition sub_char :: "u8 list \<Rightarrow> u32 \<Rightarrow> u8 list" where
  "sub_char s c = remove_all (encode_utf8 c) s"

text \<open>\<open>partial_cmp\<close> of two strings is the order of their bytes.\<close>

fun less_bytes :: "'a::linorder list \<Rightarrow> 'a list \<Rightarrow> bool" where
  "less_bytes _ [] = False"
| "less_bytes [] (_ # _) = True"
| "less_bytes (a # s) (b # t) = (a < b \<or> a = b \<and> less_bytes s t)"

section \<open>Text stays text\<close>

lemma add_is_append [simp]: "add_string s rhs = s @ rhs" "add_str s rhs = s @ rhs"
  by (simp_all add: add_string_def add_str_def)

lemma unat_of_nat8: "n < 256 \<Longrightarrow> unat (of_nat n :: u8) = n"
  by (simp add: unsigned_of_nat take_bit_nat_eq_self)

lemma char_ok_nat: "char_ok c \<longleftrightarrow> unat c < 0xd800 \<or> 0xdfff < unat c \<and> unat c < 0x110000"
  by (simp add: char_ok_def word_less_nat_alt)

lemma scalar_lead_nat:
  "n < 0x80 \<Longrightarrow> scalar_lead (of_nat n) = Some (1, 0x80, 0xbf)"
  "0xc2 \<le> n \<Longrightarrow> n < 0xe0 \<Longrightarrow> scalar_lead (of_nat n) = Some (2, 0x80, 0xbf)"
  "0xe0 \<le> n \<Longrightarrow> n < 0xf0 \<Longrightarrow> scalar_lead (of_nat n) =
     Some (3, if n = 0xe0 then 0xa0 else 0x80, if n = 0xed then 0x9f else 0xbf)"
  "0xf0 \<le> n \<Longrightarrow> n < 0xf5 \<Longrightarrow> scalar_lead (of_nat n) =
     Some (4, if n = 0xf0 then 0x90 else 0x80, if n = 0xf4 then 0x8f else 0xbf)"
  by (auto simp: scalar_lead_def word_less_nat_alt word_unat_eq_iff unat_of_nat8)

text \<open>The six-bit groups of a number.\<close>

lemma digits:
  fixes n :: nat
  shows "n = n div 64 * 64 + n mod 64" "n div 64 = n div 4096 * 64 + n div 64 mod 64"
    "n div 4096 = n div 262144 * 64 + n div 4096 mod 64"
proof -
  have "n div 4096 = n div 64 div 64" "n div 262144 = n div 4096 div 64"
    by (simp_all flip: div_mult2_eq)
  then show "n = n div 64 * 64 + n mod 64" "n div 64 = n div 4096 * 64 + n div 64 mod 64"
    "n div 4096 = n div 262144 * 64 + n div 4096 mod 64"
    by (metis div_mult_mod_eq)+
qed

lemma continuation_nat: "m < 64 \<Longrightarrow> continuation (of_nat (0x80 + m))"
  by (auto simp: continuation_def word_le_nat_alt unat_of_nat8 simp del: of_nat_add of_nat_numeral)

lemma scalar_width_encode:
  assumes "char_ok c"
  shows "scalar_width (encode_utf8 c) = Some (length (encode_utf8 c))"
proof -
  let ?n = "unat c"
  from assms have ok: "?n < 0xd800 \<or> 0xdfff < ?n \<and> ?n < 0x110000" by (simp add: char_ok_nat)
  note d = digits [of ?n]
  consider "?n < 0x80" | "0x80 \<le> ?n" "?n < 0x800" | "0x800 \<le> ?n" "?n < 0x10000" | "0x10000 \<le> ?n"
    by linarith
  then show ?thesis
  proof cases
    case 1
    then show ?thesis
      by (simp add: Let_def encode_utf8_def scalar_width_def scalar_lead_nat del: of_nat_unat)
  next
    case 2
    then have "2 \<le> ?n div 64" "?n div 64 < 32" by linarith+
    with 2 show ?thesis
      by (simp add: Let_def encode_utf8_def scalar_width_def scalar_lead_nat continuation_nat
          word_le_nat_alt unat_of_nat8 del: of_nat_add of_nat_numeral)
  next
    case 3
    then have b: "?n div 4096 < 16" by linarith
    have "?n div 4096 = 0 \<Longrightarrow> 32 \<le> ?n div 64 mod 64" "?n div 4096 = 13 \<Longrightarrow> ?n div 64 mod 64 \<le> 31"
      "?n div 64 mod 64 \<le> 63" "?n div 4096 = 0 \<Longrightarrow> ?n div 64 \<le> 63"
      using 3 ok d by linarith+
    with 3 b show ?thesis
      by (simp add: Let_def encode_utf8_def scalar_width_def scalar_lead_nat continuation_nat
          word_le_nat_alt unat_of_nat8 del: of_nat_add of_nat_numeral)
  next
    case 4
    with ok have b: "?n div 262144 < 5" by linarith
    have "?n div 262144 = 0 \<Longrightarrow> 16 \<le> ?n div 4096 mod 64" "?n div 262144 = 4 \<Longrightarrow> ?n div 4096 mod 64 \<le> 15"
      "?n div 4096 mod 64 \<le> 63" "?n div 262144 = 0 \<Longrightarrow> ?n div 4096 \<le> 63"
      using 4 ok d by linarith+
    with 4 b show ?thesis
      by (simp add: Let_def encode_utf8_def scalar_width_def scalar_lead_nat continuation_nat
          word_le_nat_alt unat_of_nat8 del: of_nat_add of_nat_numeral)
  qed
qed

lemma utf8_encode:
  assumes "char_ok c"
  shows "utf8 (encode_utf8 c)"
  using scalar_width_encode [OF assms]
  by (auto simp: utf8_scalar encode_utf8_def Let_def)

lemma decode_scalar_nat:
  "a < 256 \<Longrightarrow> decode_scalar [of_nat a] = of_nat a"
  "a < 32 \<Longrightarrow> b < 64 \<Longrightarrow> decode_scalar [of_nat (0xc0 + a), of_nat (0x80 + b)] = of_nat (a * 64 + b)"
  "a < 16 \<Longrightarrow> b < 64 \<Longrightarrow> c < 64 \<Longrightarrow>
     decode_scalar [of_nat (0xe0 + a), of_nat (0x80 + b), of_nat (0x80 + c)] =
     of_nat (a * 4096 + b * 64 + c)"
  "a < 8 \<Longrightarrow> b < 64 \<Longrightarrow> c < 64 \<Longrightarrow> d < 64 \<Longrightarrow>
     decode_scalar [of_nat (0xf0 + a), of_nat (0x80 + b), of_nat (0x80 + c), of_nat (0x80 + d)] =
     of_nat (a * 262144 + b * 4096 + c * 64 + d)"
proof -
  have m: "x < 32 \<Longrightarrow> (192 + x) mod 32 = x" "x < 16 \<Longrightarrow> (224 + x) mod 16 = x"
    "x < 8 \<Longrightarrow> (240 + x) mod 8 = x" "x < 64 \<Longrightarrow> (128 + x) mod 64 = x" for x :: nat
    by (subst mod_add_left_eq [symmetric], simp)+
  show "a < 256 \<Longrightarrow> decode_scalar [of_nat a] = of_nat a"
    "a < 32 \<Longrightarrow> b < 64 \<Longrightarrow> decode_scalar [of_nat (0xc0 + a), of_nat (0x80 + b)] = of_nat (a * 64 + b)"
    "a < 16 \<Longrightarrow> b < 64 \<Longrightarrow> c < 64 \<Longrightarrow>
     decode_scalar [of_nat (0xe0 + a), of_nat (0x80 + b), of_nat (0x80 + c)] =
     of_nat (a * 4096 + b * 64 + c)"
    "a < 8 \<Longrightarrow> b < 64 \<Longrightarrow> c < 64 \<Longrightarrow> d < 64 \<Longrightarrow>
     decode_scalar [of_nat (0xf0 + a), of_nat (0x80 + b), of_nat (0x80 + c), of_nat (0x80 + d)] =
     of_nat (a * 262144 + b * 4096 + c * 64 + d)"
    by (simp_all add: decode_scalar_def unat_of_nat8 m del: of_nat_add of_nat_numeral of_nat_mult)
qed

lemma decode_encode:
  assumes "char_ok c"
  shows "decode_scalar (encode_utf8 c) = c"
proof -
  let ?n = "unat c"
  have n: "?n < 0x110000" using assms by (auto simp: char_ok_nat)
  note d = digits [of ?n]
  have w: "of_nat k = c" if "k = ?n" for k using that by simp
  consider "?n < 0x80" | "0x80 \<le> ?n" "?n < 0x800" | "0x800 \<le> ?n" "?n < 0x10000" | "0x10000 \<le> ?n"
    by linarith
  then show ?thesis
  proof cases
    case 1
    then have "encode_utf8 c = [of_nat ?n]" by (simp add: encode_utf8_def)
    then show ?thesis using 1 by (simp only: decode_scalar_nat(1) w)
  next
    case 2
    then have e: "encode_utf8 c = [of_nat (0xc0 + ?n div 64), of_nat (0x80 + ?n mod 64)]"
      by (simp add: encode_utf8_def Let_def)
    have "?n div 64 < 32" "?n mod 64 < 64" using 2 by linarith+
    then show ?thesis unfolding e by (subst decode_scalar_nat(2)) (use d in \<open>auto intro: w\<close>)
  next
    case 3
    then have e: "encode_utf8 c = [of_nat (0xe0 + ?n div 4096), of_nat (0x80 + ?n div 64 mod 64),
        of_nat (0x80 + ?n mod 64)]"
      by (simp add: encode_utf8_def Let_def)
    have "?n div 4096 < 16" "?n div 64 mod 64 < 64" "?n mod 64 < 64" using 3 by simp_all
    then have "decode_scalar (encode_utf8 c) =
        of_nat (?n div 4096 * 4096 + ?n div 64 mod 64 * 64 + ?n mod 64)"
      unfolding e by (rule decode_scalar_nat(3))
    also have "\<dots> = c" by (rule w) (use d in linarith)
    finally show ?thesis .
  next
    case 4
    then have e: "encode_utf8 c = [of_nat (0xf0 + ?n div 262144), of_nat (0x80 + ?n div 4096 mod 64),
        of_nat (0x80 + ?n div 64 mod 64), of_nat (0x80 + ?n mod 64)]"
      by (simp add: encode_utf8_def Let_def)
    have "?n div 262144 < 8" "?n div 4096 mod 64 < 64" "?n div 64 mod 64 < 64" "?n mod 64 < 64"
      using n by simp_all
    then have "decode_scalar (encode_utf8 c) =
        of_nat (?n div 262144 * 262144 + ?n div 4096 mod 64 * 4096 + ?n div 64 mod 64 * 64 + ?n mod 64)"
      unfolding e by (rule decode_scalar_nat(4))
    also have "\<dots> = c" by (rule w) (use d in linarith)
    finally show ?thesis .
  qed
qed

lemma chars_encode:
  assumes "char_ok c"
  shows "chars (encode_utf8 c @ str) = c # chars str"
  using scalar_width_append [OF scalar_width_encode [OF assms], of str] decode_encode [OF assms]
  by (simp add: chars.simps [of "encode_utf8 c @ str"])

text \<open>Every well-formed scalar value is the encoding of a character.\<close>

lemma byte_offset: "unat b = k + a \<Longrightarrow> (of_nat (k + a) :: u8) = b"
  by (metis of_nat_unat ucast_id)

lemma digit: "b < 64 \<Longrightarrow> (a * 64 + b) div 64 = a" "b < 64 \<Longrightarrow> (a * 64 + b) mod 64 = b" for a b :: nat
  by simp_all

lemma unat_of_nat32_small: "n < 0x110000 \<Longrightarrow> unat (of_nat n :: u32) = n"
  by (simp add: unsigned_of_nat take_bit_nat_eq_self)

lemma scalar_lead_width_nat:
  "scalar_lead b = Some (n, lo, hi) \<Longrightarrow>
   (n = 1 \<and> unat b < 0x80) \<or>
   (n = 2 \<and> 0xc2 \<le> unat b \<and> unat b < 0xe0) \<or>
   (n = 3 \<and> 0xe0 \<le> unat b \<and> unat b < 0xf0 \<and> (unat b = 0xe0 \<longrightarrow> unat lo = 0xa0) \<and>
      (unat b = 0xed \<longrightarrow> unat hi = 0x9f)) \<or>
   (n = 4 \<and> 0xf0 \<le> unat b \<and> unat b < 0xf5 \<and> (unat b = 0xf0 \<longrightarrow> unat lo = 0x90) \<and>
      (unat b = 0xf4 \<longrightarrow> unat hi = 0x8f))"
  by (auto simp: scalar_lead_def word_less_nat_alt word_unat_eq_iff split: if_splits)

lemma continuation_offset: "continuation b \<Longrightarrow> \<exists>a. unat b = 0x80 + a \<and> a < 64"
  by (intro exI [of _ "unat b - 0x80"]) (auto simp: continuation_def word_le_nat_alt)

lemma encode_nat:
  assumes "n < 0x110000"
  shows "n < 0x80 \<Longrightarrow> encode_utf8 (of_nat n) = [of_nat n]"
    "a * 64 + b = n \<Longrightarrow> b < 64 \<Longrightarrow> 2 \<le> a \<Longrightarrow> a < 32 \<Longrightarrow>
       encode_utf8 (of_nat n) = [of_nat (0xc0 + a), of_nat (0x80 + b)]"
    "a * 4096 + b * 64 + c = n \<Longrightarrow> b < 64 \<Longrightarrow> c < 64 \<Longrightarrow> 0x800 \<le> n \<Longrightarrow> a < 16 \<Longrightarrow>
       encode_utf8 (of_nat n) = [of_nat (0xe0 + a), of_nat (0x80 + b), of_nat (0x80 + c)]"
    "a * 262144 + b * 4096 + c * 64 + d = n \<Longrightarrow> b < 64 \<Longrightarrow> c < 64 \<Longrightarrow> d < 64 \<Longrightarrow> 0x10000 \<le> n \<Longrightarrow>
       encode_utf8 (of_nat n) =
       [of_nat (0xf0 + a), of_nat (0x80 + b), of_nat (0x80 + c), of_nat (0x80 + d)]"
proof -
  note u = unat_of_nat32_small [OF assms]
  show "n < 0x80 \<Longrightarrow> encode_utf8 (of_nat n) = [of_nat n]"
    by (simp add: encode_utf8_def u)
  show "encode_utf8 (of_nat n) = [of_nat (0xc0 + a), of_nat (0x80 + b)]"
    if "a * 64 + b = n" "b < 64" "2 \<le> a" "a < 32"
  proof -
    have "n div 64 = a" "n mod 64 = b" "\<not> n < 0x80" "n < 0x800" using that by auto
    then show ?thesis unfolding encode_utf8_def u Let_def by (simp only: if_False if_True)
  qed
  show "encode_utf8 (of_nat n) = [of_nat (0xe0 + a), of_nat (0x80 + b), of_nat (0x80 + c)]"
    if "a * 4096 + b * 64 + c = n" "b < 64" "c < 64" "0x800 \<le> n" "a < 16"
  proof -
    have "n = (a * 64 + b) * 64 + c" using that(1) by simp
    then have "n div 64 = a * 64 + b" "n mod 64 = c" using digit [OF that(3)] by blast+
    moreover have "\<not> n < 0x80" "\<not> n < 0x800" "n < 0x10000" using that by auto
    moreover have "n div 4096 = n div 64 div 64" by (simp flip: div_mult2_eq)
    ultimately have "n div 64 mod 64 = b" "n div 4096 = a" "n mod 64 = c" "\<not> n < 0x80" "\<not> n < 0x800"
      "n < 0x10000"
      using digit [OF that(2)] by simp_all
    then show ?thesis unfolding encode_utf8_def u Let_def by (simp only: if_False if_True)
  qed
  show "encode_utf8 (of_nat n) =
       [of_nat (0xf0 + a), of_nat (0x80 + b), of_nat (0x80 + c), of_nat (0x80 + d)]"
    if "a * 262144 + b * 4096 + c * 64 + d = n" "b < 64" "c < 64" "d < 64" "0x10000 \<le> n"
  proof -
    have "n = (a * 4096 + b * 64 + c) * 64 + d" using that(1) by simp
    then have m: "n div 64 = a * 4096 + b * 64 + c" "n mod 64 = d" using digit [OF that(4)] by blast+
    have e: "n div 4096 = n div 64 div 64" "n div 262144 = n div 4096 div 64"
      by (simp_all flip: div_mult2_eq)
    have "n div 64 = (a * 64 + b) * 64 + c" using m(1) by simp
    then have p: "n div 4096 = a * 64 + b" "n div 64 mod 64 = c"
      unfolding e(1) using digit [OF that(3)] by metis+
    then have q: "n div 262144 = a" "n div 4096 mod 64 = b"
      unfolding e(2) using digit [OF that(2)] by metis+
    have "\<not> n < 0x80" "\<not> n < 0x800" "\<not> n < 0x10000" using that by auto
    then show ?thesis unfolding encode_utf8_def u Let_def
      by (simp only: if_False if_True p(2) q m(2))
  qed
qed

lemma decode_valid:
  assumes "scalar_width bytes = Some n"
  shows "char_ok (decode_scalar (take n bytes)) \<and> encode_utf8 (decode_scalar (take n bytes)) = take n bytes"
proof -
  from assms obtain b0 rest lo hi where bytes: "bytes = b0 # rest" and lead: "scalar_lead b0 = Some (n, lo, hi)"
    and len: "n \<le> Suc (length rest)" and second: "1 < n \<longrightarrow> lo \<le> rest ! 0 \<and> rest ! 0 \<le> hi"
    and conts: "list_all continuation (take (n - 1) rest)"
    by (auto simp: scalar_width_def split: list.splits option.splits prod.splits if_splits)
  have cont: "\<exists>a. unat (rest ! i) = 0x80 + a \<and> a < 64" if "i < n - 1" for i
    using conts len that by (intro continuation_offset) (auto simp: list_all_length)
  consider "n = 1" "unat b0 < 0x80" | "n = 2" "0xc2 \<le> unat b0" "unat b0 < 0xe0"
    | "n = 3" "0xe0 \<le> unat b0" "unat b0 < 0xf0" "unat b0 = 0xe0 \<longrightarrow> unat lo = 0xa0"
      "unat b0 = 0xed \<longrightarrow> unat hi = 0x9f"
    | "n = 4" "0xf0 \<le> unat b0" "unat b0 < 0xf5" "unat b0 = 0xf0 \<longrightarrow> unat lo = 0x90"
      "unat b0 = 0xf4 \<longrightarrow> unat hi = 0x8f"
    using scalar_lead_width_nat [OF lead] by blast
  then show ?thesis
  proof cases
    case 1
    then have t: "take n bytes = [of_nat (unat b0)]" by (simp add: bytes)
    have d: "decode_scalar (take n bytes) = of_nat (unat b0)"
      unfolding t using 1 by (subst decode_scalar_nat) auto
    show ?thesis
      unfolding d using 1 encode_nat(1) [of "unat b0"] t
      by (simp add: char_ok_nat unat_of_nat32_small del: of_nat_unat)
  next
    case 2
    then obtain r1 rs where rest: "rest = r1 # rs" using len by (cases rest) auto
    from 2 obtain a where a: "unat b0 = 0xc0 + a" "2 \<le> a" "a < 32"
      by (intro that [of "unat b0 - 0xc0"]) linarith+
    from cont [of 0] 2 rest obtain b where b: "unat r1 = 0x80 + b" "b < 64" by auto
    have t: "take n bytes = [of_nat (0xc0 + a), of_nat (0x80 + b)]"
      unfolding byte_offset [OF a(1)] byte_offset [OF b(1)] by (simp add: bytes rest 2)
    have n: "a * 64 + b < 0x800" using a b by linarith
    have d: "decode_scalar (take n bytes) = of_nat (a * 64 + b)"
      unfolding t using a b by (intro decode_scalar_nat)
    have "encode_utf8 (of_nat (a * 64 + b)) = take n bytes"
      unfolding t by (rule encode_nat(2) [OF _ refl b(2) a(2,3)]) (use n in linarith)
    moreover have "char_ok (of_nat (a * 64 + b))"
      unfolding char_ok_nat by (subst (1 2 3) unat_of_nat32_small) (use n in linarith)+
    ultimately show ?thesis unfolding d by blast
  next
    case 3
    then obtain r1 r2 rs where rest: "rest = r1 # r2 # rs"
      using len by (cases rest; cases "tl rest") auto
    from 3 obtain a where a: "unat b0 = 0xe0 + a" "a < 16"
      by (intro that [of "unat b0 - 0xe0"]) linarith+
    from cont [of 0] 3 rest obtain b where b: "unat r1 = 0x80 + b" "b < 64" by auto
    from cont [of 1] 3 rest obtain c where c: "unat r2 = 0x80 + c" "c < 64" by auto
    have t: "take n bytes = [of_nat (0xe0 + a), of_nat (0x80 + b), of_nat (0x80 + c)]"
      unfolding byte_offset [OF a(1)] byte_offset [OF b(1)] byte_offset [OF c(1)]
      by (simp add: bytes rest 3)
    have r1: "a = 0 \<Longrightarrow> 32 \<le> b" "a = 13 \<Longrightarrow> b < 32"
      using second 3 a b by (auto simp: rest word_le_nat_alt)
    let ?n = "a * 4096 + b * 64 + c"
    have n: "0x800 \<le> ?n" "?n < 0x10000" using r1(1) a b c by (cases "a = 0"; linarith)+
    have s: "?n < 0xd800 \<or> 0xdfff < ?n"
      using r1(2) a b c by (cases "a < 13"; cases "a = 13") linarith+
    have d: "decode_scalar (take n bytes) = of_nat ?n"
      unfolding t using a b c by (intro decode_scalar_nat)
    have "encode_utf8 (of_nat ?n) = take n bytes"
      unfolding t by (rule encode_nat(3) [OF _ refl b(2) c(2) n(1) a(2)]) (use n in linarith)
    moreover have "char_ok (of_nat ?n)"
      unfolding char_ok_nat by (subst (1 2 3) unat_of_nat32_small) (use n s in linarith)+
    ultimately show ?thesis unfolding d by blast
  next
    case 4
    then obtain r1 r2 r3 rs where rest: "rest = r1 # r2 # r3 # rs"
      using len by (cases rest; cases "tl rest"; cases "tl (tl rest)") auto
    from 4 obtain a where a: "unat b0 = 0xf0 + a" "a < 5"
      by (intro that [of "unat b0 - 0xf0"]) linarith+
    from cont [of 0] 4 rest obtain b where b: "unat r1 = 0x80 + b" "b < 64" by auto
    from cont [of 1] 4 rest obtain c where c: "unat r2 = 0x80 + c" "c < 64" by auto
    from cont [of 2] 4 rest obtain e where e: "unat r3 = 0x80 + e" "e < 64" by auto
    have t: "take n bytes = [of_nat (0xf0 + a), of_nat (0x80 + b), of_nat (0x80 + c), of_nat (0x80 + e)]"
      unfolding byte_offset [OF a(1)] byte_offset [OF b(1)] byte_offset [OF c(1)] byte_offset [OF e(1)]
      by (simp add: bytes rest 4)
    have r1: "a = 0 \<Longrightarrow> 16 \<le> b" "a = 4 \<Longrightarrow> b < 16"
      using second 4 a b by (auto simp: rest word_le_nat_alt)
    let ?n = "a * 262144 + b * 4096 + c * 64 + e"
    have n: "0x10000 \<le> ?n" "?n < 0x110000"
      using r1 a b c e by (cases "a = 0"; cases "a = 4"; linarith)+
    have d: "decode_scalar (take n bytes) = of_nat ?n"
      unfolding t using a b c e by (intro decode_scalar_nat) linarith+
    have "encode_utf8 (of_nat ?n) = take n bytes"
      unfolding t by (rule encode_nat(4) [OF n(2) refl b(2) c(2) e(2) n(1)])
    moreover have "char_ok (of_nat ?n)"
      unfolding char_ok_nat by (subst (1 2 3) unat_of_nat32_small) (use n in linarith)+
    ultimately show ?thesis unfolding d by blast
  qed
qed

text \<open>\<open>collect\<close> of characters into a string, the other way round from \<open>chars\<close>.\<close>

definition collect_chars :: "u32 list \<Rightarrow> u8 list" where
  "collect_chars cs = concat (map encode_utf8 cs)"

lemma chars_collect: "list_all char_ok cs \<Longrightarrow> chars (collect_chars cs) = cs"
  by (induction cs) (simp_all add: collect_chars_def chars_encode, simp add: chars.simps scalar_width_def)

lemma collect_chars_append: "collect_chars (a @ b) = collect_chars a @ collect_chars b"
  by (simp add: collect_chars_def)

lemma utf8_collect: "list_all char_ok cs \<Longrightarrow> utf8 (collect_chars cs)"
  by (induction cs) (simp_all add: collect_chars_def utf8_append utf8_encode)

lemma collect_of_chars: "utf8 s \<Longrightarrow> collect_chars (chars s) = s \<and> list_all char_ok (chars s)"
proof (induction s rule: chars.induct)
  case (1 s)
  show ?case
  proof (cases "s = []")
    case True
    then show ?thesis by (simp add: chars.simps scalar_width_def collect_chars_def)
  next
    case False
    with "1.prems" obtain n where n: "scalar_width s = Some n" "utf8 (drop n s)"
      by (auto simp: utf8_scalar)
    from "1.IH" [OF n] decode_valid [OF n(1)] n(1) show ?thesis
      by (simp add: chars.simps [of s] collect_chars_def)
  qed
qed

section \<open>Differences of text\<close>

lemma utf8_cancel: "utf8 a \<Longrightarrow> utf8 (a @ b) \<Longrightarrow> utf8 b"
proof (induction a rule: valid_up_to.induct)
  case (1 a)
  show ?case
  proof (cases "a = []")
    case True
    with "1.prems" show ?thesis by simp
  next
    case False
    with "1.prems"(1) obtain n where n: "scalar_width a = Some n" "utf8 (drop n a)"
      by (auto simp: utf8_scalar)
    from scalar_width_bounds [OF n(1)] "1.prems"(2) scalar_width_append [OF n(1), of b] False
    have "utf8 (drop n a @ b)" by (auto simp: utf8_scalar)
    with "1.IH" [OF n(1) n(2)] show ?thesis .
  qed
qed

lemma remove_all_continuations:
  assumes "list_all continuation cs" "pat \<noteq> []" "\<not> continuation (pat ! 0)"
  shows "remove_all pat (cs @ str) = cs @ remove_all pat str"
  using assms(1)
proof (induction cs)
  case (Cons b cs)
  with assms(2,3) have "\<not> prefix pat (b # cs @ str)"
    by (cases pat) auto
  with Cons show ?case by (simp add: remove_all.simps)
qed simp

lemma utf8_first:
  assumes "scalar_width str = Some n"
  obtains b cs where "str = b # cs @ drop n str" "list_all continuation cs" "utf8 (b # cs)"
proof -
  from scalar_width_bounds [OF assms] obtain b cs where t: "take n str = b # cs"
    by (cases "take n str") auto
  then have str: "str = b # cs @ drop n str"
    using append_take_drop_id [of n str] by simp
  have len: "length (b # cs) = n"
    using scalar_width_bounds [OF assms] t by (metis length_take min.absorb2)
  have "continuation (cs ! i)" if "i < length cs" for i
  proof -
    from that len have "continuation (str ! Suc i)" by (intro scalar_tail [OF assms]) auto
    with that show ?thesis using str by (metis nth_Cons_Suc nth_append)
  qed
  then have "list_all continuation cs" by (simp add: list_all_length)
  moreover have "utf8 (b # cs)"
    using scalar_width_take [OF assms order_refl] t len by (auto simp: utf8_scalar)
  ultimately show thesis using that str by blast
qed

end
