(* ===== verification/Operators.thy ===== *)
theory Operators
  imports Immutable_Strings Int_Ops Limits Tokens "HOL-Library.Option_ord"
begin

text \<open>
  The operators an engine has built in (\<open>src/func/builtin.rs\<close>), and those the dispatch loop runs
  without resolving a function (\<open>src/grain/vm/arith.rs\<close>, \<open>apply_binary\<close> and its companions in
  \<open>src/grain/vm/mod.rs\<close>), in the checked build. A built-in is looked up for an operator and two
  values and called on the same two, so the lookup and the call are one function here. The
  arithmetic of floats and of decimals (a package) is a parameter, as is the build: the type of
  \<open>INT\<close>, the features and the limits. Values are those of \<open>Constants\<close>; shared cells, function
  pointers and times are not among them.
\<close>

section \<open>Parameters\<close>

type_synonym flt = "u8 list"
type_synonym dec = "128 word \<times> u32"

record float_ops =
  fl_add :: "flt \<Rightarrow> flt \<Rightarrow> flt"
  fl_sub :: "flt \<Rightarrow> flt \<Rightarrow> flt"
  fl_mul :: "flt \<Rightarrow> flt \<Rightarrow> flt"
  fl_div :: "flt \<Rightarrow> flt \<Rightarrow> flt"
  fl_rem :: "flt \<Rightarrow> flt \<Rightarrow> flt"
  fl_powf :: "flt \<Rightarrow> flt \<Rightarrow> flt"
  fl_abs :: "flt \<Rightarrow> flt"
  fl_neg :: "flt \<Rightarrow> flt"
  fl_max :: "flt \<Rightarrow> flt \<Rightarrow> flt"
  fl_eq :: "flt \<Rightarrow> flt \<Rightarrow> bool"
  fl_gt :: "flt \<Rightarrow> flt \<Rightarrow> bool"
  fl_le :: "flt \<Rightarrow> flt \<Rightarrow> bool"
  fl_of_int :: "int \<Rightarrow> flt"
  fl_zero :: flt
  fl_one :: flt
  fl_epsilon :: flt

record decimal_ops =
  d_checked_add :: "dec \<Rightarrow> dec \<Rightarrow> dec option"
  d_checked_sub :: "dec \<Rightarrow> dec \<Rightarrow> dec option"
  d_checked_mul :: "dec \<Rightarrow> dec \<Rightarrow> dec option"
  d_checked_div :: "dec \<Rightarrow> dec \<Rightarrow> dec option"
  d_checked_rem :: "dec \<Rightarrow> dec \<Rightarrow> dec option"
  d_checked_powd :: "dec \<Rightarrow> dec \<Rightarrow> dec option"
  d_round_u32 :: "dec \<Rightarrow> u32 option"
  d_of_int :: "int \<Rightarrow> dec"
  d_zero :: dec
  d_eq :: "dec \<Rightarrow> dec \<Rightarrow> bool"
  d_less :: "dec \<Rightarrow> dec \<Rightarrow> bool"

text \<open>
  \<open>e_only_int\<close> stands for the features \<open>only_i32\<close> and \<open>only_i64\<close>, without which a host may use the
  other integer types; \<open>e_wasm\<close> for a target without the 128-bit ones.
\<close>

record engine =
  e_int :: int_type
  e_only_int :: bool
  e_wasm :: bool
  e_features :: features
  e_limits :: limits
  e_float :: float_ops
  e_decimal :: decimal_ops

section \<open>Errors and results\<close>

datatype decimal_error =
    Dec_addition_overflow dec dec | Dec_subtraction_overflow dec dec
  | Dec_multiplication_overflow dec dec | Dec_division_by_zero dec dec
  | Dec_division_overflow dec dec | Dec_modulo_zero_or_overflow dec dec
  | Dec_exponential_overflow dec dec

datatype op_error = Arithmetic arith_error | Decimals decimal_error | Too_large too_large

text \<open>\<open>throw_on_size\<close> before a value is handed out.\<close>

definition throw_sizes :: "engine \<Rightarrow> sizes \<Rightarrow> op_error + unit" where
  "throw_sizes e sizes = map_err Too_large (throw_on_size (e_features e) (e_limits e) sizes)"

definition sized :: "engine \<Rightarrow> sizes \<Rightarrow> 'a \<Rightarrow> op_error + 'a" where
  "sized e sizes v = rbind (throw_sizes e sizes) (\<lambda>_. Ok v)"

section \<open>Decimals\<close>

text \<open>The module \<open>decimal_functions::builtin\<close> of \<open>src/packages/arithmetic.rs\<close>.\<close>

definition decimal_add :: "decimal_ops \<Rightarrow> dec \<Rightarrow> dec \<Rightarrow> decimal_error + dec" where
  "decimal_add d x y = ok_or (Dec_addition_overflow x y) (d_checked_add d x y)"

definition decimal_subtract :: "decimal_ops \<Rightarrow> dec \<Rightarrow> dec \<Rightarrow> decimal_error + dec" where
  "decimal_subtract d x y = ok_or (Dec_subtraction_overflow x y) (d_checked_sub d x y)"

definition decimal_multiply :: "decimal_ops \<Rightarrow> dec \<Rightarrow> dec \<Rightarrow> decimal_error + dec" where
  "decimal_multiply d x y = ok_or (Dec_multiplication_overflow x y) (d_checked_mul d x y)"

definition decimal_divide :: "decimal_ops \<Rightarrow> dec \<Rightarrow> dec \<Rightarrow> decimal_error + dec" where
  "decimal_divide d x y =
     (if d_eq d y (d_zero d) then Err (Dec_division_by_zero x y)
      else ok_or (Dec_division_overflow x y) (d_checked_div d x y))"

definition decimal_modulo :: "decimal_ops \<Rightarrow> dec \<Rightarrow> dec \<Rightarrow> decimal_error + dec" where
  "decimal_modulo d x y = ok_or (Dec_modulo_zero_or_overflow x y) (d_checked_rem d x y)"

definition decimal_power :: "decimal_ops \<Rightarrow> dec \<Rightarrow> dec \<Rightarrow> decimal_error + dec" where
  "decimal_power d x y =
     (if (case d_round_u32 d y of None \<Rightarrow> True | Some v \<Rightarrow> v > 1000000)
      then Err (Dec_exponential_overflow x y)
      else ok_or (Dec_exponential_overflow x y) (d_checked_powd d x y))"

section \<open>Binary operators\<close>

text \<open>The comparisons of an ordered type, from its equality and its order.\<close>

definition comparison :: "token \<Rightarrow> bool \<Rightarrow> bool \<Rightarrow> bool option" where
  "comparison op eq lt = (case op of
       Opr TEqualsTo \<Rightarrow> Some eq
     | Opr TNotEqualsTo \<Rightarrow> Some (\<not> eq)
     | Opr TGreaterThan \<Rightarrow> Some (\<not> eq \<and> \<not> lt)
     | Opr TGreaterThanEqualsTo \<Rightarrow> Some (\<not> lt)
     | Opr TLessThan \<Rightarrow> Some lt
     | Opr TLessThanEqualsTo \<Rightarrow> Some (eq \<or> lt)
     | _ \<Rightarrow> None)"

definition answer :: "bool option \<Rightarrow> (op_error + dynamic) option" where
  "answer b = map_option (\<lambda>b. Ok (DBool b)) b"

definition int_result :: "arith_error + int \<Rightarrow> (op_error + dynamic) option" where
  "int_result r = Some (rbind (map_err Arithmetic r) (\<lambda>v. Ok (DInt v)))"

text \<open>The arm of two integers: what it computes, then what it compares.\<close>

definition int_arm :: "engine \<Rightarrow> token \<Rightarrow> int \<Rightarrow> int \<Rightarrow> (op_error + dynamic) option" where
  "int_arm e op x y = (case op of
       Opr TPlus \<Rightarrow> int_result (add_fn (e_int e) x y)
     | Opr TMinus \<Rightarrow> int_result (subtract_fn (e_int e) x y)
     | Opr TMultiply \<Rightarrow> int_result (multiply_fn (e_int e) x y)
     | Opr TDivide \<Rightarrow> int_result (divide_fn (e_int e) x y)
     | Opr TModulo \<Rightarrow> int_result (modulo_fn (e_int e) x y)
     | Opr TPowerOf \<Rightarrow> int_result (power_fn (e_int e) (e_int e) x y)
     | Opr TRightShift \<Rightarrow> int_result (Ok (shift_right (e_int e) (e_int e) x y))
     | Opr TLeftShift \<Rightarrow> int_result (Ok (shift_left (e_int e) (e_int e) x y))
     | Opr TAmpersand \<Rightarrow> int_result (Ok (binary_and x y))
     | Opr TPipe \<Rightarrow> int_result (Ok (binary_or x y))
     | Opr TXOr \<Rightarrow> int_result (Ok (binary_xor x y))
     | Sym TExclusiveRange \<Rightarrow> Some (Ok (DRange x y))
     | Sym TInclusiveRange \<Rightarrow> Some (Ok (DRangeInclusive x y))
     | _ \<Rightarrow> answer (comparison op (x = y) (x < y)))"

definition bool_arm :: "token \<Rightarrow> bool \<Rightarrow> bool \<Rightarrow> (op_error + dynamic) option" where
  "bool_arm op x y = answer (case op of
       Opr TAmpersand \<Rightarrow> Some (x \<and> y)
     | Opr TPipe \<Rightarrow> Some (x \<or> y)
     | Opr TXOr \<Rightarrow> Some (x \<noteq> y)
     | _ \<Rightarrow> comparison op (x = y) (\<not> x \<and> y))"

definition string_arm :: "engine \<Rightarrow> token \<Rightarrow> u8 list \<Rightarrow> u8 list \<Rightarrow> (op_error + dynamic) option" where
  "string_arm e op s t = (case op of
       Opr TPlus \<Rightarrow> Some (sized e (0, 0, length s + length t) (DString (add_string s t)))
     | Opr TMinus \<Rightarrow> Some (Ok (DString (sub_string s t)))
     | _ \<Rightarrow> answer (comparison op (s = t) (less_bytes s t)))"

definition char_arm :: "engine \<Rightarrow> token \<Rightarrow> u32 \<Rightarrow> u32 \<Rightarrow> (op_error + dynamic) option" where
  "char_arm e op x y = (case op of
       Opr TPlus \<Rightarrow> (let result = encode_utf8 x @ encode_utf8 y in
         Some (sized e (0, 0, length result) (DString result)))
     | _ \<Rightarrow> answer (comparison op (x = y) (x < y)))"

definition blob_arm :: "engine \<Rightarrow> token \<Rightarrow> u8 list \<Rightarrow> u8 list \<Rightarrow> (op_error + dynamic) option" where
  "blob_arm e op b1 b2 = (case op of
       Opr TPlus \<Rightarrow> Some (
         if b2 = [] then Ok (DBlob b1) else if b1 = [] then Ok (DBlob b2)
         else sized e (length b1 + length b2, 0, 0) (DBlob (b1 @ b2)))
     | Opr TEqualsTo \<Rightarrow> answer (Some (b1 = b2))
     | Opr TNotEqualsTo \<Rightarrow> answer (Some (b1 \<noteq> b2))
     | _ \<Rightarrow> None)"

definition unit_arm :: "token \<Rightarrow> (op_error + dynamic) option" where
  "unit_arm op = answer (case op of
       Opr TEqualsTo \<Rightarrow> Some True
     | Opr TNotEqualsTo \<Rightarrow> Some False
     | Opr TGreaterThan \<Rightarrow> Some False
     | Opr TGreaterThanEqualsTo \<Rightarrow> Some False
     | Opr TLessThan \<Rightarrow> Some False
     | Opr TLessThanEqualsTo \<Rightarrow> Some False
     | _ \<Rightarrow> None)"

text \<open>\<open>impl_float\<close>: the comparisons are relative to the larger operand, within epsilon.\<close>

definition float_scale :: "float_ops \<Rightarrow> flt \<Rightarrow> flt \<Rightarrow> flt" where
  "float_scale fl x y =
     (if fl_eq fl (fl_mul fl x y) (fl_zero fl) then fl_one fl else fl_max fl (fl_abs fl x) (fl_abs fl y))"

definition float_compare :: "float_ops \<Rightarrow> token \<Rightarrow> flt \<Rightarrow> flt \<Rightarrow> bool option" where
  "float_compare fl op x y =
     (let max = float_scale fl x y; none = fl_eq fl max (fl_zero fl);
          distance = fl_div fl (fl_abs fl (fl_sub fl x y)) max;
          above = fl_div fl (fl_sub fl x y) max; below = fl_div fl (fl_sub fl y x) max;
          eps = fl_epsilon fl
      in case op of
        Opr TEqualsTo \<Rightarrow> Some (none \<or> fl_le fl distance eps)
      | Opr TNotEqualsTo \<Rightarrow> Some (\<not> none \<and> fl_gt fl distance eps)
      | Opr TGreaterThan \<Rightarrow> Some (\<not> none \<and> fl_gt fl above eps)
      | Opr TGreaterThanEqualsTo \<Rightarrow> Some (none \<or> fl_gt fl above (fl_neg fl eps))
      | Opr TLessThan \<Rightarrow> Some (\<not> none \<and> fl_gt fl below eps)
      | Opr TLessThanEqualsTo \<Rightarrow> Some (none \<or> fl_gt fl below (fl_neg fl eps))
      | _ \<Rightarrow> None)"

definition float_arm :: "engine \<Rightarrow> token \<Rightarrow> flt \<Rightarrow> flt \<Rightarrow> (op_error + dynamic) option" where
  "float_arm e op x y = (let fl = e_float e in case op of
       Opr TPlus \<Rightarrow> Some (Ok (DFloat (fl_add fl x y)))
     | Opr TMinus \<Rightarrow> Some (Ok (DFloat (fl_sub fl x y)))
     | Opr TMultiply \<Rightarrow> Some (Ok (DFloat (fl_mul fl x y)))
     | Opr TDivide \<Rightarrow> Some (Ok (DFloat (fl_div fl x y)))
     | Opr TModulo \<Rightarrow> Some (Ok (DFloat (fl_rem fl x y)))
     | Opr TPowerOf \<Rightarrow> Some (Ok (DFloat (fl_powf fl x y)))
     | _ \<Rightarrow> answer (float_compare fl op x y))"

definition decimal_result :: "decimal_error + dec \<Rightarrow> op_error + dynamic" where
  "decimal_result r = rbind (map_err Decimals r) (\<lambda>(m, s). Ok (DDecimal m s))"

definition decimal_arm :: "engine \<Rightarrow> token \<Rightarrow> dec \<Rightarrow> dec \<Rightarrow> (op_error + dynamic) option" where
  "decimal_arm e op x y = (let d = e_decimal e in case op of
       Opr TPlus \<Rightarrow> Some (decimal_result (decimal_add d x y))
     | Opr TMinus \<Rightarrow> Some (decimal_result (decimal_subtract d x y))
     | Opr TMultiply \<Rightarrow> Some (decimal_result (decimal_multiply d x y))
     | Opr TDivide \<Rightarrow> Some (decimal_result (decimal_divide d x y))
     | Opr TModulo \<Rightarrow> Some (decimal_result (decimal_modulo d x y))
     | Opr TPowerOf \<Rightarrow> Some (decimal_result (decimal_power d x y))
     | _ \<Rightarrow> answer (comparison op (d_eq d x y) (d_less d x y)))"

text \<open>
  \<open>char op string\<close> and \<open>string op char\<close>: the sides are compared by their first two characters, a
  missing one below every other.
\<close>

definition first_two :: "u8 list \<Rightarrow> u32 option list" where
  "first_two s = [get_at (chars s) 0, get_at (chars s) 1]"

definition char_string_arm :: "engine \<Rightarrow> token \<Rightarrow> u32 \<Rightarrow> u8 list \<Rightarrow> (op_error + dynamic) option" where
  "char_string_arm e op x y = (case op of
       Opr TPlus \<Rightarrow> (let result = encode_utf8 x @ y in
         Some (sized e (0, 0, length result) (DString result)))
     | _ \<Rightarrow> (let s1 = [Some x, None]; s2 = first_two y in
         answer (comparison op (s1 = s2) (less_bytes s1 s2))))"

definition string_char_arm :: "engine \<Rightarrow> token \<Rightarrow> u8 list \<Rightarrow> u32 \<Rightarrow> (op_error + dynamic) option" where
  "string_char_arm e op x y = (case op of
       Opr TPlus \<Rightarrow> (let result = add_char x y in
         Some (sized e (0, 0, length result) (DString result)))
     | Opr TMinus \<Rightarrow> Some (Ok (DString (sub_char x y)))
     | _ \<Rightarrow> (let s1 = first_two x; s2 = [Some y, None] in
         answer (comparison op (s1 = s2) (less_bytes s1 s2))))"

text \<open>\<open>() op string\<close> and \<open>string op ()\<close>.\<close>

definition unit_string_arm :: "token \<Rightarrow> u8 list \<Rightarrow> (op_error + dynamic) option" where
  "unit_string_arm op s = (case op of
       Opr TPlus \<Rightarrow> Some (Ok (DString s))
     | Opr TEqualsTo \<Rightarrow> answer (Some False)
     | Opr TGreaterThan \<Rightarrow> answer (Some False)
     | Opr TGreaterThanEqualsTo \<Rightarrow> answer (Some False)
     | Opr TLessThan \<Rightarrow> answer (Some False)
     | Opr TLessThanEqualsTo \<Rightarrow> answer (Some False)
     | Opr TNotEqualsTo \<Rightarrow> answer (Some True)
     | _ \<Rightarrow> None)"

definition blob_char_arm :: "engine \<Rightarrow> token \<Rightarrow> u8 list \<Rightarrow> u32 \<Rightarrow> (op_error + dynamic) option" where
  "blob_char_arm e op b c = (case op of
       Opr TPlus \<Rightarrow>
         Some (sized e (length b + length (encode_utf8 c), 0, 0) (DBlob (b @ encode_utf8 c)))
     | _ \<Rightarrow> None)"

text \<open>
  \<open>Dynamic::type_id\<close>, and which types \<open>is_numeric\<close> lists: those of the engine and, in a build that
  admits them, the other Rust integers and floats.
\<close>

datatype vtype =
    UnitT | BoolT | IntT | FloatT | DecimalT | CharT | StringT | ArrayT | MapT | BlobT | RangeT
  | RangeInclusiveT | OtherT string

fun type_id :: "dynamic \<Rightarrow> vtype" where
  "type_id DUnit = UnitT" | "type_id (DBool _) = BoolT" | "type_id (DInt _) = IntT"
| "type_id (DFloat _) = FloatT" | "type_id (DDecimal _ _) = DecimalT" | "type_id (DChar _) = CharT"
| "type_id (DString _) = StringT" | "type_id (DArray _) = ArrayT" | "type_id (DMap _) = MapT"
| "type_id (DBlob _) = BlobT" | "type_id (DRange _ _) = RangeT"
| "type_id (DRangeInclusive _ _) = RangeInclusiveT" | "type_id (DOther n) = OtherT n"

definition is_numeric :: "engine \<Rightarrow> vtype \<Rightarrow> bool" where
  "is_numeric e t = (case t of
       IntT \<Rightarrow> True
     | FloatT \<Rightarrow> \<not> no_float (e_features e)
     | DecimalT \<Rightarrow> decimal (e_features e)
     | OtherT n \<Rightarrow>
         \<not> no_float (e_features e) \<and> n \<in> {''f32'', ''f64''} \<or>
         \<not> e_only_int e \<and> n \<in> {''u8'', ''u16'', ''u32'', ''u64'', ''i8'', ''i16'', ''i32'', ''i64''} \<or>
         \<not> e_only_int e \<and> \<not> e_wasm e \<and> n \<in> {''u128'', ''i128''}
     | _ \<Rightarrow> False)"

text \<open>
  The built-ins that go by type: ranges of one kind, of two kinds (where the arm meant for \<open>==\<close>
  names the token \<open>=\<close>), and every other pair of different types.
\<close>

definition by_type :: "engine \<Rightarrow> token \<Rightarrow> dynamic \<Rightarrow> dynamic \<Rightarrow> (op_error + dynamic) option" where
  "by_type e op x y =
     (let t1 = type_id x; t2 = type_id y in
      if t1 = RangeT \<and> t2 = RangeT \<or> t1 = RangeInclusiveT \<and> t2 = RangeInclusiveT then
        (case op of
           Opr TEqualsTo \<Rightarrow> answer (Some (x = y))
         | Opr TNotEqualsTo \<Rightarrow> answer (Some (x \<noteq> y))
         | _ \<Rightarrow> None)
      else if t1 = RangeT \<and> t2 = RangeInclusiveT \<or> t1 = RangeInclusiveT \<and> t2 = RangeT then
        (case op of
           Opr TNotEqualsTo \<Rightarrow> answer (Some True)
         | Sym TEquals \<Rightarrow> answer (Some False)
         | _ \<Rightarrow> None)
      else if t1 \<noteq> t2 \<and> (\<not> is_numeric e t1 \<or> \<not> is_numeric e t2) then
        (case op of
           Opr TNotEqualsTo \<Rightarrow> answer (Some True)
         | Opr TEqualsTo \<Rightarrow> answer (Some False)
         | Opr TGreaterThan \<Rightarrow> answer (Some False)
         | Opr TGreaterThanEqualsTo \<Rightarrow> answer (Some False)
         | Opr TLessThan \<Rightarrow> answer (Some False)
         | Opr TLessThanEqualsTo \<Rightarrow> answer (Some False)
         | _ \<Rightarrow> None)
      else None)"

text \<open>
  \<open>get_builtin_binary_op_fn\<close>, called on the operands it was looked up for: \<open>None\<close> where there is no
  built-in.
\<close>

definition builtin_binary :: "engine \<Rightarrow> token \<Rightarrow> dynamic \<Rightarrow> dynamic \<Rightarrow> (op_error + dynamic) option" where
  "builtin_binary e op x y = (case x of
       DInt a \<Rightarrow> (case y of
           DInt b \<Rightarrow> int_arm e op a b
         | DFloat g \<Rightarrow> float_arm e op (fl_of_int (e_float e) a) g
         | DDecimal m s \<Rightarrow> decimal_arm e op (d_of_int (e_decimal e) a) (m, s)
         | DUnit \<Rightarrow> (case op of
               Sym TExclusiveRange \<Rightarrow> Some (Ok (DRange a (type_max (e_int e))))
             | Sym TInclusiveRange \<Rightarrow> Some (Ok (DRangeInclusive a (type_max (e_int e))))
             | _ \<Rightarrow> by_type e op x y)
         | _ \<Rightarrow> by_type e op x y)
     | DBool a \<Rightarrow> (case y of DBool b \<Rightarrow> bool_arm op a b | _ \<Rightarrow> by_type e op x y)
     | DString s \<Rightarrow> (case y of
           DString t \<Rightarrow> string_arm e op s t
         | DChar c \<Rightarrow> string_char_arm e op s c
         | DUnit \<Rightarrow> unit_string_arm op s
         | _ \<Rightarrow> by_type e op x y)
     | DChar c \<Rightarrow> (case y of
           DChar d \<Rightarrow> char_arm e op c d
         | DString t \<Rightarrow> char_string_arm e op c t
         | _ \<Rightarrow> by_type e op x y)
     | DBlob b \<Rightarrow> (case y of
           DBlob b' \<Rightarrow> blob_arm e op b b'
         | DChar c \<Rightarrow> blob_char_arm e op b c
         | _ \<Rightarrow> by_type e op x y)
     | DUnit \<Rightarrow> (case y of
           DUnit \<Rightarrow> unit_arm op
         | DInt b \<Rightarrow> (case op of
               Sym TExclusiveRange \<Rightarrow> Some (Ok (DRange 0 b))
             | Sym TInclusiveRange \<Rightarrow> Some (Ok (DRangeInclusive 0 b))
             | _ \<Rightarrow> by_type e op x y)
         | DString t \<Rightarrow> unit_string_arm op t
         | _ \<Rightarrow> by_type e op x y)
     | DFloat g \<Rightarrow> (case y of
           DFloat h \<Rightarrow> float_arm e op g h
         | DInt b \<Rightarrow> float_arm e op g (fl_of_int (e_float e) b)
         | _ \<Rightarrow> by_type e op x y)
     | DDecimal m s \<Rightarrow> (case y of
           DDecimal n r \<Rightarrow> decimal_arm e op (m, s) (n, r)
         | DInt b \<Rightarrow> decimal_arm e op (m, s) (d_of_int (e_decimal e) b)
         | _ \<Rightarrow> by_type e op x y)
     | _ \<Rightarrow> by_type e op x y)"

section \<open>Op-assignments\<close>

text \<open>
  What a variable holds: the value, the tag a host may have put on it and whether it may be
  written. A built-in that replaces the whole \<open>Dynamic\<close> starts from a fresh one.
\<close>

record cell =
  held :: dynamic
  tag :: u32
  read_only :: bool

definition fresh_cell :: "dynamic \<Rightarrow> cell" where
  "fresh_cell v = \<lparr>held = v, tag = 0, read_only = False\<rparr>"

text \<open>An op-assignment leaves the cell and possibly an error.\<close>

type_synonym assigned = "op_error option \<times> cell"

definition store_result :: "cell \<Rightarrow> op_error + dynamic \<Rightarrow> assigned" where
  "store_result c r = (case r of Inl err \<Rightarrow> (Some err, c) | Inr v \<Rightarrow> (None, c\<lparr>held := v\<rparr>))"

definition replace_result :: "cell \<Rightarrow> op_error + dynamic \<Rightarrow> assigned" where
  "replace_result c r = (case r of Inl err \<Rightarrow> (Some err, c) | Inr v \<Rightarrow> (None, fresh_cell v))"

definition int_value :: "arith_error + int \<Rightarrow> op_error + dynamic" where
  "int_value r = rbind (map_err Arithmetic r) (\<lambda>v. Ok (DInt v))"

definition int_assign_arm :: "engine \<Rightarrow> token \<Rightarrow> cell \<Rightarrow> int \<Rightarrow> int \<Rightarrow> assigned option" where
  "int_assign_arm e op c x y = (case op of
       Asg TPlusAssign \<Rightarrow> Some (store_result c (int_value (add_fn (e_int e) x y)))
     | Asg TMinusAssign \<Rightarrow> Some (store_result c (int_value (subtract_fn (e_int e) x y)))
     | Asg TMultiplyAssign \<Rightarrow> Some (store_result c (int_value (multiply_fn (e_int e) x y)))
     | Asg TDivideAssign \<Rightarrow> Some (store_result c (int_value (divide_fn (e_int e) x y)))
     | Asg TModuloAssign \<Rightarrow> Some (store_result c (int_value (modulo_fn (e_int e) x y)))
     | Asg TPowerOfAssign \<Rightarrow> Some (store_result c (int_value (power_fn (e_int e) (e_int e) x y)))
     | Asg TRightShiftAssign \<Rightarrow> Some (replace_result c (Ok (DInt (shift_right (e_int e) (e_int e) x y))))
     | Asg TLeftShiftAssign \<Rightarrow> Some (replace_result c (Ok (DInt (shift_left (e_int e) (e_int e) x y))))
     | Asg TAndAssign \<Rightarrow> Some (replace_result c (Ok (DInt (binary_and x y))))
     | Asg TOrAssign \<Rightarrow> Some (replace_result c (Ok (DInt (binary_or x y))))
     | Asg TXOrAssign \<Rightarrow> Some (replace_result c (Ok (DInt (binary_xor x y))))
     | _ \<Rightarrow> None)"

definition bool_assign_arm :: "token \<Rightarrow> cell \<Rightarrow> bool \<Rightarrow> bool \<Rightarrow> assigned option" where
  "bool_assign_arm op c x y = (case op of
       Asg TAndAssign \<Rightarrow> Some (store_result c (Ok (DBool (x \<and> y))))
     | Asg TOrAssign \<Rightarrow> Some (store_result c (Ok (DBool (x \<or> y))))
     | Asg TXOrAssign \<Rightarrow> Some (store_result c (Ok (DBool (x \<noteq> y))))
     | _ \<Rightarrow> None)"

definition string_assign_arm :: "engine \<Rightarrow> token \<Rightarrow> cell \<Rightarrow> u8 list \<Rightarrow> u8 list \<Rightarrow> assigned option" where
  "string_assign_arm e op c s t = (case op of
       Asg TPlusAssign \<Rightarrow> Some (store_result c (
         rbind (if s \<noteq> [] \<and> t \<noteq> [] then throw_sizes e (0, 0, length s + length t) else Ok ())
           (\<lambda>_. Ok (DString (add_string s t)))))
     | Asg TMinusAssign \<Rightarrow> Some (store_result c (Ok (DString (sub_string s t))))
     | _ \<Rightarrow> None)"

definition string_char_assign_arm :: "engine \<Rightarrow> token \<Rightarrow> cell \<Rightarrow> u8 list \<Rightarrow> u32 \<Rightarrow> assigned option" where
  "string_char_assign_arm e op c s x = (case op of
       Asg TPlusAssign \<Rightarrow> (let ch = encode_utf8 x in
         Some (store_result c (sized e (0, 0, length s + length ch) (DString (add_str s ch)))))
     | Asg TMinusAssign \<Rightarrow> Some (store_result c (Ok (DString (sub_char s x))))
     | _ \<Rightarrow> None)"

text \<open>\<open>array += array\<close> measures the array before it grows, \<open>array += any\<close> after it has grown.\<close>

definition array_assign :: "engine \<Rightarrow> cell \<Rightarrow> dynamic list \<Rightarrow> dynamic list \<Rightarrow> assigned" where
  "array_assign e c a b =
     (if b = [] then (None, c)
      else store_result c (
        rbind (if a \<noteq> [] then throw_sizes e (calc_data_sizes (DArray a)) else Ok ())
          (\<lambda>_. Ok (DArray (a @ b)))))"

definition push_assign :: "engine \<Rightarrow> cell \<Rightarrow> dynamic list \<Rightarrow> dynamic \<Rightarrow> assigned" where
  "push_assign e c a v =
     (let c' = c\<lparr>held := DArray (a @ [v])\<rparr> in
      case throw_sizes e (calc_data_sizes (held c')) of Inl err \<Rightarrow> (Some err, c') | Inr _ \<Rightarrow> (None, c'))"

definition float_assign_arm :: "engine \<Rightarrow> token \<Rightarrow> cell \<Rightarrow> flt \<Rightarrow> flt \<Rightarrow> assigned option" where
  "float_assign_arm e op c x y = (let fl = e_float e in
     map_option (\<lambda>v. store_result c (Ok (DFloat v))) (case op of
       Asg TPlusAssign \<Rightarrow> Some (fl_add fl x y)
     | Asg TMinusAssign \<Rightarrow> Some (fl_sub fl x y)
     | Asg TMultiplyAssign \<Rightarrow> Some (fl_mul fl x y)
     | Asg TDivideAssign \<Rightarrow> Some (fl_div fl x y)
     | Asg TModuloAssign \<Rightarrow> Some (fl_rem fl x y)
     | Asg TPowerOfAssign \<Rightarrow> Some (fl_powf fl x y)
     | _ \<Rightarrow> None))"

definition decimal_assign_arm :: "engine \<Rightarrow> token \<Rightarrow> cell \<Rightarrow> dec \<Rightarrow> dec \<Rightarrow> assigned option" where
  "decimal_assign_arm e op c x y = (let d = e_decimal e in
     map_option (\<lambda>r. store_result c (decimal_result r)) (case op of
       Asg TPlusAssign \<Rightarrow> Some (decimal_add d x y)
     | Asg TMinusAssign \<Rightarrow> Some (decimal_subtract d x y)
     | Asg TMultiplyAssign \<Rightarrow> Some (decimal_multiply d x y)
     | Asg TDivideAssign \<Rightarrow> Some (decimal_divide d x y)
     | Asg TModuloAssign \<Rightarrow> Some (decimal_modulo d x y)
     | Asg TPowerOfAssign \<Rightarrow> Some (decimal_power d x y)
     | _ \<Rightarrow> None))"

text \<open>The BLOB forms of \<open>+=\<close>; \<open>blob += char\<close> measures one byte and appends up to four.\<close>

definition blob_assign :: "engine \<Rightarrow> cell \<Rightarrow> u8 list \<Rightarrow> dynamic \<Rightarrow> assigned option" where
  "blob_assign e c b y = (case y of
       DBlob b' \<Rightarrow> Some (store_result c (sized e (length b + length b', 0, 0) (DBlob (b @ b'))))
     | DInt n \<Rightarrow> Some (store_result c (sized e (length b + 1, 0, 0) (DBlob (b @ [of_int n]))))
     | DChar x \<Rightarrow> Some (store_result c (sized e (length b + 1, 0, 0) (DBlob (b @ encode_utf8 x))))
     | DString s \<Rightarrow> Some (
         if s = [] then (None, c)
         else store_result c (sized e (length b + length s, 0, 0) (DBlob (b @ s))))
     | _ \<Rightarrow> None)"

definition char_assign :: "engine \<Rightarrow> cell \<Rightarrow> u32 \<Rightarrow> dynamic \<Rightarrow> assigned option" where
  "char_assign e c x y = (case y of
       DChar z \<Rightarrow> Some (replace_result c (Ok (DString (encode_utf8 x @ encode_utf8 z))))
     | DString s \<Rightarrow> Some (
         if s = [] then (None, c)
         else replace_result c (
           sized e (0, 0, length (encode_utf8 x) + length s) (DString (encode_utf8 x @ s))))
     | _ \<Rightarrow> None)"

text \<open>\<open>get_builtin_op_assignment_fn\<close>, called on the operands it was looked up for.\<close>

definition builtin_assign :: "engine \<Rightarrow> token \<Rightarrow> cell \<Rightarrow> dynamic \<Rightarrow> assigned option" where
  "builtin_assign e op c y = (case held c of
       DInt a \<Rightarrow> (case y of DInt b \<Rightarrow> int_assign_arm e op c a b | _ \<Rightarrow> None)
     | DBool a \<Rightarrow> (case y of DBool b \<Rightarrow> bool_assign_arm op c a b | _ \<Rightarrow> None)
     | DChar x \<Rightarrow> if op = Asg TPlusAssign then char_assign e c x y else None
     | DString s \<Rightarrow> (case y of
           DString t \<Rightarrow> string_assign_arm e op c s t
         | DChar x \<Rightarrow> string_char_assign_arm e op c s x
         | _ \<Rightarrow> None)
     | DArray a \<Rightarrow> if op = Asg TPlusAssign then
           Some (case y of DArray b \<Rightarrow> array_assign e c a b | _ \<Rightarrow> push_assign e c a y)
         else None
     | DBlob b \<Rightarrow> if op = Asg TPlusAssign then blob_assign e c b y else None
     | DFloat g \<Rightarrow> (case y of
           DFloat h \<Rightarrow> float_assign_arm e op c g h
         | DInt b \<Rightarrow> float_assign_arm e op c g (fl_of_int (e_float e) b)
         | _ \<Rightarrow> None)
     | DDecimal m s \<Rightarrow> (case y of
           DDecimal n r \<Rightarrow> decimal_assign_arm e op c (m, s) (n, r)
         | DInt b \<Rightarrow> decimal_assign_arm e op c (m, s) (d_of_int (e_decimal e) b)
         | _ \<Rightarrow> None)
     | _ \<Rightarrow> None)"

text \<open>
  What the tree walker does itself under fast operators: the op-assignments it applies before it asks
  the table (\<open>eval_op_assignment\<close>), the built-ins it calls for two operands that are no host type
  (\<open>is_variant\<close>, which ranges are) and \<open>!\<close> on a boolean (\<open>eval_fn_call_expr\<close>). \<open>None\<close> resolves a
  function.
\<close>

definition walker_short_assign :: "engine \<Rightarrow> token \<Rightarrow> cell \<Rightarrow> dynamic \<Rightarrow> assigned option" where
  "walker_short_assign e op c y = (case (held c, y) of
       (DBool b1, DBool b2) \<Rightarrow> (case op of
           Asg TAndAssign \<Rightarrow> Some (None, c\<lparr>held := DBool (b1 \<and> b2)\<rparr>)
         | Asg TOrAssign \<Rightarrow> Some (None, c\<lparr>held := DBool (b1 \<or> b2)\<rparr>)
         | Asg TXOrAssign \<Rightarrow> Some (None, c\<lparr>held := DBool (b1 \<noteq> b2)\<rparr>)
         | _ \<Rightarrow> None)
     | (DInt n1, DInt n2) \<Rightarrow> (case op of
           Asg TPlusAssign \<Rightarrow> Some (store_result c (int_value (add_fn (e_int e) n1 n2)))
         | Asg TMinusAssign \<Rightarrow> Some (store_result c (int_value (subtract_fn (e_int e) n1 n2)))
         | Asg TMultiplyAssign \<Rightarrow> Some (store_result c (int_value (multiply_fn (e_int e) n1 n2)))
         | Asg TDivideAssign \<Rightarrow> Some (store_result c (int_value (divide_fn (e_int e) n1 n2)))
         | Asg TModuloAssign \<Rightarrow> Some (store_result c (int_value (modulo_fn (e_int e) n1 n2)))
         | _ \<Rightarrow> None)
     | (DFloat f1, DFloat f2) \<Rightarrow> (let fl = e_float e in case op of
           Asg TPlusAssign \<Rightarrow> Some (None, c\<lparr>held := DFloat (fl_add fl f1 f2)\<rparr>)
         | Asg TMinusAssign \<Rightarrow> Some (None, c\<lparr>held := DFloat (fl_sub fl f1 f2)\<rparr>)
         | Asg TMultiplyAssign \<Rightarrow> Some (None, c\<lparr>held := DFloat (fl_mul fl f1 f2)\<rparr>)
         | Asg TDivideAssign \<Rightarrow> Some (None, c\<lparr>held := DFloat (fl_div fl f1 f2)\<rparr>)
         | Asg TModuloAssign \<Rightarrow> Some (None, c\<lparr>held := DFloat (fl_rem fl f1 f2)\<rparr>)
         | _ \<Rightarrow> None)
     | (DFloat f1, DInt n2) \<Rightarrow> (let fl = e_float e; f2 = fl_of_int fl n2 in case op of
           Asg TPlusAssign \<Rightarrow> Some (None, c\<lparr>held := DFloat (fl_add fl f1 f2)\<rparr>)
         | Asg TMinusAssign \<Rightarrow> Some (None, c\<lparr>held := DFloat (fl_sub fl f1 f2)\<rparr>)
         | Asg TMultiplyAssign \<Rightarrow> Some (None, c\<lparr>held := DFloat (fl_mul fl f1 f2)\<rparr>)
         | Asg TDivideAssign \<Rightarrow> Some (None, c\<lparr>held := DFloat (fl_div fl f1 f2)\<rparr>)
         | Asg TModuloAssign \<Rightarrow> Some (None, c\<lparr>held := DFloat (fl_rem fl f1 f2)\<rparr>)
         | _ \<Rightarrow> None)
     | _ \<Rightarrow> None)"

definition walker_assign :: "engine \<Rightarrow> token \<Rightarrow> cell \<Rightarrow> dynamic \<Rightarrow> assigned option" where
  "walker_assign e op c y = (case walker_short_assign e op c y of
       Some r \<Rightarrow> Some r | None \<Rightarrow> builtin_assign e op c y)"

definition is_variant :: "dynamic \<Rightarrow> bool" where
  "is_variant v = (case v of DRange _ _ \<Rightarrow> True | DRangeInclusive _ _ \<Rightarrow> True | DOther _ \<Rightarrow> True | _ \<Rightarrow> False)"

definition walker_binary :: "engine \<Rightarrow> token \<Rightarrow> dynamic \<Rightarrow> dynamic \<Rightarrow> (op_error + dynamic) option" where
  "walker_binary e op x y = (if is_variant x \<or> is_variant y then None else builtin_binary e op x y)"

definition walker_not :: "token \<Rightarrow> dynamic \<Rightarrow> dynamic option" where
  "walker_not op x = (case x of DBool b \<Rightarrow> if op = Opr TBang then Some (DBool (\<not> b)) else None | _ \<Rightarrow> None)"

section \<open>The operators of the dispatch loop\<close>

datatype fast_value = Fast_Int int | Fast_Bool bool | Fast_Float flt | Fast_Unit

definition from_cell :: "dynamic \<Rightarrow> fast_value option" where
  "from_cell v = (case v of
       DInt n \<Rightarrow> Some (Fast_Int n)
     | DBool b \<Rightarrow> Some (Fast_Bool b)
     | DFloat g \<Rightarrow> Some (Fast_Float g)
     | DUnit \<Rightarrow> Some Fast_Unit
     | _ \<Rightarrow> None)"

definition into_dynamic :: "fast_value \<Rightarrow> dynamic" where
  "into_dynamic v = (case v of
       Fast_Int n \<Rightarrow> DInt n | Fast_Bool b \<Rightarrow> DBool b | Fast_Float g \<Rightarrow> DFloat g | Fast_Unit \<Rightarrow> DUnit)"

definition int_arithmetic :: "engine \<Rightarrow> bin_op_kind \<Rightarrow> int \<Rightarrow> int \<Rightarrow> op_error + int option" where
  "int_arithmetic e kind x y = (case kind of
       Add \<Rightarrow> rbind (map_err Arithmetic (add_fn (e_int e) x y)) (\<lambda>v. Ok (Some v))
     | Subtract \<Rightarrow> rbind (map_err Arithmetic (subtract_fn (e_int e) x y)) (\<lambda>v. Ok (Some v))
     | Multiply \<Rightarrow> rbind (map_err Arithmetic (multiply_fn (e_int e) x y)) (\<lambda>v. Ok (Some v))
     | Divide \<Rightarrow> rbind (map_err Arithmetic (divide_fn (e_int e) x y)) (\<lambda>v. Ok (Some v))
     | Modulo \<Rightarrow> rbind (map_err Arithmetic (modulo_fn (e_int e) x y)) (\<lambda>v. Ok (Some v))
     | Power \<Rightarrow> rbind (map_err Arithmetic (power_fn (e_int e) (e_int e) x y)) (\<lambda>v. Ok (Some v))
     | ShiftRight \<Rightarrow> Ok (Some (shift_right (e_int e) (e_int e) x y))
     | ShiftLeft \<Rightarrow> Ok (Some (shift_left (e_int e) (e_int e) x y))
     | And \<Rightarrow> Ok (Some (binary_and x y))
     | Or \<Rightarrow> Ok (Some (binary_or x y))
     | Xor \<Rightarrow> Ok (Some (binary_xor x y))
     | _ \<Rightarrow> Ok None)"

definition int_comparison :: "bin_op_kind \<Rightarrow> int \<Rightarrow> int \<Rightarrow> bool option" where
  "int_comparison kind x y = (case kind of
       Equals \<Rightarrow> Some (x = y)
     | NotEquals \<Rightarrow> Some (x \<noteq> y)
     | Greater \<Rightarrow> Some (x > y)
     | GreaterEquals \<Rightarrow> Some (x \<ge> y)
     | Less \<Rightarrow> Some (x < y)
     | LessEquals \<Rightarrow> Some (x \<le> y)
     | _ \<Rightarrow> None)"

definition int_binary :: "engine \<Rightarrow> bin_op_kind \<Rightarrow> int \<Rightarrow> int \<Rightarrow> op_error + fast_value option" where
  "int_binary e kind x y = rbind (int_arithmetic e kind x y) (\<lambda>r. case r of
       Some v \<Rightarrow> Ok (Some (Fast_Int v))
     | None \<Rightarrow> Ok (map_option Fast_Bool (int_comparison kind x y)))"

definition int_assign :: "engine \<Rightarrow> bin_op_kind \<Rightarrow> int \<Rightarrow> int \<Rightarrow> op_error + int option" where
  "int_assign e kind x y = int_arithmetic e kind x y"

definition float_arithmetic :: "float_ops \<Rightarrow> bin_op_kind \<Rightarrow> flt \<Rightarrow> flt \<Rightarrow> flt option" where
  "float_arithmetic fl kind x y = (case kind of
       Add \<Rightarrow> Some (fl_add fl x y)
     | Subtract \<Rightarrow> Some (fl_sub fl x y)
     | Multiply \<Rightarrow> Some (fl_mul fl x y)
     | Divide \<Rightarrow> Some (fl_div fl x y)
     | Modulo \<Rightarrow> Some (fl_rem fl x y)
     | Power \<Rightarrow> Some (fl_powf fl x y)
     | _ \<Rightarrow> None)"

definition float_binary :: "float_ops \<Rightarrow> bin_op_kind \<Rightarrow> flt \<Rightarrow> flt \<Rightarrow> fast_value option" where
  "float_binary fl kind x y = map_option Fast_Float (float_arithmetic fl kind x y)"

definition float_assign :: "float_ops \<Rightarrow> bin_op_kind \<Rightarrow> flt \<Rightarrow> flt \<Rightarrow> flt option" where
  "float_assign fl kind x y = float_arithmetic fl kind x y"

definition as_float_operand :: "engine \<Rightarrow> dynamic \<Rightarrow> (flt \<times> bool) option" where
  "as_float_operand e v = (case v of
       DFloat g \<Rightarrow> Some (g, True)
     | DInt n \<Rightarrow> Some (fl_of_int (e_float e) n, False)
     | _ \<Rightarrow> None)"

definition apply_binary :: "engine \<Rightarrow> bin_op_kind \<Rightarrow> dynamic \<Rightarrow> dynamic \<Rightarrow> op_error + fast_value option" where
  "apply_binary e kind lhs rhs = (case (lhs, rhs) of
       (DInt x, DInt y) \<Rightarrow> int_binary e kind x y
     | _ \<Rightarrow> (case (as_float_operand e lhs, as_float_operand e rhs) of
         (Some (x, x_is_float), Some (y, y_is_float)) \<Rightarrow>
           if x_is_float \<or> y_is_float then Ok (float_binary (e_float e) kind x y) else Ok None
       | _ \<Rightarrow> Ok None))"

definition apply_unary :: "un_op_kind \<Rightarrow> dynamic \<Rightarrow> fast_value option" where
  "apply_unary kind operand = (case (kind, operand) of
       (Not_op, DBool b) \<Rightarrow> Some (Fast_Bool (\<not> b))
     | _ \<Rightarrow> None)"

text \<open>\<open>apply_assign\<close>: the cell written, \<open>None\<close> where it declines and nothing is written.\<close>

definition apply_assign :: "engine \<Rightarrow> bin_op_kind \<Rightarrow> cell \<Rightarrow> dynamic \<Rightarrow> op_error + cell option" where
  "apply_assign e kind c rhs = (case (held c, rhs) of
       (DInt x, DInt y) \<Rightarrow>
         rbind (int_assign e kind x y) (\<lambda>r. Ok (map_option (\<lambda>v. c\<lparr>held := DInt v\<rparr>) r))
     | (DFloat x, DFloat y) \<Rightarrow>
         Ok (map_option (\<lambda>v. c\<lparr>held := DFloat v\<rparr>) (float_assign (e_float e) kind x y))
     | (DFloat x, DInt y) \<Rightarrow>
         Ok (map_option (\<lambda>v. c\<lparr>held := DFloat v\<rparr>)
           (float_assign (e_float e) kind x (fl_of_int (e_float e) y)))
     | _ \<Rightarrow> Ok None)"

definition apply_fast :: "engine \<Rightarrow> bin_op_kind \<Rightarrow> fast_value \<Rightarrow> fast_value \<Rightarrow> op_error + fast_value option" where
  "apply_fast e kind lhs rhs = (case (lhs, rhs) of
       (Fast_Int x, Fast_Int y) \<Rightarrow> int_binary e kind x y
     | (Fast_Float x, Fast_Float y) \<Rightarrow> Ok (float_binary (e_float e) kind x y)
     | (Fast_Float x, Fast_Int y) \<Rightarrow> Ok (float_binary (e_float e) kind x (fl_of_int (e_float e) y))
     | (Fast_Int x, Fast_Float y) \<Rightarrow> Ok (float_binary (e_float e) kind (fl_of_int (e_float e) x) y)
     | _ \<Rightarrow> Ok None)"

definition apply_assign_fast :: "engine \<Rightarrow> bin_op_kind \<Rightarrow> cell \<Rightarrow> fast_value \<Rightarrow> op_error + cell option" where
  "apply_assign_fast e kind c rhs = (case (from_cell (held c), rhs) of
       (Some (Fast_Int x), Fast_Int y) \<Rightarrow>
         rbind (int_assign e kind x y) (\<lambda>r. Ok (map_option (\<lambda>v. c\<lparr>held := DInt v\<rparr>) r))
     | (Some (Fast_Float x), Fast_Float y) \<Rightarrow>
         Ok (map_option (\<lambda>v. c\<lparr>held := DFloat v\<rparr>) (float_assign (e_float e) kind x y))
     | (Some (Fast_Float x), Fast_Int y) \<Rightarrow>
         Ok (map_option (\<lambda>v. c\<lparr>held := DFloat v\<rparr>)
           (float_assign (e_float e) kind x (fl_of_int (e_float e) y)))
     | _ \<Rightarrow> Ok None)"

section \<open>The fast paths against the tables\<close>

definition agrees :: "op_error + fast_value option \<Rightarrow> (op_error + dynamic) option \<Rightarrow> bool" where
  "agrees r b = (case r of
       Inl err \<Rightarrow> b = Some (Err err)
     | Inr None \<Rightarrow> True
     | Inr (Some v) \<Rightarrow> b = Some (Ok (into_dynamic v)))"

text \<open>
  The tags are the one difference: the shifts and the bitwise operators of the table replace the
  cell, the fast path writes into it.
\<close>

definition replaces_cell :: "bin_op_kind \<Rightarrow> bool" where
  "replaces_cell kind \<longleftrightarrow> kind \<in> {ShiftLeft, ShiftRight, And, Or, Xor}"

definition as_builtin :: "bin_op_kind \<Rightarrow> cell \<Rightarrow> cell" where
  "as_builtin kind c = (if replaces_cell kind \<and> (\<exists>n. held c = DInt n) then fresh_cell (held c) else c)"

definition agrees_assign :: "bin_op_kind \<Rightarrow> cell \<Rightarrow> op_error + cell option \<Rightarrow> assigned option \<Rightarrow> bool" where
  "agrees_assign kind c r b = (case r of
       Inl err \<Rightarrow> b = Some (Some err, c)
     | Inr None \<Rightarrow> True
     | Inr (Some c') \<Rightarrow> b = Some (None, as_builtin kind c'))"

lemma kind_of_token:
  "kind_of op = Some k \<longleftrightarrow> (case k of
     Add \<Rightarrow> op = Opr TPlus | Subtract \<Rightarrow> op = Opr TMinus | Multiply \<Rightarrow> op = Opr TMultiply
   | Divide \<Rightarrow> op = Opr TDivide | Modulo \<Rightarrow> op = Opr TModulo | Power \<Rightarrow> op = Opr TPowerOf
   | ShiftLeft \<Rightarrow> op = Opr TLeftShift | ShiftRight \<Rightarrow> op = Opr TRightShift
   | And \<Rightarrow> op = Opr TAmpersand | Or \<Rightarrow> op = Opr TPipe | Xor \<Rightarrow> op = Opr TXOr
   | Equals \<Rightarrow> op = Opr TEqualsTo | NotEquals \<Rightarrow> op = Opr TNotEqualsTo
   | Greater \<Rightarrow> op = Opr TGreaterThan | GreaterEquals \<Rightarrow> op = Opr TGreaterThanEqualsTo
   | Less \<Rightarrow> op = Opr TLessThan | LessEquals \<Rightarrow> op = Opr TLessThanEqualsTo)"
  by (cases k) (auto simp: kind_of_def split: token.splits operator.splits)

lemma kind_of_assign_token:
  "kind_of_assign op = Some k \<longleftrightarrow> (case k of
     Add \<Rightarrow> op = Asg TPlusAssign | Subtract \<Rightarrow> op = Asg TMinusAssign
   | Multiply \<Rightarrow> op = Asg TMultiplyAssign | Divide \<Rightarrow> op = Asg TDivideAssign
   | Modulo \<Rightarrow> op = Asg TModuloAssign | Power \<Rightarrow> op = Asg TPowerOfAssign
   | ShiftLeft \<Rightarrow> op = Asg TLeftShiftAssign | ShiftRight \<Rightarrow> op = Asg TRightShiftAssign
   | And \<Rightarrow> op = Asg TAndAssign | Or \<Rightarrow> op = Asg TOrAssign | Xor \<Rightarrow> op = Asg TXOrAssign
   | _ \<Rightarrow> False)"
  by (cases k) (auto simp: kind_of_assign_def split: token.splits assignment.splits)

lemma int_pair:
  assumes "kind_of op = Some k"
  shows "agrees (int_binary e k x y) (int_arm e op x y) \<and> int_binary e k x y \<noteq> Ok None"
  using assms unfolding kind_of_token
  by (cases k)
     (auto simp: agrees_def int_binary_def int_arithmetic_def int_comparison_def int_arm_def
       int_result_def answer_def comparison_def into_dynamic_def rbind_def map_err_def
       split: sum.splits)

lemma float_pair:
  assumes "kind_of op = Some k"
  shows "agrees (Ok (float_binary (e_float e) k x y)) (float_arm e op x y)"
  using assms unfolding kind_of_token
  by (cases k) (auto simp: agrees_def float_binary_def float_arithmetic_def float_arm_def
      into_dynamic_def Let_def)

lemma int_assign_pair:
  assumes "kind_of_assign op = Some k" "held c = DInt x"
  shows "agrees_assign k c (rbind (int_assign e k x y) (\<lambda>r. Ok (map_option (\<lambda>v. c\<lparr>held := DInt v\<rparr>) r)))
      (int_assign_arm e op c x y) \<and> int_assign e k x y \<noteq> Ok None"
  using assms unfolding kind_of_assign_token
  by (cases k)
     (auto simp: agrees_assign_def int_assign_def int_arithmetic_def int_assign_arm_def int_value_def
       store_result_def replace_result_def as_builtin_def replaces_cell_def fresh_cell_def
       rbind_def map_err_def split: sum.splits)

lemma float_assign_pair:
  assumes "kind_of_assign op = Some k"
  shows "agrees_assign k c
      (Ok (map_option (\<lambda>v. c\<lparr>held := DFloat v\<rparr>) (float_assign (e_float e) k x y)))
      (float_assign_arm e op c x y)"
  using assms unfolding kind_of_assign_token
  by (cases k)
     (auto simp: agrees_assign_def float_assign_def float_arithmetic_def float_assign_arm_def
       store_result_def as_builtin_def Let_def)

lemma declined [simp]: "agrees (Ok None) b" "agrees_assign k c (Ok None) b'"
  by (simp_all add: agrees_def agrees_assign_def)

lemma apply_binary_agrees:
  assumes "kind_of op = Some k"
  shows "agrees (apply_binary e k x y) (builtin_binary e op x y)"
  using int_pair [OF assms] float_pair [OF assms]
  by (cases x; cases y) (simp_all add: apply_binary_def as_float_operand_def builtin_binary_def)

lemma apply_assign_agrees:
  assumes "kind_of_assign op = Some k"
  shows "agrees_assign k c (apply_assign e k c y) (builtin_assign e op c y)"
  using int_assign_pair [OF assms] float_assign_pair [OF assms]
  by (cases "held c"; cases y) (simp_all add: apply_assign_def builtin_assign_def)

lemma apply_fast_binary:
  assumes "from_cell x = Some a" "from_cell y = Some b"
  shows "apply_fast e k a b = apply_binary e k x y" "apply_assign_fast e k c b = apply_assign e k c y"
proof -
  show "apply_fast e k a b = apply_binary e k x y"
    using assms by (cases x; cases y)
      (auto simp: from_cell_def apply_fast_def apply_binary_def as_float_operand_def)
  show "apply_assign_fast e k c b = apply_assign e k c y"
    using assms by (cases "held c"; cases y)
      (auto simp: from_cell_def apply_assign_fast_def apply_assign_def)
qed

lemma walker_assign_builtin: "walker_assign e op c y = builtin_assign e op c y"
proof -
  have "r = builtin_assign e op c y" if "walker_short_assign e op c y = Some r'" "r = Some r'" for r r'
    using that
    by (cases "held c"; cases y)
       (auto simp: walker_short_assign_def builtin_assign_def bool_assign_arm_def int_assign_arm_def
         float_assign_arm_def store_result_def Let_def split: token.splits assignment.splits)
  then show ?thesis by (auto simp: walker_assign_def split: option.splits)
qed

lemma apply_binary_no_variant: "is_variant x \<or> is_variant y \<Longrightarrow> apply_binary e k x y = Ok None"
  by (cases x; cases y) (auto simp: is_variant_def apply_binary_def as_float_operand_def)

lemma apply_binary_walker:
  assumes "kind_of op = Some k"
  shows "agrees (apply_binary e k x y) (walker_binary e op x y)"
  using apply_binary_agrees [OF assms, of e x y] apply_binary_no_variant [of x y e k]
  by (cases "is_variant x \<or> is_variant y") (auto simp: walker_binary_def)

text \<open>
  C18. The operators the dispatch loop runs itself answer what the tables of built-ins answer, and
  so what the tree walker does under fast operators. For every operator with a kind and every two
  values: where the loop computes a value or fails, the walker has a built-in for the operator and
  answers the same value or the same error; two integers never fall back to it; \<open>!\<close> is the
  walker's; and the forms over scalars copied out of their cells agree with those over the cells.
  An op-assignment writes what the walker writes, and a failing one writes nothing, except that the
  built-in shifts and bitwise operators also clear the tag of the cell.
\<close>

theorem fast_paths_are_builtin:
  "(kind_of op = Some k \<longrightarrow>
      (case apply_binary e k x y of
         Inl err \<Rightarrow> walker_binary e op x y = Some (Err err)
       | Inr None \<Rightarrow> \<not> (\<exists>a b. x = DInt a \<and> y = DInt b)
       | Inr (Some v) \<Rightarrow> walker_binary e op x y = Some (Ok (into_dynamic v)))) \<and>
   (un_kind_of op = Some u \<longrightarrow> map_option into_dynamic (apply_unary u x) = walker_not op x) \<and>
   (kind_of_assign op = Some k \<longrightarrow>
      (case apply_assign e k c y of
         Inl err \<Rightarrow> walker_assign e op c y = Some (Some err, c)
       | Inr None \<Rightarrow> \<not> (\<exists>a b. held c = DInt a \<and> y = DInt b)
       | Inr (Some c') \<Rightarrow> walker_assign e op c y = Some (None, as_builtin k c'))) \<and>
   (\<forall>a b. from_cell x = Some a \<longrightarrow> from_cell y = Some b \<longrightarrow>
      apply_fast e k a b = apply_binary e k x y \<and>
      apply_assign_fast e k c b = apply_assign e k c y)"
proof (intro conjI allI impI)
  assume k: "kind_of op = Some k"
  have "\<not> (\<exists>a b. x = DInt a \<and> y = DInt b)" if "apply_binary e k x y = Ok None"
    using that int_pair [OF k] by (auto simp: apply_binary_def)
  with apply_binary_walker [OF k, of e x y] show "case apply_binary e k x y of
         Inl err \<Rightarrow> walker_binary e op x y = Some (Err err)
       | Inr None \<Rightarrow> \<not> (\<exists>a b. x = DInt a \<and> y = DInt b)
       | Inr (Some v) \<Rightarrow> walker_binary e op x y = Some (Ok (into_dynamic v))"
    by (auto simp: agrees_def split: sum.splits option.splits)
next
  assume "un_kind_of op = Some u"
  then have "op = Opr TBang" by (auto simp: un_kind_of_def split: token.splits operator.splits)
  then show "map_option into_dynamic (apply_unary u x) = walker_not op x"
    by (cases u; cases x) (auto simp: apply_unary_def walker_not_def into_dynamic_def)
next
  assume k: "kind_of_assign op = Some k"
  have "\<not> (\<exists>a b. held c = DInt a \<and> y = DInt b)" if "apply_assign e k c y = Ok None"
  proof
    assume "\<exists>a b. held c = DInt a \<and> y = DInt b"
    then obtain a b where ab: "held c = DInt a" "y = DInt b" by blast
    with that int_assign_pair [OF k ab(1), of e b] show False
      by (auto simp: apply_assign_def rbind_eq_Ok)
  qed
  with apply_assign_agrees [OF k, of c e y] show "case apply_assign e k c y of
         Inl err \<Rightarrow> walker_assign e op c y = Some (Some err, c)
       | Inr None \<Rightarrow> \<not> (\<exists>a b. held c = DInt a \<and> y = DInt b)
       | Inr (Some c') \<Rightarrow> walker_assign e op c y = Some (None, as_builtin k c')"
    unfolding walker_assign_builtin
    by (auto simp: agrees_assign_def split: sum.splits option.splits)
qed (auto intro: apply_fast_binary)

text \<open>A build to evaluate the operators in, with a float arithmetic of constant results.\<close>

definition sample_engine :: engine where
  "sample_engine =
     \<lparr>e_int = I64, e_only_int = False, e_wasm = False,
      e_features = \<lparr>no_float = False, no_index = False, no_object = False, no_function = False,
        no_closure = False, no_module = False, no_custom_syntax = False, decimal = False\<rparr>,
      e_limits = default_limits,
      e_float = \<lparr>fl_add = (\<lambda>_ _. []), fl_sub = (\<lambda>_ _. []), fl_mul = (\<lambda>_ _. []),
        fl_div = (\<lambda>_ _. []), fl_rem = (\<lambda>_ _. []), fl_powf = (\<lambda>_ _. []), fl_abs = (\<lambda>_. []),
        fl_neg = (\<lambda>_. []), fl_max = (\<lambda>_ _. []), fl_eq = (=), fl_gt = (\<lambda>_ _. False),
        fl_le = (=), fl_of_int = (\<lambda>_. []), fl_zero = [], fl_one = [], fl_epsilon = []\<rparr>,
      e_decimal = \<lparr>d_checked_add = (\<lambda>_ _. None), d_checked_sub = (\<lambda>_ _. None),
        d_checked_mul = (\<lambda>_ _. None), d_checked_div = (\<lambda>_ _. None), d_checked_rem = (\<lambda>_ _. None),
        d_checked_powd = (\<lambda>_ _. None), d_round_u32 = (\<lambda>_. None), d_of_int = (\<lambda>_. (0, 0)),
        d_zero = (0, 0), d_eq = (=), d_less = (\<lambda>_ _. False)\<rparr>\<rparr>"

lemma sample_engine_int [simp]: "e_int sample_engine = I64"
  by (simp add: sample_engine_def)

definition tagged :: cell where
  "tagged = \<lparr>held = DInt 6, tag = 9, read_only = False\<rparr>"

theorem fast_paths_are_builtin_witness:
  "walker_binary sample_engine (Opr TDivide) (DInt 6) (DInt 0) =
     Some (Err (Arithmetic (Division_by_zero 6 0))) \<and>
   walker_binary sample_engine (Opr TPlus) (DInt 6) (DInt 1) = Some (Ok (DInt 7)) \<and>
   walker_assign sample_engine (Asg TPlusAssign) tagged (DInt 1) = Some (None, tagged\<lparr>held := DInt 7\<rparr>) \<and>
   walker_assign sample_engine (Asg TAndAssign) tagged (DInt 3) = Some (None, fresh_cell (DInt 2))"
proof -
  note fast = apply_binary_def int_binary_def int_arithmetic_def apply_assign_def int_assign_def
    divide_fn_def add_fn_def checked_def fits_def type_min_def type_max_def into_dynamic_def
    tagged_def as_builtin_def replaces_cell_def binary_and_def
  have "kind_of (Opr TDivide) = Some Divide" "kind_of (Opr TPlus) = Some Add"
    "kind_of_assign (Asg TPlusAssign) = Some Add" "kind_of_assign (Asg TAndAssign) = Some And"
    by (simp_all add: kind_of_def kind_of_assign_def)
  then show ?thesis
    using fast_paths_are_builtin [where op = "Opr TDivide" and k = Divide and e = sample_engine and x = "DInt 6" and
        y = "DInt 0" and c = tagged]
      fast_paths_are_builtin [where op = "Opr TPlus" and k = Add and e = sample_engine and x = "DInt 6" and
        y = "DInt 1" and c = tagged]
      fast_paths_are_builtin [where op = "Asg TPlusAssign" and k = Add and e = sample_engine and x = "DInt 6" and
        y = "DInt 1" and c = tagged]
      fast_paths_are_builtin [where op = "Asg TAndAssign" and k = And and e = sample_engine and x = "DInt 6" and
        y = "DInt 3" and c = tagged]
    by (simp add: fast)
qed

end
