(* ===== verification/Indexing.thy ===== *)
theory Indexing
  imports Immutable_Strings Int_Ops
begin

text \<open>
  Indexing: what an index names in a value (\<open>get_indexed_mut\<close> of \<open>src/eval/chaining.rs\<close>), the
  \<open>Target\<close> it gives and how a value assigned to a target reaches the value it came from
  (\<open>propagate_changed_value\<close> of \<open>src/eval/target.rs\<close>), the bit-field functions
  (\<open>src/packages/bit_field.rs\<close>) and the bit and character iterators
  (\<open>src/packages/iter_basic.rs\<close>). \<open>INT\<close> is \<open>I64\<close> or \<open>I32\<close>, a parameter \<open>sys\<close>; \<open>usize\<close> has 64 bits,
  so that every \<open>INT\<close> that is not negative is one. A value behind a target is passed along with
  it, since a target borrows it; shared values, the callbacks for missing elements and the
  operation count of an index are not modelled.
\<close>

section \<open>Offsets\<close>

definition calc_offset_len :: "nat \<Rightarrow> int \<Rightarrow> int \<Rightarrow> nat \<times> nat" where
  "calc_offset_len len start n =
     (let tail_of = (\<lambda>start. (start, if n \<le> 0 then 0 else if nat n > len - start then len - start else nat n))
      in if start < 0 then tail_of (len - min (nat (- start)) len)
         else if nat start \<ge> len then (len, 0)
         else tail_of (nat start))"

text \<open>The last argument is what \<open>err_func\<close> answers.\<close>

definition calc_index :: "nat \<Rightarrow> int \<Rightarrow> bool \<Rightarrow> 'e + nat \<Rightarrow> 'e + nat" where
  "calc_index len index negative_count_from_end err =
     (if len = 0 then err
      else if index < 0 then
        if negative_count_from_end \<and> nat (- index) \<le> len then Ok (len - nat (- index)) else err
      else if nat index < len then Ok (nat index) else err)"

datatype index_error =
    Array_bounds nat int | Bit_bounds nat int | String_bounds nat int
  | Property_not_found "u8 list" | Type_mismatch | Not_indexable

section \<open>Targets\<close>

text \<open>
  A reference into an array or a map, a temporary, or a copy of a part of the value that cannot be
  pointed to: a bit, a bit field with its mask and shift, a byte, a character, a slice of a string.
\<close>

datatype target =
    Ref_item nat | Ref_entry "u8 list" | Temp_value dynamic | Bit dynamic nat
  | Bit_field dynamic int nat | Blob_byte dynamic nat | String_char dynamic nat
  | String_slice dynamic nat nat bool

definition int_bits :: "int_type \<Rightarrow> nat" where
  "int_bits sys = type_bits sys"

text \<open>\<open>1 << bit\<close> and \<open>x << n\<close> of an \<open>INT\<close>; \<open>>>\<close> keeps the sign.\<close>

definition shl :: "int_type \<Rightarrow> int \<Rightarrow> nat \<Rightarrow> int" where
  "shl sys x n = wrap sys (x * 2 ^ n)"

definition shr :: "int \<Rightarrow> nat \<Rightarrow> int" where
  "shr x n = x div 2 ^ n"

text \<open>The shift and the mask of \<open>val_int[range]\<close>.\<close>

definition field_mask :: "int_type \<Rightarrow> nat \<Rightarrow> nat \<Rightarrow> nat \<times> int" where
  "field_mask sys start stop =
     (if stop \<le> start then (0, 0)
      else if stop = int_bits sys \<and> start = 0 then (0, - 1)
      else (start, shl sys (2 ^ (stop - start) - 1) start))"

definition exclusive_field :: "int_type \<Rightarrow> int \<Rightarrow> int \<Rightarrow> index_error + nat \<times> int" where
  "exclusive_field sys from to =
     (let bits = int_bits sys; to = if to = type_max sys then int bits else to in
      rbind (calc_index bits from False (Err (Bit_bounds bits from))) (\<lambda>start.
      rbind (calc_index bits to False
          (if 0 \<le> to \<and> nat to \<le> bits then Ok (nat to) else Err (Bit_bounds bits to))) (\<lambda>stop.
      Ok (field_mask sys start stop))))"

definition inclusive_field :: "int_type \<Rightarrow> int \<Rightarrow> int \<Rightarrow> index_error + nat \<times> int" where
  "inclusive_field sys from to =
     (let bits = int_bits sys; to = if to = type_max sys then int bits - 1 else to in
      rbind (calc_index bits from False (Err (Bit_bounds bits from))) (\<lambda>start.
      rbind (calc_index bits to False (Err (Bit_bounds bits to))) (\<lambda>stop.
      Ok (field_mask sys start (stop + 1)))))"

definition bit_field_at :: "int \<Rightarrow> nat \<times> int \<Rightarrow> target" where
  "bit_field_at n field = (case field of (shift, msk) \<Rightarrow>
     Bit_field (DInt (shr (n AND msk) shift)) msk shift)"

text \<open>The character of \<open>val_str[idx]\<close>; counted from the end, the offset handed on is the distance.\<close>

definition string_char_at :: "u8 list \<Rightarrow> int \<Rightarrow> index_error + target" where
  "string_char_at s index =
     (let cs = chars s; err = Err (String_bounds (length cs) index) in
      if 0 \<le> index then
        (case get_at cs (nat index) of
           Some ch \<Rightarrow> Ok (String_char (DChar ch) (nat index)) | None \<Rightarrow> err)
      else
        (let offset = nat (- index) in case get_at (rev cs) (offset - 1) of
           Some ch \<Rightarrow> Ok (String_char (DChar ch) offset) | None \<Rightarrow> err))"

definition slice_start :: "nat \<Rightarrow> int \<Rightarrow> index_error + nat" where
  "slice_start len from =
     (if 0 \<le> from then Ok (nat from)
      else calc_index len from True (Err (String_bounds len from)))"

definition slice_end :: "nat \<Rightarrow> int \<Rightarrow> nat" where
  "slice_end len to =
     (if 0 \<le> to then nat to
      else case calc_index len to True (Err ()) of Inr i \<Rightarrow> i | Inl _ \<Rightarrow> 0)"

definition exclusive_slice :: "u8 list \<Rightarrow> int \<Rightarrow> int \<Rightarrow> index_error + target" where
  "exclusive_slice s from to =
     (let cs = chars s; len = length cs; stop = slice_end len to in
      rbind (slice_start len from) (\<lambda>start.
      Ok (String_slice
        (DString (if start = 0 \<and> stop \<ge> len then s
           else collect_chars (take (stop - start) (drop start cs)))) start stop True)))"

definition inclusive_slice :: "u8 list \<Rightarrow> int \<Rightarrow> int \<Rightarrow> index_error + target" where
  "inclusive_slice s from to =
     (let cs = chars s; len = length cs; stop = slice_end len to in
      rbind (slice_start len from) (\<lambda>start.
      Ok (String_slice
        (DString (if start = 0 \<and> stop \<ge> len - 1 then s
           else collect_chars (take (if stop > start then stop - start + 1 else 0) (drop start cs))))
        start stop False)))"

text \<open>
  \<open>get_indexed_mut\<close>: the target and the value behind it, to which a missing map entry is added when
  it is about to be assigned. \<open>fail_invalid\<close> is \<open>fail_on_invalid_map_property\<close>; \<open>indexer\<close> is the index
  getter a host registered, where indexers may be used.
\<close>

definition get_indexed_mut ::
  "int_type \<Rightarrow> bool \<Rightarrow> (dynamic \<Rightarrow> dynamic \<Rightarrow> index_error + dynamic) option \<Rightarrow> bool \<Rightarrow>
    dynamic \<Rightarrow> dynamic \<Rightarrow> index_error + target \<times> dynamic" where
  "get_indexed_mut sys fail_invalid indexer add v idx =
     (let at_v = (\<lambda>r. rbind r (\<lambda>t. Ok (t, v))) in
      case v of
        DArray items \<Rightarrow> (case idx of
            DInt index \<Rightarrow> at_v (rbind (calc_index (length items) index True
                (Err (Array_bounds (length items) index))) (\<lambda>i. Ok (Ref_item i)))
          | _ \<Rightarrow> Err Type_mismatch)
      | DBlob bytes \<Rightarrow> (case idx of
            DInt index \<Rightarrow> at_v (rbind (calc_index (length bytes) index True
                (Err (Array_bounds (length bytes) index))) (\<lambda>i.
                Ok (Blob_byte (DInt (uint (bytes ! i))) i)))
          | _ \<Rightarrow> Err Type_mismatch)
      | DMap m \<Rightarrow> (case idx of
            DString key \<Rightarrow>
              (let m = if add \<and> map_of m key = None then map_insert key DUnit m else m in
               case map_of m key of
                 Some _ \<Rightarrow> Ok (Ref_entry key, DMap m)
               | None \<Rightarrow> if fail_invalid then Err (Property_not_found key)
                   else Ok (Temp_value DUnit, DMap m))
          | _ \<Rightarrow> Err Type_mismatch)
      | DInt n \<Rightarrow> (case idx of
            DRange a b \<Rightarrow> at_v (rbind (exclusive_field sys a b) (\<lambda>f. Ok (bit_field_at n f)))
          | DRangeInclusive a b \<Rightarrow> at_v (rbind (inclusive_field sys a b) (\<lambda>f. Ok (bit_field_at n f)))
          | DInt index \<Rightarrow> at_v (rbind (calc_index (int_bits sys) index True
                (Err (Bit_bounds (int_bits sys) index))) (\<lambda>i.
                Ok (Bit (DBool (n AND shl sys 1 i \<noteq> 0)) i)))
          | _ \<Rightarrow> Err Type_mismatch)
      | DString s \<Rightarrow> (case idx of
            DInt index \<Rightarrow> at_v (string_char_at s index)
          | DRange a b \<Rightarrow> at_v (if s = [] then Ok (String_slice (DString s) 0 0 True)
              else exclusive_slice s a b)
          | DRangeInclusive a b \<Rightarrow> at_v (if s = [] then Ok (String_slice (DString s) 0 0 True)
              else inclusive_slice s a b)
          | _ \<Rightarrow> Err Type_mismatch)
      | _ \<Rightarrow> (case indexer of
            Some get \<Rightarrow> at_v (rbind (get v idx) (\<lambda>r. Ok (Temp_value r)))
          | None \<Rightarrow> Err Not_indexable))"

text \<open>\<open>as_ref\<close> of a target, and an assignment through \<open>as_mut\<close>.\<close>

definition target_value :: "dynamic \<Rightarrow> target \<Rightarrow> dynamic option" where
  "target_value v t = (case t of
       Ref_item i \<Rightarrow> (case v of DArray items \<Rightarrow> get_at items i | _ \<Rightarrow> None)
     | Ref_entry key \<Rightarrow> (case v of DMap m \<Rightarrow> map_of m key | _ \<Rightarrow> None)
     | Temp_value x \<Rightarrow> Some x | Bit x _ \<Rightarrow> Some x | Bit_field x _ _ \<Rightarrow> Some x
     | Blob_byte x _ \<Rightarrow> Some x | String_char x _ \<Rightarrow> Some x | String_slice x _ _ _ \<Rightarrow> Some x)"

definition assign_target :: "dynamic \<Rightarrow> dynamic \<Rightarrow> target \<Rightarrow> dynamic \<times> target" where
  "assign_target new v t = (case t of
       Ref_item i \<Rightarrow> (case v of DArray items \<Rightarrow> (DArray (items[i := new]), t) | _ \<Rightarrow> (v, t))
     | Ref_entry key \<Rightarrow> (case v of DMap m \<Rightarrow> (DMap (map_insert key new m), t) | _ \<Rightarrow> (v, t))
     | Temp_value _ \<Rightarrow> (v, Temp_value new)
     | Bit _ i \<Rightarrow> (v, Bit new i)
     | Bit_field _ msk shift \<Rightarrow> (v, Bit_field new msk shift)
     | Blob_byte _ i \<Rightarrow> (v, Blob_byte new i)
     | String_char _ i \<Rightarrow> (v, String_char new i)
     | String_slice _ i j ex \<Rightarrow> (v, String_slice new i j ex))"

definition replace_nth_char :: "nat \<Rightarrow> u32 \<Rightarrow> u8 list \<Rightarrow> u8 list" where
  "replace_nth_char i ch s =
     collect_chars (map (\<lambda>(j, c). if j = i then ch else c) (enumerate 0 (chars s)))"

text \<open>
  \<open>propagate_changed_value\<close>. Only text and characters are put into a slice here: \<open>None\<close> for any
  other value, whose \<open>Display\<close> is not modelled.
\<close>

definition text_of :: "dynamic \<Rightarrow> u8 list option" where
  "text_of v = (case v of DString s \<Rightarrow> Some s | DChar c \<Rightarrow> Some (encode_utf8 c) | DUnit \<Rightarrow> Some [] | _ \<Rightarrow> None)"

definition splice :: "nat \<Rightarrow> nat \<Rightarrow> bool \<Rightarrow> u8 list \<Rightarrow> u8 list \<Rightarrow> u8 list" where
  "splice start stop exclusive new s =
     (let cs = chars s; n = length cs;
          tail_part = (if exclusive then drop (if stop > n then n else stop) cs
            else if n = 0 then [] else drop ((if stop \<ge> n then n - 1 else stop) + 1) cs)
      in collect_chars (take start cs @ chars new @ tail_part))"

definition propagate :: "int_type \<Rightarrow> dynamic \<Rightarrow> target \<Rightarrow> (index_error + dynamic) option" where
  "propagate sys v t = (case t of
       Bit x i \<Rightarrow> Some (case (x, v) of
           (DBool b, DInt n) \<Rightarrow> (let msk = shl sys 1 i in
             Ok (DInt (if b then n OR msk else n AND NOT msk)))
         | _ \<Rightarrow> Err Type_mismatch)
     | Bit_field x msk shift \<Rightarrow> Some (case (x, v) of
           (DInt k, DInt n) \<Rightarrow> Ok (DInt (n AND NOT msk OR shl sys k shift AND msk))
         | _ \<Rightarrow> Err Type_mismatch)
     | Blob_byte x i \<Rightarrow> Some (case (x, v) of
           (DInt k, DBlob bytes) \<Rightarrow> Ok (DBlob (bytes[i := of_int (k AND 0xff)]))
         | _ \<Rightarrow> Err Type_mismatch)
     | String_char x i \<Rightarrow> Some (case (x, v) of
           (DChar ch, DString s) \<Rightarrow> Ok (DString (replace_nth_char i ch s))
         | _ \<Rightarrow> Err Type_mismatch)
     | String_slice x i j ex \<Rightarrow> (case v of
           DString s \<Rightarrow> map_option (\<lambda>new. Ok (DString (splice i j ex new s))) (text_of x)
         | _ \<Rightarrow> Some (Err Type_mismatch))
     | _ \<Rightarrow> Some (Ok v))"

text \<open>\<open>xxx[idx]\<close> and \<open>xxx[idx] = new\<close>.\<close>

definition read_at :: "int_type \<Rightarrow> bool \<Rightarrow> dynamic \<Rightarrow> dynamic \<Rightarrow> (index_error + dynamic) option" where
  "read_at sys fail_invalid v idx =
     (case get_indexed_mut sys fail_invalid None False v idx of
        Inl err \<Rightarrow> Some (Err err)
      | Inr (t, v') \<Rightarrow> map_option Ok (target_value v' t))"

definition write_at ::
  "int_type \<Rightarrow> bool \<Rightarrow> dynamic \<Rightarrow> dynamic \<Rightarrow> dynamic \<Rightarrow> (index_error + dynamic) option" where
  "write_at sys fail_invalid v idx new =
     (case get_indexed_mut sys fail_invalid None True v idx of
        Inl err \<Rightarrow> Some (Err err)
      | Inr (t, v') \<Rightarrow> (case assign_target new v' t of (v'', t') \<Rightarrow> propagate sys v'' t'))"

section \<open>What an index names\<close>

text \<open>
  The place of a single element: its position, or its key in a map. Two indexes of one place are the
  same element, counted from the start or from the end.
\<close>

definition index_at :: "nat \<Rightarrow> int \<Rightarrow> bool \<Rightarrow> nat option" where
  "index_at len k b = ok (calc_index len k b (Err ()))"

lemma calc_index_at: "calc_index len k b (Err e) = ok_or e (index_at len k b)"
  by (simp add: index_at_def calc_index_def)

lemma index_at_less: "index_at len k b = Some i \<Longrightarrow> i < len"
  by (auto simp: index_at_def calc_index_def split: if_splits)

definition place :: "int_type \<Rightarrow> dynamic \<Rightarrow> dynamic \<Rightarrow> (nat + u8 list) option" where
  "place sys v idx = (case (v, idx) of
       (DArray items, DInt k) \<Rightarrow> map_option Inl (index_at (length items) k True)
     | (DBlob bytes, DInt k) \<Rightarrow> map_option Inl (index_at (length bytes) k True)
     | (DInt n, DInt k) \<Rightarrow> map_option Inl (index_at (int_bits sys) k True)
     | (DString s, DInt k) \<Rightarrow> map_option Inl (index_at (length (chars s)) k True)
     | (DMap m, DString key) \<Rightarrow> Some (Inr key)
     | _ \<Rightarrow> None)"

text \<open>What is stored of a value: a byte of it in a BLOB, the value itself elsewhere.\<close>

definition stored :: "dynamic \<Rightarrow> dynamic \<Rightarrow> dynamic" where
  "stored v new = (case (v, new) of (DBlob _, DInt k) \<Rightarrow> DInt (k AND 0xff) | _ \<Rightarrow> new)"

text \<open>The laws of a container: a write is read back, and every other place reads as before.\<close>

locale indexed =
  fixes get :: "'c \<Rightarrow> 'p \<Rightarrow> 'e option" and put :: "'p \<Rightarrow> 'e \<Rightarrow> 'c \<Rightarrow> 'c"
    and within :: "'c \<Rightarrow> 'p \<Rightarrow> bool" and kept :: "'c \<Rightarrow> 'e \<Rightarrow> 'e"
  assumes get_put: "within c p \<Longrightarrow> get (put p x c) p = Some (kept c x)"
    and get_other: "within c p \<Longrightarrow> q \<noteq> p \<Longrightarrow> get (put p x c) q = get c q"
begin

lemma put_reads: "within c p \<Longrightarrow>
  get (put p x c) q = (if q = p then Some (kept c x) else get c q)"
  by (simp add: get_put get_other)

end

definition put_item :: "nat \<Rightarrow> 'a \<Rightarrow> 'a list \<Rightarrow> 'a list" where
  "put_item i x items = items[i := x]"

interpretation items: indexed get_at put_item "\<lambda>items i. i < length items" "\<lambda>_ x. x"
  by unfold_locales (auto simp: get_at_def put_item_def)

lemma map_of_map_insert: "map_of (map_insert key x m) = (map_of m)(key \<mapsto> x)"
  by (induction m rule: map_insert.induct) (auto simp: fun_eq_iff)

interpretation entries: indexed map_of map_insert "\<lambda>m key. True" "\<lambda>_ x. x"
  by unfold_locales (auto simp: map_of_map_insert)

section \<open>Bits\<close>

lemma bit_wrap: "bit (wrap sys x) i \<longleftrightarrow>
    (if is_signed sys then bit x (min i (type_bits sys - 1)) else i < type_bits sys \<and> bit x i)"
  by (simp add: wrap_def bit_signed_take_bit_iff bit_take_bit_iff min.commute)

lemma bit_shl: "i < type_bits sys \<Longrightarrow> bit (shl sys x n) i \<longleftrightarrow> n \<le> i \<and> bit x (i - n)"
  by (auto simp: shl_def bit_wrap bit_push_bit_iff_int min_def simp flip: push_bit_eq_mult)

lemma bit_one_mask: "i < type_bits sys \<Longrightarrow> bit (shl sys 1 i) j \<longleftrightarrow>
    (if is_signed sys \<and> i = type_bits sys - 1 then i \<le> j else j = i)"
  by (auto simp: shl_def bit_wrap bit_exp_iff min_def)

lemma one_masks: "i < type_bits sys \<Longrightarrow> j < type_bits sys \<Longrightarrow> i \<noteq> j \<Longrightarrow> shl sys 1 i AND shl sys 1 j = 0"
  by (rule bit_eqI) (auto simp: bit_and_iff bit_one_mask split: if_splits)

lemma one_mask_nonzero: "i < type_bits sys \<Longrightarrow> shl sys 1 i \<noteq> 0"
  using bit_one_mask [of i sys i] by (auto split: if_splits)

lemma one_mask_past: "type_bits sys \<le> i \<Longrightarrow> shl sys 1 i = 0"
  using type_bits_pos [of sys]
  by (intro bit_eqI) (auto simp: shl_def bit_wrap bit_exp_iff min_def simp del: type_bits_pos)

definition get_bit_of :: "int_type \<Rightarrow> int \<Rightarrow> nat \<Rightarrow> bool option" where
  "get_bit_of sys n i = Some (n AND shl sys 1 i \<noteq> 0)"

definition put_bit_of :: "int_type \<Rightarrow> nat \<Rightarrow> bool \<Rightarrow> int \<Rightarrow> int" where
  "put_bit_of sys i b n = (if b then n OR shl sys 1 i else n AND NOT (shl sys 1 i))"

lemma and_not_disjoint: "a AND b = 0 \<Longrightarrow> (n AND NOT a) AND b = n AND b" for a b n :: int
  by (rule bit_eqI) (use bit_and_iff [of a b] in \<open>auto simp: bit_simps\<close>)

lemma or_disjoint: "a AND b = 0 \<Longrightarrow> (n OR a) AND b = n AND b" for a b n :: int
  by (rule bit_eqI) (use bit_and_iff [of a b] in \<open>auto simp: bit_simps\<close>)

lemma put_bit_same: "i < type_bits sys \<Longrightarrow> put_bit_of sys i b n AND shl sys 1 i \<noteq> 0 \<longleftrightarrow> b"
proof -
  assume "i < type_bits sys"
  then have "shl sys 1 i \<noteq> 0" by (rule one_mask_nonzero)
  moreover have "(n OR a) AND a = a" "(n AND NOT a) AND a = 0" for a :: int
    by (rule bit_eqI, auto simp: bit_simps)+
  ultimately show ?thesis by (simp add: put_bit_of_def)
qed

lemma put_bit_other:
  "i < type_bits sys \<Longrightarrow> j \<noteq> i \<Longrightarrow> put_bit_of sys i b n AND shl sys 1 j = n AND shl sys 1 j"
  using one_masks [of i sys j] one_mask_past [of sys j]
  by (cases "j < type_bits sys") (simp_all add: put_bit_of_def and_not_disjoint or_disjoint)

interpretation bits: indexed "get_bit_of sys" "put_bit_of sys" "\<lambda>_ i. i < type_bits sys" "\<lambda>_ b. b" for sys
  by unfold_locales (simp_all add: get_bit_of_def put_bit_same put_bit_other)

section \<open>Writing and reading through an index\<close>

text \<open>How each container reads at an index, and what a write leaves.\<close>

definition read_place :: "int_type \<Rightarrow> dynamic \<Rightarrow> nat + u8 list \<Rightarrow> dynamic option" where
  "read_place sys v p = (case (v, p) of
       (DArray items, Inl i) \<Rightarrow> get_at items i
     | (DBlob bytes, Inl i) \<Rightarrow> map_option (\<lambda>b. DInt (uint b)) (get_at bytes i)
     | (DInt n, Inl i) \<Rightarrow> map_option DBool (get_bit_of sys n i)
     | (DString s, Inl i) \<Rightarrow> map_option DChar (get_at (chars s) i)
     | (DMap m, Inr key) \<Rightarrow> map_of m key
     | _ \<Rightarrow> None)"

definition write_place :: "int_type \<Rightarrow> dynamic \<Rightarrow> nat + u8 list \<Rightarrow> dynamic \<Rightarrow> dynamic option" where
  "write_place sys v p new = (case (v, p, new) of
       (DArray items, Inl i, _) \<Rightarrow> Some (DArray (put_item i new items))
     | (DBlob bytes, Inl i, DInt k) \<Rightarrow> Some (DBlob (put_item i (of_int (k AND 0xff)) bytes))
     | (DInt n, Inl i, DBool b) \<Rightarrow> Some (DInt (put_bit_of sys i b n))
     | (DString s, Inl i, DChar c) \<Rightarrow> Some (DString (collect_chars (put_item i c (chars s))))
     | (DMap m, Inr key, _) \<Rightarrow> Some (DMap (map_insert key new m))
     | _ \<Rightarrow> None)"

lemma get_at_rev: "0 < j \<Longrightarrow> j \<le> length xs \<Longrightarrow> get_at (rev xs) (j - 1) = Some (xs ! (length xs - j))"
  by (simp add: get_at_def rev_nth)

lemma string_char_at_place:
  "string_char_at s k = (case index_at (length (chars s)) k True of
     None \<Rightarrow> Err (String_bounds (length (chars s)) k)
   | Some i \<Rightarrow> Ok (String_char (DChar (chars s ! i)) (if 0 \<le> k then i else nat (- k))))"
  by (auto simp: string_char_at_def Let_def index_at_def calc_index_def get_at_rev get_at_def rev_nth
      split: option.splits)

lemma replace_nth_char_eq: "replace_nth_char i c s = collect_chars (put_item i c (chars s))"
proof -
  have "map (\<lambda>(j, x). if j = i then c else x) (enumerate 0 xs) = xs[i := c]" for xs :: "u32 list"
    by (rule nth_equalityI) (auto simp: nth_enumerate_eq nth_list_update)
  then show ?thesis by (simp add: replace_nth_char_def put_item_def)
qed

lemma read_at_place:
  assumes "place sys v idx = Some p"
  shows "read_at sys fl v idx = (case read_place sys v p of Some x \<Rightarrow> Some (Ok x)
    | None \<Rightarrow> (case p of Inr key \<Rightarrow> Some (if fl then Err (Property_not_found key) else Ok DUnit) | Inl _ \<Rightarrow> None))"
  using assms
  by (cases v; cases idx)
     (auto simp: place_def read_place_def read_at_def get_indexed_mut_def target_value_def get_at_def
       get_bit_of_def string_char_at_place int_bits_def Let_def calc_index_at dest: index_at_less split: option.splits if_splits)

lemma map_insert_twice: "map_insert key x (map_insert key y m) = map_insert key x m"
  by (induction key y m rule: map_insert.induct) auto

lemma write_at_place:
  assumes "place sys v idx = Some p" and "\<And>s k. v = DString s \<Longrightarrow> idx = DInt k \<Longrightarrow> 0 \<le> k"
  shows "write_at sys fl v idx new =
    Some (case write_place sys v p new of Some v' \<Rightarrow> Ok v' | None \<Rightarrow> Err Type_mismatch)"
  using assms
  by (cases v; cases idx)
     (auto simp: place_def write_place_def write_at_def get_indexed_mut_def assign_target_def
       propagate_def string_char_at_place int_bits_def Let_def calc_index_at put_item_def put_bit_of_def
       replace_nth_char_eq map_of_map_insert map_insert_twice split: option.splits dynamic.splits)

text \<open>The values that can be stored without losing the text of a string.\<close>

definition storable :: "dynamic \<Rightarrow> dynamic \<Rightarrow> bool" where
  "storable v new = (case v of
       DString s \<Rightarrow> utf8 s \<and> (case new of DChar c \<Rightarrow> char_ok c | _ \<Rightarrow> True)
     | _ \<Rightarrow> True)"

lemma uint_low_byte: "uint (of_int (k AND 0xff) :: u8) = k AND 0xff"
proof -
  have "k AND 0xff = take_bit 8 k" by (simp add: take_bit_eq_mask mask_eq_exp_minus_1)
  then show ?thesis by (simp add: uint_word_of_int take_bit_eq_mod)
qed

lemma chars_put: "utf8 s \<Longrightarrow> char_ok c \<Longrightarrow> chars (collect_chars (put_item i c (chars s))) = put_item i c (chars s)"
  using collect_of_chars [of s]
  by (auto intro!: chars_collect simp: put_item_def list_all_iff dest!: subsetD [OF set_update_subset_insert])

lemma read_write_place:
  assumes "place sys v idx = Some p" "write_place sys v p new = Some v'" "storable v new"
  shows "read_place sys v' q = (if q = p then Some (stored v new) else read_place sys v q)"
  using assms
  by (cases v; cases new; cases p; cases q)
     (auto simp: place_def write_place_def read_place_def stored_def storable_def chars_put
       uint_low_byte int_bits_def items.put_reads entries.put_reads bits.put_reads
       dest: index_at_less split: dynamic.splits)

lemma place_kept:
  assumes "place sys v idx = Some p" "write_place sys v p new = Some v'" "storable v new"
  shows "place sys v' q = place sys v q"
  using assms
  by (cases v; cases new; cases p)
     (auto simp: place_def write_place_def storable_def chars_put [unfolded put_item_def] put_item_def
       cong: dynamic.case_cong)

text \<open>
  C20. Writing through an index and reading through it. Once \<open>v[idx] = new\<close> has succeeded on an array,
  a BLOB, a map, a bit of an integer or, counted from the start, a character of a string, \<open>v[idx]\<close>
  reads what was stored (the value, or its low byte in a BLOB), and every index that names another
  place reads what it read before: negative indexes, and keys the write has added, included.
\<close>

theorem indexed_write_read:
  assumes "write_at sys fl v idx new = Some (Ok v')" and "place sys v idx = Some p"
    and "storable v new" and "\<And>s k. v = DString s \<Longrightarrow> idx = DInt k \<Longrightarrow> 0 \<le> k"
  shows "read_at sys fl v' idx = Some (Ok (stored v new)) \<and>
    (\<forall>idx' q. place sys v idx' = Some q \<longrightarrow>
       place sys v' idx' = Some q \<and>
       read_at sys fl v' idx' = (if q = p then Some (Ok (stored v new)) else read_at sys fl v idx'))"
proof -
  from write_at_place [OF assms(2,4)] assms(1) have w: "write_place sys v p new = Some v'"
    by (auto split: option.splits)
  note laws = read_write_place [OF assms(2) w assms(3)] place_kept [OF assms(2) w assms(3)]
  have "read_at sys fl v' idx' = (if q = p then Some (Ok (stored v new)) else read_at sys fl v idx')"
    if "place sys v idx' = Some q" for idx' q
    using read_at_place [of sys v' idx' q fl] read_at_place [OF that, of fl] that laws by auto
  with assms(2) laws(2) show ?thesis by auto
qed

theorem indexed_write_read_witness:
  "read_at I64 False (DArray [DInt 1, DInt 7]) (DInt 1) = Some (Ok (DInt 7)) \<and>
   read_at I64 False (DArray [DInt 1, DInt 7]) (DInt (- 2)) = Some (Ok (DInt 1))"
proof -
  let ?v = "DArray [DInt 1, DInt 2]"
  have p: "place I64 ?v (DInt (- 1)) = Some (Inl 1)" "place I64 ?v (DInt 1) = Some (Inl 1)"
    "place I64 ?v (DInt (- 2)) = Some (Inl 0)"
    by (simp_all add: place_def index_at_def calc_index_def)
  have "write_at I64 False ?v (DInt (- 1)) (DInt 7) = Some (Ok (DArray [DInt 1, DInt 7]))"
    by (simp add: write_at_def get_indexed_mut_def calc_index_def assign_target_def propagate_def)
  from indexed_write_read [OF this p(1)] p(2,3)
  have "read_at I64 False (DArray [DInt 1, DInt 7]) (DInt 1) = Some (Ok (DInt 7))"
    "read_at I64 False (DArray [DInt 1, DInt 7]) (DInt (- 2)) = read_at I64 False ?v (DInt (- 2))"
    by (auto simp: storable_def stored_def)
  then show ?thesis by (simp add: read_at_def get_indexed_mut_def calc_index_def target_value_def get_at_def)
qed

text \<open>
  C21. Assigning a character counted from the end of a string writes another one. Reading \<open>s[-k]\<close>
  answers the character at \<open>len - k\<close>, while assigning to \<open>s[-k]\<close> replaces the one at \<open>k\<close>, counted from
  the start, and nothing for the first character: what was assigned is read back just where both
  are the same character or it was there before.
\<close>

theorem negative_char_write:
  assumes "utf8 s" and "char_ok c" and "1 \<le> k" and "k \<le> length (chars s)"
  shows "read_at sys fl (DString s) (DInt (- int k)) = Some (Ok (DChar (chars s ! (length (chars s) - k)))) \<and>
    write_at sys fl (DString s) (DInt (- int k)) (DChar c) =
      Some (Ok (DString (collect_chars ((chars s)[k := c])))) \<and>
    (read_at sys fl (DString (collect_chars ((chars s)[k := c]))) (DInt (- int k)) = Some (Ok (DChar c)) \<longleftrightarrow>
       2 * k = length (chars s) \<or> chars s ! (length (chars s) - k) = c)"
proof -
  let ?n = "length (chars s)"
  have at: "index_at (length xs) (- int k) True = Some (?n - k)" if "length xs = ?n" for xs :: "u32 list"
    using assms(3,4) that by (auto simp: index_at_def calc_index_def)
  have read: "read_at sys fl (DString r) (DInt (- int k)) = Some (Ok (DChar (chars r ! (?n - k))))"
    if "length (chars r) = ?n" for r
    by (simp add: read_at_def get_indexed_mut_def string_char_at_place at [OF that] target_value_def)
  have "write_at sys fl (DString s) (DInt (- int k)) (DChar c) =
      Some (Ok (DString (collect_chars ((chars s)[k := c]))))"
    using assms(3) by (simp add: write_at_def get_indexed_mut_def string_char_at_place at assign_target_def
      propagate_def replace_nth_char_eq put_item_def)
  moreover have put: "chars (collect_chars ((chars s)[k := c])) = (chars s)[k := c]"
    using chars_put [OF assms(1,2), of k] by (simp add: put_item_def)
  moreover have "(chars s)[k := c] ! (?n - k) = c \<longleftrightarrow> 2 * k = ?n \<or> chars s ! (?n - k) = c"
    using assms(3,4) by (cases "?n - k = k") (auto simp: nth_list_update)
  ultimately show ?thesis using read [of s] read [of "collect_chars ((chars s)[k := c])"] by simp
qed

theorem negative_char_write_witness:
  "write_at I64 False (DString [97, 98, 99]) (DInt (- 1)) (DChar 120) = Some (Ok (DString [97, 120, 99])) \<and>
   read_at I64 False (DString [97, 120, 99]) (DInt (- 1)) = Some (Ok (DChar 99))"
proof -
  have c: "chars [97, 98, 99] = [97, 98, 99]" "chars [97, 120, 99] = [97, 120, 99]"
    "utf8 [97, 98, 99]" "utf8 [97, 120, 99]"
    by (simp_all add: chars.simps utf8_def valid_up_to.simps scalar_width_def scalar_lead_def decode_scalar_def)
  have e: "collect_chars [97, 120, 99] = [97, 120, 99]"
    by (simp add: collect_chars_def encode_utf8_def)
  have k: "char_ok 120" by (simp add: char_ok_def)
  show ?thesis
    using negative_char_write [OF c(3) k, of 1 I64 False] negative_char_write [OF c(4) k, of 1 I64 False]
    by (simp add: c(1,2) e)
qed

end
