(* ===== verification/Bit_Fields.thy ===== *)
theory Bit_Fields
  imports Indexing
begin

text \<open>
  The bit-field functions of the standard library (\<open>src/packages/bit_field.rs\<close>), the iterator over
  the bits of a number (\<open>BitRange\<close> of \<open>src/packages/iter_basic.rs\<close>) and indexing a number by a range,
  against the bits of the number.
\<close>

section \<open>Bit fields\<close>

text \<open>The functions of \<open>src/packages/bit_field.rs\<close>; those that change their argument answer it.\<close>

definition get_bit :: "int_type \<Rightarrow> int \<Rightarrow> int \<Rightarrow> index_error + bool" where
  "get_bit sys n i =
     rbind (calc_index (int_bits sys) i True (Err (Bit_bounds (int_bits sys) i))) (\<lambda>i.
     Ok (n AND shl sys 1 i \<noteq> 0))"

definition set_bit_to :: "int_type \<Rightarrow> int \<Rightarrow> int \<Rightarrow> bool \<Rightarrow> index_error + int" where
  "set_bit_to sys n i new_value =
     rbind (calc_index (int_bits sys) i True (Err (Bit_bounds (int_bits sys) i))) (\<lambda>i.
     let msk = shl sys 1 i in Ok (if new_value then n OR msk else n AND NOT msk))"

text \<open>The bits that are there of those asked for.\<close>

definition clip_bits :: "int_type \<Rightarrow> nat \<Rightarrow> int \<Rightarrow> nat" where
  "clip_bits sys i k = (if nat k + i > int_bits sys then int_bits sys - i else nat k)"

definition get_bits :: "int_type \<Rightarrow> int \<Rightarrow> int \<Rightarrow> int \<Rightarrow> index_error + int" where
  "get_bits sys n start k =
     (if k \<le> 0 then Ok 0 else
      rbind (calc_index (int_bits sys) start True (Err (Bit_bounds (int_bits sys) start))) (\<lambda>i.
      let k = clip_bits sys i k in
      if i = 0 \<and> k = int_bits sys then Ok n
      else let msk = 2 ^ k - 1 in Ok (shr (n AND shl sys msk i) i AND msk)))"

definition set_bits :: "int_type \<Rightarrow> int \<Rightarrow> int \<Rightarrow> int \<Rightarrow> int \<Rightarrow> index_error + int" where
  "set_bits sys n start k new_value =
     (if k \<le> 0 then Ok n else
      rbind (calc_index (int_bits sys) start True (Err (Bit_bounds (int_bits sys) start))) (\<lambda>i.
      let k = clip_bits sys i k in
      if i = 0 \<and> k = int_bits sys then Ok new_value
      else let msk = 2 ^ k - 1 in
        Ok (n AND NOT (shl sys msk i) OR shl sys (new_value AND msk) i)))"

text \<open>The forms over a range.\<close>

definition range_span :: "int \<Rightarrow> int \<Rightarrow> int \<times> int" where
  "range_span start stop = (let from = max start 0; to = max stop from in (from, to - from))"

definition inclusive_span :: "int_type \<Rightarrow> int \<Rightarrow> int \<Rightarrow> index_error + int \<times> int" where
  "inclusive_span sys start stop =
     (let from = max start 0; to = max stop (from - 1) in
      if 0 \<le> to \<and> nat to \<ge> int_bits sys then Err (Bit_bounds (int_bits sys) to)
      else Ok (from, to - from + 1))"

definition get_bits_range :: "int_type \<Rightarrow> int \<Rightarrow> int \<Rightarrow> int \<Rightarrow> index_error + int" where
  "get_bits_range sys n start stop = (case range_span start stop of (from, k) \<Rightarrow> get_bits sys n from k)"

definition get_bits_range_inclusive :: "int_type \<Rightarrow> int \<Rightarrow> int \<Rightarrow> int \<Rightarrow> index_error + int" where
  "get_bits_range_inclusive sys n start stop =
     rbind (inclusive_span sys start stop) (\<lambda>(from, k). get_bits sys n from k)"

definition set_bits_range :: "int_type \<Rightarrow> int \<Rightarrow> int \<Rightarrow> int \<Rightarrow> int \<Rightarrow> index_error + int" where
  "set_bits_range sys n start stop new_value =
     (case range_span start stop of (from, k) \<Rightarrow> set_bits sys n from k new_value)"

definition set_bits_range_inclusive :: "int_type \<Rightarrow> int \<Rightarrow> int \<Rightarrow> int \<Rightarrow> int \<Rightarrow> index_error + int" where
  "set_bits_range_inclusive sys n start stop new_value =
     rbind (inclusive_span sys start stop) (\<lambda>(from, k). set_bits sys n from k new_value)"

text \<open>\<open>BitRange\<close>: what is left of the number, and how many bits; the values it gives in order.\<close>

definition bit_range :: "int_type \<Rightarrow> int \<Rightarrow> int \<Rightarrow> int \<Rightarrow> index_error + int \<times> nat" where
  "bit_range sys n from len =
     rbind (calc_index (int_bits sys) from True (Err (Bit_bounds (int_bits sys) from))) (\<lambda>i.
     Ok (shr n i, if len < 0 then 0 else clip_bits sys i len))"

fun bit_range_next :: "int \<times> nat \<Rightarrow> (bool \<times> int \<times> nat) option" where
  "bit_range_next (n, 0) = None"
| "bit_range_next (n, Suc k) = Some (n AND 1 \<noteq> 0, shr n 1, k)"

fun bit_range_values :: "int \<Rightarrow> nat \<Rightarrow> bool list" where
  "bit_range_values n 0 = []"
| "bit_range_values n (Suc k) = (n AND 1 \<noteq> 0) # bit_range_values (shr n 1) k"

lemma bit_shr: "bit (shr n i) j \<longleftrightarrow> bit n (i + j)"
  by (simp add: shr_def bit_drop_bit_eq flip: drop_bit_eq_div)

lemma bit_range_values_bits: "bit_range_values n k = map (bit n) [0..<k]"
proof (induction k arbitrary: n)
  case (Suc k)
  have "map (bit n) [0..<Suc k] = bit n 0 # map (bit n \<circ> Suc) [0..<k]"
    by (simp add: upt_conv_Cons map_Suc_upt [symmetric] del: upt_Suc)
  with Suc.IH [of "shr n 1"] show ?case
    by (simp add: bit_shr comp_def bit_0 odd_iff_mod_2_eq_one and_one_eq)
qed simp

lemma bit_ones: "bit (2 ^ k - 1 :: int) j \<longleftrightarrow> j < k"
  by (simp add: bit_mask_iff flip: mask_eq_exp_minus_1)

lemma bit_and_ones: "n AND (2 ^ k - 1) = take_bit k n" for n :: int
  by (simp add: take_bit_eq_mask mask_eq_exp_minus_1)

text \<open>Fields of a number, \<open>k\<close> bits from \<open>i\<close> on.\<close>

lemma get_bits_field:
  assumes "i + k \<le> type_bits sys"
  shows "shr (n AND shl sys (2 ^ k - 1) i) i AND (2 ^ k - 1) = take_bit k (drop_bit i n)"
  using assms
  by (intro bit_eqI)
     (auto simp: bit_and_iff bit_ones bit_shr bit_shl bit_take_bit_iff bit_drop_bit_eq)

lemma set_bits_field:
  assumes "i + k \<le> type_bits sys" "j < type_bits sys"
  shows "bit (n AND NOT (shl sys (2 ^ k - 1) i) OR shl sys (w AND (2 ^ k - 1)) i) j \<longleftrightarrow>
    (if i \<le> j \<and> j < i + k then bit w (j - i) else bit n j)"
  using assms by (auto simp: bit_or_iff bit_and_iff bit_not_iff bit_ones bit_shl)

text \<open>Every bit between is copied to the top by a shift that keeps the sign.\<close>

lemma fits_not: "is_signed sys \<Longrightarrow> fits sys x \<Longrightarrow> fits sys (NOT x)"
  by (auto simp: fits_def type_min_signed not_int_def)

lemma fits_bit: "is_signed sys \<Longrightarrow> fits sys n \<Longrightarrow> type_bits sys - 1 \<le> j \<Longrightarrow> bit n j \<longleftrightarrow> bit n (type_bits sys - 1)"
  using bit_wrap [of sys n j] bit_wrap [of sys n "type_bits sys - 1"]
  by (simp add: fits_wrap_iff min_def split: if_splits)

lemma clip_bits_le: "i < type_bits sys \<Longrightarrow> i + clip_bits sys i k \<le> type_bits sys"
  by (simp add: clip_bits_def int_bits_def)

definition whole :: "int_type \<Rightarrow> nat \<Rightarrow> nat \<Rightarrow> bool" where
  "whole sys i k \<longleftrightarrow> i = 0 \<and> k = type_bits sys"

definition field :: "int_type \<Rightarrow> nat \<Rightarrow> nat \<Rightarrow> int \<Rightarrow> int" where
  "field sys i k n = (if whole sys i k then n else take_bit k (drop_bit i n))"

lemma get_bits_at:
  assumes "0 < k" "index_at (type_bits sys) start True = Some i"
  shows "get_bits sys n start k = Ok (field sys i (clip_bits sys i k) n)"
  using assms get_bits_field [OF clip_bits_le [OF index_at_less [OF assms(2)]]]
  by (auto simp: get_bits_def int_bits_def calc_index_at Let_def field_def whole_def)

lemma set_bits_at:
  assumes "0 < k" "index_at (type_bits sys) start True = Some i" "is_signed sys" "fits sys n" "fits sys w"
  shows "\<exists>n'. set_bits sys n start k w = Ok n' \<and> fits sys n' \<and>
    (\<forall>j < type_bits sys. bit n' j \<longleftrightarrow>
       (if i \<le> j \<and> j < i + clip_bits sys i k then bit w (j - i) else bit n j))"
proof -
  let ?c = "clip_bits sys i k"
  have le: "i + ?c \<le> type_bits sys" by (rule clip_bits_le [OF index_at_less [OF assms(2)]])
  show ?thesis
  proof (cases "whole sys i ?c")
    case True
    with assms show ?thesis
      by (auto simp: set_bits_def int_bits_def calc_index_at whole_def Let_def)
  next
    case False
    have f: "fits sys (n AND NOT (shl sys (2 ^ ?c - 1) i) OR shl sys (w AND (2 ^ ?c - 1)) i)"
      using assms(3-5) by (simp add: fits_bits fits_not shl_def)
    from False assms(1,2) have "set_bits sys n start k w =
        Ok (n AND NOT (shl sys (2 ^ ?c - 1) i) OR shl sys (w AND (2 ^ ?c - 1)) i)"
      by (auto simp: set_bits_def int_bits_def calc_index_at whole_def Let_def)
    with f set_bits_field [OF le] show ?thesis by blast
  qed
qed

lemma field_eqI:
  assumes "i + k \<le> type_bits sys" "is_signed sys" "fits sys n" "fits sys w"
    "\<And>j. j < k \<Longrightarrow> bit n (i + j) \<longleftrightarrow> bit w j"
  shows "field sys i k n = (if whole sys i k then w else take_bit k w)"
proof (cases "whole sys i k")
  case True
  have "n = w"
  proof (rule bit_eqI)
    fix j
    show "bit n j \<longleftrightarrow> bit w j"
      using True assms(5) [of j] assms(5) [of "type_bits sys - 1"] fits_bit [OF assms(2,3), of j]
        fits_bit [OF assms(2,4), of j] type_bits_pos [of sys]
      by (cases "j < type_bits sys") (simp_all add: whole_def)
  qed
  with True show ?thesis by (simp add: field_def)
next
  case False
  with assms(5) show ?thesis
    by (auto simp: field_def bit_take_bit_iff bit_drop_bit_eq intro!: bit_eqI)
qed

lemma exclusive_field_at:
  assumes "a < b" "b \<le> type_bits sys" "int b \<noteq> type_max sys"
  shows "exclusive_field sys (int a) (int b) = Ok (field_mask sys a b)"
proof (cases "b < type_bits sys")
  case True
  with assms show ?thesis
    by (simp add: exclusive_field_def int_bits_def Let_def calc_index_def)
next
  case False
  with assms have b: "b = type_bits sys" by simp
  from assms(1,3) show ?thesis
    by (simp add: exclusive_field_def int_bits_def Let_def calc_index_def b)
qed

lemma read_range:
  assumes "a < b" "b \<le> type_bits sys" "int b \<noteq> type_max sys"
  shows "read_at sys fl (DInt n) (DRange (int a) (int b)) =
    Some (Ok (DInt (if whole sys a (b - a) then n else shr (n AND shl sys (2 ^ (b - a) - 1) a) a)))"
proof -
  have r: "read_at sys fl (DInt n) (DRange (int a) (int b)) =
      (case field_mask sys a b of (s, msk) \<Rightarrow> Some (Ok (DInt (shr (n AND msk) s))))"
    by (simp add: read_at_def get_indexed_mut_def exclusive_field_at [OF assms] bit_field_at_def
        target_value_def split: prod.split)
  have w: "whole sys a (b - a) \<longleftrightarrow> b = int_bits sys \<and> a = 0"
    using assms(1,2) by (auto simp: whole_def int_bits_def)
  show ?thesis
    using assms(1) unfolding r w by (simp add: field_mask_def shr_def)
qed

lemma read_range_field:
  assumes "a < b" "b \<le> type_bits sys" "int b \<noteq> type_max sys" "is_signed sys" "fits sys n"
  shows "read_at sys fl (DInt n) (DRange (int a) (int b)) =
    Some (Ok (DInt (if b = type_bits sys then shr n a else field sys a (b - a) n)))"
proof -
  let ?m = "shl sys (2 ^ (b - a) - 1) a"
  have top: "bit n j \<longleftrightarrow> bit n (type_bits sys - 1)" if "type_bits sys \<le> j" for j
    by (rule fits_bit [OF assms(4,5)]) (use that in simp)
  have "bit ?m j \<longleftrightarrow> a \<le> min j (type_bits sys - 1) \<and> min j (type_bits sys - 1) - a < b - a" for j
    by (simp add: shl_def bit_wrap assms(4) bit_push_bit_iff_int bit_ones flip: push_bit_eq_mult)
  then have m: "bit ?m (a + j) \<longleftrightarrow> b = type_bits sys \<or> j < b - a" for j
    using assms(1,2) type_bits_pos [of sys] by (cases "a + j < type_bits sys") auto
  have s: "shr (n AND ?m) a = (if b = type_bits sys then shr n a else take_bit (b - a) (drop_bit a n))"
  proof (cases "b = type_bits sys")
    case True
    with m have "bit ?m (a + j)" for j by simp
    with True show ?thesis by (simp add: bit_eq_iff bit_shr bit_and_iff)
  next
    case False
    then show ?thesis
      by (auto simp: bit_shr bit_and_iff m bit_take_bit_iff bit_drop_bit_eq intro!: bit_eqI)
  qed
  have w: "whole sys a (b - a) \<longleftrightarrow> b = type_bits sys \<and> a = 0"
    using assms(1,2) by (auto simp: whole_def)
  have z: "shr n 0 = n" by (simp add: shr_def)
  show ?thesis
    unfolding read_range [OF assms(1-3)] s field_def w using z by simp
qed

text \<open>
  C22. The bits of an \<open>INT\<close> through every interface. Where the position is in range, counted from the
  least bit or from the top, \<open>get_bits\<close> answers the \<open>k\<close> bits that are there from it on, as a number that
  is not negative unless it is the whole \<open>INT\<close>; \<open>set_bits\<close> writes the low bits of its argument, which
  \<open>get_bits\<close> reads back, and keeps every other bit; the iterator gives the same bits in order; out
  of range all three report the position. Indexing by \<open>a..b\<close> answers the same field below the top
  bit, but keeps the sign of a field that ends at it.
\<close>

theorem bit_fields_exact:
  assumes "is_signed sys" and "fits sys n" and "fits sys w" and "0 < k"
  shows "(case index_at (type_bits sys) start True of
      None \<Rightarrow> let err = Bit_bounds (type_bits sys) start in
        get_bits sys n start k = Err err \<and> set_bits sys n start k w = Err err \<and>
        bit_range sys n start k = Err err
    | Some i \<Rightarrow> let c = clip_bits sys i k in
        get_bits sys n start k = Ok (field sys i c n) \<and>
        (\<exists>n'. set_bits sys n start k w = Ok n' \<and> fits sys n' \<and>
           get_bits sys n' start k = Ok (if whole sys i c then w else take_bit c w) \<and>
           (\<forall>j < type_bits sys. j < i \<or> i + c \<le> j \<longrightarrow> bit n' j = bit n j)) \<and>
        (\<exists>m. bit_range sys n start k = Ok (m, c) \<and>
           bit_range_values m c = map (\<lambda>j. bit n (i + j)) [0..<c])) \<and>
    (\<forall>a b. a < b \<longrightarrow> b \<le> type_bits sys \<longrightarrow> int b \<noteq> type_max sys \<longrightarrow>
       read_at sys fl (DInt n) (DRange (int a) (int b)) =
       Some (Ok (DInt (if b = type_bits sys then shr n a else field sys a (b - a) n))))"
proof (intro conjI allI impI)
  show "case index_at (type_bits sys) start True of
      None \<Rightarrow> let err = Bit_bounds (type_bits sys) start in
        get_bits sys n start k = Err err \<and> set_bits sys n start k w = Err err \<and>
        bit_range sys n start k = Err err
    | Some i \<Rightarrow> let c = clip_bits sys i k in
        get_bits sys n start k = Ok (field sys i c n) \<and>
        (\<exists>n'. set_bits sys n start k w = Ok n' \<and> fits sys n' \<and>
           get_bits sys n' start k = Ok (if whole sys i c then w else take_bit c w) \<and>
           (\<forall>j < type_bits sys. j < i \<or> i + c \<le> j \<longrightarrow> bit n' j = bit n j)) \<and>
        (\<exists>m. bit_range sys n start k = Ok (m, c) \<and>
           bit_range_values m c = map (\<lambda>j. bit n (i + j)) [0..<c])"
  proof (cases "index_at (type_bits sys) start True")
    case None
    with assms(4) show ?thesis
      by (simp add: get_bits_def set_bits_def bit_range_def int_bits_def calc_index_at)
  next
    case (Some i)
    let ?c = "clip_bits sys i k"
    have le: "i + ?c \<le> type_bits sys" by (rule clip_bits_le [OF index_at_less [OF Some]])
    from set_bits_at [OF assms(4) Some assms(1-3)] obtain n' where n':
      "set_bits sys n start k w = Ok n'" "fits sys n'"
      "\<And>j. j < type_bits sys \<Longrightarrow> bit n' j \<longleftrightarrow>
         (if i \<le> j \<and> j < i + ?c then bit w (j - i) else bit n j)" by blast
    have "get_bits sys n' start k = Ok (if whole sys i ?c then w else take_bit ?c w)"
      using get_bits_at [OF assms(4) Some, of n'] field_eqI [OF le assms(1) n'(2) assms(3)] n'(3) le
      by auto
    moreover have "bit_range sys n start k = Ok (shr n i, ?c)"
      using Some assms(4) by (simp add: bit_range_def int_bits_def calc_index_at)
    ultimately show ?thesis
      using Some n' get_bits_at [OF assms(4) Some, of n]
      by (auto simp: Let_def bit_range_values_bits bit_shr)
  qed
qed (rule read_range_field [OF _ _ _ assms(1,2)])

theorem bit_fields_exact_witness:
  "get_bits I64 (- 1) (- 4) 4 = Ok 15 \<and>
   read_at I64 False (DInt (- 1)) (DRange 60 64) = Some (Ok (DInt (- 1)))"
proof -
  have a: "is_signed I64" "fits I64 (- 1)" "fits I64 0" "(0 :: int) < 4"
    "index_at (type_bits I64) (- 4) True = Some 60"
    by (simp_all add: fits_def type_min_def type_max_def index_at_def calc_index_def)
  have s: "shr (- 1) 60 = - 1" by (simp add: shr_def)
  have f: "field I64 60 4 (- 1) = 15"
    by (simp add: field_def whole_def take_bit_minus_one_eq_mask mask_eq_exp_minus_1)
  have "get_bits I64 (- 1) (- 4) 4 = Ok 15"
    using bit_fields_exact [OF a(1-4), of "- 4" False, THEN conjunct1] a(5) f
    by (simp add: Let_def clip_bits_def int_bits_def)
  moreover have "read_at I64 False (DInt (- 1)) (DRange (int 60) (int 64)) = Some (Ok (DInt (- 1)))"
    using bit_fields_exact [OF a(1-4), of "- 4" False, THEN conjunct2, rule_format, of 60 64] s
    by (simp add: type_max_def)
  ultimately show ?thesis by simp
qed

end
