(* ===== verification/Scopes.thy ===== *)
theory Scopes
  imports Prelude
begin

text \<open>
  The variables in scope (\<open>src/types/scope.rs\<close>): three arrays, of values, of names and of the
  aliases a variable is exported under, the last of them only as long as it has to be. The scope is
  shown to be a stack of entries, and a variable the last entry of its name.

  A value is a \<open>Dynamic\<close> (\<open>src/types/dynamic.rs\<close>) as far as access modes go: arrays and object maps hold
  values with modes of their own, everything else, shared cells included, is a value of any type
  with a mode. What the source does with a value alone (\<open>flatten_clone\<close>, \<open>try_cast\<close>,
  \<open>is_read_only\<close>) is an argument.
\<close>

section \<open>The three arrays\<close>

datatype access_mode = ReadWrite | ReadOnly

datatype ('v, 'm) dynamic =
    Plain 'v 'm
  | Array_Value "('v, 'm) dynamic list" 'm
  | Map_Value "(u8 list \<times> ('v, 'm) dynamic) list" 'm

type_synonym 'v cell = "('v, access_mode) dynamic"
type_synonym 'v entry = "u8 list \<times> 'v cell \<times> u8 list list"

record 'v scope =
  sc_values :: "'v cell list"
  sc_names :: "u8 list list"
  sc_aliases :: "u8 list list list"

definition new_scope :: "'v scope" where
  "new_scope = \<lparr>sc_values = [], sc_names = [], sc_aliases = []\<rparr>"

definition clear_scope :: "'v scope \<Rightarrow> 'v scope" where
  "clear_scope s = s\<lparr>sc_names := [], sc_values := [], sc_aliases := []\<rparr>"

definition scope_len :: "'v scope \<Rightarrow> nat" where
  "scope_len s = length (sc_values s)"

definition scope_is_empty :: "'v scope \<Rightarrow> bool" where
  "scope_is_empty s \<longleftrightarrow> sc_values s = []"

text \<open>\<open>Dynamic::access_mode\<close> and \<open>set_access_mode\<close>, which goes into arrays and maps.\<close>

primrec mode_of :: "('v, 'm) dynamic \<Rightarrow> 'm" where
  "mode_of (Plain v access) = access"
| "mode_of (Array_Value a access) = access"
| "mode_of (Map_Value m access) = access"

primrec set_access_mode :: "'m \<Rightarrow> ('v, 'm) dynamic \<Rightarrow> ('v, 'm) dynamic" where
  "set_access_mode typ (Plain v access) = Plain v typ"
| "set_access_mode typ (Array_Value a access) = Array_Value (map (set_access_mode typ) a) typ"
| "set_access_mode typ (Map_Value m access) = Map_Value (map (map_prod id (set_access_mode typ)) m) typ"

text \<open>
  \<open>Clone\<close> of a \<open>Dynamic\<close> clones the items of arrays and maps and is read-write throughout; the clone of a
  scope sets the access mode again.
\<close>

primrec clone_value :: "'v cell \<Rightarrow> 'v cell" where
  "clone_value (Plain v access) = Plain v ReadWrite"
| "clone_value (Array_Value a access) = Array_Value (map clone_value a) ReadWrite"
| "clone_value (Map_Value m access) = Map_Value (map (map_prod id clone_value) m) ReadWrite"

definition clone_scope :: "'v scope \<Rightarrow> 'v scope" where
  "clone_scope s = s\<lparr>sc_values := map (\<lambda>v. set_access_mode (mode_of v) (clone_value v)) (sc_values s)\<rparr>"

text \<open>The entries in order; \<open>chain(repeat(..))\<close> gives the entries past the aliases none.\<close>

definition into_iter :: "'v scope \<Rightarrow> 'v entry list" where
  "into_iter s = map (\<lambda>(v, name, alias). (name, v, alias))
     (zip (sc_values s) (zip (sc_names s) (sc_aliases s @ replicate (length (sc_names s)) [])))"

definition iter_inner :: "('v cell \<Rightarrow> bool) \<Rightarrow> 'v scope \<Rightarrow> (u8 list \<times> bool \<times> 'v cell) list" where
  "iter_inner is_read_only s = map (\<lambda>(name, v). (name, is_read_only v, v)) (zip (sc_names s) (sc_values s))"

definition iter_rev_inner :: "('v cell \<Rightarrow> bool) \<Rightarrow> 'v scope \<Rightarrow> (u8 list \<times> bool \<times> 'v cell) list" where
  "iter_rev_inner is_read_only s =
     map (\<lambda>(name, v). (name, is_read_only v, v)) (zip (rev (sc_names s)) (rev (sc_values s)))"

definition scope_iter ::
  "('v cell \<Rightarrow> bool) \<Rightarrow> ('v cell \<Rightarrow> 'w) \<Rightarrow> 'v scope \<Rightarrow> (u8 list \<times> bool \<times> 'w) list" where
  "scope_iter is_read_only flatten_clone s =
     map (\<lambda>(name, c, v). (name, c, flatten_clone v)) (iter_inner is_read_only s)"

section \<open>Growing and shrinking\<close>

definition push_entry :: "u8 list \<Rightarrow> access_mode \<Rightarrow> 'v cell \<Rightarrow> 'v scope \<Rightarrow> 'v scope" where
  "push_entry name access v s =
     s\<lparr>sc_names := sc_names s @ [name], sc_values := sc_values s @ [set_access_mode access v]\<rparr>"

text \<open>The value of \<open>push\<close> and of those below is what \<open>Dynamic::from\<close> makes of it.\<close>

definition push_var :: "u8 list \<Rightarrow> 'v cell \<Rightarrow> 'v scope \<Rightarrow> 'v scope" where
  "push_var name v s = push_entry name ReadWrite v s"

definition push_dynamic :: "u8 list \<Rightarrow> 'v cell \<Rightarrow> 'v scope \<Rightarrow> 'v scope" where
  "push_dynamic name v s = push_entry name (mode_of v) v s"

definition push_constant :: "u8 list \<Rightarrow> 'v cell \<Rightarrow> 'v scope \<Rightarrow> 'v scope" where
  "push_constant name v s = push_entry name ReadOnly v s"

text \<open>\<open>None\<close> is the panic of an empty scope.\<close>

definition pop_scope :: "'v scope \<Rightarrow> 'v scope option" where
  "pop_scope s = (if sc_names s = [] then None else
     let names = butlast (sc_names s) in
     Some (s\<lparr>sc_names := names, sc_values := take (length names) (sc_values s),
       sc_aliases := take (length names) (sc_aliases s)\<rparr>))"

definition pop_entry :: "'v scope \<Rightarrow> ('v entry option \<times> 'v scope) option" where
  "pop_entry s = (if sc_values s = [] then Some (None, s)
     else if sc_names s = [] then None
     else let vals = butlast (sc_values s); longer = length (sc_aliases s) > length vals in
       Some (Some (last (sc_names s), last (sc_values s), if longer then last (sc_aliases s) else []),
         s\<lparr>sc_values := vals, sc_names := butlast (sc_names s),
           sc_aliases := if longer then butlast (sc_aliases s) else sc_aliases s\<rparr>))"

definition rewind :: "nat \<Rightarrow> 'v scope \<Rightarrow> 'v scope" where
  "rewind n s = s\<lparr>sc_names := take n (sc_names s), sc_values := take n (sc_values s),
     sc_aliases := take n (sc_aliases s)\<rparr>"

text \<open>\<open>drain\<close> of a range that is not there panics.\<close>

definition drain_at :: "nat \<Rightarrow> nat \<Rightarrow> 'a list \<Rightarrow> 'a list option" where
  "drain_at start n xs = (if start + n \<le> length xs then Some (take start xs @ drop (start + n) xs) else None)"

definition remove_range :: "nat \<Rightarrow> nat \<Rightarrow> 'v scope \<Rightarrow> 'v scope option" where
  "remove_range start n s =
     Option.bind (drain_at start n (sc_values s)) (\<lambda>vals.
     Option.bind (drain_at start n (sc_names s)) (\<lambda>names.
     Option.bind (if length (sc_aliases s) > start
         then if length (sc_aliases s) \<le> start + n then Some (take start (sc_aliases s))
              else drain_at start n (sc_aliases s)
         else Some (sc_aliases s)) (\<lambda>aliases.
       Some (s\<lparr>sc_values := vals, sc_names := names, sc_aliases := aliases\<rparr>))))"

definition extend_vars :: "(u8 list \<times> 'v cell) list \<Rightarrow> 'v scope \<Rightarrow> 'v scope" where
  "extend_vars kvs s = foldl (\<lambda>s (name, v). push_entry name ReadWrite v s) s kvs"

definition extend_entries :: "(u8 list \<times> bool \<times> 'v cell) list \<Rightarrow> 'v scope \<Rightarrow> 'v scope" where
  "extend_entries kvs s =
     foldl (\<lambda>s (name, const, v). push_entry name (if const then ReadOnly else ReadWrite) v s) s kvs"

definition scope_from_iter :: "(u8 list \<times> 'v cell) list \<Rightarrow> 'v scope" where
  "scope_from_iter kvs = extend_vars kvs new_scope"

section \<open>Variables by name\<close>

text \<open>\<open>Iterator::position\<close>.\<close>

fun position_of :: "('a \<Rightarrow> bool) \<Rightarrow> 'a list \<Rightarrow> nat option" where
  "position_of p [] = None"
| "position_of p (x # xs) = (if p x then Some 0 else map_option Suc (position_of p xs))"

definition contains_var :: "u8 list \<Rightarrow> 'v scope \<Rightarrow> bool" where
  "contains_var name s \<longleftrightarrow> list_ex (\<lambda>key. name = key) (sc_names s)"

definition search :: "u8 list \<Rightarrow> 'v scope \<Rightarrow> nat option" where
  "search name s =
     map_option (\<lambda>i. scope_len s - 1 - i) (position_of (\<lambda>key. name = key) (rev (sc_names s)))"

definition get_value :: "('v cell \<Rightarrow> 't option) \<Rightarrow> u8 list \<Rightarrow> 'v scope \<Rightarrow> 't option" where
  "get_value cast name s = Option.bind (position_of (\<lambda>key. name = key) (rev (sc_names s)))
     (\<lambda>i. cast (sc_values s ! (scope_len s - 1 - i)))"

definition get_var :: "u8 list \<Rightarrow> 'v scope \<Rightarrow> 'v cell option" where
  "get_var name s = map_option (\<lambda>index. sc_values s ! index) (search name s)"

definition get_entry_by_index :: "nat \<Rightarrow> 'v scope \<Rightarrow> 'v entry option" where
  "get_entry_by_index index s = (if index < length (sc_names s) \<and> index < length (sc_values s) then
     Some (sc_names s ! index, sc_values s ! index,
       if length (sc_aliases s) > index then sc_aliases s ! index else []) else None)"

definition is_constant :: "u8 list \<Rightarrow> 'v scope \<Rightarrow> bool option" where
  "is_constant name s =
     map_option (\<lambda>n. case mode_of (sc_values s ! n) of ReadWrite \<Rightarrow> False | ReadOnly \<Rightarrow> True) (search name s)"

text \<open>\<open>get_mut_raw\<close> lends the cell at the index, or none for a constant; writing through it.\<close>

definition get_mut_raw :: "u8 list \<Rightarrow> 'v scope \<Rightarrow> nat option option" where
  "get_mut_raw name s =
     map_option (\<lambda>n. case mode_of (sc_values s ! n) of ReadWrite \<Rightarrow> Some n | ReadOnly \<Rightarrow> None) (search name s)"

definition get_mut :: "u8 list \<Rightarrow> 'v scope \<Rightarrow> nat option" where
  "get_mut name s =
     Option.bind (search name s) (\<lambda>n. case mode_of (sc_values s ! n) of ReadWrite \<Rightarrow> Some n | ReadOnly \<Rightarrow> None)"

definition write_by_index :: "nat \<Rightarrow> 'v cell \<Rightarrow> 'v scope \<Rightarrow> 'v scope" where
  "write_by_index n v s = s\<lparr>sc_values := (sc_values s)[n := v]\<rparr>"

definition set_or_push :: "u8 list \<Rightarrow> 'v cell \<Rightarrow> 'v scope \<Rightarrow> 'v scope" where
  "set_or_push name v s =
     (case map_option (\<lambda>n. (n, mode_of (sc_values s ! n))) (search name s) of
        None \<Rightarrow> push_var name v s
      | Some (_, ReadOnly) \<Rightarrow> push_var name v s
      | Some (index, ReadWrite) \<Rightarrow> write_by_index index v s)"

text \<open>\<open>None\<close> is the panic of a constant.\<close>

definition set_value :: "u8 list \<Rightarrow> 'v cell \<Rightarrow> 'v scope \<Rightarrow> 'v scope option" where
  "set_value name v s =
     (case map_option (\<lambda>n. (n, mode_of (sc_values s ! n))) (search name s) of
        None \<Rightarrow> Some (push_var name v s)
      | Some (_, ReadOnly) \<Rightarrow> None
      | Some (index, ReadWrite) \<Rightarrow> Some (write_by_index index v s))"

definition remove_nth :: "nat \<Rightarrow> 'a list \<Rightarrow> 'a list" where
  "remove_nth i xs = take i xs @ drop (Suc i) xs"

definition remove_var :: "('v cell \<Rightarrow> 't option) \<Rightarrow> u8 list \<Rightarrow> 'v scope \<Rightarrow> 't option \<times> 'v scope" where
  "remove_var cast name s = (case search name s of
       None \<Rightarrow> (None, s)
     | Some index \<Rightarrow> (cast (sc_values s ! index),
         s\<lparr>sc_names := remove_nth index (sc_names s),
           sc_aliases := if length (sc_aliases s) > index then remove_nth index (sc_aliases s) else sc_aliases s,
           sc_values := remove_nth index (sc_values s)\<rparr>))"

text \<open>\<open>Vec::resize\<close> with the default.\<close>

definition resize :: "nat \<Rightarrow> 'a list list \<Rightarrow> 'a list list" where
  "resize n xs = take n xs @ replicate (n - length xs) []"

definition add_alias_by_index :: "nat \<Rightarrow> u8 list \<Rightarrow> 'v scope \<Rightarrow> 'v scope" where
  "add_alias_by_index index alias s =
     (let aliases = if length (sc_aliases s) \<le> index then resize (index + 1) (sc_aliases s) else sc_aliases s;
          a = aliases ! index
      in s\<lparr>sc_aliases := aliases[index := if alias \<in> set a then a else a @ [alias]]\<rparr>)"

definition set_alias :: "u8 list \<Rightarrow> u8 list \<Rightarrow> 'v scope \<Rightarrow> 'v scope" where
  "set_alias name alias s = (case search name s of
       None \<Rightarrow> s
     | Some index \<Rightarrow> add_alias_by_index index (if alias = [] then name else alias) s)"

definition clone_visible_step :: "'v scope \<Rightarrow> nat \<times> u8 list \<Rightarrow> 'v scope \<Rightarrow> 'v scope" where
  "clone_visible_step s = (\<lambda>(i, name) scope.
     if name \<in> set (sc_names scope) then scope
     else let index = scope_len s - 1 - i; v1 = sc_values s ! index;
              scope = push_entry name (mode_of v1) (clone_value v1) scope
       in if length (sc_aliases s) > index
          then scope\<lparr>sc_aliases := resize (scope_len scope - 1) (sc_aliases scope) @ [sc_aliases s ! index]\<rparr>
          else scope)"

definition clone_visible :: "'v scope \<Rightarrow> 'v scope" where
  "clone_visible s = fold (clone_visible_step s) (enumerate 0 (rev (sc_names s))) new_scope"


section \<open>Access modes\<close>

text \<open>Setting the mode changes the modes only, all of them; a clone with its mode set keeps the outer one.\<close>

lemma not_ReadWrite [simp]: "access \<noteq> ReadWrite \<longleftrightarrow> access = ReadOnly"
  by (cases access) simp_all

lemma set_access_mode_map: "set_access_mode typ v = map_dynamic id (\<lambda>_. typ) v"
  by (induction v) (auto simp: map_prod_def id_def)

lemma set_access_mode_again: "set_access_mode a (set_access_mode b v) = set_access_mode a v"
  by (simp add: set_access_mode_map dynamic.map_comp comp_def id_def)

lemma clone_value_mode: "clone_value v = set_access_mode ReadWrite v"
  by (induction v) (auto simp: map_prod_def)

lemma mode_set_access_mode [simp]: "mode_of (set_access_mode a v) = a"
  by (cases v) simp_all

lemma modes_set_access_mode: "set2_dynamic (set_access_mode a v) = {a}"
proof (induction v)
  case (Map_Value m access)
  then show ?case by (fastforce simp: set_access_mode_map)
qed auto

section \<open>A stack of entries\<close>

text \<open>The values and the names are of the same length, the aliases of no more.\<close>

definition well_formed :: "'v scope \<Rightarrow> bool" where
  "well_formed s \<longleftrightarrow> length (sc_names s) = length (sc_values s) \<and> length (sc_aliases s) \<le> length (sc_values s)"

definition alias_at :: "'v scope \<Rightarrow> nat \<Rightarrow> u8 list list" where
  "alias_at s i = (if i < length (sc_aliases s) then sc_aliases s ! i else [])"

definition entry_name :: "'v entry \<Rightarrow> u8 list" where
  "entry_name e = fst e"

definition entry_value :: "'v entry \<Rightarrow> 'v cell" where
  "entry_value e = fst (snd e)"

text \<open>The variable a name stands for is its last entry.\<close>

definition innermost :: "'v entry list \<Rightarrow> u8 list \<Rightarrow> nat \<Rightarrow> bool" where
  "innermost E name n \<longleftrightarrow> n < length E \<and> entry_name (E ! n) = name \<and>
     (\<forall>m \<in> {n<..<length E}. entry_name (E ! m) \<noteq> name)"

lemma length_into_iter: "well_formed s \<Longrightarrow> length (into_iter s) = scope_len s"
  by (simp add: well_formed_def into_iter_def scope_len_def)

lemma into_iter_nth:
  "well_formed s \<Longrightarrow> i < scope_len s \<Longrightarrow> into_iter s ! i = (sc_names s ! i, sc_values s ! i, alias_at s i)"
  by (simp add: well_formed_def into_iter_def scope_len_def alias_at_def nth_append)

lemma into_iter_eqI:
  assumes "well_formed s" "scope_len s = length E"
    and "\<And>i. i < length E \<Longrightarrow> E ! i = (sc_names s ! i, sc_values s ! i, alias_at s i)"
  shows "into_iter s = E"
  using assms by (intro nth_equalityI) (simp_all add: length_into_iter into_iter_nth)

lemma innermost_unique: "innermost E name m \<Longrightarrow> innermost E name n \<Longrightarrow> m = n"
  by (cases m n rule: linorder_cases) (auto simp: innermost_def)

lemma position_rev:
  "map_option (\<lambda>i. length xs - 1 - i) (position_of p (rev xs)) = Some n \<longleftrightarrow>
     n < length xs \<and> p (xs ! n) \<and> (\<forall>m. n < m \<longrightarrow> m < length xs \<longrightarrow> \<not> p (xs ! m))"
proof (induction xs arbitrary: n rule: rev_induct)
  case (snoc x xs)
  show ?case
  proof (cases "p x")
    case True
    then show ?thesis by (auto simp: nth_append less_Suc_eq)
  next
    case False
    have "map_option (\<lambda>i. length (xs @ [x]) - 1 - i) (position_of p (rev (xs @ [x]))) =
        map_option (\<lambda>i. length xs - 1 - i) (position_of p (rev xs))"
      using False by (simp add: option.map_comp comp_def)
    then show ?thesis
      unfolding \<open>map_option _ (position_of p (rev (xs @ [x]))) = _\<close> snoc.IH
      using False by (auto simp: nth_append less_Suc_eq)
  qed
qed simp

lemma position_of_None: "position_of p xs = None \<longleftrightarrow> (\<forall>x \<in> set xs. \<not> p x)"
  by (induction xs) auto

lemma into_iter_names: "well_formed s \<Longrightarrow> map entry_name (into_iter s) = sc_names s"
  by (rule nth_equalityI)
    (simp_all add: length_into_iter into_iter_nth entry_name_def well_formed_def scope_len_def)

lemma innermost_names:
  "innermost E name n \<longleftrightarrow> n < length E \<and> map entry_name E ! n = name \<and>
     (\<forall>m. n < m \<longrightarrow> m < length E \<longrightarrow> map entry_name E ! m \<noteq> name)"
  by (auto simp: innermost_def)

lemma search_innermost:
  assumes "well_formed s"
  shows "search name s = Some n \<longleftrightarrow> innermost (into_iter s) name n"
proof -
  have "scope_len s = length (sc_names s)" using assms by (simp add: well_formed_def scope_len_def)
  then show ?thesis
    using position_rev [where xs = "sc_names s" and p = "\<lambda>key. name = key" and n = n]
    unfolding innermost_names into_iter_names [OF assms] search_def length_into_iter [OF assms]
    by metis
qed

lemma search_None:
  assumes "well_formed s"
  shows "search name s = None \<longleftrightarrow> (\<forall>n. \<not> innermost (into_iter s) name n)"
  using search_innermost [OF assms, of name] by (cases "search name s") auto

lemma search_less: "well_formed s \<Longrightarrow> search name s = Some n \<Longrightarrow> n < scope_len s"
  by (simp add: search_innermost innermost_def length_into_iter)

lemmas scope_simps = well_formed_def scope_len_def alias_at_def

text \<open>Each change of the arrays as a change of the stack.\<close>

lemma push_entry_stack:
  assumes "well_formed s"
  shows "well_formed (push_entry name a v s)"
    and "into_iter (push_entry name a v s) = into_iter s @ [(name, set_access_mode a v, [])]"
proof -
  show wf: "well_formed (push_entry name a v s)"
    using assms by (simp add: scope_simps push_entry_def)
  show "into_iter (push_entry name a v s) = into_iter s @ [(name, set_access_mode a v, [])]"
    using assms by (intro into_iter_eqI [OF wf])
      (auto simp: length_into_iter into_iter_nth nth_append push_entry_def scope_simps less_Suc_eq)
qed

lemma rewind_stack:
  assumes "well_formed s"
  shows "well_formed (rewind n s)" and "into_iter (rewind n s) = take n (into_iter s)"
proof -
  show wf: "well_formed (rewind n s)" using assms by (auto simp: scope_simps rewind_def)
  show "into_iter (rewind n s) = take n (into_iter s)"
    using assms by (intro into_iter_eqI [OF wf])
      (auto simp: length_into_iter into_iter_nth rewind_def scope_simps)
qed

lemma pop_rewind:
  assumes "well_formed s" "into_iter s \<noteq> []"
  shows "pop_scope s = Some (rewind (scope_len s - 1) s)"
proof -
  have "sc_names s \<noteq> []"
    using assms length_into_iter [OF assms(1)] by (auto simp: scope_simps)
  with assms(1) show ?thesis
    by (simp add: pop_scope_def rewind_def scope_simps butlast_conv_take Let_def)
qed

lemma write_stack:
  assumes "well_formed s" "n < scope_len s"
  shows "well_formed (write_by_index n v s)"
    and "into_iter (write_by_index n v s) =
      (into_iter s)[n := (entry_name (into_iter s ! n), v, snd (snd (into_iter s ! n)))]"
proof -
  show wf: "well_formed (write_by_index n v s)"
    using assms by (simp add: scope_simps write_by_index_def)
  show "into_iter (write_by_index n v s) =
      (into_iter s)[n := (entry_name (into_iter s ! n), v, snd (snd (into_iter s ! n)))]"
    using assms by (intro into_iter_eqI [OF wf])
      (auto simp: length_into_iter into_iter_nth write_by_index_def scope_simps nth_list_update entry_name_def)
qed

definition cut :: "nat \<Rightarrow> nat \<Rightarrow> 'a list \<Rightarrow> 'a list" where
  "cut start n xs = take start xs @ drop (start + n) xs"

lemma length_cut: "start + n \<le> length xs \<Longrightarrow> length (cut start n xs) = length xs - n"
  by (simp add: cut_def)

lemma nth_cut:
  "start + n \<le> length xs \<Longrightarrow> i < length xs - n \<Longrightarrow>
    cut start n xs ! i = xs ! (if i < start then i else i + n)"
  by (auto simp: cut_def nth_append add.commute intro!: arg_cong [where f = "nth xs"])

lemma remove_nth_cut: "remove_nth i xs = cut i 1 xs"
  by (simp add: remove_nth_def cut_def)

lemma remove_range_cut:
  "remove_range start n s = (if start + n \<le> length (sc_values s) \<and> start + n \<le> length (sc_names s)
     then Some (s\<lparr>sc_values := cut start n (sc_values s), sc_names := cut start n (sc_names s),
       sc_aliases := if start + n < length (sc_aliases s) then cut start n (sc_aliases s)
         else take start (sc_aliases s)\<rparr>) else None)"
  by (auto simp: remove_range_def drain_at_def cut_def)

lemma remove_range_stack:
  assumes "well_formed s" "start + n \<le> scope_len s"
  shows "\<exists>s'. remove_range start n s = Some s' \<and> well_formed s' \<and> into_iter s' = cut start n (into_iter s)"
proof -
  let ?s = "s\<lparr>sc_values := cut start n (sc_values s), sc_names := cut start n (sc_names s),
       sc_aliases := if start + n < length (sc_aliases s) then cut start n (sc_aliases s)
         else take start (sc_aliases s)\<rparr>"
  have wf: "well_formed ?s"
    using assms by (auto simp: scope_simps length_cut)
  have "into_iter ?s = cut start n (into_iter s)"
    using assms by (intro into_iter_eqI [OF wf])
      (auto simp: length_into_iter into_iter_nth scope_simps length_cut nth_cut)
  with wf assms show ?thesis by (auto simp: remove_range_cut scope_simps)
qed

lemma remove_var_range:
  assumes "well_formed s" "search name s = Some n"
  shows "remove_var cast name s = (cast (sc_values s ! n), the (remove_range n 1 s))"
  using assms search_less [OF assms]
  by (auto simp: remove_var_def remove_nth_cut remove_range_cut scope_simps cut_def)

lemma remove_var_stack:
  assumes "well_formed s"
  shows "case search name s of
      None \<Rightarrow> remove_var cast name s = (None, s)
    | Some j \<Rightarrow> fst (remove_var cast name s) = cast (entry_value (into_iter s ! j)) \<and>
        well_formed (snd (remove_var cast name s)) \<and>
        into_iter (snd (remove_var cast name s)) = take j (into_iter s) @ drop (Suc j) (into_iter s)"
proof (cases "search name s")
  case None
  then show ?thesis by (simp add: remove_var_def)
next
  case (Some j)
  from search_less [OF assms Some] have "j + 1 \<le> scope_len s" by simp
  from remove_range_stack [OF assms this] obtain s' where s': "remove_range j 1 s = Some s'"
    "well_formed s'" "into_iter s' = cut j 1 (into_iter s)" by blast
  have "remove_var cast name s = (cast (sc_values s ! j), s')"
    using remove_var_range [OF assms Some] s'(1) by simp
  with s' show ?thesis
    using Some into_iter_nth [OF assms search_less [OF assms Some]] by (simp add: entry_value_def cut_def)
qed

lemma add_alias_stack:
  assumes "well_formed s" "n < scope_len s"
  shows "well_formed (add_alias_by_index n alias s)"
    and "into_iter (add_alias_by_index n alias s) =
      (case into_iter s ! n of (name, v, a) \<Rightarrow>
        (into_iter s)[n := (name, v, if alias \<in> set a then a else a @ [alias])])"
proof -
  show wf: "well_formed (add_alias_by_index n alias s)"
    using assms by (auto simp: scope_simps add_alias_by_index_def resize_def Let_def)
  show "into_iter (add_alias_by_index n alias s) =
      (case into_iter s ! n of (name, v, a) \<Rightarrow>
        (into_iter s)[n := (name, v, if alias \<in> set a then a else a @ [alias])])"
    using assms by (intro into_iter_eqI [OF wf])
      (auto simp: length_into_iter into_iter_nth scope_simps add_alias_by_index_def resize_def Let_def
        nth_list_update nth_append)
qed

lemma pop_entry_stack:
  assumes "well_formed s"
  shows "pop_entry s = (if into_iter s = [] then Some (None, s)
    else Some (Some (last (into_iter s)), rewind (scope_len s - 1) s))"
proof (cases "sc_values s = []")
  case True
  then show ?thesis by (simp add: pop_entry_def into_iter_def)
next
  case False
  let ?n = "length (sc_values s) - 1"
  have names: "length (sc_names s) = length (sc_values s)" "length (sc_aliases s) \<le> length (sc_values s)"
    and n: "?n < length (sc_values s)"
    using assms False by (simp_all add: scope_simps)
  then have ne: "sc_names s \<noteq> []" "into_iter s \<noteq> []"
    using length_into_iter [OF assms] by (auto simp: scope_len_def)
  have full: "length (sc_aliases s) = length (sc_values s)" if "?n < length (sc_aliases s)"
    using that names(2) n by linarith
  have aliases: "(if ?n < length (sc_aliases s) then last (sc_aliases s) else []) = alias_at s ?n"
    "(if ?n < length (sc_aliases s) then butlast (sc_aliases s) else sc_aliases s) = take ?n (sc_aliases s)"
    using full n last_conv_nth [of "sc_aliases s"]
    by (cases "sc_aliases s = []"; force simp: alias_at_def butlast_conv_take)+
  have "last (into_iter s) = (last (sc_names s), last (sc_values s), alias_at s ?n)"
    using last_conv_nth [OF ne(2)] last_conv_nth [OF ne(1)] last_conv_nth [OF False] n names(1)
    by (simp add: length_into_iter [OF assms] into_iter_nth [OF assms] scope_len_def)
  with aliases False ne show ?thesis
    by (simp add: pop_entry_def rewind_def scope_len_def names(1) butlast_conv_take Let_def)
qed

definition add_once :: "'a \<Rightarrow> 'a list \<Rightarrow> 'a list" where
  "add_once x xs = (if x \<in> set xs then xs else xs @ [x])"

lemma set_alias_stack:
  assumes "well_formed s"
  shows "well_formed (set_alias name alias s)"
    and "into_iter (set_alias name alias s) = (case search name s of
        None \<Rightarrow> into_iter s
      | Some j \<Rightarrow> (into_iter s)[j := (name, entry_value (into_iter s ! j),
          add_once (if alias = [] then name else alias) (snd (snd (into_iter s ! j))))])"
proof -
  have name: "fst (into_iter s ! j) = name" if "search name s = Some j" for j
    using that search_innermost [OF assms] by (simp add: innermost_def entry_name_def)
  show "well_formed (set_alias name alias s)"
    using assms search_less [OF assms] add_alias_stack(1) [OF assms]
    by (auto simp: set_alias_def split: option.split)
  show "into_iter (set_alias name alias s) = (case search name s of
        None \<Rightarrow> into_iter s
      | Some j \<Rightarrow> (into_iter s)[j := (name, entry_value (into_iter s ! j),
          add_once (if alias = [] then name else alias) (snd (snd (into_iter s ! j))))])"
    using search_less [OF assms] name
    by (auto simp: set_alias_def add_alias_stack(2) [OF assms] entry_value_def add_once_def
        split: option.split prod.split)
qed

text \<open>An entry in a clone: its value has the access mode of the whole in every part.\<close>

definition evened :: "'v entry \<Rightarrow> 'v entry" where
  "evened = (\<lambda>(name, v, alias). (name, set_access_mode (mode_of v) v, alias))"

lemma evened_name [simp]: "entry_name (evened e) = entry_name e"
  by (simp add: evened_def entry_name_def split: prod.split)

lemma evened_value: "entry_value (evened e) = set_access_mode (mode_of (entry_value e)) (entry_value e)"
  by (simp add: evened_def entry_value_def split: prod.split)

lemma clone_scope_stack:
  assumes "well_formed s"
  shows "well_formed (clone_scope s)" and "into_iter (clone_scope s) = map evened (into_iter s)"
proof -
  show wf: "well_formed (clone_scope s)" using assms by (simp add: scope_simps clone_scope_def)
  show "into_iter (clone_scope s) = map evened (into_iter s)"
    using assms by (intro into_iter_eqI [OF wf])
      (auto simp: length_into_iter into_iter_nth clone_scope_def scope_simps evened_def
        clone_value_mode set_access_mode_again)
qed

section \<open>Only what is visible\<close>

definition visible :: "'v entry list \<Rightarrow> nat \<Rightarrow> 'v entry list" where
  "visible E k = map ((!) E) (filter (\<lambda>n. innermost E (entry_name (E ! n)) n) (rev [length E - k..<length E]))"

lemma innermost_ex: "n < length E \<Longrightarrow> \<exists>m \<ge> n. innermost E (entry_name (E ! n)) m"
proof (induction "length E - n" arbitrary: n rule: less_induct)
  case less
  show ?case
  proof (cases "innermost E (entry_name (E ! n)) n")
    case False
    with less(2) obtain m where m: "n < m" "m < length E" "entry_name (E ! m) = entry_name (E ! n)"
      by (auto simp: innermost_def)
    from m(1,2) have "length E - m < length E - n" by linarith
    from less(1) [OF this m(2)] m show ?thesis by (metis less_imp_le order.trans)
  qed auto
qed

lemma visible_names:
  assumes "k < length E"
  shows "name \<in> entry_name ` set (visible E k) \<longleftrightarrow>
    (\<exists>m. length E - k \<le> m \<and> m < length E \<and> entry_name (E ! m) = name)"
proof
  assume "\<exists>m. length E - k \<le> m \<and> m < length E \<and> entry_name (E ! m) = name"
  then obtain m where m: "length E - k \<le> m" "m < length E" "entry_name (E ! m) = name" by blast
  with innermost_ex [of m E] obtain l where "m \<le> l" "innermost E name l" by auto
  with m have "E ! l \<in> set (visible E k)" "entry_name (E ! l) = name"
    by (auto simp: visible_def innermost_def)
  then show "name \<in> entry_name ` set (visible E k)" by blast
qed (auto simp: visible_def)

lemma visible_Suc:
  assumes "k < length E"
  shows "visible E (Suc k) = visible E k @
    (if entry_name (E ! (length E - Suc k)) \<in> entry_name ` set (visible E k) then [] else [E ! (length E - Suc k)])"
proof -
  let ?n = "length E - Suc k"
  have "[?n..<length E] = ?n # [length E - k..<length E]"
    using assms by (subst upt_conv_Cons) (auto simp: Suc_diff_Suc)
  moreover have "innermost E (entry_name (E ! ?n)) ?n \<longleftrightarrow>
      entry_name (E ! ?n) \<notin> entry_name ` set (visible E k)"
    using assms unfolding visible_names [OF assms] by (auto simp: innermost_def)
  ultimately show ?thesis by (simp add: visible_def)
qed

lemma push_alias_stack:
  fixes s :: "'v scope" and name :: "u8 list" and a :: access_mode and v :: "'v cell"
    and exported :: "u8 list list"
  assumes "well_formed s"
  defines "c \<equiv> push_entry name a v s"
  defines "c' \<equiv> c\<lparr>sc_aliases := resize (scope_len c - 1) (sc_aliases c) @ [exported]\<rparr>"
  shows "well_formed c'" and "into_iter c' = into_iter s @ [(name, set_access_mode a v, exported)]"
proof -
  show wf: "well_formed c'"
    using assms(1) by (simp add: c'_def c_def scope_simps push_entry_def resize_def)
  show "into_iter c' = into_iter s @ [(name, set_access_mode a v, exported)]"
    using assms(1) by (intro into_iter_eqI [OF wf])
      (auto simp: c'_def c_def length_into_iter into_iter_nth nth_append push_entry_def scope_simps
        resize_def less_Suc_eq)
qed

lemma clone_visible_step_stack:
  fixes s c :: "'v scope" and k :: nat
  assumes "well_formed s" "k < scope_len s" "well_formed c"
    and "into_iter c = map evened (visible (into_iter s) k)"
  defines "c' \<equiv> clone_visible_step s (k, sc_names s ! (scope_len s - 1 - k)) c"
  shows "well_formed c' \<and> into_iter c' = map evened (visible (into_iter s) (Suc k))"
proof -
  let ?n = "scope_len s - 1 - k"
  have n: "?n < scope_len s" "length (into_iter s) - Suc k = ?n"
    using assms(2) by (simp_all add: length_into_iter [OF assms(1)])
  have e: "into_iter s ! ?n = (sc_names s ! ?n, sc_values s ! ?n, alias_at s ?n)"
    by (rule into_iter_nth [OF assms(1) n(1)])
  have names: "set (sc_names c) = entry_name ` set (visible (into_iter s) k)"
    unfolding into_iter_names [OF assms(3), symmetric] assms(4) by (simp add: image_image)
  have keep: "set_access_mode a (clone_value v) = set_access_mode a v" for a and v :: "'v cell"
    by (simp add: clone_value_mode set_access_mode_again)
  have "map evened (visible (into_iter s) (Suc k)) = into_iter c @
      (if sc_names s ! ?n \<in> set (sc_names c) then [] else [evened (into_iter s ! ?n)])"
    using visible_Suc [of k "into_iter s"] assms(2,4) n(2) names e
    by (simp add: length_into_iter [OF assms(1)] entry_name_def)
  with push_entry_stack [OF assms(3)] push_alias_stack [OF assms(3)] assms(3) e keep show ?thesis
    by (auto simp: c'_def clone_visible_step_def Let_def alias_at_def evened_def)
qed

lemma clone_visible_stack:
  assumes "well_formed s"
  shows "well_formed (clone_visible s) \<and> into_iter (clone_visible s) = map evened (visible (into_iter s) (scope_len s))"
proof -
  let ?xs = "map (\<lambda>k. (k, sc_names s ! (scope_len s - 1 - k))) [0..<scope_len s]"
  have "enumerate 0 (rev (sc_names s)) = ?xs"
    using assms by (intro nth_equalityI)
      (auto simp: scope_simps nth_enumerate_eq rev_nth)
  moreover {
  have "k \<le> scope_len s \<Longrightarrow> well_formed (fold (clone_visible_step s) (take k ?xs) new_scope) \<and>
      into_iter (fold (clone_visible_step s) (take k ?xs) new_scope) = map evened (visible (into_iter s) k)" for k
  proof (induction k)
    case 0
    then show ?case by (simp add: scope_simps new_scope_def into_iter_def visible_def)
  next
    case (Suc k)
    then show ?case
      using clone_visible_step_stack [OF assms, of k]
      by (simp add: take_Suc_conv_app_nth)
  qed
  from this [of "scope_len s"] have "well_formed (fold (clone_visible_step s) ?xs new_scope) \<and>
      into_iter (fold (clone_visible_step s) ?xs new_scope) = map evened (visible (into_iter s) (scope_len s))" by simp
  }
  ultimately show ?thesis by (simp add: clone_visible_def)
qed

section \<open>Blocks\<close>

text \<open>
  What a block of statements relies on: whatever it does to the scope only adds entries behind those
  that were there, as far as their keys go, so going back to the length at its start leaves them.
\<close>

locale block_scope =
  fixes good :: "'s \<Rightarrow> bool" and keys_of :: "'s \<Rightarrow> 'k list" and act :: "'a \<Rightarrow> 's \<Rightarrow> 's"
    and back_to :: "nat \<Rightarrow> 's \<Rightarrow> 's"
  assumes act_good: "good s \<Longrightarrow> good (act a s)"
    and act_grows: "good s \<Longrightarrow> \<exists>ks. keys_of (act a s) = keys_of s @ ks"
    and back_keys: "good s \<Longrightarrow> keys_of (back_to n s) = take n (keys_of s)"
begin

lemma block_grows: "good s \<Longrightarrow> good (fold act as s) \<and> (\<exists>ks. keys_of (fold act as s) = keys_of s @ ks)"
proof (induction as arbitrary: s)
  case (Cons a as)
  from act_grows [OF Cons.prems] obtain ks where "keys_of (act a s) = keys_of s @ ks" by blast
  with Cons.IH [OF act_good [OF Cons.prems, of a]] show ?case by auto
qed simp

lemma block_leaves: "good s \<Longrightarrow> keys_of (back_to (length (keys_of s)) (fold act as s)) = keys_of s"
  using block_grows [of s as] by (auto simp: back_keys)

end

text \<open>What statements do to a scope, over the operations above.\<close>

datatype 'v scope_action =
  Declare "u8 list" access_mode "'v cell" | Set_or_push "u8 list" "'v cell" |
  Assign_var "u8 list" "'v cell" | Export_as "u8 list" "u8 list"

fun run_action :: "'v scope_action \<Rightarrow> 'v scope \<Rightarrow> 'v scope" where
  "run_action (Declare name a v) s = push_entry name a v s"
| "run_action (Set_or_push name v) s = set_or_push name v s"
| "run_action (Assign_var name v) s =
     (case get_mut name s of None \<Rightarrow> s | Some n \<Rightarrow> write_by_index n v s)"
| "run_action (Export_as name alias) s = set_alias name alias s"

lemma set_or_push_cases:
  assumes "well_formed s"
  shows "set_or_push name v s =
    (case search name s of
       None \<Rightarrow> push_entry name ReadWrite v s
     | Some n \<Rightarrow> if mode_of (sc_values s ! n) = ReadWrite then write_by_index n v s else push_entry name ReadWrite v s)"
  by (simp add: set_or_push_def push_var_def split: option.split access_mode.split)

lemma names_after:
  "sc_names (push_entry name a v s) = sc_names s @ [name]"
  "sc_names (write_by_index i v s) = sc_names s"
  "sc_names (add_alias_by_index i alias s) = sc_names s"
  "sc_names (rewind n s) = take n (sc_names s)"
  by (simp_all add: push_entry_def write_by_index_def add_alias_by_index_def rewind_def Let_def)

lemma get_mut_search: "get_mut name s = Some n \<Longrightarrow> search name s = Some n"
  by (auto simp: get_mut_def split: option.splits access_mode.splits bind_splits)

lemma run_action_names:
  assumes "well_formed s"
  shows "well_formed (run_action a s) \<and> (\<exists>ks. sc_names (run_action a s) = sc_names s @ ks)"
  using assms search_less [OF assms]
  by (cases a)
    (auto simp: set_or_push_cases set_alias_def names_after push_entry_stack(1) write_stack(1) add_alias_stack(1)
      split: option.splits dest: get_mut_search)

interpretation scopes: block_scope well_formed sc_names run_action rewind
  by unfold_locales (auto simp: run_action_names rewind_def)

section \<open>The scope is a stack\<close>

text \<open>
  C23. A scope, kept as three arrays, is a stack of entries (name, value, aliases), and each of these
  operations is given on it. \<open>push_entry\<close> appends an entry without aliases whose value has the access
  mode asked for, in every part of an array or map; \<open>pop_scope\<close>, which panics on an empty scope,
  \<open>pop_entry\<close> and \<open>rewind\<close> cut the stack. A search finds the last entry of a name; \<open>get_var\<close>
  reads it, \<open>get_mut\<close> lends it unless it is constant, \<open>is_constant\<close> tells. \<open>set_or_push\<close> replaces the value of that
  entry, or pushes a read-write entry when there is none or it is constant, where \<open>set_value\<close> panics.
  \<open>set_alias\<close> adds the alias, or the name for an empty one, to that entry if it is not there yet.
  \<open>remove_var\<close> and \<open>remove_range\<close> take entries out with their aliases; a clone of the scope has the
  same entries, with the access mode of each value in all of its parts. A block that declares,
  assigns and exports variables leaves the names as they were when it rewinds.
\<close>

theorem scope_is_stack:
  assumes "well_formed s"
  shows "(let E = into_iter s; found = search name s in
    (well_formed (push_entry name a v s) \<and>
      into_iter (push_entry name a v s) = E @ [(name, map_dynamic id (\<lambda>_. a) v, [])]) \<and>
    pop_scope s = (if E = [] then None else Some (rewind (length E - 1) s)) \<and>
    pop_entry s = (if E = [] then Some (None, s) else Some (Some (last E), rewind (length E - 1) s)) \<and>
    (well_formed (rewind n s) \<and> into_iter (rewind n s) = take n E) \<and>
    (found = Some i \<longleftrightarrow> innermost E name i) \<and>
    get_var name s = map_option (\<lambda>j. entry_value (E ! j)) found \<and>
    is_constant name s = map_option (\<lambda>j. mode_of (entry_value (E ! j)) = ReadOnly) found \<and>
    get_mut name s = (if is_constant name s = Some False then found else None) \<and>
    (well_formed (set_or_push name v s) \<and> into_iter (set_or_push name v s) =
      (if is_constant name s = Some False then E[the found := (name, v, snd (snd (E ! the found)))]
       else E @ [(name, map_dynamic id (\<lambda>_. ReadWrite) v, [])])) \<and>
    set_value name v s = (if is_constant name s = Some True then None else Some (set_or_push name v s)) \<and>
    (well_formed (set_alias name alias s) \<and> into_iter (set_alias name alias s) = (case found of
        None \<Rightarrow> E
      | Some j \<Rightarrow> E[j := (name, entry_value (E ! j),
          add_once (if alias = [] then name else alias) (snd (snd (E ! j))))])) \<and>
    (case found of
       None \<Rightarrow> remove_var cast name s = (None, s)
     | Some j \<Rightarrow> fst (remove_var cast name s) = cast (entry_value (E ! j)) \<and>
         well_formed (snd (remove_var cast name s)) \<and>
         into_iter (snd (remove_var cast name s)) = take j E @ drop (Suc j) E) \<and>
    (start + k \<le> length E \<longrightarrow> (\<exists>s'. remove_range start k s = Some s' \<and> well_formed s' \<and>
      into_iter s' = take start E @ drop (start + k) E)) \<and>
    (well_formed (clone_scope s) \<and> into_iter (clone_scope s) = map evened E) \<and>
    sc_names (rewind (length E) (fold run_action as s)) = map entry_name E)"
  unfolding Let_def
proof (intro conjI impI)
  let ?E = "into_iter s" let ?found = "search name s"
  note wf = assms and len = length_into_iter [OF assms]
  have value_at: "entry_value (?E ! j) = sc_values s ! j" if "j < scope_len s" for j
    using into_iter_nth [OF wf that] by (simp add: entry_value_def)
  have name_at: "entry_name (?E ! j) = name" if "search name s = Some j" for j
    using that search_innermost [OF wf] by (simp add: innermost_def)
  have const: "is_constant name s = map_option (\<lambda>j. mode_of (sc_values s ! j) = ReadOnly) ?found"
    by (auto simp: is_constant_def split: access_mode.split intro!: option.map_cong)
  show "well_formed (push_entry name a v s)"
    "into_iter (push_entry name a v s) = ?E @ [(name, map_dynamic id (\<lambda>_. a) v, [])]"
    using push_entry_stack [OF wf] by (simp_all add: set_access_mode_map)
  show "pop_scope s = (if ?E = [] then None else Some (rewind (length ?E - 1) s))"
  proof (cases "?E = []")
    case True
    then have "sc_names s = []" using wf len by (simp add: scope_simps)
    with True show ?thesis by (simp add: pop_scope_def)
  qed (use pop_rewind [OF wf] len in simp)
  show "pop_entry s = (if ?E = [] then Some (None, s) else Some (Some (last ?E), rewind (length ?E - 1) s))"
    using pop_entry_stack [OF wf] len by simp
  show "well_formed (rewind n s)" "into_iter (rewind n s) = take n ?E"
    by (rule rewind_stack [OF wf])+
  show "?found = Some i \<longleftrightarrow> innermost ?E name i" by (rule search_innermost [OF wf])
  show "get_var name s = map_option (\<lambda>j. entry_value (?E ! j)) ?found"
    using search_less [OF wf] value_at by (auto simp: get_var_def intro!: option.map_cong)
  show "is_constant name s = map_option (\<lambda>j. mode_of (entry_value (?E ! j)) = ReadOnly) ?found"
    using search_less [OF wf] value_at by (auto simp: const intro!: option.map_cong)
  show "get_mut name s = (if is_constant name s = Some False then ?found else None)"
    by (cases ?found) (auto simp: get_mut_def const split: access_mode.split)
  show "well_formed (set_or_push name v s)"
    using push_entry_stack(1) [OF wf] write_stack(1) [OF wf] search_less [OF wf]
    by (auto simp: set_or_push_cases [OF wf] split: option.split)
  show "into_iter (set_or_push name v s) =
      (if is_constant name s = Some False then ?E[the ?found := (name, v, snd (snd (?E ! the ?found)))]
       else ?E @ [(name, map_dynamic id (\<lambda>_. ReadWrite) v, [])])"
    using push_entry_stack(2) [OF wf] write_stack(2) [OF wf] search_less [OF wf] name_at
    by (auto simp: set_or_push_cases [OF wf] set_access_mode_map const split: option.split access_mode.split)
  show "set_value name v s = (if is_constant name s = Some True then None else Some (set_or_push name v s))"
    by (auto simp: set_value_def set_or_push_def const split: option.split access_mode.split)
  show "well_formed (set_alias name alias s)" "into_iter (set_alias name alias s) = (case ?found of
        None \<Rightarrow> ?E
      | Some j \<Rightarrow> ?E[j := (name, entry_value (?E ! j),
          add_once (if alias = [] then name else alias) (snd (snd (?E ! j))))])"
    by (rule set_alias_stack [OF wf])+
  show "case ?found of
       None \<Rightarrow> remove_var cast name s = (None, s)
     | Some j \<Rightarrow> fst (remove_var cast name s) = cast (entry_value (?E ! j)) \<and>
         well_formed (snd (remove_var cast name s)) \<and>
         into_iter (snd (remove_var cast name s)) = take j ?E @ drop (Suc j) ?E"
    by (rule remove_var_stack [OF wf])
  show "start + k \<le> length ?E \<Longrightarrow> \<exists>s'. remove_range start k s = Some s' \<and> well_formed s' \<and>
      into_iter s' = take start ?E @ drop (start + k) ?E"
    using remove_range_stack [OF wf] by (simp add: len cut_def)
  show "well_formed (clone_scope s)" "into_iter (clone_scope s) = map evened ?E"
    by (rule clone_scope_stack [OF wf])+
  show "sc_names (rewind (length ?E) (fold run_action as s)) = map entry_name ?E"
    using scopes.block_leaves [OF wf, of as] into_iter_names [OF wf]
    by (metis length_map)
qed

theorem scope_is_stack_witness:
  "into_iter (set_or_push [120] (Plain 3 ReadWrite)
     (push_entry [120] ReadOnly (Array_Value [Plain (2 :: nat) ReadWrite] ReadWrite) new_scope)) =
   [([120], Array_Value [Plain 2 ReadOnly] ReadOnly, []), ([120], Plain 3 ReadWrite, [])]"
proof -
  let ?s = "push_entry [120] ReadOnly (Array_Value [Plain (2 :: nat) ReadWrite] ReadWrite) new_scope"
  have e: "well_formed ?s" "into_iter ?s = [([120], Array_Value [Plain 2 ReadOnly] ReadOnly, [])]"
    by (simp_all add: push_entry_def new_scope_def well_formed_def into_iter_def)
  have i: "innermost (into_iter ?s) [120] 0" by (simp add: e innermost_def entry_name_def)
  note s = scope_is_stack [OF e(1), where name = "[120]" and i = 0 and v = "Plain 3 ReadWrite" and n = 0
      and start = 0 and k = 0 and as = "[]" and a = ReadOnly and cast = Some, unfolded Let_def,
      THEN conjunct2, THEN conjunct2, THEN conjunct2, THEN conjunct2]
  from s [THEN conjunct1] i have found: "search [120] ?s = Some 0" by blast
  note s = s [THEN conjunct2, THEN conjunct2]
  from s [THEN conjunct1] found have const: "is_constant [120] ?s = Some True" by (simp add: e entry_value_def)
  from s [THEN conjunct2, THEN conjunct2, THEN conjunct1, THEN conjunct2] const show ?thesis by (simp add: e)
qed

lemma visible_all:
  "set (visible E (length E)) = {E ! n | n. innermost E (entry_name (E ! n)) n}"
  "distinct (map entry_name (visible E (length E)))"
proof -
  let ?ns = "filter (\<lambda>n. innermost E (entry_name (E ! n)) n) (rev [0..<length E])"
  show "set (visible E (length E)) = {E ! n | n. innermost E (entry_name (E ! n)) n}"
    by (auto simp: visible_def innermost_def)
  have "inj_on (\<lambda>n. entry_name (E ! n)) (set ?ns)"
    by (rule inj_onI) (auto intro: innermost_unique)
  then have "distinct (map (\<lambda>n. entry_name (E ! n)) ?ns)"
    by (simp add: distinct_map)
  then show "distinct (map entry_name (visible E (length E)))"
    by (simp add: visible_def comp_def)
qed

lemma innermost_distinct:
  assumes "distinct (map entry_name E)"
  shows "innermost E name n \<longleftrightarrow> n < length E \<and> entry_name (E ! n) = name"
proof -
  have "entry_name (E ! m) \<noteq> entry_name (E ! n)" if "n < m" "m < length E" for m n
    using nth_eq_iff_index_eq [OF assms, of m n] that by simp
  then show ?thesis by (auto simp: innermost_def)
qed

lemma get_var_innermost:
  "well_formed s \<Longrightarrow> get_var name s = Some w \<longleftrightarrow>
     (\<exists>j. innermost (into_iter s) name j \<and> w = entry_value (into_iter s ! j))"
  using search_less [of s name] by (auto simp: get_var_def search_innermost [symmetric] into_iter_nth entry_value_def)

text \<open>
  Cloning what is visible keeps, of every name, the last entry with its value and its aliases, the last
  one first, so that every name stands for the same value in the clone; the access mode of the value
  is that of all of its parts.
\<close>

theorem clone_visible_exact:
  assumes "well_formed s"
  shows "(let E = into_iter s in
    well_formed (clone_visible s) \<and>
    into_iter (clone_visible s) =
      map (\<lambda>n. evened (E ! n)) (filter (\<lambda>n. innermost E (entry_name (E ! n)) n) (rev [0..<length E])) \<and>
    distinct (sc_names (clone_visible s)) \<and>
    get_var name (clone_visible s) = map_option (\<lambda>v. set_access_mode (mode_of v) v) (get_var name s))"
proof -
  let ?E = "into_iter s" let ?V = "visible ?E (length ?E)"
  have c: "well_formed (clone_visible s)" "into_iter (clone_visible s) = map evened ?V"
    using clone_visible_stack [OF assms] by (simp_all add: length_into_iter [OF assms])
  have names: "map entry_name (map evened ?V) = map entry_name ?V" by simp
  have d: "distinct (sc_names (clone_visible s))"
    unfolding into_iter_names [OF c(1), symmetric] c(2) names by (rule visible_all(2))
  have "get_var name (clone_visible s) = Some w \<longleftrightarrow>
      (\<exists>v. get_var name s = Some v \<and> w = set_access_mode (mode_of v) v)" for w
  proof -
    have "distinct (map entry_name (map evened ?V))" unfolding names by (rule visible_all(2))
    note last = innermost_distinct [OF this]
    have "get_var name (clone_visible s) = Some w \<longleftrightarrow>
        (\<exists>e \<in> set (map evened ?V). entry_name e = name \<and> w = entry_value e)"
      unfolding get_var_innermost [OF c(1)] c(2) last
      by (metis in_set_conv_nth)
    also have "\<dots> \<longleftrightarrow> (\<exists>n. innermost ?E (entry_name (?E ! n)) n \<and> entry_name (?E ! n) = name \<and>
        w = entry_value (evened (?E ! n)))"
      unfolding set_map visible_all(1) by (auto simp del: split_paired_Ex)
    also have "\<dots> \<longleftrightarrow> (\<exists>v. get_var name s = Some v \<and> w = set_access_mode (mode_of v) v)"
      unfolding get_var_innermost [OF assms] evened_value by (metis innermost_def)
    finally show ?thesis .
  qed
  then have "get_var name (clone_visible s) = map_option (\<lambda>v. set_access_mode (mode_of v) v) (get_var name s)"
    by (cases "get_var name (clone_visible s)"; cases "get_var name s") auto
  with c d show ?thesis by (simp add: visible_def Let_def)
qed

theorem clone_visible_exact_witness:
  "get_var [120] (clone_visible (push_entry [120] ReadWrite (Plain (2 :: nat) ReadWrite) new_scope)) =
     Some (Plain 2 ReadWrite)"
proof -
  let ?s = "push_entry [120] ReadWrite (Plain (2 :: nat) ReadWrite) new_scope"
  have w: "well_formed ?s" by (simp add: push_entry_def new_scope_def well_formed_def)
  have "get_var [120] ?s = Some (Plain 2 ReadWrite)"
    by (simp add: get_var_def search_def push_entry_def new_scope_def scope_len_def)
  with clone_visible_exact [OF w, of "[120]"] show ?thesis by (simp add: Let_def)
qed

end
