(* ===== verification/Arrays.thy ===== *)
theory Arrays
  imports Bit_Fields Limits Immutable_Strings "HOL-Library.Multiset"
begin

text \<open>
  The array functions of the standard library (\<open>src/packages/array_basic.rs\<close>) over lists of items.
  A function that changes its array answers what it returns and the array afterwards. Those over
  positions alone are polymorphic in the items and their default, since the functions of BLOBs are the same code
  over bytes. A function pointer is an argument: called on an item, its index and the host's state,
  it answers a value or an error, the item as it left it, and the state; the comparison of two
  values by the engine's \<open>==\<close> is an argument too. Sorting by a comparer of the script is not modelled.
\<close>

section \<open>Items by position\<close>

text \<open>\<open>INT::try_from(i).unwrap_or(INT::MAX)\<close>.\<close>

definition index_int :: "int_type \<Rightarrow> nat \<Rightarrow> int" where
  "index_int sys i = (if fits sys (int i) then int i else type_max sys)"

definition array_len :: "int_type \<Rightarrow> 'a list \<Rightarrow> int" where
  "array_len sys xs = index_int sys (length xs)"

definition array_is_empty :: "'a list \<Rightarrow> bool" where
  "array_is_empty xs \<longleftrightarrow> length xs = 0"

definition item_get :: "'a \<Rightarrow> 'a list \<Rightarrow> int \<Rightarrow> 'a" where
  "item_get none xs index =
     (if xs = [] then none
      else let index = fst (calc_offset_len (length xs) index 0) in
        if index \<ge> length xs then none else xs ! index)"

definition item_set :: "'a list \<Rightarrow> int \<Rightarrow> 'a \<Rightarrow> 'a list" where
  "item_set xs index v =
     (if xs = [] then xs
      else let index = fst (calc_offset_len (length xs) index 0) in
        if index \<ge> length xs then xs else xs[index := v])"

definition push_item :: "'a list \<Rightarrow> 'a \<Rightarrow> 'a list" where
  "push_item xs v = xs @ [v]"

definition append_items :: "'a list \<Rightarrow> 'a list \<Rightarrow> 'a list" where
  "append_items xs ys = (if ys = [] then xs else if xs = [] then ys else xs @ ys)"

definition concat_arrays :: "'a list \<Rightarrow> 'a list \<Rightarrow> 'a list" where
  "concat_arrays xs ys = (if ys = [] then xs else if xs = [] then ys else xs @ ys)"

definition insert_item :: "'a list \<Rightarrow> int \<Rightarrow> 'a \<Rightarrow> 'a list" where
  "insert_item xs index v =
     (if xs = [] then [v]
      else let index = fst (calc_offset_len (length xs) index 0) in
        if index \<ge> length xs then xs @ [v] else take index xs @ v # drop index xs)"

text \<open>The sums of the check are of \<open>usize\<close> and do not overflow as long as the values fit in memory.\<close>

definition pad_array :: "features \<Rightarrow> limits \<Rightarrow> dynamic list \<Rightarrow> int \<Rightarrow> dynamic \<Rightarrow> too_large + dynamic list" where
  "pad_array f l xs len v =
     (if len < 0 then Ok xs
      else if nat len \<le> length xs then Ok xs
      else rbind (if or_zero (array_size l) > 0
          then let pad = nat len - length xs in
            case (calc_array_sizes xs, calc_data_sizes v) of ((a, m, s), (ax, mx, sx)) \<Rightarrow>
              throw_on_size f l (a + pad + ax * pad, m + mx * pad, s + sx * pad)
          else Ok ()) (\<lambda>_.
        Ok (xs @ replicate (nat len - length xs) v)))"

definition pop_item :: "'a \<Rightarrow> 'a list \<Rightarrow> 'a \<times> 'a list" where
  "pop_item none xs = (if xs = [] then (none, xs) else (last xs, butlast xs))"

definition shift_item :: "'a \<Rightarrow> 'a list \<Rightarrow> 'a \<times> 'a list" where
  "shift_item none xs = (if xs = [] then (none, xs) else (hd xs, tl xs))"

definition remove_item :: "'a \<Rightarrow> 'a list \<Rightarrow> int \<Rightarrow> 'a \<times> 'a list" where
  "remove_item none xs index =
     (case calc_index (length xs) index True (Err ()) of
        Inl _ \<Rightarrow> (none, xs)
      | Inr i \<Rightarrow> (xs ! i, take i xs @ drop (Suc i) xs))"

definition clear_items :: "'a list \<Rightarrow> 'a list" where
  "clear_items xs = (if xs = [] then xs else [])"

definition truncate_items :: "'a list \<Rightarrow> int \<Rightarrow> 'a list" where
  "truncate_items xs len =
     (if xs = [] then xs else if len \<le> 0 then []
      else let len = nat len in if len > 0 then take len xs else [])"

definition chop_items :: "'a list \<Rightarrow> int \<Rightarrow> 'a list" where
  "chop_items xs len =
     (if xs = [] then xs else if len \<le> 0 then []
      else if nat len < length xs then drop (length xs - nat len) xs else xs)"

definition reverse_items :: "'a list \<Rightarrow> 'a list" where
  "reverse_items xs = (if xs = [] then xs else rev xs)"

section \<open>Portions\<close>

text \<open>The start and the length of an inclusive range; \<open>range_span\<close> is the one of an exclusive range.\<close>

definition closed_span :: "int_type \<Rightarrow> int \<Rightarrow> int \<Rightarrow> int \<times> int" where
  "closed_span sys start stop =
     (let from = max start 0; to = min (max stop from) (type_max sys - 1) in (from, to - from + 1))"

definition splice_items :: "'a list \<Rightarrow> int \<Rightarrow> int \<Rightarrow> 'a list \<Rightarrow> 'a list" where
  "splice_items xs start n new =
     (if xs = [] then new
      else case calc_offset_len (length xs) start n of (start, n) \<Rightarrow>
        if start \<ge> length xs then xs @ new else take start xs @ new @ drop (start + n) xs)"

definition splice_range :: "'a list \<Rightarrow> int \<Rightarrow> int \<Rightarrow> 'a list \<Rightarrow> 'a list" where
  "splice_range xs start stop new = (case range_span start stop of (from, n) \<Rightarrow> splice_items xs from n new)"

definition splice_inclusive_range :: "int_type \<Rightarrow> 'a list \<Rightarrow> int \<Rightarrow> int \<Rightarrow> 'a list \<Rightarrow> 'a list" where
  "splice_inclusive_range sys xs start stop new =
     (case closed_span sys start stop of (from, n) \<Rightarrow> splice_items xs from n new)"

definition extract_items :: "'a list \<Rightarrow> int \<Rightarrow> int \<Rightarrow> 'a list" where
  "extract_items xs start n =
     (if xs = [] \<or> n \<le> 0 then []
      else case calc_offset_len (length xs) start n of (start, n) \<Rightarrow>
        if n = 0 then [] else take n (drop start xs))"

definition extract_range :: "'a list \<Rightarrow> int \<Rightarrow> int \<Rightarrow> 'a list" where
  "extract_range xs start stop = (case range_span start stop of (from, n) \<Rightarrow> extract_items xs from n)"

definition extract_inclusive_range :: "int_type \<Rightarrow> 'a list \<Rightarrow> int \<Rightarrow> int \<Rightarrow> 'a list" where
  "extract_inclusive_range sys xs start stop =
     (case closed_span sys start stop of (from, n) \<Rightarrow> extract_items xs from n)"

definition extract_tail :: "int_type \<Rightarrow> 'a list \<Rightarrow> int \<Rightarrow> 'a list" where
  "extract_tail sys xs start = extract_items xs start (type_max sys)"

definition split_at :: "int_type \<Rightarrow> 'a list \<Rightarrow> int \<Rightarrow> 'a list \<times> 'a list" where
  "split_at sys xs index =
     (if xs = [] then ([], xs)
      else case calc_offset_len (length xs) index (type_max sys) of (start, n) \<Rightarrow>
        if start \<ge> length xs then ([], xs)
        else if start = 0 then
          if n \<ge> length xs then (xs, [])
          else (drop (length xs - n) xs, take (length xs - n) xs)
        else (drop start xs, take start xs))"

definition drain_range :: "'a list \<Rightarrow> int \<Rightarrow> int \<Rightarrow> 'a list \<times> 'a list" where
  "drain_range xs start n =
     (if xs = [] \<or> n \<le> 0 then ([], xs)
      else case calc_offset_len (length xs) start n of (start, n) \<Rightarrow>
        if n = 0 then ([], xs) else (take n (drop start xs), take start xs @ drop (start + n) xs))"

definition drain_exclusive_range :: "'a list \<Rightarrow> int \<Rightarrow> int \<Rightarrow> 'a list \<times> 'a list" where
  "drain_exclusive_range xs start stop = (case range_span start stop of (from, n) \<Rightarrow> drain_range xs from n)"

definition drain_inclusive_range :: "int_type \<Rightarrow> 'a list \<Rightarrow> int \<Rightarrow> int \<Rightarrow> 'a list \<times> 'a list" where
  "drain_inclusive_range sys xs start stop =
     (case closed_span sys start stop of (from, n) \<Rightarrow> drain_range xs from n)"

text \<open>The first \<open>drain\<close> shortens the array before the second counts from its front.\<close>

definition retain_range :: "'a list \<Rightarrow> int \<Rightarrow> int \<Rightarrow> 'a list \<times> 'a list" where
  "retain_range xs start n =
     (if xs = [] \<or> n \<le> 0 then ([], xs)
      else case calc_offset_len (length xs) start n of (start, n) \<Rightarrow>
        if n = 0 then ([], xs)
        else let drained = take start xs; xs = drop start xs in (drained @ drop n xs, take n xs))"

definition retain_exclusive_range :: "'a list \<Rightarrow> int \<Rightarrow> int \<Rightarrow> 'a list \<times> 'a list" where
  "retain_exclusive_range xs start stop = (case range_span start stop of (from, n) \<Rightarrow> retain_range xs from n)"

definition retain_inclusive_range :: "int_type \<Rightarrow> 'a list \<Rightarrow> int \<Rightarrow> int \<Rightarrow> 'a list \<times> 'a list" where
  "retain_inclusive_range sys xs start stop =
     (case closed_span sys start stop of (from, n) \<Rightarrow> retain_range xs from n)"

text \<open>Where a position lies, and what is left of a length behind it.\<close>

definition offset_of :: "nat \<Rightarrow> int \<Rightarrow> nat" where
  "offset_of len i = (if i < 0 then len - nat (- i) else min (nat i) len)"

lemma calc_offset_len_exact:
  "calc_offset_len len i n = (offset_of len i, min (nat n) (len - offset_of len i))"
proof -
  have m: "(if n \<le> 0 then 0 else if nat n > l then l else nat n) = min (nat n) l" for l by simp
  have s: "len - min k len = len - k" for k :: nat by (simp add: min_def)
  consider "i < 0" | "0 \<le> i" "len \<le> nat i" | "0 \<le> i" "nat i < len" by linarith
  then show ?thesis
  proof cases
    case 1
    then show ?thesis unfolding calc_offset_len_def offset_of_def Let_def m s by simp
  next
    case 2
    then show ?thesis by (simp add: calc_offset_len_def offset_of_def)
  next
    case 3
    then have "min (nat i) len = nat i" by simp
    with 3 show ?thesis unfolding calc_offset_len_def offset_of_def Let_def m by simp
  qed
qed

lemma offset_le [simp]: "offset_of len i \<le> len"
  by (simp add: offset_of_def)

lemma take_min_drop: "take (min n (length xs - a)) (drop a xs) = take n (drop a xs)"
  by (simp add: min_def)

lemma drop_min_add: "a \<le> length xs \<Longrightarrow> drop (a + min n (length xs - a)) xs = drop (a + n) xs"
  by (simp add: min_def)

lemma extract_exact: "extract_items xs i n = take (nat n) (drop (offset_of (length xs) i) xs)"
  by (auto simp: extract_items_def calc_offset_len_exact min_def)

lemma drain_range_exact:
  "drain_range xs i n = (let a = offset_of (length xs) i in
     (take (nat n) (drop a xs), take a xs @ drop (a + nat n) xs))"
  by (auto simp: drain_range_def calc_offset_len_exact Let_def min_def)

lemma splice_exact:
  "splice_items xs i n new = (let a = offset_of (length xs) i in take a xs @ new @ drop (a + nat n) xs)"
  by (auto simp: splice_items_def calc_offset_len_exact Let_def min_def)

lemma insert_item_exact:
  "insert_item xs i v = (let a = offset_of (length xs) i in take a xs @ v # drop a xs)"
  by (auto simp: insert_item_def calc_offset_len_exact Let_def)

lemma split_at_exact:
  "int (length xs) \<le> type_max sys \<Longrightarrow>
    split_at sys xs i = (let a = offset_of (length xs) i in (drop a xs, take a xs))"
  by (auto simp: split_at_def calc_offset_len_exact Let_def min_def)

lemma retain_range_exact:
  "retain_range xs i n = (let a = offset_of (length xs) i in
     if 0 < n \<and> a < length xs then (take a xs @ drop (a + nat n) xs, take (nat n) (drop a xs)) else ([], xs))"
  by (auto simp: retain_range_def calc_offset_len_exact Let_def min_def add.commute)

section \<open>Functions over the items\<close>

text \<open>A function pointer called on an item: its value or error, the item afterwards, the state.\<close>

type_synonym ('s, 'e) item_fn = "dynamic \<Rightarrow> int \<Rightarrow> 's \<Rightarrow> ('e + dynamic) \<times> dynamic \<times> 's"

text \<open>\<open>as_bool().unwrap_or(false)\<close>.\<close>

definition is_true :: "dynamic \<Rightarrow> bool" where
  "is_true v = (case v of DBool b \<Rightarrow> b | _ \<Rightarrow> False)"

text \<open>
  The loops \<open>for (i, item) in array.iter_mut().enumerate().skip(start)\<close>: an error leaves the
  function, the body leaves it with a result (\<open>Inl\<close>) or goes on with what it has gathered (\<open>Inr\<close>).
\<close>

fun visit ::
  "int_type \<Rightarrow> ('s, 'e) item_fn \<Rightarrow> (nat \<Rightarrow> dynamic \<Rightarrow> dynamic \<Rightarrow> 'acc \<Rightarrow> 'r + 'acc) \<Rightarrow> nat \<Rightarrow>
    dynamic list \<Rightarrow> 'acc \<Rightarrow> 's \<Rightarrow> ('e + ('r + 'acc)) \<times> dynamic list \<times> 's" where
  "visit sys f body i [] acc s = (Ok (Inr acc), [], s)"
| "visit sys f body i (x # xs) acc s =
     (case f x (index_int sys i) s of
        (Inl e, x', s') \<Rightarrow> (Err e, x' # xs, s')
      | (Inr v, x', s') \<Rightarrow> (case body i x' v acc of
            Inl r \<Rightarrow> (Ok (Inl r), x' # xs, s')
          | Inr acc' \<Rightarrow> (case visit sys f body (Suc i) xs acc' s' of
              (r, xs', s'') \<Rightarrow> (r, x' # xs', s''))))"

definition visit_from ::
  "int_type \<Rightarrow> ('s, 'e) item_fn \<Rightarrow> (nat \<Rightarrow> dynamic \<Rightarrow> dynamic \<Rightarrow> 'acc \<Rightarrow> 'r + 'acc) \<Rightarrow> nat \<Rightarrow>
    dynamic list \<Rightarrow> 'acc \<Rightarrow> 's \<Rightarrow> ('e + ('r + 'acc)) \<times> dynamic list \<times> 's" where
  "visit_from sys f body start xs acc s =
     (case visit sys f body start (drop start xs) acc s of (r, xs', s') \<Rightarrow> (r, take start xs @ xs', s'))"

text \<open>The result of a loop followed by \<open>Ok(..)\<close> of what was gathered.\<close>

definition loop_result :: "('acc \<Rightarrow> 'r) \<Rightarrow> ('e + ('r + 'acc)) \<times> 'b \<Rightarrow> ('e + 'r) \<times> 'b" where
  "loop_result fin x = (case x of
       (Inl e, rest) \<Rightarrow> (Err e, rest)
     | (Inr (Inl r), rest) \<Rightarrow> (Ok r, rest)
     | (Inr (Inr acc), rest) \<Rightarrow> (Ok (fin acc), rest))"

definition for_each ::
  "int_type \<Rightarrow> ('s, 'e) item_fn \<Rightarrow> dynamic list \<Rightarrow> 's \<Rightarrow> ('e + unit) \<times> dynamic list \<times> 's" where
  "for_each sys f xs s = (if xs = [] then (Ok (), xs, s)
     else loop_result (\<lambda>_. ()) (visit sys f (\<lambda>i item v (_ :: unit). Inr ()) 0 xs () s))"

definition map_items ::
  "int_type \<Rightarrow> ('s, 'e) item_fn \<Rightarrow> dynamic list \<Rightarrow> 's \<Rightarrow> ('e + dynamic list) \<times> dynamic list \<times> 's" where
  "map_items sys f xs s = (if xs = [] then (Ok [], xs, s)
     else loop_result id (visit sys f (\<lambda>i item v ar. Inr (ar @ [v])) 0 xs [] s))"

definition filter_items ::
  "int_type \<Rightarrow> ('s, 'e) item_fn \<Rightarrow> dynamic list \<Rightarrow> 's \<Rightarrow> ('e + dynamic list) \<times> dynamic list \<times> 's" where
  "filter_items sys f xs s = (if xs = [] then (Ok [], xs, s)
     else loop_result id (visit sys f (\<lambda>i item v ar. Inr (if is_true v then ar @ [item] else ar)) 0 xs [] s))"

definition index_of_start_inner ::
  "int_type \<Rightarrow> ('s, 'e) item_fn \<Rightarrow> dynamic list \<Rightarrow> int \<Rightarrow> 's \<Rightarrow> ('e + int) \<times> dynamic list \<times> 's" where
  "index_of_start_inner sys f xs start s = (if xs = [] then (Ok (- 1), xs, s)
     else let start = fst (calc_offset_len (length xs) start 0) in
       loop_result (\<lambda>_. - 1)
         (visit_from sys f (\<lambda>i item v (_ :: unit). if is_true v then Inl (index_int sys i) else Inr ()) start xs () s))"

definition index_of_filter_starting_from ::
  "int_type \<Rightarrow> ('s, 'e) item_fn \<Rightarrow> dynamic list \<Rightarrow> int \<Rightarrow> 's \<Rightarrow> ('e + int) \<times> dynamic list \<times> 's" where
  "index_of_filter_starting_from sys f xs start s =
     (if xs = [] then (Ok (- 1), xs, s) else index_of_start_inner sys f xs start s)"

definition index_of_filter ::
  "int_type \<Rightarrow> ('s, 'e) item_fn \<Rightarrow> dynamic list \<Rightarrow> 's \<Rightarrow> ('e + int) \<times> dynamic list \<times> 's" where
  "index_of_filter sys f xs s =
     (if xs = [] then (Ok (- 1), xs, s) else index_of_filter_starting_from sys f xs 0 s)"

definition find_starting_from ::
  "int_type \<Rightarrow> ('s, 'e) item_fn \<Rightarrow> dynamic list \<Rightarrow> int \<Rightarrow> 's \<Rightarrow> ('e + dynamic) \<times> dynamic list \<times> 's" where
  "find_starting_from sys f xs start s =
     (case index_of_filter_starting_from sys f xs start s of (r, xs, s) \<Rightarrow>
       (rbind r (\<lambda>index. if index < 0 then Ok DUnit else Ok (item_get DUnit xs index)), xs, s))"

definition find_item ::
  "int_type \<Rightarrow> ('s, 'e) item_fn \<Rightarrow> dynamic list \<Rightarrow> 's \<Rightarrow> ('e + dynamic) \<times> dynamic list \<times> 's" where
  "find_item sys f xs s = find_starting_from sys f xs 0 s"

definition find_map_starting_from ::
  "int_type \<Rightarrow> ('s, 'e) item_fn \<Rightarrow> dynamic list \<Rightarrow> int \<Rightarrow> 's \<Rightarrow> ('e + dynamic) \<times> dynamic list \<times> 's" where
  "find_map_starting_from sys f xs start s = (if xs = [] then (Ok DUnit, xs, s)
     else let start = fst (calc_offset_len (length xs) start 0) in
       loop_result (\<lambda>_. DUnit)
         (visit_from sys f (\<lambda>i item v (_ :: unit). if v \<noteq> DUnit then Inl v else Inr ()) start xs () s))"

definition find_map ::
  "int_type \<Rightarrow> ('s, 'e) item_fn \<Rightarrow> dynamic list \<Rightarrow> 's \<Rightarrow> ('e + dynamic) \<times> dynamic list \<times> 's" where
  "find_map sys f xs s = find_map_starting_from sys f xs 0 s"

definition some_item ::
  "int_type \<Rightarrow> ('s, 'e) item_fn \<Rightarrow> dynamic list \<Rightarrow> 's \<Rightarrow> ('e + bool) \<times> dynamic list \<times> 's" where
  "some_item sys f xs s = (if xs = [] then (Ok False, xs, s)
     else loop_result (\<lambda>_. False)
       (visit sys f (\<lambda>i item v (_ :: unit). if is_true v then Inl True else Inr ()) 0 xs () s))"

definition all_items ::
  "int_type \<Rightarrow> ('s, 'e) item_fn \<Rightarrow> dynamic list \<Rightarrow> 's \<Rightarrow> ('e + bool) \<times> dynamic list \<times> 's" where
  "all_items sys f xs s = (if xs = [] then (Ok True, xs, s)
     else loop_result (\<lambda>_. True)
       (visit sys f (\<lambda>i item v (_ :: unit). if \<not> is_true v then Inl False else Inr ()) 0 xs () s))"

text \<open>
  The loops of \<open>drain\<close> and \<open>retain\<close>, which remove from the array they walk: the items before \<open>x\<close>, those
  from \<open>x\<close> on, and what was removed. The index handed out is \<open>i as INT\<close>. An error drops what
  was removed before it.
\<close>

fun remove_loop ::
  "int_type \<Rightarrow> ('s, 'e) item_fn \<Rightarrow> (bool \<Rightarrow> bool) \<Rightarrow> nat \<Rightarrow> dynamic list \<Rightarrow> dynamic list \<Rightarrow> dynamic list \<Rightarrow>
    's \<Rightarrow> ('e + dynamic list) \<times> dynamic list \<times> 's" where
  "remove_loop sys f out i before [] drained s = (Ok drained, before, s)"
| "remove_loop sys f out i before (x # xs) drained s =
     (case f x (wrap sys (int i)) s of
        (Inl e, x', s') \<Rightarrow> (Err e, before @ x' # xs, s')
      | (Inr v, x', s') \<Rightarrow>
          if out (is_true v) then remove_loop sys f out (Suc i) before xs (drained @ [x']) s'
          else remove_loop sys f out (Suc i) (before @ [x']) xs drained s')"

definition drain_items ::
  "int_type \<Rightarrow> ('s, 'e) item_fn \<Rightarrow> dynamic list \<Rightarrow> 's \<Rightarrow> ('e + dynamic list) \<times> dynamic list \<times> 's" where
  "drain_items sys f xs s = (if xs = [] then (Ok [], xs, s) else remove_loop sys f (\<lambda>b. b) 0 [] xs [] s)"

definition retain_items ::
  "int_type \<Rightarrow> ('s, 'e) item_fn \<Rightarrow> dynamic list \<Rightarrow> 's \<Rightarrow> ('e + dynamic list) \<times> dynamic list \<times> 's" where
  "retain_items sys f xs s = (if xs = [] then (Ok [], xs, s) else remove_loop sys f Not 0 [] xs [] s)"

text \<open>\<open>Vec::dedup_by\<close>: an item the comparer finds equal to the last one kept is dropped.\<close>

fun dedup_loop ::
  "(dynamic \<Rightarrow> dynamic \<Rightarrow> 's \<Rightarrow> ('e + dynamic) \<times> 's) \<Rightarrow> dynamic \<Rightarrow> dynamic list \<Rightarrow> 's \<Rightarrow> dynamic list \<times> 's" where
  "dedup_loop cmp y [] s = ([y], s)"
| "dedup_loop cmp y (x # xs) s =
     (case cmp y x s of (r, s') \<Rightarrow>
       if is_true (case r of Inl _ \<Rightarrow> DBool False | Inr v \<Rightarrow> v) then dedup_loop cmp y xs s'
       else (case dedup_loop cmp x xs s' of (ys, s'') \<Rightarrow> (y # ys, s'')))"

definition dedup_by_comparer ::
  "(dynamic \<Rightarrow> dynamic \<Rightarrow> 's \<Rightarrow> ('e + dynamic) \<times> 's) \<Rightarrow> dynamic list \<Rightarrow> 's \<Rightarrow> dynamic list \<times> 's" where
  "dedup_by_comparer cmp xs s = (case xs of [] \<Rightarrow> (xs, s) | y # ys \<Rightarrow> dedup_loop cmp y ys s)"

text \<open>\<open>try_fold\<close> over the items, from either end.\<close>

type_synonym ('s, 'e) fold_fn = "dynamic \<Rightarrow> dynamic \<Rightarrow> int \<Rightarrow> 's \<Rightarrow> ('e + dynamic) \<times> dynamic \<times> 's"

fun try_fold ::
  "('s, 'e) fold_fn \<Rightarrow> dynamic \<Rightarrow> (int \<times> dynamic) list \<Rightarrow> 's \<Rightarrow> ('e + dynamic) \<times> dynamic list \<times> 's" where
  "try_fold f result [] s = (Ok result, [], s)"
| "try_fold f result ((i, x) # xs) s =
     (case f x result i s of
        (Inl e, x', s') \<Rightarrow> (Err e, x' # map snd xs, s')
      | (Inr result', x', s') \<Rightarrow> (case try_fold f result' xs s' of (r, xs', s'') \<Rightarrow> (r, x' # xs', s'')))"

definition reduce_with_initial ::
  "int_type \<Rightarrow> ('s, 'e) fold_fn \<Rightarrow> dynamic list \<Rightarrow> dynamic \<Rightarrow> 's \<Rightarrow> ('e + dynamic) \<times> dynamic list \<times> 's" where
  "reduce_with_initial sys f xs initial s = (if xs = [] then (Ok initial, xs, s)
     else try_fold f initial (map (\<lambda>(i, x). (index_int sys i, x)) (enumerate 0 xs)) s)"

definition reduce ::
  "int_type \<Rightarrow> ('s, 'e) fold_fn \<Rightarrow> dynamic list \<Rightarrow> 's \<Rightarrow> ('e + dynamic) \<times> dynamic list \<times> 's" where
  "reduce sys f xs s = reduce_with_initial sys f xs DUnit s"

definition reduce_rev_with_initial ::
  "int_type \<Rightarrow> ('s, 'e) fold_fn \<Rightarrow> dynamic list \<Rightarrow> dynamic \<Rightarrow> 's \<Rightarrow> ('e + dynamic) \<times> dynamic list \<times> 's" where
  "reduce_rev_with_initial sys f xs initial s = (if xs = [] then (Ok initial, xs, s)
     else let len = length xs in
       case try_fold f initial
         (map (\<lambda>(i, x). (index_int sys (len - 1 - i), x)) (enumerate 0 (rev xs))) s of
         (r, xs', s') \<Rightarrow> (r, rev xs', s'))"

definition reduce_rev ::
  "int_type \<Rightarrow> ('s, 'e) fold_fn \<Rightarrow> dynamic list \<Rightarrow> 's \<Rightarrow> ('e + dynamic) \<times> dynamic list \<times> 's" where
  "reduce_rev sys f xs s = reduce_rev_with_initial sys f xs DUnit s"

text \<open>\<open>zip\<close>, which stops at the shorter array and at the first error.\<close>

fun zip_loop ::
  "int_type \<Rightarrow> (dynamic \<Rightarrow> dynamic \<Rightarrow> int \<Rightarrow> 's \<Rightarrow> ('e + dynamic) \<times> 's) \<Rightarrow> nat \<Rightarrow> (dynamic \<times> dynamic) list \<Rightarrow>
    's \<Rightarrow> ('e + dynamic list) \<times> 's" where
  "zip_loop sys f i [] s = (Ok [], s)"
| "zip_loop sys f i ((x, y) # xys) s =
     (case f x y (index_int sys i) s of
        (Inl e, s') \<Rightarrow> (Err e, s')
      | (Inr v, s') \<Rightarrow> (case zip_loop sys f (Suc i) xys s' of
          (r, s'') \<Rightarrow> (rbind r (\<lambda>vs. Ok (v # vs)), s'')))"

definition zip_arrays ::
  "int_type \<Rightarrow> (dynamic \<Rightarrow> dynamic \<Rightarrow> int \<Rightarrow> 's \<Rightarrow> ('e + dynamic) \<times> 's) \<Rightarrow> dynamic list \<Rightarrow> dynamic list \<Rightarrow>
    's \<Rightarrow> ('e + dynamic list) \<times> 's" where
  "zip_arrays sys f xs ys s = (if xs = [] \<and> ys = [] then (Ok [], s) else zip_loop sys f 0 (zip xs ys) s)"

section \<open>Comparing and sorting\<close>

text \<open>What \<open>type_id\<close> tells apart.\<close>

definition type_id :: "dynamic \<Rightarrow> nat + string" where
  "type_id v = (case v of
       DUnit \<Rightarrow> Inl 0 | DBool _ \<Rightarrow> Inl 1 | DInt _ \<Rightarrow> Inl 2 | DFloat _ \<Rightarrow> Inl 3 | DDecimal _ _ \<Rightarrow> Inl 4
     | DChar _ \<Rightarrow> Inl 5 | DString _ \<Rightarrow> Inl 6 | DArray _ \<Rightarrow> Inl 7 | DMap _ \<Rightarrow> Inl 8 | DBlob _ \<Rightarrow> Inl 9
     | DRange _ _ \<Rightarrow> Inl 10 | DRangeInclusive _ _ \<Rightarrow> Inl 11 | DOther name \<Rightarrow> Inr name)"

text \<open>
  The call of \<open>==\<close>: no operator for two values of different types means they differ. The engine's
  answer and which errors say that there is no operator are arguments.
\<close>

definition equal_values ::
  "(dynamic \<Rightarrow> dynamic \<Rightarrow> 'e + dynamic) \<Rightarrow> ('e \<Rightarrow> bool) \<Rightarrow> dynamic \<Rightarrow> dynamic \<Rightarrow> 'e + bool" where
  "equal_values call no_operator x y =
     rbind (case call x y of
         Inl err \<Rightarrow> if no_operator err
             then if type_id x = type_id y then Err err else Ok (DBool False)
             else Err err
       | Inr v \<Rightarrow> Ok v) (\<lambda>v. Ok (is_true v))"

fun contains_value ::
  "(dynamic \<Rightarrow> dynamic \<Rightarrow> 'e + dynamic) \<Rightarrow> ('e \<Rightarrow> bool) \<Rightarrow> dynamic list \<Rightarrow> dynamic \<Rightarrow> 'e + bool" where
  "contains_value call no_operator [] v = Ok False"
| "contains_value call no_operator (x # xs) v =
     rbind (equal_values call no_operator x v) (\<lambda>b.
       if b then Ok True else contains_value call no_operator xs v)"

fun index_of_loop ::
  "(dynamic \<Rightarrow> dynamic \<Rightarrow> 'e + dynamic) \<Rightarrow> ('e \<Rightarrow> bool) \<Rightarrow> int_type \<Rightarrow> nat \<Rightarrow> dynamic list \<Rightarrow> dynamic \<Rightarrow> 'e + int" where
  "index_of_loop call no_operator sys i [] v = Ok (- 1)"
| "index_of_loop call no_operator sys i (x # xs) v =
     rbind (equal_values call no_operator x v) (\<lambda>b.
       if b then Ok (index_int sys i) else index_of_loop call no_operator sys (Suc i) xs v)"

definition index_of_starting_from ::
  "(dynamic \<Rightarrow> dynamic \<Rightarrow> 'e + dynamic) \<Rightarrow> ('e \<Rightarrow> bool) \<Rightarrow> int_type \<Rightarrow> dynamic list \<Rightarrow> dynamic \<Rightarrow> int \<Rightarrow> 'e + int" where
  "index_of_starting_from call no_operator sys xs v start = (if xs = [] then Ok (- 1)
     else let start = fst (calc_offset_len (length xs) start 0) in
       index_of_loop call no_operator sys start (drop start xs) v)"

definition index_of ::
  "(dynamic \<Rightarrow> dynamic \<Rightarrow> 'e + dynamic) \<Rightarrow> ('e \<Rightarrow> bool) \<Rightarrow> int_type \<Rightarrow> dynamic list \<Rightarrow> dynamic \<Rightarrow> 'e + int" where
  "index_of call no_operator sys xs v =
     (if xs = [] then Ok (- 1) else index_of_starting_from call no_operator sys xs v 0)"

fun equal_items ::
  "(dynamic \<Rightarrow> dynamic \<Rightarrow> 'e + dynamic) \<Rightarrow> ('e \<Rightarrow> bool) \<Rightarrow> (dynamic \<times> dynamic) list \<Rightarrow> 'e + bool" where
  "equal_items call no_operator [] = Ok True"
| "equal_items call no_operator ((x, y) # xys) =
     rbind (equal_values call no_operator x y) (\<lambda>b.
       if \<not> b then Ok False else equal_items call no_operator xys)"

definition equal_arrays ::
  "(dynamic \<Rightarrow> dynamic \<Rightarrow> 'e + dynamic) \<Rightarrow> ('e \<Rightarrow> bool) \<Rightarrow> dynamic list \<Rightarrow> dynamic list \<Rightarrow> 'e + bool" where
  "equal_arrays call no_operator xs ys =
     (if length xs \<noteq> length ys then Ok False else if xs = [] then Ok True
      else equal_items call no_operator (zip xs ys))"

definition not_equal_arrays ::
  "(dynamic \<Rightarrow> dynamic \<Rightarrow> 'e + dynamic) \<Rightarrow> ('e \<Rightarrow> bool) \<Rightarrow> dynamic list \<Rightarrow> dynamic list \<Rightarrow> 'e + bool" where
  "not_equal_arrays call no_operator xs ys = rbind (equal_arrays call no_operator xs ys) (\<lambda>r. Ok (\<not> r))"

text \<open>\<open>slice::sort_by\<close> is a stable sort; the argument tells when the first is not greater.\<close>

fun insert_by :: "('a \<Rightarrow> 'a \<Rightarrow> bool) \<Rightarrow> 'a \<Rightarrow> 'a list \<Rightarrow> 'a list" where
  "insert_by le x [] = [x]"
| "insert_by le x (y # ys) = (if le x y then x # y # ys else y # insert_by le x ys)"

definition slice_sort_by :: "('a \<Rightarrow> 'a \<Rightarrow> bool) \<Rightarrow> 'a list \<Rightarrow> 'a list" where
  "slice_sort_by le xs = foldr (insert_by le) xs []"

definition int_of :: "dynamic \<Rightarrow> int" where
  "int_of v = (case v of DInt n \<Rightarrow> n | _ \<Rightarrow> 0)"

definition char_of_value :: "dynamic \<Rightarrow> u32" where
  "char_of_value v = (case v of DChar c \<Rightarrow> c | _ \<Rightarrow> 0)"

definition bytes_of :: "dynamic \<Rightarrow> u8 list" where
  "bytes_of v = (case v of DString str \<Rightarrow> str | _ \<Rightarrow> [])"

definition bool_of :: "dynamic \<Rightarrow> bool" where
  "bool_of v = (case v of DBool b \<Rightarrow> b | _ \<Rightarrow> False)"

text \<open>
  When a value is not greater than another of its type. Floats and decimals are compared as the
  argument tells; \<open>None\<close> is a type that has no built-in order.
\<close>

definition builtin_order :: "(dynamic \<Rightarrow> dynamic \<Rightarrow> bool) \<Rightarrow> dynamic \<Rightarrow> (dynamic \<Rightarrow> dynamic \<Rightarrow> bool) option" where
  "builtin_order number_le v = (case v of
       DInt _ \<Rightarrow> Some (\<lambda>a b. int_of a \<le> int_of b)
     | DChar _ \<Rightarrow> Some (\<lambda>a b. char_of_value a \<le> char_of_value b)
     | DFloat _ \<Rightarrow> Some number_le
     | DString _ \<Rightarrow> Some (\<lambda>a b. \<not> less_bytes (bytes_of b) (bytes_of a))
     | DDecimal _ _ \<Rightarrow> Some number_le
     | DBool _ \<Rightarrow> Some (\<lambda>a b. bool_of a \<le> bool_of b)
     | DUnit \<Rightarrow> Some (\<lambda>a b. True)
     | _ \<Rightarrow> None)"

datatype sort_error = Different_types | Unsortable

definition sort_with_builtin ::
  "(dynamic \<Rightarrow> dynamic \<Rightarrow> bool) \<Rightarrow> dynamic list \<Rightarrow> sort_error + dynamic list" where
  "sort_with_builtin number_le xs =
     (if length xs \<le> 1 then Ok xs
      else if list_ex (\<lambda>a. type_id a \<noteq> type_id (hd xs)) xs then Err Different_types
      else case builtin_order number_le (hd xs) of
          Some le \<Rightarrow> Ok (slice_sort_by le xs)
        | None \<Rightarrow> Err Unsortable)"

definition sort_with_builtin_desc ::
  "(dynamic \<Rightarrow> dynamic \<Rightarrow> bool) \<Rightarrow> dynamic list \<Rightarrow> sort_error + dynamic list" where
  "sort_with_builtin_desc number_le xs =
     (if length xs \<le> 1 then Ok xs
      else if list_ex (\<lambda>a. type_id a \<noteq> type_id (hd xs)) xs then Err Different_types
      else case builtin_order number_le (hd xs) of
          Some le \<Rightarrow> Ok (slice_sort_by (\<lambda>a b. le b a) xs)
        | None \<Rightarrow> Err Unsortable)"

text \<open>The forms that answer a sorted copy and leave the array as it is.\<close>

definition order_with_builtin ::
  "(dynamic \<Rightarrow> dynamic \<Rightarrow> bool) \<Rightarrow> dynamic list \<Rightarrow> sort_error + dynamic list" where
  "order_with_builtin number_le xs = rbind (sort_with_builtin number_le xs) (\<lambda>ys. Ok ys)"

definition order_with_builtin_desc ::
  "(dynamic \<Rightarrow> dynamic \<Rightarrow> bool) \<Rightarrow> dynamic list \<Rightarrow> sort_error + dynamic list" where
  "order_with_builtin_desc number_le xs = rbind (sort_with_builtin_desc number_le xs) (\<lambda>ys. Ok ys)"

section \<open>What the functions over items answer\<close>

text \<open>The calls of a function on every item in turn, if none fails: answers, items left, and the state.\<close>

fun call_all ::
  "('s, 'e) item_fn \<Rightarrow> nat \<Rightarrow> dynamic list \<Rightarrow> 's \<Rightarrow> ((dynamic \<times> dynamic) list \<times> 's) option" where
  "call_all f i [] s = Some ([], s)"
| "call_all f i (x # xs) s =
     (case f x (int i) s of
        (Inl _, _, _) \<Rightarrow> None
      | (Inr v, x', s') \<Rightarrow> map_option (\<lambda>(ps, s''). ((v, x') # ps, s'')) (call_all f (Suc i) xs s'))"

lemma index_int_id: "int i \<le> type_max sys \<Longrightarrow> index_int sys i = int i"
  by (cases sys) (simp_all add: index_int_def fits_def type_min_def)

lemma wrap_index_id: "int i \<le> type_max sys \<Longrightarrow> wrap sys (int i) = int i"
  by (cases sys) (auto simp: fits_wrap_iff [symmetric] fits_def type_min_def)

lemma visit_all:
  "int (i + length xs) \<le> type_max sys \<Longrightarrow> call_all f i xs s = Some (ps, s') \<Longrightarrow>
   visit sys f (\<lambda>i item v acc. Inr (g v item acc)) i xs acc s =
     (Ok (Inr (fold (\<lambda>(v, x). g v x) ps acc)), map snd ps, s')"
  by (induction xs arbitrary: i acc s ps)
    (auto simp: index_int_id split: prod.splits sum.splits)

lemma remove_loop_all:
  "int (i + length xs) \<le> type_max sys \<Longrightarrow> call_all f i xs s = Some (ps, s') \<Longrightarrow>
   remove_loop sys f out i before (xs @ rest) drained s =
     remove_loop sys f out (i + length xs)
       (before @ map snd (filter (\<lambda>p. \<not> out (is_true (fst p))) ps)) rest
       (drained @ map snd (filter (\<lambda>p. out (is_true (fst p))) ps)) s'"
  by (induction xs arbitrary: i before drained s ps)
    (auto simp: wrap_index_id split: prod.splits sum.splits)

lemma fold_snoc: "fold (\<lambda>(v, x) ys. ys @ [v]) ps ys = ys @ map fst ps"
  by (induction ps arbitrary: ys) auto

lemma fold_filter: "fold (\<lambda>(v, x) ys. if q v then ys @ [x] else ys) ps ys = ys @ map snd (filter (\<lambda>p. q (fst p)) ps)"
  by (induction ps arbitrary: ys) auto

lemma visit_pure:
  assumes "\<And>x k s. f x k s = (Ok (p x k), x, s)"
  shows "int (i + length xs) \<le> type_max sys \<Longrightarrow>
    visit sys f (\<lambda>i item v (_ :: unit). if q v then Inl (h i v) else Inr ()) i xs () s =
      (Ok (case find (\<lambda>(k, x). q (p x (int k))) (enumerate i xs) of
         None \<Rightarrow> Inr () | Some (k, x) \<Rightarrow> Inl (h k (p x (int k)))), xs, s)"
  by (induction xs arbitrary: i) (auto simp: assms index_int_id)

text \<open>Where a range starts and how many items it has: an inclusive one has one item at least.\<close>

lemma range_span_exact:
  "range_span from to = (max 0 from, int (nat to - nat from))" for "from" "to"
  by (auto simp: range_span_def Let_def max_def)

lemma closed_span_exact:
  "from < type_max sys \<Longrightarrow> to < type_max sys \<Longrightarrow>
     closed_span sys from to = (max 0 from, int (Suc (nat to - nat from)))" for "from" "to"
  using type_max_pos [of sys] by (auto simp: closed_span_def Let_def max_def min_def)

lemma offset_of_max: "offset_of len (max 0 from) = min (nat from) len" for "from"
  by (simp add: offset_of_def max_def)

lemma take_drop_min: "take (min a (length xs)) xs = take a xs" "drop (min a (length xs)) xs = drop a xs"
    "drop (min a (length xs) + m) xs = drop (a + m) xs"
  by (auto simp: min_def)

lemma ranges_exact:
  fixes "from" "to" :: int
  defines "s \<equiv> nat from" and "m \<equiv> nat to - nat from"
  shows "extract_range xs from to = take m (drop s xs)"
    and "drain_exclusive_range xs from to = (take m (drop s xs), take s xs @ drop (s + m) xs)"
    and "splice_range xs from to new = take s xs @ new @ drop (s + m) xs"
    and "retain_exclusive_range xs from to =
      (if 0 < m \<and> s < length xs then (take s xs @ drop (s + m) xs, take m (drop s xs)) else ([], xs))"
  by (auto simp: extract_range_def drain_exclusive_range_def splice_range_def retain_exclusive_range_def
      range_span_exact extract_exact drain_range_exact splice_exact retain_range_exact offset_of_max take_drop_min
      s_def m_def Let_def)

lemma inclusive_ranges_exact:
  fixes "from" "to" :: int
  assumes "from < type_max sys" "to < type_max sys"
  defines "s \<equiv> nat from" and "m \<equiv> Suc (nat to - nat from)"
  shows "extract_inclusive_range sys xs from to = take m (drop s xs)"
    and "drain_inclusive_range sys xs from to = (take m (drop s xs), take s xs @ drop (s + m) xs)"
    and "splice_inclusive_range sys xs from to new = take s xs @ new @ drop (s + m) xs"
    and "retain_inclusive_range sys xs from to =
      (if s < length xs then (take s xs @ drop (s + m) xs, take m (drop s xs)) else ([], xs))"
  unfolding extract_inclusive_range_def drain_inclusive_range_def splice_inclusive_range_def
    retain_inclusive_range_def closed_span_exact [OF assms(1,2)] prod.case
    extract_exact drain_range_exact splice_exact retain_range_exact offset_of_max Let_def nat_int take_drop_min
  by (auto simp: s_def m_def)

lemma remove_item_exact:
  "remove_item none xs i =
     (if - int (length xs) \<le> i \<and> i < int (length xs)
      then let k = nat (if i < 0 then i + int (length xs) else i) in (xs ! k, take k xs @ drop (Suc k) xs)
      else (none, xs))"
proof -
  have "length xs - nat (- i) = nat (i + int (length xs))" if "i < 0" using that by linarith
  then show ?thesis by (auto simp: remove_item_def calc_index_def Let_def)
qed

text \<open>
  C25. Positions and portions in arrays, for the functions named here. For \<open>get\<close>, \<open>set\<close>, \<open>insert\<close>,
  \<open>extract\<close>, \<open>drain\<close>, \<open>splice\<close>, \<open>split\<close> and \<open>retain\<close> a position is an offset: a negative one counts from the end
  and stops at the first item, one past the end is the end. So \<open>get\<close> and \<open>set\<close> at an index below
  \<open>-length\<close> read and write the first item, although their documentation says that they answer the unit and
  leave the array alone. \<open>remove\<close> does not clamp: outside of the array it answers the unit and
  keeps it. \<open>chop\<close> keeps the last items and \<open>truncate\<close> the first. What is extracted, drained and
  replaced is the portion of that length from the offset on. Retaining keeps the portion, but keeps all of
  the array when the portion is empty. An exclusive range is the portion from its start, or the first item, to
  its end; an inclusive range has its last item too, and one item when it ends before its start.
  Ranges are those that start and end below the largest \<open>INT\<close>.
\<close>

theorem array_portions_exact:
  fixes "from" "to" :: int
  assumes "int (length xs) \<le> type_max sys" and "from < type_max sys" and "to < type_max sys"
  shows "(let a = offset_of (length xs) i; s = nat from; m = nat to - nat from in
    item_get none xs i = (if a < length xs then xs ! a else none) \<and>
    item_set xs i v = xs[a := v] \<and>
    insert_item xs i v = take a xs @ v # drop a xs \<and>
    remove_item none xs i =
      (if - int (length xs) \<le> i \<and> i < int (length xs) then (xs ! a, take a xs @ drop (Suc a) xs)
       else (none, xs)) \<and>
    truncate_items xs n = take (nat n) xs \<and>
    chop_items xs n = drop (length xs - nat n) xs \<and>
    extract_items xs i n = take (nat n) (drop a xs) \<and>
    extract_tail sys xs i = drop a xs \<and>
    drain_range xs i n = (take (nat n) (drop a xs), take a xs @ drop (a + nat n) xs) \<and>
    splice_items xs i n new = take a xs @ new @ drop (a + nat n) xs \<and>
    split_at sys xs i = (drop a xs, take a xs) \<and>
    retain_range xs i n =
      (if 0 < n \<and> a < length xs then (take a xs @ drop (a + nat n) xs, take (nat n) (drop a xs)) else ([], xs)) \<and>
    extract_range xs from to = take m (drop s xs) \<and>
    drain_exclusive_range xs from to = (take m (drop s xs), take s xs @ drop (s + m) xs) \<and>
    splice_range xs from to new = take s xs @ new @ drop (s + m) xs \<and>
    retain_exclusive_range xs from to =
      (if 0 < m \<and> s < length xs then (take s xs @ drop (s + m) xs, take m (drop s xs)) else ([], xs)) \<and>
    extract_inclusive_range sys xs from to = take (Suc m) (drop s xs) \<and>
    drain_inclusive_range sys xs from to = (take (Suc m) (drop s xs), take s xs @ drop (s + Suc m) xs) \<and>
    splice_inclusive_range sys xs from to new = take s xs @ new @ drop (s + Suc m) xs \<and>
    retain_inclusive_range sys xs from to =
      (if s < length xs then (take s xs @ drop (s + Suc m) xs, take (Suc m) (drop s xs)) else ([], xs)))"
  unfolding Let_def
proof (intro conjI)
  let ?a = "offset_of (length xs) i"
  show "item_get none xs i = (if ?a < length xs then xs ! ?a else none)"
    by (simp add: item_get_def calc_offset_len_exact Let_def)
  show "item_set xs i v = xs[?a := v]"
    by (simp add: item_set_def calc_offset_len_exact Let_def list_update_beyond)
  have "nat (if i < 0 then i + int (length xs) else i) = ?a"
    if "- int (length xs) \<le> i" "i < int (length xs)"
    using that by (auto simp: offset_of_def)
  then show "remove_item none xs i =
      (if - int (length xs) \<le> i \<and> i < int (length xs) then (xs ! ?a, take ?a xs @ drop (Suc ?a) xs)
       else (none, xs))"
    by (auto simp: remove_item_exact Let_def)
  show "truncate_items xs n = take (nat n) xs" by (simp add: truncate_items_def Let_def)
  show "chop_items xs n = drop (length xs - nat n) xs" by (simp add: chop_items_def)
  show "extract_tail sys xs i = drop ?a xs" using assms(1) by (simp add: extract_tail_def extract_exact)
qed (use assms in \<open>simp_all add: insert_item_exact extract_exact drain_range_exact splice_exact split_at_exact
      retain_range_exact ranges_exact inclusive_ranges_exact [OF assms(2,3)] Let_def del: drop_Suc take_Suc\<close>)

theorem array_portions_exact_witness:
  "retain_range [1, 2, 3 :: nat] 3 1 = ([], [1, 2, 3]) \<and> item_get 0 [1, 2, 3 :: nat] (- 9) = 1 \<and>
   extract_inclusive_range I64 [1, 2, 3 :: nat] 2 0 = [3]"
proof -
  have l: "int (length [1, 2, 3 :: nat]) \<le> type_max I64" "2 < type_max I64" "0 < type_max I64"
    by (simp_all add: type_max_def)
  show ?thesis
    using array_portions_exact [OF l, of 3 0 0 1 "[]"] array_portions_exact [OF l, of "- 9" 0 0 1 "[]"]
    by (simp add: Let_def offset_of_def)
qed

text \<open>
  C24. Functions called on every item. Where none of the calls fails, \<open>map\<close> answers their values,
  \<open>filter\<close> the items for which they are true, and \<open>drain\<close> and \<open>retain\<close> split the array in two, in order,
  each with the changes the calls made. A call that fails ends the function with its error,
  and what \<open>drain\<close> had removed before it is gone.
\<close>

theorem callbacks_partition:
  assumes "int (length xs) \<le> type_max sys" and "call_all f 0 xs s = Some (ps, s')"
  shows "map_items sys f xs s = (Ok (map fst ps), map snd ps, s') \<and>
    (let yes = map snd (filter (\<lambda>p. is_true (fst p)) ps); no = map snd (filter (\<lambda>p. \<not> is_true (fst p)) ps) in
     filter_items sys f xs s = (Ok yes, map snd ps, s') \<and>
     drain_items sys f xs s = (Ok yes, no, s') \<and>
     retain_items sys f xs s = (Ok no, yes, s') \<and>
     (\<forall>y rest err y' s''. int (length xs + length rest) < type_max sys \<longrightarrow>
       f y (int (length xs)) s' = (Err err, y', s'') \<longrightarrow>
       drain_items sys f (xs @ y # rest) s = (Err err, no @ y' # rest, s'')))"
proof -
  have n: "int (0 + length xs) \<le> type_max sys" using assms(1) by simp
  note v = visit_all [OF n assms(2)] and r = remove_loop_all [OF n assms(2)]
  have e: "ps = [] \<and> s' = s" if "xs = []" using assms(2) that by simp
  have "drain_items sys f (xs @ y # rest) s =
      (Err err, map snd (filter (\<lambda>p. \<not> is_true (fst p)) ps) @ y' # rest, s'')"
    if "f y (int (length xs)) s' = (Err err, y', s'')" for y rest err y' s''
    using that r [where rest = "y # rest"] assms(1) by (simp add: drain_items_def wrap_index_id)
  moreover have "map_items sys f xs s = (Ok (map fst ps), map snd ps, s')"
    using e by (auto simp: map_items_def loop_result_def v fold_snoc)
  moreover have "filter_items sys f xs s = (Ok (map snd (filter (\<lambda>p. is_true (fst p)) ps)), map snd ps, s')"
    using e by (auto simp: filter_items_def loop_result_def v [where g = "\<lambda>v x ar. if is_true v then ar @ [x] else ar"] fold_filter)
  ultimately show ?thesis
    using e r [where rest = "[]"] by (auto simp: Let_def drain_items_def retain_items_def)
qed

theorem callbacks_partition_witness:
  "drain_items I64 (\<lambda>x i s. (Ok (DBool (x = DInt 1)), x, s)) [DInt 1, DInt 2] () =
     ((Ok [DInt 1] :: unit + dynamic list), [DInt 2], ())"
proof -
  have l: "int (length [DInt 1, DInt 2]) \<le> type_max I64" by (simp add: type_max_def)
  have c: "call_all (\<lambda>x i s. (Ok (DBool (x = DInt 1)) :: unit + dynamic, x, s)) 0 [DInt 1, DInt 2] () =
      Some ([(DBool True, DInt 1), (DBool False, DInt 2)], ())" by simp
  from callbacks_partition [OF l c] show ?thesis by (simp add: Let_def is_true_def)
qed

lemma item_get_nat: "k < length xs \<Longrightarrow> item_get none xs (int k) = xs ! k"
  by (auto simp: item_get_def calc_offset_len_exact offset_of_def)

lemma find_map_pairs: "find P (map g ys) = map_option g (find (P \<circ> g) ys)"
  by (induction ys) auto

lemma find_enumerate:
  "find P (enumerate a (drop a xs)) = map_option (\<lambda>k. (k, xs ! k)) (find (\<lambda>k. P (k, xs ! k)) [a..<length xs])"
proof -
  have "enumerate a (drop a xs) = map (\<lambda>k. (k, xs ! k)) [a..<length xs]"
    by (rule nth_equalityI) (auto simp: nth_enumerate_eq)
  then show ?thesis by (simp add: find_map_pairs comp_def)
qed

text \<open>
  Looking for an item. With a function that does not fail, changes nothing and depends on the item and
  its index alone, \<open>index_of\<close> answers the first index from the start whose item satisfies it, or -1, and \<open>find\<close> the
  item there or the unit; \<open>some\<close> and \<open>all\<close> tell whether an item and whether every item does.
\<close>

theorem searches_exact:
  assumes "int (length xs) \<le> type_max sys" and "\<And>x k s. f x k s = (Ok (p x k), x, s)"
  shows "(let a = offset_of (length xs) i; sat = (\<lambda>k. is_true (p (xs ! k) (int k)));
      hit = find sat [a..<length xs] in
    index_of_filter_starting_from sys f xs i s = (Ok (case hit of None \<Rightarrow> - 1 | Some k \<Rightarrow> int k), xs, s) \<and>
    find_starting_from sys f xs i s = (Ok (case hit of None \<Rightarrow> DUnit | Some k \<Rightarrow> xs ! k), xs, s) \<and>
    some_item sys f xs s = (Ok (\<exists>k < length xs. sat k), xs, s) \<and>
    all_items sys f xs s = (Ok (\<forall>k < length xs. sat k), xs, s))"
  unfolding Let_def
proof (intro conjI)
  let ?a = "offset_of (length xs) i" and ?sat = "\<lambda>k. is_true (p (xs ! k) (int k))"
  note pure = visit_pure [of f p, OF assms(2)]
  have "(?a, drop ?a xs) = (?a, drop ?a xs) \<and> int (?a + length (drop ?a xs)) \<le> type_max sys"
    using assms(1) by simp
  then have d: "int (?a + length (drop ?a xs)) \<le> type_max sys" by blast
  have z: "int (0 + length xs) \<le> type_max sys" using assms(1) by simp
  have hit: "k < length xs" if "find ?sat [?a..<length xs] = Some k" for k
    using that by (auto simp: find_Some_iff)
  show "index_of_filter_starting_from sys f xs i s =
      (Ok (case find ?sat [?a..<length xs] of None \<Rightarrow> - 1 | Some k \<Rightarrow> int k), xs, s)"
  proof (cases "xs = []")
    case False
    have f: "find (\<lambda>(k, x). is_true (p x (int k))) (enumerate ?a (drop ?a xs)) =
        map_option (\<lambda>k. (k, xs ! k)) (find ?sat [?a..<length xs])"
      using find_enumerate [of "\<lambda>(k, x). is_true (p x (int k))" ?a xs] by simp
    have v: "visit_from sys f (\<lambda>i item v (_ :: unit). if is_true v then Inl (index_int sys i) else Inr ()) ?a xs () s =
        (Ok (case find ?sat [?a..<length xs] of None \<Rightarrow> Inr () | Some k \<Rightarrow> Inl (index_int sys k)), xs, s)"
      unfolding visit_from_def pure [where q = is_true and h = "\<lambda>i v. index_int sys i", OF d] f
      by (cases "find ?sat [?a..<length xs]") simp_all
    have l: "index_of_filter_starting_from sys f xs i s = loop_result (\<lambda>_. - 1)
        (visit_from sys f (\<lambda>i item v (_ :: unit). if is_true v then Inl (index_int sys i) else Inr ()) ?a xs () s)"
      using False by (simp add: index_of_filter_starting_from_def index_of_start_inner_def calc_offset_len_exact)
    have "index_int sys k = int k" if "find ?sat [?a..<length xs] = Some k" for k
      using hit [OF that] assms(1) by (simp add: index_int_id)
    then show ?thesis
      unfolding l v loop_result_def by (cases "find ?sat [?a..<length xs]") simp_all
  qed (simp add: index_of_filter_starting_from_def)
  then have ix: "index_of_filter_starting_from sys f xs i s =
      (Ok (case find ?sat [?a..<length xs] of None \<Rightarrow> - 1 | Some k \<Rightarrow> int k), xs, s)" .
  show "find_starting_from sys f xs i s =
      (Ok (case find ?sat [?a..<length xs] of None \<Rightarrow> DUnit | Some k \<Rightarrow> xs ! k), xs, s)"
  proof (cases "find ?sat [?a..<length xs]")
    case None
    then show ?thesis unfolding find_starting_from_def ix None by simp
  next
    case (Some k)
    from hit [OF Some] show ?thesis
      unfolding find_starting_from_def ix Some by (simp add: item_get_nat)
  qed
  show "some_item sys f xs s = (Ok (\<exists>k < length xs. ?sat k), xs, s)"
    using find_enumerate [of "\<lambda>(k, x). is_true (p x (int k))" 0 xs]
    by (auto simp: some_item_def pure [where q = is_true and h = "\<lambda>i v. True", OF z] loop_result_def
        find_None_iff find_Some_iff split: option.split)
  show "all_items sys f xs s = (Ok (\<forall>k < length xs. ?sat k), xs, s)"
    using find_enumerate [of "\<lambda>(k, x). \<not> is_true (p x (int k))" 0 xs]
    by (auto simp: all_items_def pure [where q = "\<lambda>v. \<not> is_true v" and h = "\<lambda>i v. False", OF z] loop_result_def
        find_None_iff find_Some_iff split: option.split)
qed

theorem searches_exact_witness:
  "index_of_filter_starting_from I64 (\<lambda>x i s. (Ok (DBool (x = DInt 1)) :: unit + dynamic, x, s))
     [DInt 1, DInt 2, DInt 1] (- 2) () = (Ok 2, [DInt 1, DInt 2, DInt 1], ())"
proof -
  have l: "int (length [DInt 1, DInt 2, DInt 1]) \<le> type_max I64" by (simp add: type_max_def)
  show ?thesis
    using searches_exact [OF l, where f = "\<lambda>x i s. (Ok (DBool (x = DInt 1)) :: unit + dynamic, x, s :: unit)"
        and s = "()" and p = "\<lambda>x i. DBool (x = DInt 1)" and i = "- 2"]
    by (simp add: Let_def offset_of_def is_true_def upt_rec)
qed

section \<open>Sorted arrays\<close>

lemma mset_insert_by: "mset (insert_by le x ys) = add_mset x (mset ys)"
  by (induction ys) auto

lemma mset_slice_sort_by: "mset (slice_sort_by le xs) = mset xs"
  unfolding slice_sort_by_def by (induction xs) (auto simp: mset_insert_by)

text \<open>A comparison in which any two compare and that is transitive.\<close>

definition preorder_by :: "('a \<Rightarrow> 'a \<Rightarrow> bool) \<Rightarrow> bool" where
  "preorder_by le \<longleftrightarrow> (\<forall>a b. le a b \<or> le b a) \<and> (\<forall>a b c. le a b \<longrightarrow> le b c \<longrightarrow> le a c)"

lemma sorted_insert_by: "preorder_by le \<Longrightarrow> sorted_wrt le ys \<Longrightarrow> sorted_wrt le (insert_by le x ys)"
proof (induction ys)
  case (Cons y ys)
  have "set (insert_by le x ys) = insert x (set ys)"
    using arg_cong [OF mset_insert_by [of le x ys], of set_mset] by simp
  moreover have "le x z" if "le x y" "z \<in> set ys" for z
    using that Cons.prems unfolding preorder_by_def by (meson list.set_intros sorted_wrt.simps(2))
  moreover have "le y x" if "\<not> le x y" using that Cons.prems(1) by (auto simp: preorder_by_def)
  ultimately show ?case using Cons by auto
qed simp

lemma sorted_slice_sort_by: "preorder_by le \<Longrightarrow> sorted_wrt le (slice_sort_by le xs)"
  unfolding slice_sort_by_def by (induction xs) (auto intro: sorted_insert_by)

lemma filter_insert_by:
  "preorder_by le \<Longrightarrow> filter (\<lambda>x. le x a \<and> le a x) (insert_by le x ys) =
     (if le x a \<and> le a x then [x] else []) @ filter (\<lambda>x. le x a \<and> le a x) ys"
proof (induction ys)
  case (Cons y ys)
  have "le x y" if "le x a" "le a y" using that Cons.prems by (auto simp: preorder_by_def)
  with Cons show ?case by auto
qed simp

lemma stable_slice_sort_by:
  "preorder_by le \<Longrightarrow> filter (\<lambda>x. le x a \<and> le a x) (slice_sort_by le xs) = filter (\<lambda>x. le x a \<and> le a x) xs"
  unfolding slice_sort_by_def by (induction xs) (auto simp: filter_insert_by)

lemma less_bytes_linear: "less_bytes s t \<or> s = t \<or> less_bytes t s"
proof (induction s t rule: less_bytes.induct)
  case (1 s)
  then show ?case by (cases s) auto
qed auto

lemma less_bytes_asym: "less_bytes s t \<Longrightarrow> \<not> less_bytes t s"
  by (induction s t rule: less_bytes.induct) auto

lemma less_bytes_trans: "less_bytes s t \<Longrightarrow> less_bytes t u \<Longrightarrow> less_bytes s u"
proof (induction s t arbitrary: u rule: less_bytes.induct)
  case (2 b t)
  then show ?case by (cases u) auto
next
  case (3 a s b t)
  then show ?case by (cases u) auto
qed simp

lemma not_less_bytes_trans: "\<not> less_bytes t s \<Longrightarrow> \<not> less_bytes u t \<Longrightarrow> \<not> less_bytes u s"
  using less_bytes_linear [of t s] less_bytes_linear [of u t] less_bytes_trans less_bytes_asym by blast

lemma preorder_flip: "preorder_by le \<Longrightarrow> preorder_by (\<lambda>a b. le b a)"
  by (auto simp: preorder_by_def)

lemma preorder_key: "preorder_by (\<lambda>a b. key a \<le> (key b :: 'k :: linorder))"
  by (auto simp: preorder_by_def)

text \<open>A stable sort: the same items in order, and those that compare equal in the order they had.\<close>

definition sorted_into :: "('a \<Rightarrow> 'a \<Rightarrow> bool) \<Rightarrow> 'a list \<Rightarrow> 'a list \<Rightarrow> bool" where
  "sorted_into le xs ys \<longleftrightarrow> mset ys = mset xs \<and> sorted_wrt le ys \<and>
     (\<forall>a. filter (\<lambda>x. le x a \<and> le a x) ys = filter (\<lambda>x. le x a \<and> le a x) xs)"

lemma slice_sort_into: "preorder_by le \<Longrightarrow> sorted_into le xs (slice_sort_by le xs)"
  by (simp add: sorted_into_def mset_slice_sort_by sorted_slice_sort_by stable_slice_sort_by)

lemma slice_sort_key:
  fixes f :: "'a \<Rightarrow> 'k :: linorder"
  shows "slice_sort_by (\<lambda>a b. f a \<le> f b) xs = sort_key f xs"
proof -
  have "insert_by (\<lambda>a b. f a \<le> f b) x ys = insort_key f x ys" for x ys by (induction ys) auto
  then have "insert_by (\<lambda>a b. f a \<le> f b) = insort_key f" by blast
  then show ?thesis by (simp add: slice_sort_by_def sort_key_def)
qed

lemma slice_sort_key_desc:
  "slice_sort_by (\<lambda>a b. int_of b \<le> int_of a) xs = sort_key (\<lambda>x. - int_of x) xs"
  "slice_sort_by (\<lambda>a b. char_of_value b \<le> char_of_value a) xs = sort_key (\<lambda>x. - uint (char_of_value x)) xs"
  "slice_sort_by (\<lambda>a b. bool_of b \<le> bool_of a) xs = sort_key (\<lambda>x. \<not> bool_of x) xs"
  by (simp_all add: slice_sort_key [symmetric] word_le_def imp_conv_disj disj_commute)

lemma slice_sort_all: "slice_sort_by (\<lambda>a b. True) xs = xs"
proof -
  have "insert_by (\<lambda>a b. True) x ys = x # ys" for x :: 'a and ys by (cases ys) simp_all
  then show ?thesis unfolding slice_sort_by_def by (induction xs) simp_all
qed

lemma less_bytes_order: "less_bytes s t \<longleftrightarrow> (s, t) \<in> lexord {(x, y). x < y}"
  by (induction s t rule: less_bytes.induct) auto

lemma bytes_preorder: "preorder_by (\<lambda>a b. (bytes_of b, bytes_of a) \<notin> lexord {(x, y). x < y})"
  unfolding preorder_by_def less_bytes_order [symmetric] using not_less_bytes_trans less_bytes_asym by blast

lemma sorts_by_order:
  assumes "1 < length xs" "\<forall>x \<in> set xs. type_id x = type_id (hd xs)"
  shows "sort_with_builtin number_le xs = (case builtin_order number_le (hd xs) of
      Some le \<Rightarrow> Ok (slice_sort_by le xs) | None \<Rightarrow> Err Unsortable)"
    and "sort_with_builtin_desc number_le xs = (case builtin_order number_le (hd xs) of
      Some le \<Rightarrow> Ok (slice_sort_by (\<lambda>a b. le b a) xs) | None \<Rightarrow> Err Unsortable)"
proof -
  have "\<not> list_ex (\<lambda>a. type_id a \<noteq> type_id (hd xs)) xs" using assms(2) by (auto simp: list_ex_iff)
  with assms(1) show "sort_with_builtin number_le xs = (case builtin_order number_le (hd xs) of
      Some le \<Rightarrow> Ok (slice_sort_by le xs) | None \<Rightarrow> Err Unsortable)"
    "sort_with_builtin_desc number_le xs = (case builtin_order number_le (hd xs) of
      Some le \<Rightarrow> Ok (slice_sort_by (\<lambda>a b. le b a) xs) | None \<Rightarrow> Err Unsortable)"
    by (simp_all add: sort_with_builtin_def sort_with_builtin_desc_def)
qed

text \<open>
  C26. Sorting, up (\<open>sort\<close>) and down (\<open>sort_desc\<close>), on every array, where floats and decimals compare totally. Up
  to one item nothing is looked at. Items of different types are an error, and so are items of one
  type that is not a number, a character, a string, a boolean or the unit; all others
  are sorted. Integers, characters and booleans come out by their value, upwards or downwards, strings
  by the order of their bytes, floats and decimals by their comparison, and units as they are; both ways
  are stable: items that compare equal keep the order they had.
\<close>

theorem sort_exact:
  assumes "preorder_by number_le"
  shows "(let up = sort_with_builtin number_le xs; down = sort_with_builtin_desc number_le xs;
        bytes_le = (\<lambda>a b. (bytes_of b, bytes_of a) \<notin> lexord {(c, d). c < d});
        stably = (\<lambda>le. \<exists>ys zs. up = Ok ys \<and> down = Ok zs \<and> sorted_into le xs ys \<and>
          sorted_into (\<lambda>a b. le b a) xs zs) in
    if length xs \<le> 1 then up = Ok xs \<and> down = Ok xs
    else if \<exists>x \<in> set xs. type_id x \<noteq> type_id (hd xs)
    then up = Err Different_types \<and> down = Err Different_types
    else case hd xs of
        DInt _ \<Rightarrow> up = Ok (sort_key int_of xs) \<and> down = Ok (sort_key (\<lambda>x. - int_of x) xs)
      | DChar _ \<Rightarrow> up = Ok (sort_key char_of_value xs) \<and> down = Ok (sort_key (\<lambda>x. - uint (char_of_value x)) xs)
      | DBool _ \<Rightarrow> up = Ok (sort_key bool_of xs) \<and> down = Ok (sort_key (\<lambda>x. \<not> bool_of x) xs)
      | DUnit \<Rightarrow> up = Ok xs \<and> down = Ok xs
      | DString _ \<Rightarrow> stably bytes_le
      | DFloat _ \<Rightarrow> stably number_le
      | DDecimal _ _ \<Rightarrow> stably number_le
      | _ \<Rightarrow> up = Err Unsortable \<and> down = Err Unsortable)"
proof -
  consider "length xs \<le> 1" | "1 < length xs" "\<exists>x \<in> set xs. type_id x \<noteq> type_id (hd xs)"
    | "1 < length xs" "\<forall>x \<in> set xs. type_id x = type_id (hd xs)" by force
  then show ?thesis
  proof cases
    case 1
    then show ?thesis by (simp add: sort_with_builtin_def sort_with_builtin_desc_def)
  next
    case 2
    then have "list_ex (\<lambda>a. type_id a \<noteq> type_id (hd xs)) xs" by (simp add: list_ex_iff)
    with 2 show ?thesis by (simp add: sort_with_builtin_def sort_with_builtin_desc_def)
  next
    case 3
    note sorts = sorts_by_order [OF 3, of number_le]
    note into = slice_sort_into [OF assms] slice_sort_into [OF preorder_flip [OF assms]]
      slice_sort_into [OF bytes_preorder] slice_sort_into [OF preorder_flip [OF bytes_preorder]]
    from 3 show ?thesis
      by (cases "hd xs")
        (simp_all add: sorts builtin_order_def slice_sort_key slice_sort_key_desc slice_sort_all less_bytes_order
          slice_sort_key [of bool_of, unfolded le_bool_def] slice_sort_key_desc(3) [unfolded le_bool_def]
          into Let_def)
  qed
qed

theorem sort_exact_witness:
  "sort_with_builtin (\<lambda>a b. True) [DInt 2, DInt 1] = Ok [DInt 1, DInt 2] \<and>
   sort_with_builtin_desc (\<lambda>a b. True) [DInt 2, DString []] = Err Different_types"
proof -
  have p: "preorder_by (\<lambda>a b :: dynamic. True)" by (simp add: preorder_by_def)
  from sort_exact [OF p, of "[DInt 2, DInt 1]"] sort_exact [OF p, of "[DInt 2, DString []]"] show ?thesis
    by (simp add: type_id_def int_of_def)
qed

end
