(* ===== verification/Blobs.thy ===== *)
theory Blobs
  imports Arrays
begin

text \<open>
  The BLOB functions of the standard library (\<open>src/packages/blob_basic.rs\<close>): those that are the array
  functions over bytes, the splice and the retention that are not, and the numbers and strings
  parsed from and written into a portion of a BLOB. \<open>usize\<close> has 64 bits; a BLOB as long as it
  is asked for fits in memory. Text read from bytes (\<open>as_string\<close>) is not modelled.
\<close>

section \<open>Bytes by position\<close>

text \<open>\<open>u8::try_from(value & 0x00ff).unwrap()\<close> and \<open>byte as INT\<close>.\<close>

definition byte_of :: "int \<Rightarrow> u8" where
  "byte_of v = word_of_int (v AND 255)"

definition byte_int :: "u8 \<Rightarrow> int" where
  "byte_int b = uint b"

definition blob_with_capacity_and_value :: "features \<Rightarrow> limits \<Rightarrow> int \<Rightarrow> int \<Rightarrow> too_large + u8 list" where
  "blob_with_capacity_and_value f l len v =
     (if len \<le> 0 then Ok []
      else rbind (throw_on_size f l (nat len, 0, 0)) (\<lambda>_. Ok (replicate (nat len) (byte_of v))))"

definition blob_with_capacity :: "features \<Rightarrow> limits \<Rightarrow> int \<Rightarrow> too_large + u8 list" where
  "blob_with_capacity f l len = blob_with_capacity_and_value f l len 0"

definition blob_to_array :: "u8 list \<Rightarrow> dynamic list" where
  "blob_to_array bytes = map (\<lambda>ch. DInt (byte_int ch)) bytes"

definition blob_len :: "int_type \<Rightarrow> u8 list \<Rightarrow> int" where
  "blob_len sys bytes = array_len sys bytes"

definition blob_is_empty :: "u8 list \<Rightarrow> bool" where
  "blob_is_empty bytes \<longleftrightarrow> length bytes = 0"

definition blob_contains :: "u8 list \<Rightarrow> int \<Rightarrow> bool" where
  "blob_contains bytes v \<longleftrightarrow> byte_of v \<in> set bytes"

definition blob_get :: "u8 list \<Rightarrow> int \<Rightarrow> int" where
  "blob_get bytes index = byte_int (item_get 0 bytes index)"

definition blob_set :: "u8 list \<Rightarrow> int \<Rightarrow> int \<Rightarrow> u8 list" where
  "blob_set bytes index v = item_set bytes index (byte_of v)"

definition blob_push :: "u8 list \<Rightarrow> int \<Rightarrow> u8 list" where
  "blob_push bytes v = push_item bytes (byte_of v)"

definition blob_append :: "u8 list \<Rightarrow> u8 list \<Rightarrow> u8 list" where
  "blob_append blob1 blob2 = append_items blob1 blob2"

definition blob_append_str :: "u8 list \<Rightarrow> u8 list \<Rightarrow> u8 list" where
  "blob_append_str bytes str = (if str = [] then bytes else bytes @ str)"

definition blob_append_char :: "u8 list \<Rightarrow> u32 \<Rightarrow> u8 list" where
  "blob_append_char bytes c = bytes @ encode_utf8 c"

definition blob_insert :: "u8 list \<Rightarrow> int \<Rightarrow> int \<Rightarrow> u8 list" where
  "blob_insert bytes index v = insert_item bytes index (byte_of v)"

definition blob_pad :: "limits \<Rightarrow> u8 list \<Rightarrow> int \<Rightarrow> int \<Rightarrow> too_large + u8 list" where
  "blob_pad l bytes len v =
     (if len \<le> 0 then Ok bytes
      else let len = nat len; most = or_zero (array_size l) in
        if most > 0 \<and> len > most then Err Size_of_array
        else Ok (if len > length bytes then bytes @ replicate (len - length bytes) (byte_of v) else bytes))"

definition blob_pop :: "u8 list \<Rightarrow> int \<times> u8 list" where
  "blob_pop bytes = map_prod byte_int id (pop_item 0 bytes)"

definition blob_shift :: "u8 list \<Rightarrow> int \<times> u8 list" where
  "blob_shift bytes = map_prod byte_int id (shift_item 0 bytes)"

definition blob_remove :: "u8 list \<Rightarrow> int \<Rightarrow> int \<times> u8 list" where
  "blob_remove bytes index = map_prod byte_int id (remove_item 0 bytes index)"

definition blob_clear :: "u8 list \<Rightarrow> u8 list" where
  "blob_clear bytes = clear_items bytes"

definition blob_truncate :: "u8 list \<Rightarrow> int \<Rightarrow> u8 list" where
  "blob_truncate bytes len = (if bytes = [] then bytes else if len \<le> 0 then [] else take (nat len) bytes)"

definition blob_chop :: "u8 list \<Rightarrow> int \<Rightarrow> u8 list" where
  "blob_chop bytes len =
     (if bytes = [] then bytes else if len \<le> 0 then []
      else if nat len \<ge> length bytes then bytes else drop (length bytes - nat len) bytes)"

definition blob_reverse :: "u8 list \<Rightarrow> u8 list" where
  "blob_reverse bytes = reverse_items bytes"

section \<open>Portions of bytes\<close>

definition blob_splice :: "u8 list \<Rightarrow> int \<Rightarrow> int \<Rightarrow> u8 list \<Rightarrow> u8 list" where
  "blob_splice bytes start n new =
     (if bytes = [] then new
      else case calc_offset_len (length bytes) start n of (start, n) \<Rightarrow>
        if n = 0 then bytes @ new else take start bytes @ new @ drop (start + n) bytes)"

definition blob_splice_range :: "u8 list \<Rightarrow> int \<Rightarrow> int \<Rightarrow> u8 list \<Rightarrow> u8 list" where
  "blob_splice_range bytes start stop new = (case range_span start stop of (from, n) \<Rightarrow> blob_splice bytes from n new)"

definition blob_splice_range_inclusive :: "int_type \<Rightarrow> u8 list \<Rightarrow> int \<Rightarrow> int \<Rightarrow> u8 list \<Rightarrow> u8 list" where
  "blob_splice_range_inclusive sys bytes start stop new =
     (case closed_span sys start stop of (from, n) \<Rightarrow> blob_splice bytes from n new)"

definition blob_extract :: "u8 list \<Rightarrow> int \<Rightarrow> int \<Rightarrow> u8 list" where
  "blob_extract bytes start n = extract_items bytes start n"

definition blob_extract_range :: "u8 list \<Rightarrow> int \<Rightarrow> int \<Rightarrow> u8 list" where
  "blob_extract_range bytes start stop = (case range_span start stop of (from, n) \<Rightarrow> blob_extract bytes from n)"

definition blob_extract_range_inclusive :: "int_type \<Rightarrow> u8 list \<Rightarrow> int \<Rightarrow> int \<Rightarrow> u8 list" where
  "blob_extract_range_inclusive sys bytes start stop =
     (case closed_span sys start stop of (from, n) \<Rightarrow> blob_extract bytes from n)"

definition blob_extract_tail :: "int_type \<Rightarrow> u8 list \<Rightarrow> int \<Rightarrow> u8 list" where
  "blob_extract_tail sys bytes start = blob_extract bytes start (type_max sys)"

definition blob_split_at :: "int_type \<Rightarrow> u8 list \<Rightarrow> int \<Rightarrow> u8 list \<times> u8 list" where
  "blob_split_at sys bytes index =
     (if bytes = [] then ([], bytes)
      else case calc_offset_len (length bytes) index (type_max sys) of (index, n) \<Rightarrow>
        if index \<ge> length bytes then ([], bytes)
        else if index = 0 then
          if n > length bytes then (bytes, [])
          else (drop (length bytes - n) bytes, take (length bytes - n) bytes)
        else (drop index bytes, take index bytes))"

definition blob_drain :: "u8 list \<Rightarrow> int \<Rightarrow> int \<Rightarrow> u8 list \<times> u8 list" where
  "blob_drain bytes start n = drain_range bytes start n"

definition blob_drain_range :: "u8 list \<Rightarrow> int \<Rightarrow> int \<Rightarrow> u8 list \<times> u8 list" where
  "blob_drain_range bytes start stop = (case range_span start stop of (from, n) \<Rightarrow> blob_drain bytes from n)"

definition blob_drain_range_inclusive :: "int_type \<Rightarrow> u8 list \<Rightarrow> int \<Rightarrow> int \<Rightarrow> u8 list \<times> u8 list" where
  "blob_drain_range_inclusive sys bytes start stop =
     (case closed_span sys start stop of (from, n) \<Rightarrow> blob_drain bytes from n)"

definition blob_retain :: "u8 list \<Rightarrow> int \<Rightarrow> int \<Rightarrow> u8 list \<times> u8 list" where
  "blob_retain bytes start n =
     (if bytes = [] \<or> n \<le> 0 then ([], bytes)
      else case calc_offset_len (length bytes) start n of (start, n) \<Rightarrow>
        if n = 0 then (bytes, [])
        else let drained = take start bytes; bytes = drop start bytes in (drained @ drop n bytes, take n bytes))"

definition blob_retain_range :: "u8 list \<Rightarrow> int \<Rightarrow> int \<Rightarrow> u8 list \<times> u8 list" where
  "blob_retain_range bytes start stop = (case range_span start stop of (from, n) \<Rightarrow> blob_retain bytes from n)"

definition blob_retain_range_inclusive :: "int_type \<Rightarrow> u8 list \<Rightarrow> int \<Rightarrow> int \<Rightarrow> u8 list \<times> u8 list" where
  "blob_retain_range_inclusive sys bytes start stop =
     (case closed_span sys start stop of (from, n) \<Rightarrow> blob_retain bytes from n)"

section \<open>Numbers in bytes\<close>

text \<open>\<open>INT_BYTES\<close>, and \<open>to_le_bytes\<close> and \<open>from_le_bytes\<close> of an \<open>INT\<close>; the other order is reversed.\<close>

definition int_width :: "int_type \<Rightarrow> nat" where
  "int_width sys = type_bits sys div 8"

fun le_bytes_of :: "nat \<Rightarrow> int \<Rightarrow> u8 list" where
  "le_bytes_of 0 v = []"
| "le_bytes_of (Suc n) v = word_of_int v # le_bytes_of n (v div 256)"

fun le_value :: "u8 list \<Rightarrow> int" where
  "le_value [] = 0"
| "le_value (b # bs) = uint b + 256 * le_value bs"

definition to_bytes :: "int_type \<Rightarrow> bool \<Rightarrow> int \<Rightarrow> u8 list" where
  "to_bytes sys is_le v = (let bs = le_bytes_of (int_width sys) v in if is_le then bs else rev bs)"

definition from_bytes :: "int_type \<Rightarrow> bool \<Rightarrow> u8 list \<Rightarrow> int" where
  "from_bytes sys is_le bs = wrap sys (le_value (if is_le then bs else rev bs))"

definition parse_int :: "int_type \<Rightarrow> u8 list \<Rightarrow> int \<Rightarrow> int \<Rightarrow> bool \<Rightarrow> int" where
  "parse_int sys bytes start n is_le =
     (if bytes = [] \<or> n \<le> 0 then 0
      else case calc_offset_len (length bytes) start n of (start, n) \<Rightarrow>
        if n = 0 then 0
        else let n = min n (int_width sys);
                 buf = take n (drop start bytes) @ replicate (int_width sys - n) 0
             in from_bytes sys is_le buf)"

definition parse_le_int :: "int_type \<Rightarrow> u8 list \<Rightarrow> int \<Rightarrow> int \<Rightarrow> int" where
  "parse_le_int sys bytes start n = parse_int sys bytes start n True"

definition parse_be_int :: "int_type \<Rightarrow> u8 list \<Rightarrow> int \<Rightarrow> int \<Rightarrow> int" where
  "parse_be_int sys bytes start n = parse_int sys bytes start n False"

definition parse_le_int_range :: "int_type \<Rightarrow> u8 list \<Rightarrow> int \<Rightarrow> int \<Rightarrow> int" where
  "parse_le_int_range sys bytes start stop = (case range_span start stop of (from, n) \<Rightarrow> parse_le_int sys bytes from n)"

definition parse_le_int_range_inclusive :: "int_type \<Rightarrow> u8 list \<Rightarrow> int \<Rightarrow> int \<Rightarrow> int" where
  "parse_le_int_range_inclusive sys bytes start stop =
     (case closed_span sys start stop of (from, n) \<Rightarrow> parse_le_int sys bytes from n)"

definition parse_be_int_range :: "int_type \<Rightarrow> u8 list \<Rightarrow> int \<Rightarrow> int \<Rightarrow> int" where
  "parse_be_int_range sys bytes start stop = (case range_span start stop of (from, n) \<Rightarrow> parse_be_int sys bytes from n)"

definition parse_be_int_range_inclusive :: "int_type \<Rightarrow> u8 list \<Rightarrow> int \<Rightarrow> int \<Rightarrow> int" where
  "parse_be_int_range_inclusive sys bytes start stop =
     (case closed_span sys start stop of (from, n) \<Rightarrow> parse_be_int sys bytes from n)"

text \<open>\<open>blob[start..][..n].copy_from_slice(..)\<close> of as many bytes.\<close>

definition copy_into :: "u8 list \<Rightarrow> nat \<Rightarrow> u8 list \<Rightarrow> u8 list" where
  "copy_into bytes start bs = take start bytes @ bs @ drop (start + length bs) bytes"

definition write_int :: "int_type \<Rightarrow> u8 list \<Rightarrow> int \<Rightarrow> int \<Rightarrow> int \<Rightarrow> bool \<Rightarrow> u8 list" where
  "write_int sys bytes start n v is_le =
     (if bytes = [] \<or> n \<le> 0 then bytes
      else case calc_offset_len (length bytes) start n of (start, n) \<Rightarrow>
        if n = 0 then bytes
        else let n = min n (int_width sys) in copy_into bytes start (take n (to_bytes sys is_le v)))"

definition write_le_int :: "int_type \<Rightarrow> u8 list \<Rightarrow> int \<Rightarrow> int \<Rightarrow> int \<Rightarrow> u8 list" where
  "write_le_int sys bytes start n v = write_int sys bytes start n v True"

definition write_be_int :: "int_type \<Rightarrow> u8 list \<Rightarrow> int \<Rightarrow> int \<Rightarrow> int \<Rightarrow> u8 list" where
  "write_be_int sys bytes start n v = write_int sys bytes start n v False"

definition write_le_int_range :: "int_type \<Rightarrow> u8 list \<Rightarrow> int \<Rightarrow> int \<Rightarrow> int \<Rightarrow> u8 list" where
  "write_le_int_range sys bytes start stop v =
     (case range_span start stop of (from, n) \<Rightarrow> write_le_int sys bytes from n v)"

definition write_le_int_range_inclusive :: "int_type \<Rightarrow> u8 list \<Rightarrow> int \<Rightarrow> int \<Rightarrow> int \<Rightarrow> u8 list" where
  "write_le_int_range_inclusive sys bytes start stop v =
     (case closed_span sys start stop of (from, n) \<Rightarrow> write_le_int sys bytes from n v)"

definition write_be_int_range :: "int_type \<Rightarrow> u8 list \<Rightarrow> int \<Rightarrow> int \<Rightarrow> int \<Rightarrow> u8 list" where
  "write_be_int_range sys bytes start stop v =
     (case range_span start stop of (from, n) \<Rightarrow> write_be_int sys bytes from n v)"

definition write_be_int_range_inclusive :: "int_type \<Rightarrow> u8 list \<Rightarrow> int \<Rightarrow> int \<Rightarrow> int \<Rightarrow> u8 list" where
  "write_be_int_range_inclusive sys bytes start stop v =
     (case closed_span sys start stop of (from, n) \<Rightarrow> write_be_int sys bytes from n v)"

text \<open>A float is its \<open>FLOAT_BYTES\<close> bytes, least first, of which the first argument is the number.\<close>

definition parse_float :: "nat \<Rightarrow> u8 list \<Rightarrow> int \<Rightarrow> int \<Rightarrow> bool \<Rightarrow> u8 list" where
  "parse_float fbytes bytes start n is_le =
     (if bytes = [] \<or> n \<le> 0 then replicate fbytes 0
      else case calc_offset_len (length bytes) start n of (start, n) \<Rightarrow>
        if n = 0 then replicate fbytes 0
        else let n = min n fbytes;
                 buf = take n (drop start bytes) @ replicate (fbytes - n) 0
             in if is_le then buf else rev buf)"

definition write_float :: "nat \<Rightarrow> u8 list \<Rightarrow> int \<Rightarrow> int \<Rightarrow> u8 list \<Rightarrow> bool \<Rightarrow> u8 list" where
  "write_float fbytes bytes start n v is_le =
     (if bytes = [] \<or> n \<le> 0 then bytes
      else case calc_offset_len (length bytes) start n of (start, n) \<Rightarrow>
        if n = 0 then bytes
        else let n = min n fbytes in copy_into bytes start (take n (if is_le then v else rev v)))"

section \<open>Text in bytes\<close>

definition write_string :: "u8 list \<Rightarrow> int \<Rightarrow> int \<Rightarrow> u8 list \<Rightarrow> bool \<Rightarrow> u8 list" where
  "write_string bytes start n str ascii_only =
     (if n \<le> 0 \<or> bytes = [] \<or> str = [] then bytes
      else case calc_offset_len (length bytes) start n of (start, n) \<Rightarrow>
        if n = 0 then bytes
        else let n = min n (length str) in
          if ascii_only
          then copy_into bytes start (map ucast (take n (filter (\<lambda>ch. ch < 128) (chars str))))
          else copy_into bytes start (take n str))"

definition write_utf8_string :: "u8 list \<Rightarrow> int \<Rightarrow> int \<Rightarrow> u8 list \<Rightarrow> u8 list" where
  "write_utf8_string bytes start n str = write_string bytes start n str False"

definition write_utf8_string_range :: "u8 list \<Rightarrow> int \<Rightarrow> int \<Rightarrow> u8 list \<Rightarrow> u8 list" where
  "write_utf8_string_range bytes start stop str =
     (case range_span start stop of (from, n) \<Rightarrow> write_string bytes from n str False)"

definition write_utf8_string_range_inclusive :: "int_type \<Rightarrow> u8 list \<Rightarrow> int \<Rightarrow> int \<Rightarrow> u8 list \<Rightarrow> u8 list" where
  "write_utf8_string_range_inclusive sys bytes start stop str =
     (case closed_span sys start stop of (from, n) \<Rightarrow> write_string bytes from n str False)"

definition write_ascii_string :: "u8 list \<Rightarrow> int \<Rightarrow> int \<Rightarrow> u8 list \<Rightarrow> u8 list" where
  "write_ascii_string bytes start n str = write_string bytes start n str True"

definition write_ascii_string_range :: "u8 list \<Rightarrow> int \<Rightarrow> int \<Rightarrow> u8 list \<Rightarrow> u8 list" where
  "write_ascii_string_range bytes start stop str =
     (case range_span start stop of (from, n) \<Rightarrow> write_string bytes from n str True)"

definition write_ascii_string_range_inclusive :: "int_type \<Rightarrow> u8 list \<Rightarrow> int \<Rightarrow> int \<Rightarrow> u8 list \<Rightarrow> u8 list" where
  "write_ascii_string_range_inclusive sys bytes start stop str =
     (case closed_span sys start stop of (from, n) \<Rightarrow> write_string bytes from n str True)"

section \<open>What was written is read\<close>

lemma length_le_bytes_of [simp]: "length (le_bytes_of n v) = n"
  by (induction n arbitrary: v) auto

lemma uint_byte: "uint (word_of_int v :: u8) = v mod 256"
  by (simp add: uint_word_of_int)

lemma le_value_of: "le_value (le_bytes_of n v) = take_bit (8 * n) v"
proof (induction n arbitrary: v)
  case (Suc n)
  have "take_bit (8 * Suc n) v = v mod 256 + 256 * take_bit (8 * n) (v div 256)"
    unfolding take_bit_eq_mod using zmod_zmult2_eq [of "2 ^ (8 * n)" v 256]
    by (simp add: power_add mult.commute)
  then show ?case by (simp add: Suc.IH uint_byte)
qed simp

lemma take_le_bytes_of: "k \<le> n \<Longrightarrow> take k (le_bytes_of n v) = le_bytes_of k v"
proof (induction k arbitrary: n v)
  case (Suc k)
  then obtain m where "n = Suc m" by (cases n) auto
  with Suc show ?case by simp
qed simp

lemma drop_le_bytes_of: "k \<le> n \<Longrightarrow> drop k (le_bytes_of n v) = le_bytes_of (n - k) (v div 256 ^ k)"
proof (induction k arbitrary: n v)
  case (Suc k)
  then obtain m where n: "n = Suc m" by (cases n) auto
  have "v div 256 div 256 ^ k = v div 256 ^ Suc k"
    by (simp add: zdiv_zmult2_eq)
  with n Suc show ?case by simp
qed simp

lemma le_value_zeros: "le_value (bs @ replicate k 0) = le_value bs"
proof -
  have "le_value (replicate k 0) = 0" by (induction k) auto
  then show ?thesis by (induction bs) auto
qed

lemma le_value_shift: "le_value (replicate k 0 @ bs) = 256 ^ k * le_value bs"
  by (induction k) auto

lemma copied:
  "start + length bs \<le> length bytes \<Longrightarrow> take (length bs) (drop start (copy_into bytes start bs)) = bs"
  by (simp add: copy_into_def)

lemma length_copy_into: "start + length bs \<le> length bytes \<Longrightarrow> length (copy_into bytes start bs) = length bytes"
  by (simp add: copy_into_def)

text \<open>How many bytes a portion gives a number.\<close>

definition portion :: "int_type \<Rightarrow> nat \<Rightarrow> int \<Rightarrow> int \<Rightarrow> nat" where
  "portion sys len i n = min (min (nat n) (len - offset_of len i)) (int_width sys)"

lemma write_int_exact:
  "write_int sys bytes i n v is_le = copy_into bytes (offset_of (length bytes) i)
     (take (portion sys (length bytes) i n) (to_bytes sys is_le v))"
  by (auto simp: write_int_def calc_offset_len_exact portion_def copy_into_def Let_def)

lemma parse_int_exact:
  "parse_int sys bytes i n is_le = (let k = portion sys (length bytes) i n in
     from_bytes sys is_le (take k (drop (offset_of (length bytes) i) bytes) @ replicate (int_width sys - k) 0))"
proof -
  have "le_value (replicate m 0) = 0" for m using le_value_zeros [of "[]" m] by simp
  then have z: "from_bytes sys is_le (replicate m 0) = 0" for m
    by (simp add: from_bytes_def wrap_def)
  show ?thesis
    using z by (auto simp: parse_int_def calc_offset_len_exact portion_def Let_def min_def)
qed

lemma int_width_bits: "8 * int_width sys = type_bits sys"
  by (cases sys) (simp_all add: int_width_def)

lemma int_width_pos: "0 < int_width sys"
  by (cases sys) (simp_all add: int_width_def)

lemma power_256: "(256 :: int) ^ k = 2 ^ (8 * k)"
  by (simp add: power_mult)

lemma wrap_take_bit: "wrap sys (take_bit (type_bits sys) x) = wrap sys x"
proof (rule bit_eqI)
  fix i
  have "min i (type_bits sys - 1) < type_bits sys" using type_bits_pos [of sys] by linarith
  then show "bit (wrap sys (take_bit (type_bits sys) x)) i \<longleftrightarrow> bit (wrap sys x) i"
    by (simp add: bit_wrap bit_take_bit_iff)
qed

lemma from_bytes_le:
  assumes "k \<le> int_width sys"
  shows "from_bytes sys True (le_bytes_of k v @ replicate m 0) = wrap sys (take_bit (8 * k) v)"
  by (simp add: from_bytes_def le_value_zeros le_value_of)

text \<open>A number with its low bits cleared fits where the number does, if not all are cleared.\<close>

lemma fits_cleared:
  assumes "is_signed sys" "fits sys v" "j < type_bits sys"
  shows "wrap sys (push_bit j (drop_bit j v)) = push_bit j (drop_bit j v)"
proof (rule bit_eqI)
  fix i
  have b: "bit (push_bit j (drop_bit j v)) i \<longleftrightarrow> j \<le> i \<and> bit v i" for i
    by (auto simp: bit_push_bit_iff_int bit_drop_bit_eq)
  have top: "bit v i \<longleftrightarrow> bit v (type_bits sys - 1)" if "type_bits sys - 1 \<le> i"
    by (rule fits_bit [OF assms(1,2) that])
  show "bit (wrap sys (push_bit j (drop_bit j v))) i \<longleftrightarrow> bit (push_bit j (drop_bit j v)) i"
  proof (cases "i \<le> type_bits sys - 1")
    case True
    then show ?thesis by (simp add: bit_wrap assms(1) b)
  next
    case False
    then have "min i (type_bits sys - 1) = type_bits sys - 1" "j \<le> type_bits sys - 1" "j \<le> i"
      "type_bits sys - 1 \<le> i"
      using assms(3) by linarith+
    with top show ?thesis by (simp add: bit_wrap assms(1) b)
  qed
qed

lemma from_bytes_be:
  assumes "is_signed sys" "fits sys v" "0 < k" "k \<le> int_width sys"
  shows "from_bytes sys False (take k (rev (le_bytes_of (int_width sys) v)) @ replicate (int_width sys - k) 0) =
    push_bit (8 * (int_width sys - k)) (drop_bit (8 * (int_width sys - k)) v)"
proof -
  let ?j = "int_width sys - k" and ?w = "int_width sys"
  have "rev (take k (rev (le_bytes_of ?w v))) = drop ?j (le_bytes_of ?w v)"
    by (simp add: take_rev)
  also have "\<dots> = le_bytes_of k (v div 256 ^ ?j)"
    using assms(4) by (simp add: drop_le_bytes_of)
  finally have "le_value (rev (take k (rev (le_bytes_of ?w v)) @ replicate ?j 0)) =
      256 ^ ?j * take_bit (8 * k) (v div 256 ^ ?j)"
    by (simp add: le_value_shift le_value_of)
  also have "\<dots> = push_bit (8 * ?j) (take_bit (8 * k) (drop_bit (8 * ?j) v))"
    by (simp add: power_256 push_bit_eq_mult drop_bit_eq_div mult.commute)
  also have "\<dots> = take_bit (type_bits sys) (push_bit (8 * ?j) (drop_bit (8 * ?j) v))"
    using assms(4) by (simp add: take_bit_push_bit int_width_bits [symmetric] diff_mult_distrib2 [symmetric])
  finally show ?thesis
    using fits_cleared [OF assms(1,2), of "8 * ?j"] assms(3,4) int_width_bits [of sys]
    by (simp add: from_bytes_def wrap_take_bit)
qed

text \<open>
  C27. Writing a number into a portion of a BLOB changes the bytes of that portion alone, as many as the number has at most,
  and parsing the portion gives the number back when it has room for all of them. A shorter portion keeps
  the low bytes in little-endian order, which read as a number without a sign, and the high
  bytes in big-endian order, which read in their place with zeros behind them.
\<close>

theorem blob_int_roundtrip:
  assumes "is_signed sys" and "fits sys v"
  shows "(let a = offset_of (length bytes) i; k = portion sys (length bytes) i n;
      bytes' = write_int sys bytes i n v is_le; j = 8 * (int_width sys - k) in
    length bytes' = length bytes \<and> take a bytes' = take a bytes \<and> drop (a + k) bytes' = drop (a + k) bytes \<and>
    parse_int sys bytes' i n is_le =
      (if k = int_width sys then v else if k = 0 then 0
       else if is_le then take_bit (8 * k) v else push_bit j (drop_bit j v)))"
proof -
  let ?a = "offset_of (length bytes) i" and ?k = "portion sys (length bytes) i n" and ?w = "int_width sys"
  let ?bs = "take ?k (to_bytes sys is_le v)"
  have k: "?k \<le> ?w" "?a + ?k \<le> length bytes" using offset_le [of "length bytes" i] unfolding portion_def by linarith+
  have l: "length (to_bytes sys is_le v) = ?w" by (simp add: to_bytes_def Let_def)
  have bs: "length ?bs = ?k" using k(1) l by simp
  have wr: "write_int sys bytes i n v is_le = copy_into bytes ?a ?bs" by (rule write_int_exact)
  have len: "length (copy_into bytes ?a ?bs) = length bytes"
    using k(2) bs by (intro length_copy_into) simp
  have rd: "take ?k (drop ?a (copy_into bytes ?a ?bs)) = ?bs"
    using copied [of ?a ?bs bytes] k(2) bs by simp
  have "parse_int sys (copy_into bytes ?a ?bs) i n is_le = from_bytes sys is_le (?bs @ replicate (?w - ?k) 0)"
    unfolding parse_int_exact len rd Let_def ..
  also have "\<dots> = (if ?k = ?w then v else if ?k = 0 then 0
       else if is_le then take_bit (8 * ?k) v else push_bit (8 * (?w - ?k)) (drop_bit (8 * (?w - ?k)) v))"
  proof (cases is_le)
    case True
    have "from_bytes sys True (?bs @ replicate (?w - ?k) 0) = wrap sys (take_bit (8 * ?k) v)"
      using True k(1) by (simp add: to_bytes_def take_le_bytes_of from_bytes_le)
    moreover have "wrap sys (take_bit (8 * ?k) v) = take_bit (8 * ?k) v" if "?k \<noteq> ?w"
      using that k(1) assms(1) int_width_bits [of sys]
      by (intro bit_eqI) (auto simp: bit_wrap bit_take_bit_iff min_def)
    moreover have "wrap sys (take_bit (8 * ?w) v) = v"
      using assms(2) by (simp add: int_width_bits wrap_take_bit fits_wrap_iff)
    ultimately show ?thesis using True by auto
  next
    case False
    have "from_bytes sys False (replicate ?w 0) = 0"
      using le_value_zeros [of "[]" ?w] by (simp add: from_bytes_def wrap_def)
    with False from_bytes_be [OF assms, of ?k] k(1) int_width_pos [of sys] show ?thesis
      by (auto simp: to_bytes_def)
  qed
  finally show ?thesis
    using len k(2) bs unfolding wr Let_def by (simp add: copy_into_def)
qed

theorem blob_int_roundtrip_witness:
  "parse_be_int I64 (write_be_int I64 [0x42, 0x42, 0x42, 0x42, 0x42, 0x42, 0x42, 0x42] 1 3 0x99) 1 3 = 0"
proof -
  have a: "is_signed I64" "fits I64 0x99" by (simp_all add: fits_def type_min_def type_max_def)
  show ?thesis
    using blob_int_roundtrip [OF a, of "[0x42, 0x42, 0x42, 0x42, 0x42, 0x42, 0x42, 0x42]" 1 3 False]
    by (simp add: Let_def parse_be_int_def write_be_int_def portion_def offset_of_def int_width_def drop_bit_eq_div)
qed

text \<open>
  C31. Where BLOBs part from arrays and from their documentation: an empty portion is spliced at the end of the BLOB and not where
  it lies, retaining nothing because the length is not positive keeps all, and retaining what lies past
  the end removes all. Splitting, and all of these over a portion that is not empty, are as for arrays.
\<close>

theorem blob_portions:
  assumes "int (length bytes) \<le> type_max sys"
  shows "(let a = offset_of (length bytes) i in
    blob_splice bytes i n new =
      (if 0 < n \<and> a < length bytes then splice_items bytes i n new else bytes @ new) \<and>
    blob_retain bytes i n =
      (if n \<le> 0 then ([], bytes) else (take a bytes @ drop (a + nat n) bytes, take (nat n) (drop a bytes))) \<and>
    blob_split_at sys bytes i = split_at sys bytes i)"
  unfolding Let_def
proof (intro conjI)
  let ?a = "offset_of (length bytes) i"
  show "blob_splice bytes i n new =
      (if 0 < n \<and> ?a < length bytes then splice_items bytes i n new else bytes @ new)"
    by (auto simp: blob_splice_def splice_items_def calc_offset_len_exact)
  show "blob_retain bytes i n =
      (if n \<le> 0 then ([], bytes) else (take ?a bytes @ drop (?a + nat n) bytes, take (nat n) (drop ?a bytes)))"
    by (auto simp: blob_retain_def calc_offset_len_exact Let_def min_def add.commute)
  show "blob_split_at sys bytes i = split_at sys bytes i"
    using assms by (auto simp: blob_split_at_def split_at_def calc_offset_len_exact)
qed

theorem blob_portions_witness:
  "blob_splice [1, 2] 1 0 [9] = [1, 2, 9]"
proof -
  have "int (length [1, 2 :: u8]) \<le> type_max I64" by (simp add: type_max_def)
  from blob_portions [OF this, of 1 0 "[9]"] show ?thesis by (simp add: Let_def)
qed

end
