(* ===== verification/Texts.thy ===== *)
theory Texts
  imports Arrays "HOL-Library.Sublist"
begin

text \<open>
  The string functions of the standard library (\<open>src/packages/string_more.rs\<close>) over the UTF-8
  bytes of a string. A function that changes its string answers the string afterwards, beside what it
  returns. Case conversion, trimming and splitting at white space follow the tables of the standard library
  and are not modelled, nor are the sums with values that are printed first.
\<close>

section \<open>Searching bytes\<close>

text \<open>\<open>str::find\<close>: the first place where the pattern begins.\<close>

fun find_sub :: "'a list \<Rightarrow> 'a list \<Rightarrow> nat option" where
  "find_sub pat [] = (if pat = [] then Some 0 else None)"
| "find_sub pat (b # s) = (if prefix pat (b # s) then Some 0 else map_option Suc (find_sub pat s))"

text \<open>\<open>str::replace\<close>: the matches from the left, none of which overlap; the empty pattern matches at every character boundary.\<close>

function replace_matches :: "u8 list \<Rightarrow> u8 list \<Rightarrow> u8 list \<Rightarrow> u8 list" where
  "replace_matches pat new [] = []"
| "replace_matches pat new (b # s) =
     (if pat \<noteq> [] \<and> prefix pat (b # s) then new @ replace_matches pat new (drop (length pat) (b # s))
      else b # replace_matches pat new s)"
  by pat_completeness auto
termination
  by (relation "measure (\<lambda>(pat, new, s). length s)") auto

definition str_replace :: "u8 list \<Rightarrow> u8 list \<Rightarrow> u8 list \<Rightarrow> u8 list" where
  "str_replace pat new s =
     (if pat = [] then new @ concat (map (\<lambda>c. encode_utf8 c @ new) (chars s)) else replace_matches pat new s)"

section \<open>The functions\<close>

definition add_append_char :: "u8 list \<Rightarrow> u32 \<Rightarrow> u8 list" where
  "add_append_char s c = s @ encode_utf8 c"

definition add_prepend_char :: "u32 \<Rightarrow> u8 list \<Rightarrow> u8 list" where
  "add_prepend_char c s = encode_utf8 c @ s"

definition add_append_str :: "u8 list \<Rightarrow> u8 list \<Rightarrow> u8 list" where
  "add_append_str s t = s @ t"

definition str_to_blob :: "u8 list \<Rightarrow> u8 list" where
  "str_to_blob s = (if s = [] then [] else s)"

definition str_len :: "int_type \<Rightarrow> u8 list \<Rightarrow> int" where
  "str_len sys s = (if s = [] then 0 else index_int sys (length (chars s)))"

definition str_is_empty :: "u8 list \<Rightarrow> bool" where
  "str_is_empty s \<longleftrightarrow> length s = 0"

definition str_bytes :: "int_type \<Rightarrow> u8 list \<Rightarrow> int" where
  "str_bytes sys s = (if s = [] then 0 else index_int sys (length s))"

definition str_remove :: "u8 list \<Rightarrow> u8 list \<Rightarrow> u8 list" where
  "str_remove s t = sub_assign_str s t"

definition str_remove_char :: "u8 list \<Rightarrow> u32 \<Rightarrow> u8 list" where
  "str_remove_char s c = sub_char s c"

definition str_clear :: "u8 list \<Rightarrow> u8 list" where
  "str_clear s = (if s = [] then s else [])"

text \<open>The byte at which the \<open>n\<close>-th character begins, \<open>char_indices().nth(n)\<close>.\<close>

definition char_index :: "u8 list \<Rightarrow> nat \<Rightarrow> nat option" where
  "char_index s n = (if n < length (chars s) then Some (length (collect_chars (take n (chars s)))) else None)"

definition str_truncate :: "u8 list \<Rightarrow> int \<Rightarrow> u8 list" where
  "str_truncate s len =
     (if len \<le> 0 then str_clear s
      else case char_index s (nat len) of Some index \<Rightarrow> take index s | None \<Rightarrow> s)"

definition str_pop :: "u8 list \<Rightarrow> dynamic \<times> u8 list" where
  "str_pop s = (if s = [] then (DUnit, s) else (DChar (last (chars s)), collect_chars (butlast (chars s))))"

definition str_pop_string :: "u8 list \<Rightarrow> int \<Rightarrow> u8 list \<times> u8 list" where
  "str_pop_string s len =
     (if s = [] \<or> len \<le> 0 then ([], s)
      else let n = length (chars s) in
        if nat len < n
        then (collect_chars (rev (take (nat len) (rev (chars s)))), collect_chars (take (n - nat len) (chars s)))
        else (s, []))"

definition str_contains :: "u8 list \<Rightarrow> u8 list \<Rightarrow> bool" where
  "str_contains s t \<longleftrightarrow> find_sub t s \<noteq> None"

definition str_contains_char :: "u8 list \<Rightarrow> u32 \<Rightarrow> bool" where
  "str_contains_char s c \<longleftrightarrow> find_sub (encode_utf8 c) s \<noteq> None"

definition str_starts_with :: "u8 list \<Rightarrow> u8 list \<Rightarrow> bool" where
  "str_starts_with s t \<longleftrightarrow> prefix t s"

definition str_starts_with_char :: "u8 list \<Rightarrow> u32 \<Rightarrow> bool" where
  "str_starts_with_char s c \<longleftrightarrow> prefix (encode_utf8 c) s"

definition str_ends_with :: "u8 list \<Rightarrow> u8 list \<Rightarrow> bool" where
  "str_ends_with s t \<longleftrightarrow> suffix t s"

definition str_ends_with_char :: "u8 list \<Rightarrow> u32 \<Rightarrow> bool" where
  "str_ends_with_char s c \<longleftrightarrow> suffix (encode_utf8 c) s"

text \<open>The byte to start looking at; \<open>None\<close> answers -1 at once.\<close>

definition start_byte :: "u8 list \<Rightarrow> int \<Rightarrow> nat option" where
  "start_byte s start =
     (if start < 0 then
        let abs_start = nat (- start); num_chars = length (chars s) in
        if abs_start > num_chars then Some 0
        else Some (length (collect_chars (take (num_chars - abs_start) (chars s))))
      else if start = 0 then Some 0
      else if nat start \<ge> length (chars s) then None
      else Some (length (collect_chars (take (nat start) (chars s)))))"

text \<open>\<open>INT::try_from\<close> of the number of characters before a byte, -1 if it is too large.\<close>

definition chars_before :: "int_type \<Rightarrow> u8 list \<Rightarrow> nat \<Rightarrow> int" where
  "chars_before sys s index =
     (let n = length (chars (take index s)) in if fits sys (int n) then int n else - 1)"

definition index_of_string_starting_from :: "int_type \<Rightarrow> u8 list \<Rightarrow> u8 list \<Rightarrow> int \<Rightarrow> int" where
  "index_of_string_starting_from sys s t start =
     (if s = [] then - 1
      else case start_byte s start of
          None \<Rightarrow> - 1
        | Some start \<Rightarrow> (case find_sub t (drop start s) of
              None \<Rightarrow> - 1
            | Some index \<Rightarrow> chars_before sys s (start + index)))"

definition index_of_char_starting_from :: "int_type \<Rightarrow> u8 list \<Rightarrow> u32 \<Rightarrow> int \<Rightarrow> int" where
  "index_of_char_starting_from sys s c start =
     (if s = [] then - 1
      else case start_byte s start of
          None \<Rightarrow> - 1
        | Some start \<Rightarrow> (case find_sub (encode_utf8 c) (drop start s) of
              None \<Rightarrow> - 1
            | Some index \<Rightarrow> chars_before sys s (start + index)))"

definition str_index_of :: "int_type \<Rightarrow> u8 list \<Rightarrow> u8 list \<Rightarrow> int" where
  "str_index_of sys s t =
     (if s = [] then - 1
      else case find_sub t s of None \<Rightarrow> - 1 | Some index \<Rightarrow> chars_before sys s index)"

definition index_of_char :: "int_type \<Rightarrow> u8 list \<Rightarrow> u32 \<Rightarrow> int" where
  "index_of_char sys s c =
     (if s = [] then - 1
      else case find_sub (encode_utf8 c) s of None \<Rightarrow> - 1 | Some index \<Rightarrow> chars_before sys s index)"

definition str_get :: "u8 list \<Rightarrow> int \<Rightarrow> dynamic" where
  "str_get s index =
     (let answer = (\<lambda>r. case r of None \<Rightarrow> DUnit | Some c \<Rightarrow> DChar c) in
      if index \<ge> 0 then answer (get_at (chars s) (nat index))
      else answer (get_at (rev (chars s)) (nat (- index) - 1)))"

definition str_set :: "u8 list \<Rightarrow> int \<Rightarrow> u32 \<Rightarrow> u8 list" where
  "str_set s index c =
     (let put = (\<lambda>index. collect_chars (map (\<lambda>(i, ch). if i = index then c else ch) (enumerate 0 (chars s)))) in
      if index \<ge> 0 then put (nat index)
      else let abs_index = nat (- index); string_len = length (chars s) in
        if abs_index \<le> string_len then put (string_len - abs_index) else s)"

text \<open>\<open>None\<close> is the start that lies past the end.\<close>

definition char_offset :: "u32 list \<Rightarrow> int \<Rightarrow> nat option" where
  "char_offset cs start =
     (if start < 0 then
        let abs_start = nat (- start) in Some (if abs_start > length cs then 0 else length cs - abs_start)
      else if nat start \<ge> length cs then None else Some (nat start))"

definition clip_len :: "u32 list \<Rightarrow> nat \<Rightarrow> int \<Rightarrow> nat" where
  "clip_len cs offset len = (if nat len + offset > length cs then length cs - offset else nat len)"

definition str_sub_string :: "u8 list \<Rightarrow> int \<Rightarrow> int \<Rightarrow> u8 list" where
  "str_sub_string s start len =
     (if s = [] \<or> len \<le> 0 then []
      else let cs = chars s in
        case char_offset cs start of
          None \<Rightarrow> []
        | Some offset \<Rightarrow> collect_chars (take (clip_len cs offset len) (drop offset cs)))"

definition sub_string_range :: "u8 list \<Rightarrow> int \<Rightarrow> int \<Rightarrow> u8 list" where
  "sub_string_range s start stop = (case range_span start stop of (from, n) \<Rightarrow> str_sub_string s from n)"

definition sub_string_inclusive_range :: "int_type \<Rightarrow> u8 list \<Rightarrow> int \<Rightarrow> int \<Rightarrow> u8 list" where
  "sub_string_inclusive_range sys s start stop =
     (case closed_span sys start stop of (from, n) \<Rightarrow> str_sub_string s from n)"

definition sub_string_starting_from :: "int_type \<Rightarrow> u8 list \<Rightarrow> int \<Rightarrow> u8 list" where
  "sub_string_starting_from sys s start =
     (if s = [] then [] else str_sub_string s start (index_int sys (length s)))"

definition str_crop :: "u8 list \<Rightarrow> int \<Rightarrow> int \<Rightarrow> u8 list" where
  "str_crop s start len =
     (if s = [] then s else if len \<le> 0 then []
      else let cs = chars s in
        case char_offset cs start of
          None \<Rightarrow> []
        | Some offset \<Rightarrow> collect_chars (take (clip_len cs offset len) (drop offset cs)))"

definition crop_range :: "u8 list \<Rightarrow> int \<Rightarrow> int \<Rightarrow> u8 list" where
  "crop_range s start stop = (case range_span start stop of (from, n) \<Rightarrow> str_crop s from n)"

definition crop_inclusive_range :: "int_type \<Rightarrow> u8 list \<Rightarrow> int \<Rightarrow> int \<Rightarrow> u8 list" where
  "crop_inclusive_range sys s start stop = (case closed_span sys start stop of (from, n) \<Rightarrow> str_crop s from n)"

definition crop_string_starting_from :: "int_type \<Rightarrow> u8 list \<Rightarrow> int \<Rightarrow> u8 list" where
  "crop_string_starting_from sys s start = str_crop s start (index_int sys (length s))"

definition replace_string :: "u8 list \<Rightarrow> u8 list \<Rightarrow> u8 list \<Rightarrow> u8 list" where
  "replace_string s pat new = (if s = [] then s else str_replace pat new s)"

definition replace_string_with_char :: "u8 list \<Rightarrow> u8 list \<Rightarrow> u32 \<Rightarrow> u8 list" where
  "replace_string_with_char s pat c = (if s = [] then s else str_replace pat (encode_utf8 c) s)"

definition replace_char_with_string :: "u8 list \<Rightarrow> u32 \<Rightarrow> u8 list \<Rightarrow> u8 list" where
  "replace_char_with_string s c new = (if s = [] then s else str_replace (encode_utf8 c) new s)"

definition replace_char :: "u8 list \<Rightarrow> u32 \<Rightarrow> u32 \<Rightarrow> u8 list" where
  "replace_char s c d = (if s = [] then s else str_replace (encode_utf8 c) (encode_utf8 d) s)"

definition max_string :: "u8 list \<Rightarrow> u8 list \<Rightarrow> u8 list" where
  "max_string s t = (if \<not> less_bytes s t then s else t)"

definition min_string :: "u8 list \<Rightarrow> u8 list \<Rightarrow> u8 list" where
  "min_string s t = (if \<not> less_bytes t s then s else t)"

definition max_char :: "u32 \<Rightarrow> u32 \<Rightarrow> u32" where
  "max_char c d = (if c \<ge> d then c else d)"

definition min_char :: "u32 \<Rightarrow> u32 \<Rightarrow> u32" where
  "min_char c d = (if c \<le> d then c else d)"

definition split_text_at :: "u8 list \<Rightarrow> int \<Rightarrow> u8 list \<times> u8 list" where
  "split_text_at s index =
     (let cut = (\<lambda>n. let front = collect_chars (take n (chars s)) in (front, drop (length front) s)) in
      if index \<le> 0 then
        let abs_index = nat (- index); num_chars = length (chars s) in
        if abs_index > num_chars then ([], s) else cut (num_chars - abs_index)
      else cut (nat index))"

definition to_chars :: "u8 list \<Rightarrow> dynamic list" where
  "to_chars s = (if s = [] then [] else map DChar (chars s))"

section \<open>Padding\<close>

text \<open>The check of a length against the limit, before and after.\<close>

definition over_string_limit :: "limits \<Rightarrow> nat \<Rightarrow> bool" where
  "over_string_limit l n \<longleftrightarrow> or_zero (string_len l) > 0 \<and> n > or_zero (string_len l)"

definition pad_text :: "limits \<Rightarrow> u8 list \<Rightarrow> int \<Rightarrow> u32 \<Rightarrow> (too_large + unit) \<times> u8 list" where
  "pad_text l s len c =
     (if len \<le> 0 then (Ok (), s)
      else if over_string_limit l (nat len) then (Err Length_of_string, s)
      else let orig_len = length (chars s) in
        if nat len \<le> orig_len then (Ok (), s)
        else let s = s @ collect_chars (replicate (nat len - orig_len) c) in
          (if over_string_limit l (length s) then Err Length_of_string else Ok (), s))"

text \<open>The loop of \<open>pad_with_string\<close>; \<open>None\<close> is a loop that does not end.\<close>

partial_function (option) pad_loop :: "u8 list \<Rightarrow> nat \<Rightarrow> nat \<Rightarrow> nat \<Rightarrow> u8 list \<Rightarrow> u8 list option" where
  "pad_loop padding padding_len len done_len p =
     (if done_len < len then
        if done_len + padding_len \<le> len
        then pad_loop padding padding_len len (done_len + padding_len) (p @ padding)
        else pad_loop padding padding_len len len (p @ collect_chars (take (len - done_len) (chars padding)))
      else Some p)"

definition pad_with_string :: "limits \<Rightarrow> u8 list \<Rightarrow> int \<Rightarrow> u8 list \<Rightarrow> ((too_large + unit) \<times> u8 list) option" where
  "pad_with_string l s len padding =
     (if len \<le> 0 then Some (Ok (), s)
      else if over_string_limit l (nat len) then Some (Err Length_of_string, s)
      else let done_len = length (chars s); padding_len = length (chars padding) in
        if nat len \<le> done_len then Some (Ok (), s)
        else map_option (\<lambda>s. (if over_string_limit l (length s) then Err Length_of_string else Ok (), s))
          (pad_loop padding padding_len (nat len) done_len s))"

section \<open>Strings as characters\<close>

lemma chars_back: "utf8 s \<Longrightarrow> collect_chars (chars s) = s" "utf8 s \<Longrightarrow> list_all char_ok (chars s)"
  using collect_of_chars by blast+

lemma chars_Nil: "chars [] = []"
  by (simp add: chars.simps scalar_width_def)

lemma collect_Nil [simp]: "collect_chars [] = []"
  by (simp add: collect_chars_def)

lemma chars_empty: "utf8 s \<Longrightarrow> chars s = [] \<longleftrightarrow> s = []"
  using chars_back(1) [of s] by (auto simp: chars_Nil)

lemma take_chars:
  "utf8 s \<Longrightarrow> take (length (collect_chars (take n (chars s)))) s = collect_chars (take n (chars s))"
  "utf8 s \<Longrightarrow> drop (length (collect_chars (take n (chars s)))) s = collect_chars (drop n (chars s))"
proof -
  assume "utf8 s"
  then have "s = collect_chars (take n (chars s)) @ collect_chars (drop n (chars s))"
    by (simp add: chars_back flip: collect_chars_append)
  then show "take (length (collect_chars (take n (chars s)))) s = collect_chars (take n (chars s))"
    "drop (length (collect_chars (take n (chars s)))) s = collect_chars (drop n (chars s))"
    by (metis append_eq_conv_conj)+
qed

lemma str_sub_string_chars:
  assumes "utf8 s"
  shows "str_sub_string s i n = collect_chars (take (nat n) (drop (offset_of (length (chars s)) i) (chars s)))"
proof (cases "s = [] \<or> n \<le> 0")
  case True
  then show ?thesis by (auto simp: str_sub_string_def chars_Nil)
next
  case False
  then show ?thesis
    by (cases "i < 0")
      (auto simp: str_sub_string_def char_offset_def clip_len_def offset_of_def Let_def min_def)
qed

lemma str_crop_sub_string: "str_crop s i n = str_sub_string s i n"
  by (simp add: str_crop_def str_sub_string_def)

lemma enumerate_put:
  "map (\<lambda>(i, ch). if i = k then c else ch) (enumerate 0 cs) = cs[k := c]"
  by (rule nth_equalityI) (auto simp: nth_enumerate_eq nth_list_update)

lemma str_get_chars:
  "str_get s i = (let cs = chars s in
     if - int (length cs) \<le> i \<and> i < int (length cs) then DChar (cs ! offset_of (length cs) i) else DUnit)"
proof (cases "0 \<le> i")
  case True
  then show ?thesis by (auto simp: str_get_def get_at_def offset_of_def Let_def)
next
  case False
  have "rev (chars s) ! (nat (- i) - 1) = chars s ! (length (chars s) - nat (- i))" if "nat (- i) \<le> length (chars s)"
    using that False by (subst rev_nth) (auto intro!: arg_cong [where f = "nth (chars s)"])
  with False show ?thesis by (auto simp: str_get_def get_at_def offset_of_def Let_def)
qed

lemma str_set_chars:
  assumes "utf8 s"
  shows "str_set s i c = (let cs = chars s in
    if - int (length cs) \<le> i \<and> i < int (length cs) then collect_chars (cs[offset_of (length cs) i := c]) else s)"
  using assms by (auto simp: str_set_def enumerate_put offset_of_def Let_def chars_back list_update_beyond)

lemma split_text_at_chars:
  assumes "utf8 s"
  shows "split_text_at s i = (let cs = chars s; a = offset_of (length cs) i in
    if i = 0 then (s, []) else (collect_chars (take a cs), collect_chars (drop a cs)))"
  using assms
  by (auto simp: split_text_at_def offset_of_def Let_def take_chars chars_back min_def)

lemma str_truncate_chars:
  assumes "utf8 s"
  shows "str_truncate s n = collect_chars (take (nat n) (chars s))"
  using assms by (auto simp: str_truncate_def str_clear_def char_index_def take_chars chars_back)

lemma str_pop_string_chars:
  assumes "utf8 s"
  shows "str_pop_string s n = (let cs = chars s; k = length cs - nat n in
    (collect_chars (drop k cs), collect_chars (take k cs)))"
  using assms by (auto simp: str_pop_string_def chars_Nil Let_def take_rev chars_back)

text \<open>
  C30. The string functions work on characters. Of a string of whatever UTF-8, reading, writing, cropping,
  truncating, popping and splitting at a position act on the list of its characters, a negative position
  counting from the end, and never leave a part of a character; but splitting at 0 answers the
  whole string in front.
\<close>

theorem text_portions_exact:
  assumes "utf8 s" and "char_ok c"
  shows "(let cs = chars s; a = offset_of (length cs) i; inside = - int (length cs) \<le> i \<and> i < int (length cs) in
    str_get s i = (if inside then DChar (cs ! a) else DUnit) \<and>
    chars (str_set s i c) = (if inside then cs[a := c] else cs) \<and>
    chars (str_sub_string s i n) = take (nat n) (drop a cs) \<and>
    chars (str_crop s i n) = take (nat n) (drop a cs) \<and>
    chars (str_truncate s n) = take (nat n) cs \<and>
    map_prod chars chars (str_pop_string s n) = (drop (length cs - nat n) cs, take (length cs - nat n) cs) \<and>
    map_prod chars chars (split_text_at s i) = (if i = 0 then (cs, []) else (take a cs, drop a cs)))"
proof -
  have ok: "list_all char_ok (chars s)" by (rule chars_back(2) [OF assms(1)])
  have td: "chars (collect_chars (take m (drop k (chars s)))) = take m (drop k (chars s))"
    "chars (collect_chars (take m (chars s))) = take m (chars s)"
    "chars (collect_chars (drop k (chars s))) = drop k (chars s)" for m k
    by (rule chars_collect, use ok in \<open>auto simp: list_all_iff dest!: in_set_takeD in_set_dropD\<close>)+
  have up: "chars (collect_chars ((chars s)[k := c])) = (chars s)[k := c]" for k
    by (rule chars_collect) (use ok assms(2) set_update_subset_insert [of "chars s" k c] in \<open>auto simp: list_all_iff\<close>)
  show ?thesis
    by (simp add: Let_def str_get_chars str_set_chars [OF assms(1)] str_crop_sub_string str_sub_string_chars [OF assms(1)]
        str_truncate_chars [OF assms(1)] str_pop_string_chars [OF assms(1)] split_text_at_chars [OF assms(1)] td up
        chars_Nil)
qed

theorem text_portions_exact_witness:
  "chars (str_sub_string [97, 98, 99] (- 2) 1) = [98]"
proof -
  have "chars [97, 98, 99] = [97, 98, 99]" "utf8 [97, 98, 99]" "char_ok 97"
    by (simp_all add: chars.simps utf8_def valid_up_to.simps scalar_width_def scalar_lead_def decode_scalar_def char_ok_def)
  with text_portions_exact [of "[97, 98, 99]" 97 "- 2" 1] show ?thesis
    by (simp add: Let_def offset_of_def)
qed

section \<open>Whether padding ends\<close>

lemma pad_loop_diverges:
  assumes "pad_loop padding padding_len len n p = Some q"
  shows "padding_len = 0 \<longrightarrow> len \<le> n"
proof (rule pad_loop.raw_induct
    [where P = "\<lambda>padding padding_len len n p q. padding_len = 0 \<longrightarrow> len \<le> n", OF _ assms], intro impI)
  fix rec :: "u8 list \<Rightarrow> nat \<Rightarrow> nat \<Rightarrow> nat \<Rightarrow> u8 list \<Rightarrow> u8 list option" and padding padding_len len n p q
  assume IH: "\<And>padding padding_len len n p q. rec padding padding_len len n p = Some q \<Longrightarrow> padding_len = 0 \<longrightarrow> len \<le> n"
    and body: "(if n < len then if n + padding_len \<le> len
        then rec padding padding_len len (n + padding_len) (p @ padding)
        else rec padding padding_len len len (p @ collect_chars (take (len - n) (chars padding)))
      else Some p) = Some q"
    and "padding_len = 0"
  then show "len \<le> n" using IH [of padding 0 len n "p @ padding" q] by (simp split: if_splits)
qed

lemma take_cycle:
  assumes "c \<noteq> []" "k \<le> m"
  shows "take k (concat (replicate m c)) = take k (concat (replicate k c))"
proof -
  obtain d where d: "m = k + d" using assms(2) le_Suc_ex by blast
  have "k \<le> length (concat (replicate k c))"
    using assms(1) by (simp add: length_concat sum_list_replicate Suc_leI)
  then show ?thesis by (simp add: d replicate_add)
qed

lemma pad_loop_ends:
  assumes "utf8 padding" "padding \<noteq> []"
  shows "n \<le> len \<Longrightarrow> pad_loop padding (length (chars padding)) len n p =
    Some (p @ collect_chars (take (len - n) (concat (replicate (len - n) (chars padding)))))"
proof (induction "len - n" arbitrary: n p rule: less_induct)
  case less
  let ?c = "chars padding"
  have c: "0 < length ?c" "?c \<noteq> []" using assms by (simp_all add: chars_empty)
  show ?case
  proof (cases "n < len")
    case False
    with less.prems show ?thesis by (subst pad_loop.simps) simp
  next
    case True
    show ?thesis
    proof (cases "n + length ?c \<le> len")
      case fits: True
      let ?m = "len - (n + length ?c)"
      have "len - n = Suc (len - n - 1)" using True by simp
      then have "take (len - n) (concat (replicate (len - n) ?c)) =
          ?c @ take (len - n - length ?c) (concat (replicate (len - n - 1) ?c))"
        using fits by (metis append_Nil2 concat.simps(2) diff_is_0_eq le_diff_conv2 replicate_Suc take_all take_append
            add.commute add_leE)
      also have "take (len - n - length ?c) (concat (replicate (len - n - 1) ?c)) =
          take ?m (concat (replicate ?m ?c))"
      proof -
        have "?m \<le> len - n - 1" using c(1) by linarith
        from take_cycle [OF c(2) this] show ?thesis by (simp add: diff_diff_left)
      qed
      finally have e: "take (len - n) (concat (replicate (len - n) ?c)) = ?c @ take ?m (concat (replicate ?m ?c))" .
      have lt: "?m < len - n" using True c(1) by linarith
      show ?thesis
        unfolding e using True fits less.hyps [OF lt fits, of "p @ padding"] chars_back(1) [OF assms(1)]
        by (subst pad_loop.simps) (simp add: collect_chars_append)
    next
      case False
      obtain d where d: "len - n = Suc d" using True by (cases "len - n") auto
      have "Suc d \<le> length ?c" using False d by linarith
      then have "take (len - n) (concat (replicate (len - n) ?c)) = take (len - n) ?c"
        by (simp add: d)
      with True False show ?thesis
        by (subst pad_loop.simps) (simp add: pad_loop.simps [of _ _ len len])
    qed
  qed
qed

lemma pad_with_string_ends:
  fixes s padding :: "u8 list" and len :: int
  assumes "utf8 s" and "utf8 padding"
  defines "k \<equiv> nat len - length (chars s)"
  shows "(pad_with_string l s len padding = None \<longleftrightarrow>
      0 < len \<and> \<not> over_string_limit l (nat len) \<and> 0 < k \<and> padding = []) \<and>
    (0 < len \<and> \<not> over_string_limit l (nat len) \<and> 0 < k \<and> padding \<noteq> [] \<longrightarrow>
      (let s' = s @ collect_chars (take k (concat (replicate k (chars padding)))) in
       pad_with_string l s len padding =
         Some (if over_string_limit l (length s') then Err Length_of_string else Ok (), s') \<and>
       length (chars s') = nat len))"
proof (cases "0 < len \<and> \<not> over_string_limit l (nat len) \<and> 0 < k")
  case False
  then show ?thesis by (auto simp: pad_with_string_def k_def Let_def)
next
  case True
  then have d: "pad_with_string l s len padding =
      map_option (\<lambda>s. (if over_string_limit l (length s) then Err Length_of_string else Ok (), s))
        (pad_loop padding (length (chars padding)) (nat len) (length (chars s)) s)"
    by (simp add: pad_with_string_def k_def Let_def)
  show ?thesis
  proof (cases "padding = []")
    case empty: True
    have "pad_loop padding 0 (nat len) (length (chars s)) s = None"
      using pad_loop_diverges [of padding 0 "nat len" "length (chars s)" s] True
      by (cases "pad_loop padding 0 (nat len) (length (chars s)) s") (auto simp: k_def)
    with True empty d show ?thesis by (simp add: chars_Nil)
  next
    case False
    let ?e = "take k (concat (replicate k (chars padding)))"
    have le: "length (chars s) \<le> nat len" using True by (simp add: k_def)
    have "list_all char_ok (chars s @ ?e)"
      using chars_back(2) [OF assms(1)] chars_back(2) [OF assms(2)]
      by (auto simp: list_all_iff dest!: in_set_takeD)
    then have "chars (collect_chars (chars s @ ?e)) = chars s @ ?e" by (rule chars_collect)
    then have ch: "chars (s @ collect_chars ?e) = chars s @ ?e"
      by (simp add: collect_chars_append chars_back [OF assms(1)])
    have "k \<le> length (concat (replicate k (chars padding)))"
      using False assms(2) by (simp add: length_concat sum_list_replicate Suc_leI chars_empty)
    then have "length (chars s @ ?e) = nat len" using le by (simp add: k_def)
    with pad_loop_ends [OF assms(2) False le, of s] d True False ch show ?thesis
      by (simp add: k_def [symmetric] Let_def)
  qed
qed

text \<open>
  C28. Padding with a string ends exactly when there is nothing to add or the padding is not empty: with an empty
  string the loop never adds a character and never ends. Where it ends, the padding is repeated and cut to the
  length asked for, and the limit on the length of strings is checked on the characters before and on the
  bytes after.
\<close>

theorem pad_ends:
  assumes "utf8 s" and "utf8 padding"
  shows "(let k = nat len - length (chars s);
      adds = (0 < len \<and> \<not> over_string_limit l (nat len) \<and> 0 < k);
      s' = s @ collect_chars (take k (concat (replicate k (chars padding)))) in
    (pad_with_string l s len padding = None \<longleftrightarrow> adds \<and> padding = []) \<and>
    (adds \<and> padding \<noteq> [] \<longrightarrow>
       pad_with_string l s len padding =
         Some (if over_string_limit l (length s') then Err Length_of_string else Ok (), s') \<and>
       length (chars s') = nat len))"
  using pad_with_string_ends [OF assms, where len = len and l = l] by (auto simp: Let_def)

theorem pad_ends_witness:
  "pad_with_string default_limits [104] 10 [] = None"
proof -
  have "utf8 [104]" "utf8 []" "length (chars [104]) = 1"
    by (simp_all add: chars.simps utf8_def valid_up_to.simps scalar_width_def scalar_lead_def)
  with pad_ends [where s = "[104]" and padding = "[]" and l = default_limits and len = 10] show ?thesis
    by (simp add: over_string_limit_def default_limits_def or_zero_def)
qed

section \<open>Searching bytes is searching characters\<close>

lemma encode_first:
  assumes "char_ok c"
  obtains b cs where "encode_utf8 c = b # cs" "list_all continuation cs"
proof -
  from utf8_first [OF scalar_width_encode [OF assms]] obtain b cs where
    "encode_utf8 c = b # cs @ drop (length (encode_utf8 c)) (encode_utf8 c)" "list_all continuation cs" by blast
  with that show thesis by simp
qed

lemma chars_append:
  assumes "utf8 s" "utf8 t"
  shows "chars (s @ t) = chars s @ chars t"
proof -
  have "list_all char_ok (chars s @ chars t)" using chars_back(2) assms by simp
  from chars_collect [OF this] show ?thesis by (simp add: collect_chars_append chars_back assms)
qed

lemma prefix_chars:
  assumes "utf8 p" "utf8 s"
  shows "prefix p s \<longleftrightarrow> prefix (chars p) (chars s)"
proof
  assume "prefix p s"
  then obtain r where r: "s = p @ r" by (auto simp: prefix_def)
  with assms have "utf8 r" using utf8_cancel by blast
  with r assms show "prefix (chars p) (chars s)" by (simp add: chars_append)
next
  assume "prefix (chars p) (chars s)"
  then obtain cs where "chars s = chars p @ cs" by (auto simp: prefix_def)
  then have "collect_chars (chars s) = collect_chars (chars p) @ collect_chars cs"
    by (simp add: collect_chars_append)
  with assms show "prefix p s" by (simp add: chars_back)
qed

lemma find_sub_continuations:
  assumes "list_all continuation cs" "p \<noteq> []" "\<not> continuation (p ! 0)"
  shows "find_sub p (cs @ s) = map_option ((+) (length cs)) (find_sub p s)"
  using assms(1)
proof (induction cs)
  case (Cons b cs)
  with assms(2,3) have "\<not> prefix p (b # cs @ s)" by (cases p) auto
  with Cons show ?case by (cases "find_sub p s") auto
qed (cases "find_sub p s", simp_all)

lemma find_sub_collect:
  assumes "utf8 p" "p \<noteq> []"
  shows "list_all char_ok cs \<Longrightarrow> find_sub p (collect_chars cs) =
    map_option (\<lambda>k. length (collect_chars (take k cs))) (find_sub (chars p) cs)"
proof (induction cs)
  case Nil
  with assms show ?case by (simp add: chars_empty)
next
  case (Cons c cs)
  have ok: "char_ok c" "list_all char_ok cs" using Cons.prems by simp_all
  have "prefix p (collect_chars (c # cs)) \<longleftrightarrow> prefix (chars p) (c # cs)"
    using prefix_chars [OF assms(1) utf8_collect [OF Cons.prems]] chars_collect [OF Cons.prems] by simp
  moreover from encode_first [OF ok(1)] obtain b bs where b: "encode_utf8 c = b # bs" "list_all continuation bs" .
  moreover have "\<not> continuation (p ! 0)"
    using assms by (auto simp: utf8_scalar dest: scalar_head)
  ultimately show ?case
    using Cons.IH [OF ok(2)] find_sub_continuations [OF b(2) assms(2), of "collect_chars cs"]
    by (auto simp: collect_chars_def option.map_comp comp_def)
qed

lemma find_sub_le: "find_sub p s = Some k \<Longrightarrow> k \<le> length s"
  by (induction p s arbitrary: k rule: find_sub.induct) (auto split: if_splits)

lemma find_sub_utf8:
  assumes "utf8 s" "utf8 p" "p \<noteq> []" "a \<le> length (chars s)"
  shows "find_sub p (drop (length (collect_chars (take a (chars s)))) s) =
    map_option (\<lambda>k. length (collect_chars (take k (drop a (chars s))))) (find_sub (chars p) (drop a (chars s)))"
proof -
  have "list_all char_ok (drop a (chars s))"
    using chars_back(2) [OF assms(1)] by (auto simp: list_all_iff dest: in_set_dropD)
  from find_sub_collect [OF assms(2,3) this] show ?thesis by (simp add: take_chars [OF assms(1)])
qed

lemma chars_before_at:
  assumes "utf8 s" "int (length (chars s)) \<le> type_max sys" "a + k \<le> length (chars s)"
  shows "chars_before sys s (length (collect_chars (take a (chars s))) +
    length (collect_chars (take k (drop a (chars s))))) = int (a + k)"
proof -
  have "length (collect_chars (take a (chars s))) + length (collect_chars (take k (drop a (chars s)))) =
      length (collect_chars (take (a + k) (chars s)))"
    by (simp add: take_add collect_chars_append)
  moreover have "list_all char_ok (take (a + k) (chars s))"
    using chars_back(2) [OF assms(1)] by (auto simp: list_all_iff dest: in_set_takeD)
  moreover have "fits sys (int (a + k))" using assms(2,3) by (cases sys) (simp_all add: fits_def type_min_def)
  ultimately show ?thesis
    using assms(3) by (simp add: chars_before_def take_chars [OF assms(1)] chars_collect Let_def)
qed

lemma start_byte_offset:
  "s \<noteq> [] \<Longrightarrow> utf8 s \<Longrightarrow> start_byte s i =
    (if int (length (chars s)) \<le> i then None
     else Some (length (collect_chars (take (offset_of (length (chars s)) i) (chars s)))))"
  using chars_empty [of s] by (auto simp: start_byte_def offset_of_def Let_def)

text \<open>
  C29. Looking for a character or a string in the bytes of a string finds what looking for it among the characters
  finds: the answer is the index, in characters, of the first place at or behind the start where the pattern
  begins, and -1 if there is none or the start lies past the end. A match never begins inside of a character.
\<close>

theorem text_search_exact:
  assumes "utf8 s" and "utf8 p" and "p \<noteq> []" and "int (length (chars s)) \<le> type_max sys"
  shows "(let cs = chars s; a = offset_of (length cs) i;
      found = (\<lambda>a. case find_sub (chars p) (drop a cs) of None \<Rightarrow> - 1 | Some k \<Rightarrow> int (a + k)) in
    index_of_string_starting_from sys s p i = (if int (length cs) \<le> i then - 1 else found a) \<and>
    str_index_of sys s p = found 0 \<and>
    (\<forall>c. char_ok c \<longrightarrow> p = encode_utf8 c \<longrightarrow>
       index_of_char_starting_from sys s c i = index_of_string_starting_from sys s p i \<and>
       index_of_char sys s c = str_index_of sys s p) \<and>
    str_contains s p = (find_sub (chars p) cs \<noteq> None) \<and> str_starts_with s p = prefix (chars p) cs)"
  unfolding Let_def
proof (intro conjI allI impI)
  let ?cs = "chars s" let ?a = "offset_of (length ?cs) i"
  have found: "(case find_sub p (drop (length (collect_chars (take a ?cs))) s) of None \<Rightarrow> - 1
      | Some index \<Rightarrow> chars_before sys s (length (collect_chars (take a ?cs)) + index)) =
    (case find_sub (chars p) (drop a ?cs) of None \<Rightarrow> - 1 | Some k \<Rightarrow> int (a + k))" if "a \<le> length ?cs" for a
    unfolding find_sub_utf8 [OF assms(1-3) that]
    using that chars_before_at [OF assms(1,4), of a] find_sub_le [of "chars p" "drop a ?cs"]
    by (cases "find_sub (chars p) (drop a ?cs)") auto
  show "index_of_string_starting_from sys s p i =
      (if int (length ?cs) \<le> i then - 1
       else case find_sub (chars p) (drop ?a ?cs) of None \<Rightarrow> - 1 | Some k \<Rightarrow> int (?a + k))"
  proof (cases "s = []")
    case True
    then show ?thesis
      using assms(2,3) by (simp add: index_of_string_starting_from_def chars_Nil chars_empty)
  next
    case False
    then show ?thesis
      using found [of ?a] by (simp add: index_of_string_starting_from_def start_byte_offset [OF False assms(1)])
  qed
  show "str_index_of sys s p = (case find_sub (chars p) (drop 0 ?cs) of None \<Rightarrow> - 1 | Some k \<Rightarrow> int (0 + k))"
    using found [of 0] assms(2,3) by (auto simp: str_index_of_def chars_Nil chars_empty cong: option.case_cong)
  show "str_contains s p = (find_sub (chars p) ?cs \<noteq> None)"
    using find_sub_utf8 [OF assms(1-3), of 0] by (simp add: str_contains_def)
  show "str_starts_with s p = prefix (chars p) ?cs"
    by (simp add: str_starts_with_def prefix_chars [OF assms(2,1)])
qed (simp_all add: index_of_char_starting_from_def index_of_string_starting_from_def index_of_char_def str_index_of_def)

theorem text_search_exact_witness:
  "index_of_char_starting_from I64 [0xc3, 0xa9, 97, 97] 97 (- 1) = 2"
proof -
  have e: "encode_utf8 97 = [97]" "char_ok 97" by (simp_all add: encode_utf8_def char_ok_def)
  have c: "chars [0xc3, 0xa9, 97, 97] = [0xe9, 97, 97]" "chars [97] = [97]"
    and u: "utf8 [0xc3, 0xa9, 97, 97]" "utf8 [97]"
    by (simp_all add: chars.simps utf8_def valid_up_to.simps scalar_width_def scalar_lead_def decode_scalar_def
        continuation_def)
  have l: "int (length (chars [0xc3, 0xa9, 97, 97])) \<le> type_max I64" by (simp add: c type_max_def)
  have ne: "[97 :: u8] \<noteq> []" by simp
  note T = text_search_exact [OF u ne l, of "- 1", unfolded Let_def]
  have "index_of_string_starting_from I64 [0xc3, 0xa9, 97, 97] [97] (- 1) = 2"
    using T [THEN conjunct1] by (simp add: c offset_of_def)
  moreover have "index_of_char_starting_from I64 [0xc3, 0xa9, 97, 97] 97 (- 1) =
      index_of_string_starting_from I64 [0xc3, 0xa9, 97, 97] [97] (- 1)"
    by (rule T [THEN conjunct2, THEN conjunct2, THEN conjunct1, THEN spec [of _ 97], THEN mp, OF e(2),
        THEN mp, OF e(1) [symmetric], THEN conjunct1])
  ultimately show ?thesis by simp
qed

end
