(* ===== verification/Text_Operators.thy ===== *)
theory Text_Operators
  imports Operators Texts
begin

text \<open>
  What the operators on strings and characters (\<open>src/func/builtin.rs\<close> over
  \<open>src/types/immutable_string.rs\<close>) mean for the characters: the source works on UTF-8 bytes, and compares a string with
  a character by the first two characters of each. They are shown to be the sum, the difference and the
  order of the sequences of characters.
\<close>

section \<open>The order of bytes is the order of characters\<close>

lemma less_bytes_lexord: "less_bytes s t \<longleftrightarrow> (s, t) \<in> lexord {(x, y). x < y}"
  by (induction s t rule: less_bytes.induct) auto

text \<open>The four forms of an encoded character, by the six-bit groups of its number.\<close>

lemma encode_cases:
  assumes "char_ok c"
  obtains
    (one) n where "n < 0x80" "unat c = n" "encode_utf8 c = [of_nat n]"
  | (two) a b where "2 \<le> a" "a < 32" "b < 64" "unat c = a * 64 + b"
      "encode_utf8 c = [of_nat (0xc0 + a), of_nat (0x80 + b)]"
  | (three) a b d where "a < 16" "b < 64" "d < 64" "0x800 \<le> unat c" "unat c = (a * 64 + b) * 64 + d"
      "encode_utf8 c = [of_nat (0xe0 + a), of_nat (0x80 + b), of_nat (0x80 + d)]"
  | (four) a b d e where "a < 5" "b < 64" "d < 64" "e < 64" "0x10000 \<le> unat c"
      "unat c = ((a * 64 + b) * 64 + d) * 64 + e"
      "encode_utf8 c = [of_nat (0xf0 + a), of_nat (0x80 + b), of_nat (0x80 + d), of_nat (0x80 + e)]"
proof -
  let ?n = "unat c"
  have n: "?n < 0x110000" using assms by (auto simp: char_ok_nat)
  note d = digits [of ?n]
  consider "?n < 0x80" | "0x80 \<le> ?n" "?n < 0x800" | "0x800 \<le> ?n" "?n < 0x10000" | "0x10000 \<le> ?n"
    by linarith
  then show thesis
  proof cases
    case 1
    then show thesis by (intro one [of ?n]) (simp_all add: encode_utf8_def)
  next
    case 2
    then have "2 \<le> ?n div 64" "?n div 64 < 32" by linarith+
    with 2 d(1) show thesis by (intro two [of "?n div 64" "?n mod 64"]) (simp_all add: encode_utf8_def Let_def)
  next
    case 3
    then have "?n div 4096 < 16" by linarith
    with 3 d(1,2) show thesis
      by (intro three [of "?n div 4096" "?n div 64 mod 64" "?n mod 64"]) (simp_all add: encode_utf8_def Let_def)
  next
    case 4
    with n have "?n div 262144 < 5" by linarith
    with 4 d show thesis
      by (intro four [of "?n div 262144" "?n div 4096 mod 64" "?n div 64 mod 64" "?n mod 64"])
        (simp_all add: encode_utf8_def Let_def)
  qed
qed

lemma byte_nat:
  assumes "m < 256" "n < 256"
  shows "(of_nat m :: u8) < of_nat n \<longleftrightarrow> m < n" "(of_nat m :: u8) = of_nat n \<longleftrightarrow> m = n"
  using assms by (simp add: word_less_nat_alt unat_of_nat8) (metis assms unat_of_nat8)

lemma less_encode:
  assumes "char_ok c" "char_ok d" "c < d"
  shows "less_bytes (encode_utf8 c @ s) (encode_utf8 d @ t)"
proof -
  have lt: "unat c < unat d" using assms(3) by (simp add: word_less_nat_alt)
  show ?thesis
    by (rule encode_cases [OF assms(1)]; rule encode_cases [OF assms(2)])
      (use lt in \<open>simp_all add: byte_nat del: of_nat_add of_nat_numeral\<close>; linarith)+
qed


lemma less_bytes_same: "less_bytes (x @ s) (x @ t) \<longleftrightarrow> less_bytes s t"
  by (induction x) simp_all

lemma collect_Cons: "collect_chars (c # cs) = encode_utf8 c @ collect_chars cs"
  by (simp add: collect_chars_def)

lemma less_collect:
  "list_all char_ok a \<Longrightarrow> list_all char_ok b \<Longrightarrow>
     less_bytes (collect_chars a) (collect_chars b) \<longleftrightarrow> less_bytes a b"
proof (induction a b rule: less_bytes.induct)
  case (1 a)
  then show ?case by simp
next
  case (2 c cs)
  then have "collect_chars (c # cs) \<noteq> []"
    by (auto simp: collect_Cons elim: encode_first [of c])
  then show ?case by (cases "collect_chars (c # cs)") simp_all
next
  case (3 c s d t)
  then have ok: "char_ok c" "char_ok d" "list_all char_ok s" "list_all char_ok t" by simp_all
  consider "c < d" | "c = d" | "d < c" by fastforce
  then show ?case
  proof cases
    case 1
    with less_encode [OF ok(1,2)] show ?thesis by (simp add: collect_Cons)
  next
    case 2
    with "3.IH" ok show ?thesis by (simp add: collect_Cons less_bytes_same)
  next
    case 3
    with less_encode [OF ok(2,1)] have "\<not> less_bytes (collect_chars (c # s)) (collect_chars (d # t))"
      unfolding collect_Cons by (intro less_bytes_asym) blast
    with 3 show ?thesis by auto
  qed
qed

section \<open>Taking out matches\<close>

text \<open>The matches of a sequence in another, from the left, none of which overlap, taken out.\<close>

function without :: "'a list \<Rightarrow> 'a list \<Rightarrow> 'a list" where
  "without p [] = []"
| "without p (x # xs) =
     (if p \<noteq> [] \<and> prefix p (x # xs) then without p (drop (length p) (x # xs)) else x # without p xs)"
  by pat_completeness auto
termination
  by (relation "measure (length \<circ> snd)") auto

declare without.simps(2) [simp del]

lemma without_one: "without [c] cs = filter (\<lambda>d. d \<noteq> c) cs"
  by (induction cs) (auto simp: without.simps)

lemma match_out:
  "p \<noteq> [] \<Longrightarrow> without p (p @ xs) = without p xs"
  "q \<noteq> [] \<Longrightarrow> remove_all q (q @ s) = remove_all q s"
  by (cases p; simp add: without.simps(2)) (cases q; simp add: remove_all.simps(2))

lemma remove_all_collect:
  assumes "utf8 p" "p \<noteq> []"
  shows "list_all char_ok cs \<Longrightarrow> remove_all p (collect_chars cs) = collect_chars (without (chars p) cs)"
proof (induction "length cs" arbitrary: cs rule: less_induct)
  case less
  show ?case
  proof (cases cs)
    case Nil
    then show ?thesis by simp
  next
    case (Cons c cs')
    have ok: "char_ok c" "list_all char_ok cs'" using less.prems Cons by simp_all
    obtain b bs where b: "encode_utf8 c = b # bs" "list_all continuation bs" by (rule encode_first [OF ok(1)])
    have p: "chars p \<noteq> []" "\<not> continuation (p ! 0)"
      using assms chars_empty by (auto simp: utf8_scalar dest: scalar_head)
    have pre: "prefix p (collect_chars cs) \<longleftrightarrow> prefix (chars p) cs"
      using prefix_chars [OF assms(1) utf8_collect [OF less.prems]] chars_collect [OF less.prems] by simp
    show ?thesis
    proof (cases "prefix (chars p) cs")
      case True
      then obtain rest where rest: "cs = chars p @ rest" by (auto simp: prefix_def)
      then have "collect_chars cs = p @ collect_chars rest"
        using assms(1) by (simp add: collect_chars_append chars_back)
      moreover have "length rest < length cs" "list_all char_ok rest"
        using rest p(1) less.prems by (simp_all add: list_all_append)
      ultimately show ?thesis
        using less.hyps [of rest] p(1) rest assms(2) by (simp add: match_out)
    next
      case False
      with pre have "\<not> prefix p (b # bs @ collect_chars cs')" using Cons b(1) by (simp add: collect_Cons)
      then have "remove_all p (collect_chars cs) = encode_utf8 c @ remove_all p (collect_chars cs')"
        using Cons b remove_all_continuations [OF b(2) assms(2) p(2)]
        by (simp add: collect_Cons remove_all.simps(2))
      with less.hyps [of cs'] False ok(2) Cons show ?thesis
        by (simp add: without.simps(2) collect_Cons)
    qed
  qed
qed

section \<open>Operators on text\<close>

text \<open>The characters of an operand that is text: a string in UTF-8 or a character.\<close>

definition text_of :: "dynamic \<Rightarrow> u32 list option" where
  "text_of v = (case v of
       DString s \<Rightarrow> if utf8 s then Some (chars s) else None
     | DChar c \<Rightarrow> if char_ok c then Some [c] else None
     | _ \<Rightarrow> None)"

definition joined :: "engine \<Rightarrow> u32 list \<Rightarrow> op_error + dynamic" where
  "joined e cs = sized e (0, 0, length (collect_chars cs)) (DString (collect_chars cs))"

text \<open>What \<open>-\<close> answers: a character has no difference, and the empty string less another is the other.\<close>

definition difference :: "dynamic \<Rightarrow> dynamic \<Rightarrow> u32 list \<Rightarrow> u32 list \<Rightarrow> (op_error + dynamic) option" where
  "difference x y a b = (case (x, y) of
       (DString _, DString _) \<Rightarrow> Some (Ok (DString (collect_chars (if a = [] then b else without b a))))
     | (DString _, DChar c) \<Rightarrow> Some (Ok (DString (collect_chars (filter (\<lambda>d. d \<noteq> c) a))))
     | _ \<Rightarrow> None)"

lemma without_Nil: "without [] cs = cs"
  by (induction cs) (simp_all add: without.simps)

lemma text_of_collect: "text_of x = Some a \<Longrightarrow> list_all char_ok a"
  by (auto simp: text_of_def chars_back split: dynamic.splits if_splits)

lemma sub_string_chars:
  assumes "utf8 s" "utf8 t"
  shows "sub_string s t = collect_chars (if chars s = [] then chars t else without (chars t) (chars s))"
  using assms remove_all_collect [of t "chars s"]
  by (auto simp: sub_string_def chars_back chars_empty chars_Nil without_Nil)

lemma sub_char_chars:
  assumes "utf8 s" "char_ok c"
  shows "sub_char s c = collect_chars (filter (\<lambda>d. d \<noteq> c) (chars s))"
proof -
  have "chars (encode_utf8 c) = [c]" using chars_encode [OF assms(2), of "[]"] by (simp add: chars_Nil)
  moreover obtain b bs where "encode_utf8 c = b # bs" "list_all continuation bs"
    by (rule encode_first [OF assms(2)])
  ultimately show ?thesis
    using remove_all_collect [OF utf8_encode [OF assms(2)], of "chars s"] assms(1)
    by (simp add: sub_char_def chars_back without_one)
qed

text \<open>Two characters of each side decide a comparison with a character.\<close>

lemma first_two_order:
  "[get_at cs 0, get_at cs 1] = [Some c, None] \<longleftrightarrow> cs = [c]"
  "[Some c, None] = [get_at cs 0, get_at cs 1] \<longleftrightarrow> [c] = cs"
  "less_bytes [get_at cs 0, get_at cs 1] [Some c, None] \<longleftrightarrow> less_bytes cs [c]"
  "less_bytes [Some c, None] [get_at cs 0, get_at cs 1] \<longleftrightarrow> less_bytes [c] cs"
  by (cases cs; cases "tl cs"; auto simp: get_at_def)+

lemma comparison_text:
  "comparison op (s = t) (less_bytes s t) = comparison op (chars s = chars t) ((chars s, chars t) \<in> lexord {(c, d). c < d})"
  if "utf8 s" "utf8 t"
proof -
  have "s = t \<longleftrightarrow> chars s = chars t" using that by (metis chars_back(1))
  moreover have "less_bytes s t \<longleftrightarrow> less_bytes (chars s) (chars t)"
    using less_collect [of "chars s" "chars t"] that by (simp add: chars_back)
  ultimately show ?thesis by (simp add: less_bytes_lexord)
qed

text \<open>The arms of the tables, for the operators that are not comparisons and for those.\<close>

definition sums :: "token set" where
  "sums = {Opr TPlus, Opr TMinus}"

lemma string_arm_exact:
  assumes "utf8 s" "utf8 t"
  shows "string_arm e (Opr TPlus) s t = Some (joined e (chars s @ chars t))"
    and "string_arm e (Opr TMinus) s t = difference (DString s) (DString t) (chars s) (chars t)"
    and "op \<notin> sums \<Longrightarrow> string_arm e op s t =
      answer (comparison op (chars s = chars t) ((chars s, chars t) \<in> lexord {(c, d). c < d}))"
  using assms comparison_text [OF assms]
  by (auto simp: string_arm_def joined_def difference_def sub_string_chars collect_chars_append chars_back sums_def
      split: token.split operator.split)

lemma string_char_arm_exact:
  assumes "utf8 s" "char_ok c"
  shows "string_char_arm e (Opr TPlus) s c = Some (joined e (chars s @ [c]))"
    and "string_char_arm e (Opr TMinus) s c = difference (DString s) (DChar c) (chars s) [c]"
    and "op \<notin> sums \<Longrightarrow> string_char_arm e op s c =
      answer (comparison op (chars s = [c]) ((chars s, [c]) \<in> lexord {(c, d). c < d}))"
  using assms first_two_order [where cs = "chars s" and c = c]
  by (auto simp: string_char_arm_def joined_def difference_def sub_char_chars collect_chars_append chars_back
      add_char_def collect_Cons first_two_def less_bytes_lexord sums_def Let_def split: token.split operator.split)

lemma no_difference [simp]: "comparison (Opr TMinus) eq lt = None" "answer None = None"
  by (simp_all add: comparison_def answer_def)

lemma char_string_arm_exact:
  assumes "char_ok c" "utf8 t"
  shows "char_string_arm e (Opr TPlus) c t = Some (joined e ([c] @ chars t))"
    and "char_string_arm e (Opr TMinus) c t = difference (DChar c) (DString t) [c] (chars t)"
    and "op \<notin> sums \<Longrightarrow> char_string_arm e op c t =
      answer (comparison op ([c] = chars t) (([c], chars t) \<in> lexord {(c, d). c < d}))"
proof -
  show "char_string_arm e (Opr TPlus) c t = Some (joined e ([c] @ chars t))"
    using assms by (simp add: char_string_arm_def joined_def collect_Cons chars_back Let_def)
  show "char_string_arm e (Opr TMinus) c t = difference (DChar c) (DString t) [c] (chars t)"
    by (simp add: char_string_arm_def difference_def Let_def)
  have "char_string_arm e op c t = answer (comparison op ([Some c, None] = first_two t)
      (less_bytes [Some c, None] (first_two t)))" if "op \<notin> sums"
    using that by (simp add: char_string_arm_def sums_def Let_def split: token.split operator.split)
  then show "op \<notin> sums \<Longrightarrow> char_string_arm e op c t =
      answer (comparison op ([c] = chars t) (([c], chars t) \<in> lexord {(c, d). c < d}))"
    unfolding first_two_def first_two_order less_bytes_lexord [symmetric] .
qed

lemma char_arm_exact:
  "char_arm e (Opr TPlus) c d = Some (joined e ([c] @ [d]))"
  "char_arm e (Opr TMinus) c d = difference (DChar c) (DChar d) [c] [d]"
  "op \<notin> sums \<Longrightarrow> char_arm e op c d =
      answer (comparison op ([c] = [d]) (([c], [d]) \<in> lexord {(c, d). c < d}))"
  by (simp_all add: char_arm_def joined_def difference_def collect_Cons sums_def Let_def
      split: token.split operator.split)

text \<open>
  C19. The built-in operators on strings and characters are operators on sequences of characters, of
  which a character is one of length one. \<open>+\<close> joins them, within the limit on the bytes of a
  string; \<open>-\<close> takes the matches of the right side out of the left from left to right, but for the empty
  string, less which the right side is the answer; a character on the right is filtered out, and a
  character on the left has no difference. The comparisons are equality and the order of the
  sequences by code points, a prefix first, although the source compares bytes, and two characters at
  most when one side is a character. No other operator is built in. On a variable that holds a
  string, \<open>-=\<close> stores the difference; \<open>+=\<close> stores the sum, and does not look at the limit where two
  strings are joined of which one is empty.
\<close>

theorem text_operators_exact:
  assumes "text_of x = Some a" and "text_of y = Some b"
  shows "builtin_binary e op x y = (case op of
      Opr TPlus \<Rightarrow> Some (joined e (a @ b))
    | Opr TMinus \<Rightarrow> difference x y a b
    | _ \<Rightarrow> answer (comparison op (a = b) ((a, b) \<in> lexord {(c, d). c < d}))) \<and>
    (held c = x \<longrightarrow> Operators.type_id x = StringT \<longrightarrow>
      builtin_assign e (Asg TMinusAssign) c y = map_option (store_result c) (difference x y a b) \<and>
      builtin_assign e (Asg TPlusAssign) c y = Some (store_result c
        (if Operators.type_id y = StringT \<and> (a = [] \<or> b = []) then Ok (DString (collect_chars (a @ b)))
         else joined e (a @ b))))"
proof (intro conjI impI)
  have arms: "builtin_binary e (Opr TPlus) x y = Some (joined e (a @ b))"
    "builtin_binary e (Opr TMinus) x y = difference x y a b"
    "op \<notin> sums \<Longrightarrow> builtin_binary e op x y = answer (comparison op (a = b) ((a, b) \<in> lexord {(c, d). c < d}))"
    using assms
    by (auto simp: text_of_def builtin_binary_def string_arm_exact string_char_arm_exact char_string_arm_exact
        char_arm_exact split: dynamic.splits if_splits)
  show "builtin_binary e op x y = (case op of
      Opr TPlus \<Rightarrow> Some (joined e (a @ b))
    | Opr TMinus \<Rightarrow> difference x y a b
    | _ \<Rightarrow> answer (comparison op (a = b) ((a, b) \<in> lexord {(c, d). c < d})))"
    using arms by (auto simp: sums_def split: token.split operator.split)
next
  assume c: "held c = x" "Operators.type_id x = StringT"
  then obtain s where s: "x = DString s" "utf8 s" "a = chars s"
    using assms(1) by (auto simp: text_of_def split: dynamic.splits if_splits)
  show "builtin_assign e (Asg TMinusAssign) c y = map_option (store_result c) (difference x y a b)"
    using assms(2) s c(1) string_arm_exact(2) string_char_arm_exact(2)
    by (auto simp: text_of_def builtin_assign_def string_assign_arm_def string_char_assign_arm_def difference_def
        sub_string_chars sub_char_chars split: dynamic.splits if_splits)
  show "builtin_assign e (Asg TPlusAssign) c y = Some (store_result c
        (if Operators.type_id y = StringT \<and> (a = [] \<or> b = []) then Ok (DString (collect_chars (a @ b)))
         else joined e (a @ b)))"
    using assms(2) s c(1)
    by (auto simp: text_of_def builtin_assign_def string_assign_arm_def string_char_assign_arm_def joined_def
        collect_chars_append chars_back chars_empty collect_Cons sized_def Let_def split: dynamic.splits if_splits)
qed

theorem text_operators_exact_witness:
  "builtin_binary sample_engine (Opr TMinus) (DString [97, 0xc3, 0xa9, 98]) (DString [0xc3, 0xa9]) =
     Some (Ok (DString [97, 98])) \<and>
   builtin_binary sample_engine (Opr TLessThan) (DString [97, 0xc3, 0xa9, 98]) (DChar 98) = Some (Ok (DBool True))"
proof -
  have e: "encode_utf8 233 = [0xc3, 0xa9]" "encode_utf8 97 = [97]" "encode_utf8 98 = [98]"
    by (simp_all add: encode_utf8_def)
  have ok: "char_ok 233" "char_ok 97" "char_ok 98" by (simp_all add: char_ok_def)
  have c: "collect_chars [97, 233, 98] = [97, 0xc3, 0xa9, 98]" "collect_chars [233] = [0xc3, 0xa9]"
    by (simp_all add: collect_chars_def e)
  have t: "text_of (DString [97, 0xc3, 0xa9, 98]) = Some [97, 233, 98]" "text_of (DString [0xc3, 0xa9]) = Some [233]"
    "text_of (DChar 98) = Some [98]"
    using utf8_collect [of "[97, 233, 98]"] chars_collect [of "[97, 233, 98]"]
      utf8_collect [of "[233]"] chars_collect [of "[233]"] c ok by (simp_all add: text_of_def)
  show ?thesis
    using text_operators_exact [OF t(1,2), of sample_engine "Opr TMinus"]
      text_operators_exact [OF t(1,3), of sample_engine "Opr TLessThan"]
    by (simp add: difference_def without_one collect_chars_def e comparison_def answer_def)
qed

end
