(* ===== verification/Spec2Isabelle.thy ===== *)
theory Spec2Isabelle
  imports Varint Pos_Table Position Ops Tags Assemble Decode Chains Switches Range_Split Caps
    Effects Verify Frame Machine Soundness Verifier_Gaps Tokens Names Positions Wire Constants Sections
    Program Stripping Artifact Int_Ops Limits Handlers Try_Soundness Operators Indexing Bit_Fields Scopes Arrays Blobs Texts Text_Operators
begin

text \<open>
  Rhai is a scripting language embedded in Rust programs. A script is tokenized, parsed and optimized
  into a tree, and the tree is walked; Grain (\<open>src/grain\<close>) is its second back end: the tree is
  lowered to the instructions of one code buffer, the compiled program can be written to an artifact
  and read on another machine, and a stack machine runs it after a verifier has looked at every chunk.
  Code read from an artifact is not trusted, so what the machine does with its operands rests on
  the verifier alone. That trust, the formats it crosses and the values the machine computes with
  are what these theories are about.

  \<^bold>\<open>How the parts interact.\<close> The assembler lays out instructions (\<open>Assemble\<close>), with the targets of jumps
  resolved to addresses. A program (\<open>Program\<close>) holds the code with its pools: constants, names,
  chains, switches, positions, functions. The writer (\<open>Artifact\<close>, \<open>Sections\<close>, \<open>Constants\<close>, \<open>Wire\<close>,
  \<open>Varint\<close>) turns it into bytes, with or without the diagnostics (\<open>Stripping\<close>); the reader takes the bytes
  apart, checks the header (\<open>Caps\<close>), the names (\<open>Names\<close>) and the positions (\<open>Positions\<close>, \<open>Pos_Table\<close>), and
  hands the program to the verifier (\<open>Effects\<close>, \<open>Verify\<close>), which decodes (\<open>Decode\<close>) and scans the code and
  walks each chunk with an abstract stack. The machine (\<open>Frame\<close>, \<open>Machine\<close>, \<open>Handlers\<close>) then runs it over
  an operand array whose size the verifier measured, dispatching switches (\<open>Switches\<close>), applying
  operators (\<open>Operators\<close>, \<open>Int_Ops\<close>), indexing values (\<open>Indexing\<close>), and counting operations against the limits of
  the engine (\<open>Limits\<close>).

  \<^bold>\<open>Correspondence.\<close> Names are those of the source, or stand beside it in the text before a definition. A struct is a record or a
  one-constructor datatype, an enum a datatype with its constructors, \<open>Result\<close> a sum with \<open>Err\<close> and
  \<open>Ok\<close> for its sides, a panic \<open>None\<close> of an option. A \<open>u8\<close> to \<open>u64\<close> of a format is a word; \<open>usize\<close> is
  a natural number, with the bound written out where the source checks it; the script type \<open>INT\<close> is
  an integer within the range of an \<open>int_type\<close>, \<open>I64\<close> or under the feature \<open>only_i32\<close> \<open>I32\<close>. The theories, with
  the files under \<open>src\<close>:

  \<^item> \<open>Prelude\<close>: results and their bind, the collections of automation, and the interfaces of the wire:
    the locale \<open>codec\<close> (a reader that undoes a writer, whatever follows) with its sections and pairs,
    and \<open>bounded_reader\<close> (a reader that advances within its input). Every reader and writer of the
    artifact is an interpretation of \<open>codec\<close>, so a round trip of a section is one of its parts.
  \<^item> \<open>Varint\<close> (\<open>grain/pos/varint.rs\<close>), \<open>Pos_Table\<close> (\<open>grain/pos/mod.rs\<close>), \<open>Position\<close> (\<open>types/position.rs\<close>),
    \<open>Positions\<close> (\<open>grain/bytecode/positions.rs\<close>, \<open>sites.rs\<close>): numbers and diagnostics.
  \<^item> \<open>Ops\<close> (\<open>grain/bytecode/op.rs\<close>), \<open>Tags\<close>, \<open>Assemble\<close>, \<open>Decode\<close> (\<open>code.rs\<close>): instructions, their tags, widths
    and bytes.
  \<^item> \<open>Chains\<close> (\<open>chain.rs\<close>), \<open>Switches\<close>, \<open>Range_Split\<close> (\<open>switch.rs\<close>, \<open>grain/compile/cases.rs\<close>), \<open>Names\<close>
    (\<open>strings.rs\<close>), \<open>Caps\<close> (\<open>grain/format/abi.rs\<close>): the pools.
  \<^item> \<open>Effects\<close>, \<open>Verify\<close> (\<open>verify.rs\<close>, \<open>chunk.rs\<close>): the verifier; \<open>Frame\<close>, \<open>Machine\<close>, \<open>Handlers\<close> (\<open>grain/vm/mod.rs\<close>):
    the machine; \<open>Soundness\<close>, \<open>Try_Soundness\<close>, \<open>Verifier_Gaps\<close>: what the first gives the second.
  \<^item> \<open>Wire\<close>, \<open>Constants\<close>, \<open>Sections\<close>, \<open>Artifact\<close> (\<open>grain/format/*.rs\<close>), \<open>Program\<close>, \<open>Stripping\<close> (\<open>grain/program.rs\<close>).
  \<^item> \<open>Tokens\<close> (\<open>tokenizer.rs\<close>): tokens, the perfect hashes of keywords and reserved words, precedences.
  \<^item> \<open>Limits\<close> (\<open>api/limits.rs\<close>, \<open>eval/data_check.rs\<close>), \<open>Int_Ops\<close> (\<open>packages/arithmetic.rs\<close>), \<open>Immutable_Strings\<close>
    (\<open>types/immutable_string.rs\<close>), \<open>Operators\<close> (\<open>func/builtin.rs\<close>, \<open>grain/vm/arith.rs\<close>, the fast arms of
    \<open>grain/vm/mod.rs\<close>), \<open>Indexing\<close> (\<open>eval/chaining.rs\<close>, \<open>eval/target.rs\<close>), \<open>Bit_Fields\<close>
    (\<open>packages/bit_field.rs\<close>, \<open>packages/iter_basic.rs\<close>), \<open>Arrays\<close> (\<open>packages/array_basic.rs\<close>),
    \<open>Blobs\<close> (\<open>packages/blob_basic.rs\<close>), \<open>Texts\<close> (\<open>packages/string_more.rs\<close>),
    \<open>Text_Operators\<close> (the text arms of \<open>func/builtin.rs\<close> against characters),
    \<open>Scopes\<close> (\<open>types/scope.rs\<close>): the values of scripts and the variables that hold them.
\<close>

section \<open>What is shown\<close>

text \<open>
  \<^item> The format: a written artifact reads back as its program, stripping and attaching diagnostics
    are inverse, the writer succeeds exactly when every constant and every name can be encoded (a resolver of
    modules it leaves out without a word, and constants nested deeper than the reader admits it writes), and a
    header of another build is refused. Below it every codec round trip, and for the position table that
    looking up an address in the bytes is looking it up in the entries.
  \<^item> The code: assembly is undone by disassembly and fails only for the reasons it names; the
    switch index answers like a linear scan of the cases; split range arms pick the arms of the source.
  \<^item> The verifier: its scan flags exactly the boundaries of instructions; the walk of a chunk
    accepts exactly the chunks for which some assignment of stack states to addresses is consistent,
    and measures the least height, so it neither refuses nor accepts by the order of its work list.
  \<^item> The machine: on a verified program, in the fragment that \<open>Soundness\<close> delimits (chunks entered at a boundary, without
    iterators, \<open>PushHandler\<close> and \<open>Rotate 0\<close>, whose index chains have the shape the compiler gives them), no step underflows
    the operands, leaves the slots reserved or the boundaries of the chunk; the one panic left is the taking
    of a slot already emptied, in a chunk that has a floor. Outside of it,
    \<open>Verifier_Gaps\<close> runs concrete chunks that verify and yet underflow or overrun; \<open>Try_Soundness\<close> states what \<open>try\<close> needs.
    The simulation is an invariant of the step relation, proved once in the locale \<open>step_invariant\<close> and used
    for both machines.
  \<^item> Termination: under a limit on operations every run ends, in at most one pass of the code more than the limit.
  \<^item> The values: integer functions answer the number of arithmetic when their type holds it and the error they
    name otherwise, shifts are exact, the fast
    paths of the machine answer what the tree walker and the tables of built-ins answer, the built-in
    operators on text, which work on bytes, are the operators on sequences of characters, and a write through an index is what the next read answers
    (the locale \<open>indexed\<close>, interpreted on arrays, maps and bits). The bit-field functions read and write
    exactly the bits asked for. The functions of arrays are given by positions and portions, and those that
    call a function on every item agree on one run of the calls; sorting without a comparer is stable in either direction, and refuses arrays of several types
    and of a type that has no order. A number written into a
    BLOB is read back as far as it has room, a search of the bytes of a string is a search of its characters,
    and padding a string ends exactly when the padding is not empty. A scope, kept as three arrays, is a stack of entries whose access mode reaches the values nested in
    arrays and maps, and a block
    (the locale \<open>block_scope\<close>) leaves the variables it found.

  The theorems that carry a number in the text before them are the main ones; the others are the
  lemmas they rest on.

  \<^bold>\<open>Bounds and fuel.\<close> Loops of the source are structural recursions over what is left to read, or
  functions with a measure: the scan by the bytes left, the verifier's work list by the addresses not
  yet visited and then by its length, the bytes of a LEB128 number by its shift. The probe of a switch index, which
  nothing in the source bounds, runs on fuel; a capacity's worth is shown to be enough, as the
  index is never full. A run of the machine is a sequence of steps of an inductive relation, and \<open>metered_run_ends\<close>
  bounds its length. The reader admits constants nested 64 deep, as in the source.

  \<^bold>\<open>Assumptions.\<close> The build checks arithmetic (no feature \<open>unchecked\<close>); \<open>usize\<close> has 64 bits; allocation does not
  fail. The features that change a format or a table (\<open>no_float\<close>, \<open>decimal\<close>, \<open>no_module\<close> and the
  others) are a record of flags. Floating-point numbers and decimals are bit patterns, and their
  arithmetic is a parameter of the definitions that use it. The hash of a script value, the callbacks of a host, and the
  values the open arms of the machine push are parameters too.
\<close>

section \<open>Not modelled\<close>

text \<open>
  The character scanner, the parser, the syntax tree and the optimizer; the lowering of the tree to
  instructions, which would need the tree's evaluator to be stated against; the tree walker's statements;
  calls and their resolution, modules and their resolvers, whose tables hold trait objects of the
  host; shared cells and custom types of \<open>Dynamic\<close>; floating-point, formatting, time and the
  packages of functions not named above; the tracing compiler, which drives an external crate; the
  serialization traits of an external crate; the debugger and the programs around the library, which are
  input and output. Of the machine, the scopes, the caches, the fault record and calls back into native
  functions are left open: an arm that calls out may push any value or raise any error, and
  the theorems hold for all of them.
\<close>

end
